(* ===== verification/BC_Prelude.thy ===== *)
theory BC_Prelude
  imports Main "HOL-Library.Word"
begin

text \<open>
  Shared prelude of the BlueCaster development: the machine integer types of the Rust code
  (\<open>u8\<close> to \<open>u64\<close> as words, \<open>usize\<close> as \<open>nat\<close>), the byte order helpers of
  \<^verbatim>\<open>to_le_bytes\<close> / \<^verbatim>\<open>from_le_bytes\<close>, the slice helpers the code uses
  (\<^verbatim>\<open>get(i).copied().unwrap_or(0)\<close>, \<^verbatim>\<open>resize\<close>, \<^verbatim>\<open>min\<close>, \<^verbatim>\<open>clamp\<close>,
  \<^verbatim>\<open>eq_ignore_ascii_case\<close>, decimal formatting), the generic lemmas the components share,
  and the interface of a state machine with an invariant (\<open>inv_machine\<close>), which the stateful
  components interpret. The interface of a framed byte stream is in \<open>Hci_Reassembly\<close>.
\<close>

unbundle bit_operations_syntax

type_synonym u8 = "8 word"
type_synonym u16 = "16 word"
type_synonym u32 = "32 word"
type_synonym u64 = "64 word"
type_synonym usize = nat
type_synonym bytes = "u8 list"

named_theorems bytes_simps "sizes and round trips of the byte level helpers"
named_theorems caps_consts "the constants of the codec capabilities"
named_theorems call_simps "definitions of the call model operations"

subsection \<open>Byte order\<close>

definition le16_bytes :: "u16 \<Rightarrow> bytes" where
  "le16_bytes w = [ucast w, ucast (drop_bit 8 w)]"

definition le32_bytes :: "u32 \<Rightarrow> bytes" where
  "le32_bytes w = [ucast w, ucast (drop_bit 8 w), ucast (drop_bit 16 w), ucast (drop_bit 24 w)]"

definition of_le16 :: "u8 \<Rightarrow> u8 \<Rightarrow> u16" where
  "of_le16 a b = ucast a OR push_bit 8 (ucast b)"

definition of_le32 :: "u8 \<Rightarrow> u8 \<Rightarrow> u8 \<Rightarrow> u8 \<Rightarrow> u32" where
  "of_le32 a b c d =
     ucast a OR push_bit 8 (ucast b) OR push_bit 16 (ucast c) OR push_bit 24 (ucast d)"

subsection \<open>Slices, numbers, strings\<close>

definition byte_or0 :: "bytes \<Rightarrow> nat \<Rightarrow> u8" where
  "byte_or0 xs i = (if i < length xs then xs ! i else 0)"

definition resize0 :: "bytes \<Rightarrow> nat \<Rightarrow> bytes" where
  "resize0 xs n = take n xs @ replicate (n - length xs) 0"

definition subslice :: "'a list \<Rightarrow> nat \<Rightarrow> nat \<Rightarrow> 'a list" where
  "subslice xs a b = take (b - a) (drop a xs)"

definition bit_set :: "'a::len word \<Rightarrow> 'a word \<Rightarrow> bool" where
  "bit_set x m \<longleftrightarrow> x AND m \<noteq> 0"

definition clamp_word :: "'a::len word \<Rightarrow> 'a word \<Rightarrow> 'a word \<Rightarrow> 'a word" where
  "clamp_word x lo hi = (if x < lo then lo else if hi < x then hi else x)"

definition saturating_add :: "'a::len word \<Rightarrow> 'a word \<Rightarrow> 'a word" where
  "saturating_add x y = (if unat x + unat y < 2 ^ LENGTH('a) then x + y else - 1)"

definition saturating_sub :: "'a::len word \<Rightarrow> 'a word \<Rightarrow> 'a word" where
  "saturating_sub x y = (if x < y then 0 else x - y)"

definition ascii_lower :: "char \<Rightarrow> char" where
  "ascii_lower c = (let n = (of_char c :: nat) in if 65 \<le> n \<and> n \<le> 90 then char_of (n + 32) else c)"

definition eq_ignore_ascii_case :: "string \<Rightarrow> string \<Rightarrow> bool" where
  "eq_ignore_ascii_case a b \<longleftrightarrow> map ascii_lower a = map ascii_lower b"

fun show_nat :: "nat \<Rightarrow> string" where
  "show_nat n = (if n < 10 then [char_of (48 + n)] else show_nat (n div 10) @ [char_of (48 + n mod 10)])"

declare show_nat.simps [simp del]

fun join_with :: "string \<Rightarrow> string list \<Rightarrow> string" where
  "join_with sep [] = []"
| "join_with sep [s] = s"
| "join_with sep (s # t # rest) = s @ sep @ join_with sep (t # rest)"

subsection \<open>Generic lemmas\<close>

lemma of_le16_le16_bytes [bytes_simps, simp]:
  "of_le16 (ucast w) (ucast (drop_bit 8 w)) = w"
  by (rule bit_word_eqI) (auto simp: of_le16_def bit_simps)

lemma of_le32_le32_bytes [bytes_simps, simp]:
  "of_le32 (ucast w) (ucast (drop_bit 8 w)) (ucast (drop_bit 16 w)) (ucast (drop_bit 24 w)) = w"
proof (rule bit_word_eqI)
  fix n
  assume "n < LENGTH(32)"
  then consider "n < 8" | "8 \<le> n" "n < 16" | "16 \<le> n" "n < 24" | "24 \<le> n" "n < 32" by fastforce
  then show "bit (of_le32 (ucast w) (ucast (drop_bit 8 w)) (ucast (drop_bit 16 w)) (ucast (drop_bit 24 w))) n = bit w n"
    by cases (auto simp: of_le32_def bit_simps)
qed

lemma length_le16_bytes [bytes_simps, simp]: "length (le16_bytes w) = 2"
  by (simp add: le16_bytes_def)

lemma length_le32_bytes [bytes_simps, simp]: "length (le32_bytes w) = 4"
  by (simp add: le32_bytes_def)

lemma length_resize0 [bytes_simps, simp]: "length (resize0 xs n) = n"
  by (simp add: resize0_def)

lemma resize0_self [bytes_simps]: "length xs = n \<Longrightarrow> resize0 xs n = xs"
  by (simp add: resize0_def)

lemma byte_or0_append [bytes_simps]:
  "byte_or0 (xs @ ys) i = (if i < length xs then xs ! i else byte_or0 ys (i - length xs))"
  by (auto simp: byte_or0_def nth_append)

lemma byte_or0_nth [simp]: "i < length xs \<Longrightarrow> byte_or0 xs i = xs ! i"
  by (simp add: byte_or0_def)

lemma length_subslice [simp]: "b \<le> length xs \<Longrightarrow> length (subslice xs a b) = b - a"
  by (auto simp: subslice_def)

lemma clamp_word_bounds: "lo \<le> hi \<Longrightarrow> lo \<le> clamp_word x lo hi \<and> clamp_word x lo hi \<le> hi"
  by (auto simp: clamp_word_def)

lemma unat_saturating_sub: "unat (saturating_sub x y) = unat x - unat (y::'a::len word)"
  by (auto simp: saturating_sub_def word_less_nat_alt unat_sub word_le_nat_alt not_less)

lemma unat_saturating_add:
  "unat (saturating_add x y) = min (unat x + unat (y::'a::len word)) (2 ^ LENGTH('a) - 1)"
proof (cases "unat x + unat y < 2 ^ LENGTH('a)")
  case True
  then have "unat (x + y) = unat x + unat y" by (simp add: unat_add_lem)
  with True show ?thesis by (simp add: saturating_add_def)
next
  case False
  then show ?thesis by (simp add: saturating_add_def unsigned_minus_1_eq_mask mask_eq_exp_minus_1)
qed

lemma find_Some_split:
  "List.find P xs = Some x \<longleftrightarrow> (\<exists>us vs. xs = us @ x # vs \<and> P x \<and> (\<forall>u\<in>set us. \<not> P u))"
proof
  show "List.find P xs = Some x \<Longrightarrow> \<exists>us vs. xs = us @ x # vs \<and> P x \<and> (\<forall>u\<in>set us. \<not> P u)"
  proof (induction xs)
    case (Cons y ys)
    show ?case
    proof (cases "P y")
      case True
      with Cons.prems have "y # ys = [] @ x # ys \<and> P x" by simp
      then show ?thesis by fastforce
    next
      case False
      with Cons obtain us vs where "ys = us @ x # vs" "P x" "\<forall>u\<in>set us. \<not> P u" by auto
      with False have "y # ys = (y # us) @ x # vs \<and> P x \<and> (\<forall>u\<in>set (y # us). \<not> P u)" by simp
      then show ?thesis by blast
    qed
  qed simp
next
  have "P x \<Longrightarrow> \<forall>u\<in>set us. \<not> P u \<Longrightarrow> List.find P (us @ x # vs) = Some x" for us vs
    by (induction us) auto
  then show "\<exists>us vs. xs = us @ x # vs \<and> P x \<and> (\<forall>u\<in>set us. \<not> P u) \<Longrightarrow> List.find P xs = Some x"
    by blast
qed

lemma find_mem: "List.find P xs = Some x \<Longrightarrow> x \<in> set xs \<and> P x"
  by (auto simp: find_Some_split)

subsection \<open>Bit masks and sorted searches\<close>

lemma or_mask_absorb: "x AND m = x \<Longrightarrow> y AND m = y \<Longrightarrow> (x OR y) AND m = x OR (y::'a::len word)"
  by (simp add: bit.conj_disj_distrib2)

lemma or_and_nonzero: "y AND m \<noteq> 0 \<Longrightarrow> (x OR y) AND m \<noteq> (0::'a::len word)"
  by (auto simp: bit_eq_iff bit_simps)

lemma bit_set_or: "bit_set x m \<Longrightarrow> bit_set (x OR y) m" "bit_set y m \<Longrightarrow> bit_set (x OR y) (m::'a::len word)"
  by (auto simp: bit_set_def bit_eq_iff bit_simps)

lemma or_eq_0: "x OR y = (0::'a::len word) \<longleftrightarrow> x = 0 \<and> y = 0"
  by (auto simp: bit_eq_iff bit_simps)

lemma byte_or0_resize: "byte_or0 (resize0 xs n) i = (if i < n then byte_or0 xs i else 0)"
  by (auto simp: byte_or0_def resize0_def nth_append)

lemma byte_or0_Cons: "byte_or0 (x # xs) i = (if i = 0 then x else byte_or0 xs (i - 1))"
  by (cases i) (auto simp: byte_or0_def)

lemma nth_resize0: "i < n \<Longrightarrow> resize0 xs n ! i = byte_or0 xs i"
  by (auto simp: byte_or0_def resize0_def nth_append)

lemma find_above: "sorted xs \<Longrightarrow> List.find (\<lambda>r. (s::'a::linorder) \<le> r) xs = Some x \<longleftrightarrow>
    x \<in> set xs \<and> s \<le> x \<and> (\<forall>y\<in>set xs. s \<le> y \<longrightarrow> x \<le> y)"
  by (induction xs) (auto simp: antisym)

lemma find_below: "sorted xs \<Longrightarrow> List.find (\<lambda>r. r \<le> (s::'a::linorder)) (rev xs) = Some x \<longleftrightarrow>
    x \<in> set xs \<and> x \<le> s \<and> (\<forall>y\<in>set xs. y \<le> s \<longrightarrow> y \<le> x)"
proof (induction xs rule: rev_induct)
  case (snoc a xs)
  then show ?case by (auto simp: sorted_append antisym)
qed simp

lemma find_None_ball: "List.find P xs = None \<longleftrightarrow> (\<forall>x\<in>set xs. \<not> P x)"
  by (auto simp: find_None_iff)

lemma find_below_Max:
  assumes "sorted xs"
  shows "List.find (\<lambda>r. r \<le> (s::'a::linorder)) (rev xs) =
     (if {r \<in> set xs. r \<le> s} = {} then None else Some (Max {r \<in> set xs. r \<le> s}))"
proof (cases "List.find (\<lambda>r. r \<le> s) (rev xs)")
  case None
  then show ?thesis by (auto simp: find_None_ball)
next
  case (Some x)
  then have x: "x \<in> set xs" "x \<le> s" "\<forall>y\<in>set xs. y \<le> s \<longrightarrow> y \<le> x" using find_below[OF assms] by auto
  then have "Max {r \<in> set xs. r \<le> s} = x" by (intro Max_eqI) auto
  with Some x show ?thesis by auto
qed

lemma find_above_Min:
  assumes "sorted xs"
  shows "List.find (\<lambda>r. (s::'a::linorder) \<le> r) xs =
     (if {r \<in> set xs. s \<le> r} = {} then None else Some (Min {r \<in> set xs. s \<le> r}))"
proof (cases "List.find (\<lambda>r. s \<le> r) xs")
  case None
  then show ?thesis by (auto simp: find_None_ball)
next
  case (Some x)
  then have x: "x \<in> set xs" "s \<le> x" "\<forall>y\<in>set xs. s \<le> y \<longrightarrow> x \<le> y" using find_above[OF assms] by auto
  then have "Min {r \<in> set xs. s \<le> r} = x" by (intro Min_eqI) auto
  with Some x show ?thesis by auto
qed

lemma and_and_mask: "(x AND m) AND b = x AND (b::'a::len word)" if "m AND b = b"
  by (metis that and.assoc)

lemma bit_set_disj: "bit_set x (a OR b) \<longleftrightarrow> bit_set x a \<or> bit_set x (b::'a::len word)"
  by (auto simp: bit_set_def bit.conj_disj_distrib or_eq_0)

definition is_Inr :: "'a + 'b \<Rightarrow> bool" where
  "is_Inr x = (case x of Inl _ \<Rightarrow> False | Inr _ \<Rightarrow> True)"

lemma is_Inr_simps [simp]: "is_Inr (Inr x)" "\<not> is_Inr (Inl y)"
  by (simp_all add: is_Inr_def)

subsection \<open>A state machine that keeps an invariant\<close>

text \<open>
  The contract the stateful components share: an initial state, a step per event, and an
  invariant the initial state has and every step on an admissible event keeps. The client lemma is
  that every run over admissible events keeps it, at every prefix.
\<close>

locale inv_machine =
  fixes init :: "'s"
    and step :: "'s \<Rightarrow> 'e \<Rightarrow> 's"
    and ok :: "'e \<Rightarrow> bool"
    and inv :: "'s \<Rightarrow> bool"
  assumes inv_init: "inv init"
    and inv_step: "inv s \<Longrightarrow> ok e \<Longrightarrow> inv (step s e)"
begin

lemma run_inv: "inv s \<Longrightarrow> list_all ok es \<Longrightarrow> inv (foldl step s es)"
  by (induction es arbitrary: s) (auto intro: inv_step)

lemma reachable_inv: "list_all ok es \<Longrightarrow> inv (foldl step init es)"
  using run_inv inv_init by blast

lemma prefix_inv: "list_all ok es \<Longrightarrow> inv (foldl step init (take n es))"
  by (rule reachable_inv) (auto simp: list_all_iff dest: in_set_takeD)

end

end
