(* ===== verification/Codec_Kind.thy ===== *)
theory Codec_Kind
  imports BC_Prelude
begin

text \<open>
  The codecs and their order, \<^verbatim>\<open>app/src/crates/codec/src/lib.rs\<close> and
  \<^verbatim>\<open>dev.rs\<close>: \<open>codec_kind\<close>, its keys and names, the Auto order of a device
  (\<open>AutoOrder\<close>), the quality modes, the encoder configuration records, and the developer
  overrides. The cargo features (\<^verbatim>\<open>cfg!(feature = ...)\<close>) are a build configuration and
  so a record the operations take.
\<close>

datatype codec_kind =
    Sbc | SbcXq | Aac | Aptx | AptxHd | AptxLl | Ldac | LhdcV5 | FastStream | Opus | Opus05
  | AptxAdaptive

record features =
  feat_aac :: bool
  feat_aptx :: bool
  feat_ldac :: bool
  feat_lhdcv5 :: bool
  feat_opus :: bool
  feat_aptx_adaptive :: bool

definition ALL_CODECS :: "codec_kind list" where
  "ALL_CODECS = [Ldac, AptxHd, AptxLl, Aptx, SbcXq, Sbc, Aac, LhdcV5, Opus, Opus05, FastStream, AptxAdaptive]"

definition AUTO_PRIORITY :: "codec_kind list" where
  "AUTO_PRIORITY = [LhdcV5, Ldac, AptxAdaptive, Opus, AptxHd, Aptx, AptxLl, Aac, SbcXq, Sbc]"

fun codec_name :: "codec_kind \<Rightarrow> string" where
  "codec_name Sbc = ''SBC''"
| "codec_name SbcXq = ''SBC XQ''"
| "codec_name Aac = ''AAC''"
| "codec_name Aptx = ''aptX''"
| "codec_name AptxHd = ''aptX HD''"
| "codec_name AptxLl = ''aptX Low Latency''"
| "codec_name Ldac = ''LDAC''"
| "codec_name LhdcV5 = ''LHDC V5''"
| "codec_name Opus = ''Opus''"
| "codec_name Opus05 = ''Opus 05''"
| "codec_name FastStream = ''FastStream''"
| "codec_name AptxAdaptive = ''aptX Adaptive''"

fun codec_key :: "codec_kind \<Rightarrow> string" where
  "codec_key Sbc = ''sbc''"
| "codec_key SbcXq = ''sbcxq''"
| "codec_key Aac = ''aac''"
| "codec_key Aptx = ''aptx''"
| "codec_key AptxHd = ''aptxhd''"
| "codec_key AptxLl = ''aptxll''"
| "codec_key Ldac = ''ldac''"
| "codec_key LhdcV5 = ''lhdcv5''"
| "codec_key Opus = ''opus''"
| "codec_key Opus05 = ''opus05''"
| "codec_key FastStream = ''faststream''"
| "codec_key AptxAdaptive = ''aptxad''"

definition codec_from_key :: "string \<Rightarrow> codec_kind option" where
  "codec_from_key key = List.find (\<lambda>c. eq_ignore_ascii_case (codec_key c) key) ALL_CODECS"

fun media_header_len :: "codec_kind \<Rightarrow> nat" where
  "media_header_len Sbc = 1"
| "media_header_len SbcXq = 1"
| "media_header_len Ldac = 1"
| "media_header_len Opus = 1"
| "media_header_len Opus05 = 1"
| "media_header_len LhdcV5 = 2"
| "media_header_len _ = 0"

definition is_opus :: "codec_kind \<Rightarrow> bool" where
  "is_opus k \<longleftrightarrow> k = Opus \<or> k = Opus05"

definition uses_rtp :: "codec_kind \<Rightarrow> bool" where
  "uses_rtp k \<longleftrightarrow> \<not> (k = Aptx \<or> k = AptxLl \<or> k = FastStream \<or> k = AptxAdaptive)"

fun max_sample_rate :: "codec_kind \<Rightarrow> u32" where
  "max_sample_rate Ldac = 96000"
| "max_sample_rate AptxAdaptive = 96000"
| "max_sample_rate LhdcV5 = 192000"
| "max_sample_rate _ = 48000"

definition is_experimental :: "codec_kind \<Rightarrow> bool" where
  "is_experimental k \<longleftrightarrow> k \<in> {AptxHd, AptxLl, FastStream, Opus, Opus05}"

fun available :: "features \<Rightarrow> codec_kind \<Rightarrow> bool" where
  "available f Sbc = True"
| "available f SbcXq = True"
| "available f FastStream = True"
| "available f Aac = feat_aac f"
| "available f Aptx = feat_aptx f"
| "available f AptxHd = feat_aptx f"
| "available f AptxLl = feat_aptx f"
| "available f Ldac = feat_ldac f"
| "available f LhdcV5 = feat_lhdcv5 f"
| "available f Opus = feat_opus f"
| "available f Opus05 = feat_opus f"
| "available f AptxAdaptive = feat_aptx_adaptive f"

subsection \<open>The Auto order of a device\<close>

text \<open>\<^verbatim>\<open>AutoOrder([CodecKind; 10])\<close>: the array is a list; \<open>from_keys\<close> keeps the
  fallback of the failing array conversion.\<close>

type_synonym auto_order = "codec_kind list"

definition default_order :: auto_order where
  "default_order = AUTO_PRIORITY"

fun push_order :: "codec_kind list \<Rightarrow> codec_kind list \<Rightarrow> codec_kind list" where
  "push_order order [] = order"
| "push_order order (k # ks) =
     (if k \<in> set AUTO_PRIORITY \<and> k \<notin> set order then push_order (order @ [k]) ks
      else push_order order ks)"

definition from_keys :: "string list \<Rightarrow> auto_order" where
  "from_keys keys =
     (let given = List.map_filter codec_from_key keys;
          order = push_order [] (given @ AUTO_PRIORITY)
      in if length order = 10 then order else AUTO_PRIORITY)"

fun position_of :: "codec_kind \<Rightarrow> codec_kind list \<Rightarrow> nat option" where
  "position_of k [] = None"
| "position_of k (c # cs) = (if c = k then Some 0 else map_option Suc (position_of k cs))"

definition order_at :: "auto_order \<Rightarrow> codec_kind \<Rightarrow> nat" where
  "order_at ord k = (case position_of k ord of Some i \<Rightarrow> i | None \<Rightarrow> 0)"

definition order_rank :: "auto_order \<Rightarrow> codec_kind \<Rightarrow> nat" where
  "order_rank ord k =
     (case k of Opus05 \<Rightarrow> order_at ord Opus
      | FastStream \<Rightarrow> length ord
      | k' \<Rightarrow> order_at ord k')"

definition quality_rank :: "codec_kind \<Rightarrow> nat" where
  "quality_rank k = order_rank default_order k"

definition order_names :: "auto_order \<Rightarrow> string" where
  "order_names ord = join_with '' > '' (map codec_name ord)"

subsection \<open>Quality modes\<close>

datatype quality = High | Standard | Mobile | MediumHigh | LowLatency

definition quality_from_key :: "string \<Rightarrow> quality" where
  "quality_from_key key =
     (if key = ''sq'' then Standard else if key = ''mq'' then Mobile
      else if key = ''mhq'' then MediumHigh else if key = ''ll'' then LowLatency else High)"

fun quality_key :: "quality \<Rightarrow> string" where
  "quality_key High = ''hq''"
| "quality_key Standard = ''sq''"
| "quality_key Mobile = ''mq''"
| "quality_key MediumHigh = ''mhq''"
| "quality_key LowLatency = ''ll''"

definition for_codec :: "quality \<Rightarrow> codec_kind \<Rightarrow> quality" where
  "for_codec q k =
     (if (k = Ldac \<or> k = LhdcV5) \<and> (q = Standard \<or> q = Mobile) then q
      else if k = LhdcV5 \<and> q = MediumHigh then q
      else if k = AptxAdaptive \<and> q = LowLatency then q
      else High)"

subsection \<open>Developer overrides\<close>

record dev_overrides =
  rtp_marker :: bool
  packet_dump :: bool
  aac_config_bitrate0 :: bool
  aac_bitrate_kbps :: u32
  aac_no_peak :: bool
  aac_no_afterburner :: bool
  aac_latm_v0 :: bool
  auto_codec_settings :: bool
  match_source :: bool
  ignore_sink_max :: bool
  queue_max_wait_ms :: u32
  encode_at_send :: bool

definition default_overrides :: dev_overrides where
  "default_overrides =
     \<lparr> rtp_marker = False, packet_dump = False, aac_config_bitrate0 = False, aac_bitrate_kbps = 0,
       aac_no_peak = False, aac_no_afterburner = False, aac_latm_v0 = False,
       auto_codec_settings = False, match_source = False, ignore_sink_max = False,
       queue_max_wait_ms = 0, encode_at_send = False \<rparr>"

subsection \<open>Exhaustive checks over the codecs\<close>

instantiation codec_kind :: enum
begin

definition "Enum.enum = ALL_CODECS"
definition "Enum.enum_all P = list_all P ALL_CODECS"
definition "Enum.enum_ex P = list_ex P ALL_CODECS"

instance
proof
  show "(UNIV :: codec_kind set) = set Enum.enum"
  proof (rule set_eqI)
    fix k :: codec_kind
    show "k \<in> UNIV \<longleftrightarrow> k \<in> set Enum.enum"
      by (cases k) (simp_all add: enum_codec_kind_def ALL_CODECS_def)
  qed
  show "distinct (Enum.enum :: codec_kind list)"
    by (simp add: enum_codec_kind_def ALL_CODECS_def)
  fix P :: "codec_kind \<Rightarrow> bool"
  show "Enum.enum_all P = Ball UNIV P"
  proof
    assume "Enum.enum_all P"
    then have all: "list_all P ALL_CODECS" by (simp add: enum_all_codec_kind_def)
    have "P k" for k using all by (cases k) (simp_all add: ALL_CODECS_def)
    then show "Ball UNIV P" by simp
  qed (simp add: enum_all_codec_kind_def list_all_iff)
  show "Enum.enum_ex P = Bex UNIV P"
  proof
    assume "Bex UNIV P"
    then obtain k where "P k" by blast
    then show "Enum.enum_ex P" by (cases k) (simp_all add: enum_ex_codec_kind_def ALL_CODECS_def)
  qed (auto simp: enum_ex_codec_kind_def list_ex_iff)
qed

end

subsection \<open>Keys and orders\<close>

lemma length_AUTO_PRIORITY [simp]: "length AUTO_PRIORITY = 10"
  by (simp add: AUTO_PRIORITY_def)

lemma distinct_AUTO_PRIORITY [simp]: "distinct AUTO_PRIORITY"
  by (simp add: AUTO_PRIORITY_def)

lemma push_order_sub:
  "set order \<subseteq> set AUTO_PRIORITY \<Longrightarrow> set (push_order order ks) \<subseteq> set AUTO_PRIORITY"
  by (induction order ks rule: push_order.induct) auto

lemma push_order_distinct: "distinct order \<Longrightarrow> distinct (push_order order ks)"
  by (induction order ks rule: push_order.induct) auto

lemma push_order_set:
  "set (push_order order ks) = set order \<union> (set ks \<inter> set AUTO_PRIORITY)"
  by (induction order ks rule: push_order.induct) auto

lemma push_order_prefix: "\<exists>rest. push_order order ks = order @ rest"
proof (induction order ks rule: push_order.induct)
  case (2 order k ks)
  then show ?case by (cases "k \<in> set AUTO_PRIORITY \<and> k \<notin> set order") auto
qed simp

lemma push_order_append: "push_order order (ks @ js) = push_order (push_order order ks) js"
  by (induction order ks rule: push_order.induct) auto

lemma push_order_auto:
  "set (push_order order AUTO_PRIORITY) = set order \<union> set AUTO_PRIORITY"
  by (auto simp: push_order_set)

lemma push_order_filter:
  "distinct ks \<Longrightarrow> set ks \<subseteq> set AUTO_PRIORITY \<Longrightarrow>
     push_order order ks = order @ filter (\<lambda>k. k \<notin> set order) ks"
proof (induction ks arbitrary: order)
  case (Cons k ks)
  have "filter (\<lambda>x. x \<notin> set (order @ [k])) ks = filter (\<lambda>x. x \<notin> set order) ks"
    using Cons.prems by (intro filter_cong) auto
  with Cons show ?case by auto
qed simp

lemma from_keys_eq:
  "from_keys keys = push_order [] (List.map_filter codec_from_key keys @ AUTO_PRIORITY)"
proof -
  let ?o = "push_order [] (List.map_filter codec_from_key keys @ AUTO_PRIORITY)"
  have "set ?o = set AUTO_PRIORITY" by (auto simp: push_order_set)
  moreover have "distinct ?o" by (rule push_order_distinct) simp
  ultimately have "length ?o = 10"
    by (metis distinct_card distinct_AUTO_PRIORITY length_AUTO_PRIORITY)
  then show ?thesis by (simp add: from_keys_def Let_def)
qed

lemma push_order_nil:
  "push_order order ks =
     order @ rev (remdups (rev (filter (\<lambda>k. k \<in> set AUTO_PRIORITY \<and> k \<notin> set order) ks)))"
proof (induction ks rule: rev_induct)
  case (snoc k ks)
  then show ?case by (auto simp: push_order_append)
qed simp

lemma ascii_lower_key: "map ascii_lower (codec_key k) = codec_key k"
  by (cases k) (simp_all add: ascii_lower_def)

lemma codec_key_inj: "codec_key k = codec_key k' \<longleftrightarrow> k = k'"
  by (cases k; cases k') simp_all

lemma ALL_CODECS_complete: "k \<in> set ALL_CODECS"
  by (cases k) (simp_all add: ALL_CODECS_def)

subsection \<open>Properties\<close>

text \<open>A device's codec order made from any list of keys is a reordering of the ten codecs of
  \<open>AUTO_PRIORITY\<close>: the codecs the keys name come first, each at its first mention and the unknown or
  ineligible ones left out, then the missing ones in their default order. The array conversion of the
  source therefore never takes its fallback.\<close>

lemma from_keys_order:
  "let given = filter (\<lambda>k. k \<in> set AUTO_PRIORITY) (List.map_filter codec_from_key keys);
       firsts = rev (remdups (rev given))
   in from_keys keys = firsts @ filter (\<lambda>k. k \<notin> set firsts) AUTO_PRIORITY
      \<and> distinct (from_keys keys) \<and> set (from_keys keys) = set AUTO_PRIORITY"
proof -
  have "set (from_keys keys) = set AUTO_PRIORITY" by (auto simp: from_keys_eq push_order_set)
  moreover have "distinct (from_keys keys)" by (simp add: from_keys_eq push_order_distinct)
  moreover have "push_order [] (List.map_filter codec_from_key keys) =
      rev (remdups (rev (filter (\<lambda>k. k \<in> set AUTO_PRIORITY) (List.map_filter codec_from_key keys))))"
    using push_order_nil[of "[]"] by simp
  ultimately show ?thesis
    by (simp add: Let_def from_keys_eq push_order_append push_order_filter)
qed

text \<open>Codec keys: a string names the codec \<open>k\<close> exactly when it is the key of \<open>k\<close> up to the case of
  its ASCII letters, so every key reads back as its codec and no string names two.\<close>

lemma codec_from_key_iff:
  "codec_from_key s = Some k \<longleftrightarrow> map ascii_lower s = codec_key k"
proof
  assume "codec_from_key s = Some k"
  then show "map ascii_lower s = codec_key k"
    unfolding codec_from_key_def by (auto dest!: find_mem simp: eq_ignore_ascii_case_def ascii_lower_key)
next
  assume s: "map ascii_lower s = codec_key k"
  then have "(\<lambda>c. eq_ignore_ascii_case (codec_key c) s) = (\<lambda>c. c = k)"
    by (auto simp: eq_ignore_ascii_case_def ascii_lower_key codec_key_inj)
  moreover have "List.find (\<lambda>c. c = k) ALL_CODECS = Some k"
    by (cases k) (simp_all add: ALL_CODECS_def)
  ultimately show "codec_from_key s = Some k" by (simp add: codec_from_key_def)
qed

end
