(* ===== verification/Sbc_Setup.thy ===== *)
theory Sbc_Setup
  imports Codec_Kind
begin

text \<open>
  The SBC stream setup, \<^verbatim>\<open>app/src/crates/codec/src/sbc/mod.rs\<close>,
  \<^verbatim>\<open>sbc/frame.rs\<close> and \<^verbatim>\<open>abr.rs\<close>: the frame setup a profile asks for
  (\<open>sbc_params\<close>), the bitpool rules, the frame configuration with its length, the frame encoder's
  setup (its signal path is in \<open>Sbc_Frame\<close>, its encode calls in \<open>Sbc_Encoders\<close>), the adaptive bitpool with
  its stall memory, and the A2DP SBC encoder's construction and bit rate control.
\<close>

subsection \<open>Frame setup of a profile\<close>

datatype channel_mode = Mono | DualChannel | Stereo | JointStereo

datatype allocation = Loudness | Snr

record sbc_params =
  sp_blocks :: u8
  sp_subbands :: u8
  sp_allocation :: "allocation option"
  sp_channel_mode :: "channel_mode option"
  sp_min_bitpool :: u8

definition default_sbc_params :: sbc_params where
  "default_sbc_params = \<lparr> sp_blocks = 0, sp_subbands = 0, sp_allocation = None,
     sp_channel_mode = None, sp_min_bitpool = 0 \<rparr>"

definition params_blocks :: "sbc_params \<Rightarrow> u8" where
  "params_blocks p = (if sp_blocks p = 4 \<or> sp_blocks p = 8 \<or> sp_blocks p = 12 then sp_blocks p else 16)"

definition params_subbands :: "sbc_params \<Rightarrow> u8" where
  "params_subbands p = (if sp_subbands p = 4 then 4 else 8)"

definition params_allocation :: "sbc_params \<Rightarrow> allocation" where
  "params_allocation p = (case sp_allocation p of Some a \<Rightarrow> a | None \<Rightarrow> Loudness)"

definition params_channel_mode :: "sbc_params \<Rightarrow> codec_kind \<Rightarrow> u32 \<Rightarrow> channel_mode" where
  "params_channel_mode p k channels =
     (if channels = 1 then Mono
      else if k = SbcXq then DualChannel
      else (case sp_channel_mode p of Some m \<Rightarrow> m | None \<Rightarrow> JointStereo))"

text \<open>Rust's \<^verbatim>\<open>clamp\<close> panics when its bounds are swapped; the lower bound here is
  \<^verbatim>\<open>min.min(max)\<close>, so they never are.\<close>

definition config_min_bitpool :: "sbc_params \<Rightarrow> u8 \<Rightarrow> u8 \<Rightarrow> u8" where
  "config_min_bitpool p lo hi =
     (if sp_min_bitpool p = 0 then lo else clamp_word (sp_min_bitpool p) (min lo hi) hi)"

fun channel_mode_key :: "channel_mode \<Rightarrow> string" where
  "channel_mode_key Mono = ''mono''"
| "channel_mode_key DualChannel = ''dual_channel''"
| "channel_mode_key Stereo = ''stereo''"
| "channel_mode_key JointStereo = ''joint_stereo''"

definition channel_mode_from_key :: "string \<Rightarrow> channel_mode option" where
  "channel_mode_from_key key =
     List.find (\<lambda>m. channel_mode_key m = key) [Mono, DualChannel, Stereo, JointStereo]"

fun allocation_key :: "allocation \<Rightarrow> string" where
  "allocation_key Loudness = ''loudness''"
| "allocation_key Snr = ''snr''"

definition allocation_from_key :: "string \<Rightarrow> allocation option" where
  "allocation_from_key key = List.find (\<lambda>a. allocation_key a = key) [Loudness, Snr]"

subsection \<open>Bitpools\<close>

definition SBC_MAX_BITPOOL :: u8 where
  "SBC_MAX_BITPOOL = 53"

fun quality_bitpool :: "quality \<Rightarrow> u8" where
  "quality_bitpool High = 53"
| "quality_bitpool MediumHigh = 53"
| "quality_bitpool LowLatency = 53"
| "quality_bitpool Standard = 35"
| "quality_bitpool Mobile = 19"

definition xq_bitpool :: "quality \<Rightarrow> u32 \<Rightarrow> u8" where
  "xq_bitpool q rate =
     (let (at_44100, at_48000) =
        (case q of Standard \<Rightarrow> (43, 39) | Mobile \<Rightarrow> (32, 29) | _ \<Rightarrow> (47, 43))
      in if rate = 44100 then at_44100 else at_48000)"

definition xq_max_bitpool :: "u32 \<Rightarrow> u8" where
  "xq_max_bitpool rate = xq_bitpool High rate"

definition auto_bitpool :: "quality \<Rightarrow> channel_mode \<Rightarrow> u8" where
  "auto_bitpool q m =
     (let bp = quality_bitpool q in if m = DualChannel then of_nat ((unat bp + 1) div 2) else bp)"

definition bitrate_kbps :: "usize \<Rightarrow> u32 \<Rightarrow> usize \<Rightarrow> u32" where
  "bitrate_kbps frame_len rate pcm_frames =
     of_nat (8 * frame_len * unat rate div max pcm_frames 1 div 1000)"

record peer_params =
  pp_lhdcv5_bitrate_limits :: u8
  pp_sbc_min_bitpool :: u8
  pp_sbc_max_bitpool :: u8
  pp_sbc_bitpool :: u8
  pp_sbc :: sbc_params
  pp_opus_frame_ms :: u8
  pp_opus_channels :: u8
  pp_opus_max_bitrate :: u32
  pp_aac_max_bitrate :: u32
  pp_aptxad_r2 :: bool

record encoder_config =
  ec_sample_rate :: u32
  ec_channels :: u32
  ec_quality :: quality
  ec_mtu :: u16
  ec_bits_per_sample :: u8
  ec_abr :: bool
  ec_peer :: peer_params

definition sink_bitpool :: "u8 \<Rightarrow> encoder_config \<Rightarrow> u8" where
  "sink_bitpool wanted cfg =
     (let lo = pp_sbc_min_bitpool (ec_peer cfg); hi = pp_sbc_max_bitpool (ec_peer cfg)
      in if hi < 2 then wanted else max (max (min wanted hi) (min lo hi)) 2)"

subsection \<open>Frame configuration\<close>

record sbc_config =
  sc_sample_rate :: u32
  sc_channel_mode :: channel_mode
  sc_blocks :: u8
  sc_subbands :: u8
  sc_allocation :: allocation
  sc_bitpool :: u8

datatype encoder_error =
    NotAvailable codec_kind
  | Unsupported codec_kind string
  | InitFailed codec_kind string
  | EncodeFailed codec_kind string
  | OutputTooSmall usize usize
  | InputLength usize usize

definition mode_channels :: "channel_mode \<Rightarrow> nat" where
  "mode_channels m = (if m = Mono then 1 else 2)"

definition shared_bitpool :: "channel_mode \<Rightarrow> bool" where
  "shared_bitpool m \<longleftrightarrow> m = Stereo \<or> m = JointStereo"

definition pcm_frames_per_frame :: "sbc_config \<Rightarrow> nat" where
  "pcm_frames_per_frame c = unat (sc_blocks c) * unat (sc_subbands c)"

definition effective_bitpool :: "sbc_config \<Rightarrow> u8" where
  "effective_bitpool c =
     (let mx = (if shared_bitpool (sc_channel_mode c) then (if sc_subbands c = 8 then 255 else 128)
                else 16 * unat (sc_subbands c))
      in of_nat (min (unat (sc_bitpool c)) mx))"

definition frame_len :: "sbc_config \<Rightarrow> nat" where
  "frame_len c =
     (let ch = mode_channels (sc_channel_mode c); subbands = unat (sc_subbands c);
          blocks = unat (sc_blocks c); bitpool = unat (effective_bitpool c);
          data_bits = (case sc_channel_mode c of
              Mono \<Rightarrow> blocks * ch * bitpool
            | DualChannel \<Rightarrow> blocks * ch * bitpool
            | Stereo \<Rightarrow> blocks * bitpool
            | JointStereo \<Rightarrow> subbands + blocks * bitpool)
      in 4 + (4 * subbands * ch) div 8 + (data_bits + 7) div 8)"

definition validate :: "sbc_config \<Rightarrow> encoder_error + nat" where
  "validate c =
     (let freq = (if sc_sample_rate c = 16000 then Some 0 else if sc_sample_rate c = 32000 then Some 1
                  else if sc_sample_rate c = 44100 then Some 2 else if sc_sample_rate c = 48000 then Some 3
                  else None)
      in case freq of
           None \<Rightarrow> Inl (Unsupported Sbc (''sample rate '' @ show_nat (unat (sc_sample_rate c)) @ '' Hz''))
         | Some i \<Rightarrow>
             if \<not> (sc_blocks c = 4 \<or> sc_blocks c = 8 \<or> sc_blocks c = 12 \<or> sc_blocks c = 16)
             then Inl (Unsupported Sbc (show_nat (unat (sc_blocks c)) @ '' blocks''))
             else if \<not> (sc_subbands c = 4 \<or> sc_subbands c = 8)
             then Inl (Unsupported Sbc (show_nat (unat (sc_subbands c)) @ '' subbands''))
             else Inr i)"

fun channel_mode_value :: "channel_mode \<Rightarrow> u8" where
  "channel_mode_value Mono = 0"
| "channel_mode_value DualChannel = 1"
| "channel_mode_value Stereo = 2"
| "channel_mode_value JointStereo = 3"

fun allocation_value :: "allocation \<Rightarrow> u8" where
  "allocation_value Loudness = 0"
| "allocation_value Snr = 1"

text \<open>The setup part of \<^verbatim>\<open>SbcFrameEncoder\<close> (the buffers of the signal path left out).\<close>

record frame_encoder =
  fe_config :: sbc_config
  fe_channels :: nat
  fe_subbands :: nat
  fe_blocks :: nat
  fe_bitpool :: u8
  fe_header :: u8
  fe_freq_index :: nat
  fe_snr :: bool
  fe_alloc_bitpool :: u8

definition frame_header :: "sbc_config \<Rightarrow> nat \<Rightarrow> u8" where
  "frame_header c freq_index =
     push_bit 6 (of_nat freq_index AND 3)
     OR push_bit 2 ((sc_blocks c - 4) AND 12)
     OR push_bit 2 (channel_mode_value (sc_channel_mode c) AND 3)
     OR push_bit 1 (allocation_value (sc_allocation c) AND 1)
     OR (drop_bit 3 (sc_subbands c) AND 1)"

definition frame_encoder_new :: "sbc_config \<Rightarrow> encoder_error + frame_encoder" where
  "frame_encoder_new c =
     (case validate c of
        Inl e \<Rightarrow> Inl e
      | Inr i \<Rightarrow> Inr \<lparr> fe_config = c, fe_channels = mode_channels (sc_channel_mode c),
          fe_subbands = unat (sc_subbands c), fe_blocks = unat (sc_blocks c),
          fe_bitpool = effective_bitpool c, fe_header = frame_header c i, fe_freq_index = i,
          fe_snr = (sc_allocation c = Snr), fe_alloc_bitpool = effective_bitpool c \<rparr>)"

definition frame_set_bitpool :: "frame_encoder \<Rightarrow> u8 \<Rightarrow> frame_encoder" where
  "frame_set_bitpool fe bp =
     (let c = (fe_config fe)\<lparr> sc_bitpool := bp \<rparr>; eff = effective_bitpool c
      in fe\<lparr> fe_config := c, fe_bitpool := eff, fe_alloc_bitpool := eff \<rparr>)"

definition pcm_samples :: "frame_encoder \<Rightarrow> nat" where
  "pcm_samples fe = fe_blocks fe * fe_subbands fe * fe_channels fe"

definition max_frame_len :: "frame_encoder \<Rightarrow> nat" where
  "max_frame_len fe = frame_len (fe_config fe) + (if fe_bitpool fe = 0 then 1 else 0)"

subsection \<open>The stall memory of adaptive bit rates\<close>

definition STALL_TICKS :: u32 where
  "STALL_TICKS = 100"

definition STALL_MAX_TICKS :: u32 where
  "STALL_MAX_TICKS = 1200"

definition FORGET_TICKS :: u32 where
  "FORGET_TICKS = 600"

record stall =
  stall_at :: u8
  stall_wait :: u32
  stall_held :: u32

record stall_memory =
  in_stall :: bool
  sm_stall :: "stall option"

definition stepped_down :: "stall_memory \<Rightarrow> u8 \<Rightarrow> stall_memory" where
  "stepped_down m from =
     (if in_stall m then m
      else let wait = (case sm_stall m of
                  Some s \<Rightarrow> if from \<le> stall_at s then min (stall_wait s * 2) STALL_MAX_TICKS else STALL_TICKS
                | None \<Rightarrow> STALL_TICKS)
           in \<lparr> in_stall = True,
                sm_stall = Some \<lparr> stall_at = from, stall_wait = wait, stall_held = 0 \<rparr> \<rparr>)"

definition stall_tick :: "stall_memory \<Rightarrow> u8 \<Rightarrow> u32 \<Rightarrow> u32 \<Rightarrow> stall_memory" where
  "stall_tick m now calm usual =
     (let m = (if usual \<le> calm then m\<lparr> in_stall := False \<rparr> else m)
      in case sm_stall m of
           Some s \<Rightarrow>
             if stall_at s \<le> now
             then (let held = stall_held s + 1
                   in if FORGET_TICKS \<le> held then m\<lparr> sm_stall := None \<rparr>
                      else m\<lparr> sm_stall := Some (s\<lparr> stall_held := held \<rparr>) \<rparr>)
             else m
         | None \<Rightarrow> m)"

definition stall_wait_for :: "stall_memory \<Rightarrow> u8 \<Rightarrow> u8 \<Rightarrow> u32 \<Rightarrow> u32" where
  "stall_wait_for m now nxt usual =
     (case sm_stall m of
        Some s \<Rightarrow> if now < stall_at s \<and> stall_at s \<le> nxt then max (stall_wait s) usual else usual
      | None \<Rightarrow> usual)"

subsection \<open>The adaptive bitpool\<close>

definition ABR_DOWN_DEPTH :: u32 where
  "ABR_DOWN_DEPTH = 8"

definition ABR_UP_DEPTH :: u32 where
  "ABR_UP_DEPTH = 2"

definition ABR_DOWN_STEP :: u8 where
  "ABR_DOWN_STEP = 2"

definition ABR_UP_STEP :: u8 where
  "ABR_UP_STEP = 1"

definition ABR_DOWN_TICKS :: u32 where
  "ABR_DOWN_TICKS = 5"

definition ABR_UP_TICKS :: u32 where
  "ABR_UP_TICKS = 10"

definition ABR_MIN_BITPOOL :: u8 where
  "ABR_MIN_BITPOOL = 12"

definition abr_floor :: "codec_kind \<Rightarrow> channel_mode \<Rightarrow> u32 \<Rightarrow> u8 \<Rightarrow> u8 \<Rightarrow> u8" where
  "abr_floor k m rate sink_min ceiling =
     (let mobile = (if k = SbcXq then xq_bitpool Mobile rate else auto_bitpool Mobile m)
      in min (max (max mobile ABR_MIN_BITPOOL) sink_min) ceiling)"

definition user_abr_floor :: "u8 \<Rightarrow> u8 \<Rightarrow> u8 \<Rightarrow> u8" where
  "user_abr_floor mn sink_min ceiling = min (max (max mn sink_min) 2) ceiling"

record bitpool_abr =
  abr_low :: u8
  abr_ceiling :: u8
  since_down :: u32
  calm :: u32
  stalls :: stall_memory

definition abr_new :: "u8 \<Rightarrow> u8 \<Rightarrow> bitpool_abr" where
  "abr_new lo hi = \<lparr> abr_low = min lo hi, abr_ceiling = hi, since_down = ABR_DOWN_TICKS, calm = 0,
     stalls = \<lparr> in_stall = False, sm_stall = None \<rparr> \<rparr>"

text \<open>One step every 100 ms: the new state and the bitpool of the next frames. The counter
  \<open>calm\<close> is a plain \<^verbatim>\<open>+= 1\<close>, \<open>since_down\<close> saturates.\<close>

definition abr_step :: "bitpool_abr \<Rightarrow> u8 \<Rightarrow> u32 \<Rightarrow> bitpool_abr \<times> u8" where
  "abr_step a bitpool depth =
     (let a = a\<lparr> since_down := saturating_add (since_down a) 1 \<rparr>
      in if ABR_DOWN_DEPTH \<le> depth then
           (let a = a\<lparr> calm := 0 \<rparr>
            in if ABR_DOWN_TICKS \<le> since_down a \<and> abr_low a < bitpool
               then (a\<lparr> since_down := 0, stalls := stepped_down (stalls a) bitpool \<rparr>,
                     max (saturating_sub bitpool ABR_DOWN_STEP) (abr_low a))
               else (a, bitpool))
         else
           (let a = a\<lparr> calm := (if depth \<le> ABR_UP_DEPTH then calm a + 1 else 0) \<rparr>;
                a = a\<lparr> stalls := stall_tick (stalls a) bitpool (calm a) ABR_UP_TICKS \<rparr>;
                nxt = min (saturating_add bitpool ABR_UP_STEP) (abr_ceiling a)
            in if stall_wait_for (stalls a) bitpool nxt ABR_UP_TICKS \<le> calm a \<and> bitpool < abr_ceiling a
               then (a\<lparr> calm := 0 \<rparr>, nxt)
               else (a, bitpool)))"

definition abr_reset :: "bitpool_abr \<Rightarrow> bitpool_abr \<times> u8" where
  "abr_reset a = (let a' = abr_new (abr_low a) (abr_ceiling a) in (a', abr_ceiling a'))"

subsection \<open>The A2DP SBC encoder\<close>

record sbc_encoder =
  se_kind :: codec_kind
  se_frame :: frame_encoder
  se_frame_len :: nat
  se_max_frame_len :: nat
  se_sample_rate :: u32
  se_downmix :: "nat option"
  se_abr :: "bitpool_abr option"

definition sbc_with_mode :: "codec_kind \<Rightarrow> encoder_config \<Rightarrow> u8 \<Rightarrow> encoder_error + sbc_encoder" where
  "sbc_with_mode k cfg bitpool =
     (if ec_sample_rate cfg \<noteq> 44100 \<and> ec_sample_rate cfg \<noteq> 48000
      then Inl (Unsupported k (''sample rate '' @ show_nat (unat (ec_sample_rate cfg)) @ '' Hz (44100 or 48000)''))
      else if \<not> (ec_channels cfg = 1 \<or> ec_channels cfg = 2)
      then Inl (Unsupported k (show_nat (unat (ec_channels cfg)) @ '' channels''))
      else
        let params = pp_sbc (ec_peer cfg); mode = params_channel_mode params k (ec_channels cfg)
        in case frame_encoder_new \<lparr> sc_sample_rate = ec_sample_rate cfg, sc_channel_mode = mode,
               sc_blocks = params_blocks params, sc_subbands = params_subbands params,
               sc_allocation = params_allocation params, sc_bitpool = bitpool \<rparr> of
             Inl e \<Rightarrow> Inl e
           | Inr frame \<Rightarrow>
               let len = max_frame_len frame;
                   downmix = (if ec_channels cfg = 2 \<and> mode = Mono then Some (pcm_samples frame) else None);
                   ceiling = effective_bitpool (fe_config frame);
                   low = (if sp_min_bitpool params = 0
                          then abr_floor k mode (ec_sample_rate cfg) (pp_sbc_min_bitpool (ec_peer cfg)) ceiling
                          else user_abr_floor (sp_min_bitpool params) (pp_sbc_min_bitpool (ec_peer cfg)) ceiling);
                   a = abr_new low ceiling;
                   abr = (if ec_abr cfg \<and> abr_low a < abr_ceiling a then Some a else None)
               in Inr \<lparr> se_kind = k, se_frame = frame, se_frame_len = len, se_max_frame_len = len,
                    se_sample_rate = ec_sample_rate cfg, se_downmix = downmix, se_abr = abr \<rparr>)"

definition sbc_new_bitpool :: "encoder_config \<Rightarrow> u8" where
  "sbc_new_bitpool cfg =
     (let mode = params_channel_mode (pp_sbc (ec_peer cfg)) Sbc (ec_channels cfg);
          wanted = (if pp_sbc_bitpool (ec_peer cfg) = 0 then auto_bitpool (ec_quality cfg) mode
                    else min (pp_sbc_bitpool (ec_peer cfg)) SBC_MAX_BITPOOL);
          wanted = max wanted (min (sp_min_bitpool (pp_sbc (ec_peer cfg))) SBC_MAX_BITPOOL)
      in sink_bitpool wanted cfg)"

definition sbc_new :: "encoder_config \<Rightarrow> encoder_error + sbc_encoder" where
  "sbc_new cfg = sbc_with_mode Sbc cfg (sbc_new_bitpool cfg)"

definition sbc_new_xq_bitpool :: "encoder_config \<Rightarrow> u8" where
  "sbc_new_xq_bitpool cfg =
     (let cap = xq_max_bitpool (ec_sample_rate cfg);
          wanted = (if pp_sbc_bitpool (ec_peer cfg) = 0 then xq_bitpool (ec_quality cfg) (ec_sample_rate cfg)
                    else min (pp_sbc_bitpool (ec_peer cfg)) cap);
          wanted = max wanted (min (sp_min_bitpool (pp_sbc (ec_peer cfg))) cap)
      in sink_bitpool wanted cfg)"

definition sbc_new_xq :: "encoder_config \<Rightarrow> encoder_error + sbc_encoder" where
  "sbc_new_xq cfg = sbc_with_mode SbcXq cfg (sbc_new_xq_bitpool cfg)"

definition se_bitpool :: "sbc_encoder \<Rightarrow> u8" where
  "se_bitpool e = sc_bitpool (fe_config (se_frame e))"

definition se_set_bitpool :: "sbc_encoder \<Rightarrow> u8 \<Rightarrow> sbc_encoder" where
  "se_set_bitpool e bp =
     (if bp = se_bitpool e then e
      else let f = frame_set_bitpool (se_frame e) bp
           in e\<lparr> se_frame := f, se_frame_len := max_frame_len f \<rparr>)"

definition se_abr_adjust :: "sbc_encoder \<Rightarrow> u32 \<Rightarrow> sbc_encoder" where
  "se_abr_adjust e depth =
     (case se_abr e of
        None \<Rightarrow> e
      | Some a \<Rightarrow>
          let before = se_bitpool e; (a', bp) = abr_step a before depth; e' = e\<lparr> se_abr := Some a' \<rparr>
          in if bp \<noteq> before then se_set_bitpool e' bp else e')"

definition se_abr_reset :: "sbc_encoder \<Rightarrow> sbc_encoder" where
  "se_abr_reset e =
     (case se_abr e of
        None \<Rightarrow> e
      | Some a \<Rightarrow> let (a', bp) = abr_reset a in se_set_bitpool (e\<lparr> se_abr := Some a' \<rparr>) bp)"

definition se_bitrate_kbps :: "sbc_encoder \<Rightarrow> u32" where
  "se_bitrate_kbps e =
     bitrate_kbps (se_frame_len e) (se_sample_rate e) (pcm_frames_per_frame (fe_config (se_frame e)))"

text \<open>The SBC and SBC XQ arms of \<^verbatim>\<open>codec::create\<close>.\<close>

definition create_sbc :: "codec_kind \<Rightarrow> encoder_config \<Rightarrow> encoder_error + sbc_encoder" where
  "create_sbc k cfg = (if k = SbcXq then sbc_new_xq cfg else sbc_new cfg)"

end
