(* ===== verification/Caps_Consts.thy ===== *)
theory Caps_Consts
  imports Sbc_Setup
begin

text \<open>
  The constants of \<^verbatim>\<open>app/src/crates/codec/src/caps.rs\<close>: vendor and codec identifiers,
  capability bits and information lengths, under the names the source gives them (its second
  \<^verbatim>\<open>SBC_MAX_BITPOOL\<close> is \<open>CAPS_SBC_MAX_BITPOOL\<close>). All of them are in the collection
  \<open>caps_consts\<close>.
\<close>

definition LDAC_VENDOR_ID :: u32 where [caps_consts]:
  "LDAC_VENDOR_ID = 0x12D"

definition LDAC_CODEC_ID :: u16 where [caps_consts]:
  "LDAC_CODEC_ID = 0xAA"

definition APTXHD_VENDOR_ID :: u32 where [caps_consts]:
  "APTXHD_VENDOR_ID = 0xD7"

definition APTXHD_CODEC_ID :: u16 where [caps_consts]:
  "APTXHD_CODEC_ID = 0x24"

definition APTXLL_VENDOR_ID :: u32 where [caps_consts]:
  "APTXLL_VENDOR_ID = 0xA"

definition APTXLL_VENDOR_ID2 :: u32 where [caps_consts]:
  "APTXLL_VENDOR_ID2 = 0xD7"

definition APTXLL_CODEC_ID :: u16 where [caps_consts]:
  "APTXLL_CODEC_ID = 0x2"

definition APTX_VENDOR_ID :: u32 where [caps_consts]:
  "APTX_VENDOR_ID = 0x4F"

definition APTX_CODEC_ID :: u16 where [caps_consts]:
  "APTX_CODEC_ID = 0x1"

definition APTXAD_VENDOR_ID :: u32 where [caps_consts]:
  "APTXAD_VENDOR_ID = 0xD7"

definition APTXAD_CODEC_ID :: u16 where [caps_consts]:
  "APTXAD_CODEC_ID = 0xAD"

definition LHDCV5_VENDOR_ID :: u32 where [caps_consts]:
  "LHDCV5_VENDOR_ID = 0x53A"

definition LHDCV5_CODEC_ID :: u16 where [caps_consts]:
  "LHDCV5_CODEC_ID = 0x4C35"

definition OPUS_VENDOR_ID :: u32 where [caps_consts]:
  "OPUS_VENDOR_ID = 0xE0"

definition OPUS_CODEC_ID :: u16 where [caps_consts]:
  "OPUS_CODEC_ID = 0x1"

definition OPUS05_VENDOR_ID :: u32 where [caps_consts]:
  "OPUS05_VENDOR_ID = 0x5F1"

definition OPUS05_CODEC_ID :: u16 where [caps_consts]:
  "OPUS05_CODEC_ID = 0x1005"

definition FASTSTREAM_VENDOR_ID :: u32 where [caps_consts]:
  "FASTSTREAM_VENDOR_ID = 0xA"

definition FASTSTREAM_CODEC_ID :: u16 where [caps_consts]:
  "FASTSTREAM_CODEC_ID = 0x1"

definition CODEC_TYPE_SBC :: u8 where [caps_consts]:
  "CODEC_TYPE_SBC = 0x0"

definition CODEC_TYPE_AAC :: u8 where [caps_consts]:
  "CODEC_TYPE_AAC = 0x2"

definition CODEC_TYPE_VENDOR :: u8 where [caps_consts]:
  "CODEC_TYPE_VENDOR = 0xFF"

definition LDAC_FREQ_ALL :: u8 where [caps_consts]:
  "LDAC_FREQ_ALL = 0x3C"

definition LDAC_RATES :: "(u8 \<times> u32) list" where [caps_consts]:
  "LDAC_RATES = [(0x4, 96000), (0x8, 88200), (0x10, 48000), (0x20, 44100)]"

definition LDAC_CH_ALL :: u8 where [caps_consts]:
  "LDAC_CH_ALL = 0x7"

definition APTX_FREQ_44100 :: u8 where [caps_consts]:
  "APTX_FREQ_44100 = 0x20"

definition APTX_FREQ_48000 :: u8 where [caps_consts]:
  "APTX_FREQ_48000 = 0x10"

definition APTX_FREQ_MASK :: u8 where [caps_consts]:
  "APTX_FREQ_MASK = 0xF0"

definition APTX_CH_STEREO :: u8 where [caps_consts]:
  "APTX_CH_STEREO = 0x2"

definition APTX_CAPS_ALL :: u8 where [caps_consts]:
  "APTX_CAPS_ALL = APTX_FREQ_44100 OR APTX_FREQ_48000 OR APTX_CH_STEREO"

definition APTX_CONFIG_DEFAULT :: u8 where [caps_consts]:
  "APTX_CONFIG_DEFAULT = APTX_FREQ_48000 OR APTX_CH_STEREO"

definition APTXHD_INFO_LEN :: usize where [caps_consts]:
  "APTXHD_INFO_LEN = 11"

definition APTXLL_INFO_LEN :: usize where [caps_consts]:
  "APTXLL_INFO_LEN = 8"

definition APTXLL_EXT_INFO_LEN :: usize where [caps_consts]:
  "APTXLL_EXT_INFO_LEN = 17"

definition APTXLL_HAS_NEW_CAPS :: u8 where [caps_consts]:
  "APTXLL_HAS_NEW_CAPS = 0x2"

definition APTXLL_TARGET_LEVEL :: u16 where [caps_consts]:
  "APTXLL_TARGET_LEVEL = 180 * 3 div 2"

definition APTXLL_INITIAL_LEVEL :: u16 where [caps_consts]:
  "APTXLL_INITIAL_LEVEL = 360 * 3 div 2"

definition APTXLL_GOOD_LEVEL :: u16 where [caps_consts]:
  "APTXLL_GOOD_LEVEL = 180 * 3 div 2"

definition APTXLL_SRA_MAX_RATE :: u8 where [caps_consts]:
  "APTXLL_SRA_MAX_RATE = 50"

definition APTXLL_SRA_AVG_TIME :: u8 where [caps_consts]:
  "APTXLL_SRA_AVG_TIME = 1"

definition LHDCV5_INFO_LEN :: usize where [caps_consts]:
  "LHDCV5_INFO_LEN = 11"

definition LHDCV5_SR_44100 :: u8 where [caps_consts]:
  "LHDCV5_SR_44100 = 0x20"

definition LHDCV5_SR_48000 :: u8 where [caps_consts]:
  "LHDCV5_SR_48000 = 0x10"

definition LHDCV5_SR_96000 :: u8 where [caps_consts]:
  "LHDCV5_SR_96000 = 0x4"

definition LHDCV5_SR_192000 :: u8 where [caps_consts]:
  "LHDCV5_SR_192000 = 0x1"

definition LHDCV5_SR_MASK :: u8 where [caps_consts]:
  "LHDCV5_SR_MASK = 0x35"

definition LHDCV5_BITS_16 :: u8 where [caps_consts]:
  "LHDCV5_BITS_16 = 0x4"

definition LHDCV5_BITS_24 :: u8 where [caps_consts]:
  "LHDCV5_BITS_24 = 0x2"

definition LHDCV5_BITS_MASK :: u8 where [caps_consts]:
  "LHDCV5_BITS_MASK = 0x7"

definition LHDCV5_BITRATE_LIMITS_MASK :: u8 where [caps_consts]:
  "LHDCV5_BITRATE_LIMITS_MASK = 0xF0"

definition LHDCV5_VERSION_1 :: u8 where [caps_consts]:
  "LHDCV5_VERSION_1 = 0x1"

definition LHDCV5_VERSION_MASK :: u8 where [caps_consts]:
  "LHDCV5_VERSION_MASK = 0xF"

definition LHDCV5_FRAME_5MS :: u8 where [caps_consts]:
  "LHDCV5_FRAME_5MS = 0x10"

definition LHDCV5_CAPS_P8 :: u8 where [caps_consts]:
  "LHDCV5_CAPS_P8 = LHDCV5_VERSION_1 OR LHDCV5_FRAME_5MS"

definition OPUS_INFO_LEN :: usize where [caps_consts]:
  "OPUS_INFO_LEN = 7"

definition OPUS_CH_MONO :: u8 where [caps_consts]:
  "OPUS_CH_MONO = 0x1"

definition OPUS_CH_STEREO :: u8 where [caps_consts]:
  "OPUS_CH_STEREO = 0x2"

definition OPUS_CH_DUAL_MONO :: u8 where [caps_consts]:
  "OPUS_CH_DUAL_MONO = 0x4"

definition OPUS_FRAME_10MS :: u8 where [caps_consts]:
  "OPUS_FRAME_10MS = 0x8"

definition OPUS_FRAME_20MS :: u8 where [caps_consts]:
  "OPUS_FRAME_20MS = 0x10"

definition OPUS_FRAME_MASK :: u8 where [caps_consts]:
  "OPUS_FRAME_MASK = 0x18"

definition OPUS_FREQ_48000 :: u8 where [caps_consts]:
  "OPUS_FREQ_48000 = 0x80"

definition OPUS_CAPS :: u8 where [caps_consts]:
  "OPUS_CAPS = OPUS_FREQ_48000 OR OPUS_FRAME_10MS OR OPUS_FRAME_20MS OR OPUS_CH_MONO OR OPUS_CH_STEREO"

definition OPUS_CONFIG_DEFAULT :: u8 where [caps_consts]:
  "OPUS_CONFIG_DEFAULT = OPUS_FREQ_48000 OR OPUS_FRAME_20MS OR OPUS_CH_STEREO"

definition OPUS05_INFO_LEN :: usize where [caps_consts]:
  "OPUS05_INFO_LEN = 24"

definition OPUS05_MAIN :: usize where [caps_consts]:
  "OPUS05_MAIN = 6"

definition OPUS05_BIDI :: usize where [caps_consts]:
  "OPUS05_BIDI = 15"

definition OPUS05_FRAME_10MS :: u8 where [caps_consts]:
  "OPUS05_FRAME_10MS = 0x4"

definition OPUS05_FRAME_20MS :: u8 where [caps_consts]:
  "OPUS05_FRAME_20MS = 0x8"

definition OPUS05_LOCATION_STEREO :: u32 where [caps_consts]:
  "OPUS05_LOCATION_STEREO = 0x3"

definition OPUS05_MAX_BITRATE_UNITS :: u16 where [caps_consts]:
  "OPUS05_MAX_BITRATE_UNITS = 312"

definition OPUS05_BITRATE_UNIT :: u32 where [caps_consts]:
  "OPUS05_BITRATE_UNIT = 1024"

definition APTXAD_INFO_LEN :: usize where [caps_consts]:
  "APTXAD_INFO_LEN = 40"

definition APTXAD_R1_LEN :: usize where [caps_consts]:
  "APTXAD_R1_LEN = 17"

definition APTXAD_RATE_48000 :: u8 where [caps_consts]:
  "APTXAD_RATE_48000 = 0x10"

definition APTXAD_RATE_96000 :: u8 where [caps_consts]:
  "APTXAD_RATE_96000 = 0xA0"

definition APTXAD_SOURCE_TYPE_HOST :: u8 where [caps_consts]:
  "APTXAD_SOURCE_TYPE_HOST = 0x2"

definition APTXAD_CH_STEREO :: u8 where [caps_consts]:
  "APTXAD_CH_STEREO = 0x2"

definition APTXAD_CH_JOINT_STEREO :: u8 where [caps_consts]:
  "APTXAD_CH_JOINT_STEREO = 0x8"

definition APTXAD_DATA :: usize where [caps_consts]:
  "APTXAD_DATA = 8"

definition APTXAD_EXT_VERSION :: usize where [caps_consts]:
  "APTXAD_EXT_VERSION = 15"

definition APTXAD_R2_DATA_END :: usize where [caps_consts]:
  "APTXAD_R2_DATA_END = 26"

definition APTXAD_TTP_DEFAULTS :: bytes where [caps_consts]:
  "APTXAD_TTP_DEFAULTS = [0x50, 0x64, 0x64, 0x64]"

definition APTXAD_LL0_MIN :: u8 where [caps_consts]:
  "APTXAD_LL0_MIN = 0x50"

definition APTXAD_R1_DATA :: bytes where [caps_consts]:
  "APTXAD_R1_DATA = [0x50, 0x64, 0x64, 0x64, 0xFF, 0xFF, 0x0, 0x0, 0xAA]"

definition APTXAD_R2_DATA :: bytes where [caps_consts]:
  "APTXAD_R2_DATA = [0x50, 0x64, 0x64, 0x64, 0xFF, 0xFF, 0x0, 0x1, 0x92, 0x0, 0x0, 0xF, 0x2, 0x3, 0x3, 0x3, 0x0, 0xAA, 0x2]"

definition SBC_FREQ_44100 :: u8 where [caps_consts]:
  "SBC_FREQ_44100 = 0x2"

definition SBC_FREQ_48000 :: u8 where [caps_consts]:
  "SBC_FREQ_48000 = 0x1"

definition SBC_CH_DUAL :: u8 where [caps_consts]:
  "SBC_CH_DUAL = 0x4"

definition SBC_BLOCKS_16 :: u8 where [caps_consts]:
  "SBC_BLOCKS_16 = 0x1"

definition SBC_SUBBANDS_8 :: u8 where [caps_consts]:
  "SBC_SUBBANDS_8 = 0x1"

definition SBC_ALLOC_LOUDNESS :: u8 where [caps_consts]:
  "SBC_ALLOC_LOUDNESS = 0x1"

definition SBC_XQ_MIN_MAX_BITPOOL :: u8 where [caps_consts]:
  "SBC_XQ_MIN_MAX_BITPOOL = 29"

definition CAPS_SBC_MAX_BITPOOL :: u8 where [caps_consts]:
  "CAPS_SBC_MAX_BITPOOL = 53"

definition AAC_OBJ_MPEG2_LC :: u8 where [caps_consts]:
  "AAC_OBJ_MPEG2_LC = 0x40"

definition AAC_OBJ_MPEG4_LC :: u8 where [caps_consts]:
  "AAC_OBJ_MPEG4_LC = 0x20"

definition AAC_FREQ_44100 :: u16 where [caps_consts]:
  "AAC_FREQ_44100 = 0x10"

definition AAC_FREQ_48000 :: u16 where [caps_consts]:
  "AAC_FREQ_48000 = 0x8"

definition AAC_CH_1 :: u8 where [caps_consts]:
  "AAC_CH_1 = 0x8"

definition AAC_CH_2 :: u8 where [caps_consts]:
  "AAC_CH_2 = 0x4"

definition AAC_MAX_BITRATE :: u32 where [caps_consts]:
  "AAC_MAX_BITRATE = 256000"

definition FASTSTREAM_INFO_LEN :: usize where [caps_consts]:
  "FASTSTREAM_INFO_LEN = 8"

definition FASTSTREAM_DIRECTION_SINK :: u8 where [caps_consts]:
  "FASTSTREAM_DIRECTION_SINK = 0x1"

definition FASTSTREAM_SINK_44100 :: u8 where [caps_consts]:
  "FASTSTREAM_SINK_44100 = 0x2"

definition FASTSTREAM_SINK_48000 :: u8 where [caps_consts]:
  "FASTSTREAM_SINK_48000 = 0x1"

definition FASTSTREAM_SINK_MASK :: u8 where [caps_consts]:
  "FASTSTREAM_SINK_MASK = 0x3"

end
