(* ===== verification/Remote_Caps.thy ===== *)
theory Remote_Caps
  imports Caps_Consts
begin

text \<open>
  The capabilities of a sink, \<^verbatim>\<open>app/src/crates/codec/src/caps.rs\<close>: the SBC and AAC
  capability bitmaps, the local stream endpoints, the record \<^verbatim>\<open>RemoteCaps\<close> with the
  operations discovery drives (\<open>add_sbc_caps\<close>, \<open>add_aac_caps\<close>, \<open>add_vendor\<close>, ...), what it lists
  per codec, the widened (\<open>unlisted\<close>) and forced (\<open>forcing\<close>) capabilities and the sample rate
  pickers. Logging is left out; the cargo features are the record \<open>features\<close>.
\<close>

subsection \<open>SBC and AAC capabilities\<close>

record sbc_capabilities =
  sbcc_sampling_frequency :: u8
  sbcc_channel_mode :: u8
  sbcc_block_length :: u8
  sbcc_subbands :: u8
  sbcc_allocation_method :: u8
  sbcc_min_bitpool :: u8
  sbcc_max_bitpool :: u8

definition default_sbc_capabilities :: sbc_capabilities where
  "default_sbc_capabilities = \<lparr> sbcc_sampling_frequency = 0, sbcc_channel_mode = 0, sbcc_block_length = 0,
     sbcc_subbands = 0, sbcc_allocation_method = 0, sbcc_min_bitpool = 0, sbcc_max_bitpool = 0 \<rparr>"

definition xq_refusal :: "sbc_capabilities \<Rightarrow> string option" where
  "xq_refusal c =
     (if sbcc_channel_mode c AND SBC_CH_DUAL = 0 then Some ''no dual channel''
      else if sbcc_block_length c AND SBC_BLOCKS_16 = 0 then Some ''no 16 blocks''
      else if sbcc_subbands c AND SBC_SUBBANDS_8 = 0 then Some ''no 8 subbands''
      else if sbcc_allocation_method c AND SBC_ALLOC_LOUDNESS = 0 then Some ''no loudness allocation''
      else if sbcc_sampling_frequency c AND (SBC_FREQ_44100 OR SBC_FREQ_48000) = 0
      then Some ''neither 44.1 nor 48 kHz''
      else if sbcc_max_bitpool c < SBC_XQ_MIN_MAX_BITPOOL then Some ''largest bitpool below 29''
      else if sbcc_min_bitpool c > SBC_XQ_MIN_MAX_BITPOOL then Some ''smallest bitpool above 29''
      else None)"

definition allows_xq :: "sbc_capabilities \<Rightarrow> bool" where
  "allows_xq c \<longleftrightarrow> xq_refusal c = None"

definition offered :: "u16 \<Rightarrow> (u16 \<times> 'a) list \<Rightarrow> 'a list" where
  "offered bits table = map snd (filter (\<lambda>(b, _). bits AND b \<noteq> 0) table)"

definition sbc_sample_rates :: "sbc_capabilities \<Rightarrow> u32 list" where
  "sbc_sample_rates c =
     offered (ucast (sbcc_sampling_frequency c)) [(0x08, 16000), (0x04, 32000), (0x02, 44100), (0x01, 48000)]"

definition channel_modes :: "sbc_capabilities \<Rightarrow> channel_mode list" where
  "channel_modes c =
     offered (ucast (sbcc_channel_mode c)) [(0x08, Mono), (0x04, DualChannel), (0x02, Stereo), (0x01, JointStereo)]"

definition block_lengths :: "sbc_capabilities \<Rightarrow> u8 list" where
  "block_lengths c = offered (ucast (sbcc_block_length c)) [(0x08, 4), (0x04, 8), (0x02, 12), (0x01, 16)]"

definition subband_counts :: "sbc_capabilities \<Rightarrow> u8 list" where
  "subband_counts c = offered (ucast (sbcc_subbands c)) [(0x02, 4), (0x01, 8)]"

definition allocations :: "sbc_capabilities \<Rightarrow> allocation list" where
  "allocations c = offered (ucast (sbcc_allocation_method c)) [(0x02, Snr), (0x01, Loudness)]"

record aac_capabilities =
  aacc_object_types :: u8
  aacc_sampling_frequency :: u16
  aacc_channels :: u8
  aacc_bit_rate :: u32
  aacc_vbr :: bool

definition aac_usable :: "aac_capabilities \<Rightarrow> bool" where
  "aac_usable c \<longleftrightarrow>
     aacc_object_types c AND (AAC_OBJ_MPEG2_LC OR AAC_OBJ_MPEG4_LC) \<noteq> 0
     \<and> aacc_sampling_frequency c AND (AAC_FREQ_44100 OR AAC_FREQ_48000) \<noteq> 0
     \<and> aacc_channels c AND (AAC_CH_1 OR AAC_CH_2) \<noteq> 0"

definition object_type_names :: "aac_capabilities \<Rightarrow> string list" where
  "object_type_names c = offered (ucast (aacc_object_types c))
     [(0x40, ''MPEG-2 AAC-LC''), (0x20, ''MPEG-4 AAC-LC''), (0x10, ''MPEG-4 AAC-LTP''),
      (0x08, ''MPEG-4 AAC scalable''), (0x04, ''MPEG-4 HE-AAC''), (0x02, ''MPEG-4 HE-AAC v2''),
      (0x01, ''MPEG-4 AAC-ELD v2'')]"

definition aac_sample_rates :: "aac_capabilities \<Rightarrow> u32 list" where
  "aac_sample_rates c = offered (aacc_sampling_frequency c)
     [(0x800, 8000), (0x400, 11025), (0x200, 12000), (0x100, 16000), (0x080, 22050), (0x040, 24000),
      (0x020, 32000), (0x010, 44100), (0x008, 48000), (0x004, 64000), (0x002, 88200), (0x001, 96000)]"

definition channel_counts :: "aac_capabilities \<Rightarrow> u8 list" where
  "channel_counts c = offered (ucast (aacc_channels c)) [(ucast AAC_CH_1, 1), (ucast AAC_CH_2, 2)]"

datatype aac_object_type = Mpeg2Lc | Mpeg4Lc

fun aac_object_type_name :: "aac_object_type \<Rightarrow> string" where
  "aac_object_type_name Mpeg2Lc = ''MPEG-2 AAC-LC''"
| "aac_object_type_name Mpeg4Lc = ''MPEG-4 AAC-LC''"

definition endpoint_kind :: "codec_kind \<Rightarrow> codec_kind" where
  "endpoint_kind k = (if k = SbcXq then Sbc else k)"

subsection \<open>Vendor codec information and local endpoints\<close>

definition vendor_header :: "u32 \<Rightarrow> u16 \<Rightarrow> bytes" where
  "vendor_header vendor_id codec_id = le32_bytes vendor_id @ le16_bytes codec_id"

definition read_vendor :: "bytes \<Rightarrow> (u32 \<times> u16) option" where
  "read_vendor info =
     (if length info < 6 then None
      else Some (of_le32 (info ! 0) (info ! 1) (info ! 2) (info ! 3), of_le16 (info ! 4) (info ! 5)))"

definition aptxad_element :: "u8 \<Rightarrow> u8 \<Rightarrow> bytes \<Rightarrow> bytes" where
  "aptxad_element rate mode data =
     resize0 (vendor_header APTXAD_VENDOR_ID APTXAD_CODEC_ID @ [rate, mode] @ data) APTXAD_INFO_LEN"

definition opus05_direction :: "u8 \<Rightarrow> u8 \<Rightarrow> u32 \<Rightarrow> u8 \<Rightarrow> u16 \<Rightarrow> bytes" where
  "opus05_direction channels coupled location frames bitrate =
     [channels, coupled] @ le32_bytes location @ [frames] @ le16_bytes bitrate"

record local_endpoint =
  ep_kind :: codec_kind
  ep_codec_type :: u8
  ep_caps :: bytes
  ep_config :: bytes

definition vendor_endpoint :: "codec_kind \<Rightarrow> u32 \<Rightarrow> u16 \<Rightarrow> usize \<Rightarrow> bytes \<Rightarrow> bytes \<Rightarrow> local_endpoint" where
  "vendor_endpoint k vid cid len caps_tail config_tail =
     \<lparr> ep_kind = k, ep_codec_type = CODEC_TYPE_VENDOR,
       ep_caps = resize0 (vendor_header vid cid @ caps_tail) len,
       ep_config = resize0 (vendor_header vid cid @ config_tail) len \<rparr>"

definition local_endpoints :: "features \<Rightarrow> local_endpoint list" where
  "local_endpoints f =
     (if available f Ldac
      then [vendor_endpoint Ldac LDAC_VENDOR_ID LDAC_CODEC_ID 8 [LDAC_FREQ_ALL, LDAC_CH_ALL] [0x10, 0x01]] else [])
     @ (if available f AptxHd
        then [vendor_endpoint AptxHd APTXHD_VENDOR_ID APTXHD_CODEC_ID APTXHD_INFO_LEN [APTX_CAPS_ALL] [APTX_CONFIG_DEFAULT],
              vendor_endpoint Aptx APTX_VENDOR_ID APTX_CODEC_ID 7 [APTX_CAPS_ALL] [APTX_CONFIG_DEFAULT],
              vendor_endpoint AptxLl APTXLL_VENDOR_ID APTXLL_CODEC_ID APTXLL_INFO_LEN [APTX_CAPS_ALL] [APTX_CONFIG_DEFAULT]]
        else [])
     @ [\<lparr> ep_kind = Sbc, ep_codec_type = CODEC_TYPE_SBC, ep_caps = [0x3F, 0xFF, 2, 53], ep_config = [0x11, 0x15, 2, 53] \<rparr>]
     @ (if available f Aac
        then [\<lparr> ep_kind = Aac, ep_codec_type = CODEC_TYPE_AAC, ep_caps = [0xC0, 0x01, 0x8C, 0x03, 0xE8, 0x00],
                ep_config = [0x80, 0x01, 0x04, 0x03, 0xE8, 0x00] \<rparr>] else [])
     @ (if available f LhdcV5
        then [vendor_endpoint LhdcV5 LHDCV5_VENDOR_ID LHDCV5_CODEC_ID LHDCV5_INFO_LEN
                [LHDCV5_SR_MASK, LHDCV5_BITS_16 OR LHDCV5_BITS_24, LHDCV5_CAPS_P8]
                [LHDCV5_SR_48000, LHDCV5_BITS_24, LHDCV5_CAPS_P8]] else [])
     @ [vendor_endpoint FastStream FASTSTREAM_VENDOR_ID FASTSTREAM_CODEC_ID FASTSTREAM_INFO_LEN
          [FASTSTREAM_DIRECTION_SINK, FASTSTREAM_SINK_44100 OR FASTSTREAM_SINK_48000]
          [FASTSTREAM_DIRECTION_SINK, FASTSTREAM_SINK_48000]]
     @ (if available f Opus
        then [vendor_endpoint Opus OPUS_VENDOR_ID OPUS_CODEC_ID OPUS_INFO_LEN [OPUS_CAPS] [OPUS_CONFIG_DEFAULT]] else [])
     @ (if available f Opus05
        then [vendor_endpoint Opus05 OPUS05_VENDOR_ID OPUS05_CODEC_ID OPUS05_INFO_LEN
                (opus05_direction 2 0 OPUS05_LOCATION_STEREO (OPUS05_FRAME_10MS OR OPUS05_FRAME_20MS) 0)
                (opus05_direction 2 1 OPUS05_LOCATION_STEREO OPUS05_FRAME_10MS OPUS05_MAX_BITRATE_UNITS)] else [])
     @ (if available f AptxAdaptive
        then [\<lparr> ep_kind = AptxAdaptive, ep_codec_type = CODEC_TYPE_VENDOR,
                ep_caps = aptxad_element (APTXAD_RATE_48000 OR APTXAD_SOURCE_TYPE_HOST)
                  (APTXAD_CH_STEREO OR APTXAD_CH_JOINT_STEREO) APTXAD_R1_DATA,
                ep_config = aptxad_element (APTXAD_RATE_48000 OR APTXAD_SOURCE_TYPE_HOST)
                  APTXAD_CH_STEREO APTXAD_R1_DATA \<rparr>] else [])"

subsection \<open>The capabilities of a sink\<close>

record remote_sep =
  sep_seid :: u8

record remote_caps =
  rc_sbc :: "remote_sep option"
  rc_sbc_caps :: "sbc_capabilities option"
  rc_aac :: "remote_sep option"
  rc_aac_caps :: "aac_capabilities option"
  rc_ldac :: "remote_sep option"
  rc_ldac_rates :: u8
  rc_aptx :: "remote_sep option"
  rc_aptx_hd :: "remote_sep option"
  rc_aptx_ll :: "remote_sep option"
  rc_lhdcv5 :: "remote_sep option"
  rc_opus :: "remote_sep option"
  rc_opus05 :: "remote_sep option"
  rc_faststream :: "remote_sep option"
  rc_faststream_rates :: u8
  rc_aptx_caps :: u8
  rc_aptxhd_caps :: u8
  rc_aptxll_caps :: u8
  rc_aptxll_vendor_id :: u32
  rc_aptxll_info :: bytes
  rc_aptx_adaptive :: bool
  rc_aptxad :: "remote_sep option"
  rc_aptxad_info :: bytes
  rc_lhdcv5_info :: bytes
  rc_opus_caps :: u8
  rc_opus05_channels :: u8
  rc_opus05_frames :: u8
  rc_opus05_bitrate :: u16
  rc_opus05_bidi :: bool
  rc_audio_sinks :: u8
  rc_audio_sinks_in_use :: u8
  rc_ignored :: "(codec_kind \<times> remote_sep) list"

definition default_caps :: remote_caps where
  "default_caps = \<lparr> rc_sbc = None, rc_sbc_caps = None, rc_aac = None, rc_aac_caps = None, rc_ldac = None,
     rc_ldac_rates = 0, rc_aptx = None, rc_aptx_hd = None, rc_aptx_ll = None, rc_lhdcv5 = None, rc_opus = None,
     rc_opus05 = None, rc_faststream = None, rc_faststream_rates = 0, rc_aptx_caps = 0, rc_aptxhd_caps = 0,
     rc_aptxll_caps = 0, rc_aptxll_vendor_id = 0, rc_aptxll_info = [], rc_aptx_adaptive = False,
     rc_aptxad = None, rc_aptxad_info = [], rc_lhdcv5_info = replicate LHDCV5_INFO_LEN 0, rc_opus_caps = 0,
     rc_opus05_channels = 0, rc_opus05_frames = 0, rc_opus05_bitrate = 0, rc_opus05_bidi = False,
     rc_audio_sinks = 0, rc_audio_sinks_in_use = 0, rc_ignored = [] \<rparr>"

datatype vendor_capability =
    Taken codec_kind
  | Ignored codec_kind string
  | AptxAdaptiveSeen
  | Unknown u32 u16
  | TooShort

fun caps_sep :: "remote_caps \<Rightarrow> codec_kind \<Rightarrow> remote_sep option" where
  "caps_sep r Sbc = rc_sbc r"
| "caps_sep r SbcXq =
     (case rc_sbc_caps r of Some c \<Rightarrow> if allows_xq c then rc_sbc r else None | None \<Rightarrow> None)"
| "caps_sep r Aac =
     (case rc_aac_caps r of Some c \<Rightarrow> if aac_usable c then rc_aac r else None | None \<Rightarrow> rc_aac r)"
| "caps_sep r Ldac = rc_ldac r"
| "caps_sep r Aptx = rc_aptx r"
| "caps_sep r AptxHd = rc_aptx_hd r"
| "caps_sep r AptxLl = rc_aptx_ll r"
| "caps_sep r LhdcV5 = rc_lhdcv5 r"
| "caps_sep r Opus = rc_opus r"
| "caps_sep r Opus05 = rc_opus05 r"
| "caps_sep r FastStream = rc_faststream r"
| "caps_sep r AptxAdaptive = rc_aptxad r"

definition caps_has :: "remote_caps \<Rightarrow> codec_kind \<Rightarrow> bool" where
  "caps_has r k \<longleftrightarrow> caps_sep r k \<noteq> None"

definition add_sbc :: "remote_caps \<Rightarrow> u8 \<Rightarrow> remote_caps" where
  "add_sbc r seid = r\<lparr> rc_sbc := Some \<lparr> sep_seid = seid \<rparr>, rc_sbc_caps := None \<rparr>"

definition add_sbc_caps :: "remote_caps \<Rightarrow> u8 \<Rightarrow> sbc_capabilities \<Rightarrow> remote_caps" where
  "add_sbc_caps r seid caps =
     (if (case rc_sbc_caps r of Some c \<Rightarrow> allows_xq c | None \<Rightarrow> False) \<and> \<not> allows_xq caps then r
      else r\<lparr> rc_sbc := Some \<lparr> sep_seid = seid \<rparr>, rc_sbc_caps := Some caps \<rparr>)"

definition sbc_max_bitpool :: "remote_caps \<Rightarrow> u8" where
  "sbc_max_bitpool r = (case rc_sbc_caps r of Some c \<Rightarrow> sbcc_max_bitpool c | None \<Rightarrow> 0)"

definition sbc_min_bitpool :: "remote_caps \<Rightarrow> u8" where
  "sbc_min_bitpool r = (case rc_sbc_caps r of Some c \<Rightarrow> sbcc_min_bitpool c | None \<Rightarrow> 0)"

definition sbc_bitpool_range :: "remote_caps \<Rightarrow> u8 \<Rightarrow> u8 \<times> u8" where
  "sbc_bitpool_range r cap =
     (let (mn, mx) = (case rc_sbc_caps r of Some c \<Rightarrow> (sbcc_min_bitpool c, sbcc_max_bitpool c) | None \<Rightarrow> (2, cap));
          mx = max (min cap mx) 2
      in (min (max mn 2) mx, mx))"

text \<open>The names Rust's derived \<^verbatim>\<open>Debug\<close> prints, for the notes.\<close>

fun debug_channel_mode :: "channel_mode \<Rightarrow> string" where
  "debug_channel_mode Mono = ''Mono''"
| "debug_channel_mode DualChannel = ''DualChannel''"
| "debug_channel_mode Stereo = ''Stereo''"
| "debug_channel_mode JointStereo = ''JointStereo''"

fun debug_allocation :: "allocation \<Rightarrow> string" where
  "debug_allocation Loudness = ''Loudness''"
| "debug_allocation Snr = ''Snr''"

definition params_sanitised :: "codec_kind \<Rightarrow> sbc_params \<Rightarrow> sbc_params \<times> string list" where
  "params_sanitised k wanted =
     (let (p, notes) =
        (if k = SbcXq then (wanted\<lparr> sp_channel_mode := None \<rparr>, [])
         else if sp_channel_mode wanted = Some DualChannel
         then (wanted\<lparr> sp_channel_mode := None \<rparr>, [''SBC: dual channel is SBC XQ'' @ [CHR 0x27] @ ''s, using JointStereo''])
         else (wanted, []));
          p = (if sp_blocks p \<in> {0, 4, 8, 12, 16} then p else p\<lparr> sp_blocks := 0 \<rparr>);
          p = (if sp_subbands p \<in> {0, 4, 8} then p else p\<lparr> sp_subbands := 0 \<rparr>)
      in (p, notes))"

definition caps_sbc_params :: "remote_caps \<Rightarrow> codec_kind \<Rightarrow> sbc_params \<Rightarrow> sbc_params \<times> string list" where
  "caps_sbc_params r k wanted =
     (let (p, notes) = params_sanitised k wanted
      in case rc_sbc_caps r of
           None \<Rightarrow> (p, notes)
         | Some c \<Rightarrow>
             let name = codec_name k;
                 (p, notes) =
                   (if sp_blocks p \<noteq> 0 \<and> sp_blocks p \<notin> set (block_lengths c)
                    then (p\<lparr> sp_blocks := 0 \<rparr>, notes @ [name @ '': the device does not list '' @ show_nat (unat (sp_blocks p))
                          @ '' blocks, using '' @ show_nat (unat (params_blocks default_sbc_params))])
                    else (p, notes));
                 (p, notes) =
                   (if sp_subbands p \<noteq> 0 \<and> sp_subbands p \<notin> set (subband_counts c)
                    then (p\<lparr> sp_subbands := 0 \<rparr>, notes @ [name @ '': the device does not list '' @ show_nat (unat (sp_subbands p))
                          @ '' subbands, using '' @ show_nat (unat (params_subbands default_sbc_params))])
                    else (p, notes));
                 (p, notes) =
                   (case sp_allocation p of
                      Some a \<Rightarrow>
                        if a \<notin> set (allocations c)
                        then (p\<lparr> sp_allocation := None \<rparr>, notes @ [name @ '': the device does not list ''
                                @ debug_allocation a @ '' allocation, using Loudness''])
                        else (p, notes)
                    | None \<Rightarrow> (p, notes))
             in (case sp_channel_mode p of
                   Some m \<Rightarrow>
                     if m \<notin> set (channel_modes c)
                     then (p\<lparr> sp_channel_mode := None \<rparr>, notes @ [name @ '': the device does not list ''
                             @ debug_channel_mode m @ '', using JointStereo''])
                     else (p, notes)
                 | None \<Rightarrow> (p, notes)))"

definition add_aac :: "remote_caps \<Rightarrow> u8 \<Rightarrow> remote_caps" where
  "add_aac r seid = r\<lparr> rc_aac := Some \<lparr> sep_seid = seid \<rparr>, rc_aac_caps := None \<rparr>"

definition add_aac_caps :: "remote_caps \<Rightarrow> u8 \<Rightarrow> aac_capabilities \<Rightarrow> remote_caps" where
  "add_aac_caps r seid caps =
     (if (case rc_aac_caps r of Some c \<Rightarrow> aac_usable c | None \<Rightarrow> False) then r
      else r\<lparr> rc_aac := Some \<lparr> sep_seid = seid \<rparr>, rc_aac_caps := Some caps \<rparr>)"

definition aac_max_bitrate :: "remote_caps \<Rightarrow> u32" where
  "aac_max_bitrate r =
     (let b = (case rc_aac_caps r of Some c \<Rightarrow> aacc_bit_rate c | None \<Rightarrow> 0)
      in if b = 0 then AAC_MAX_BITRATE else min b AAC_MAX_BITRATE)"

definition aac_vbr :: "remote_caps \<Rightarrow> bool" where
  "aac_vbr r = (case rc_aac_caps r of Some c \<Rightarrow> aacc_vbr c | None \<Rightarrow> False)"

definition pick_aac_sample_rate :: "remote_caps \<Rightarrow> u32 \<Rightarrow> u32" where
  "pick_aac_sample_rate r wanted =
     (let freqs = (case rc_aac_caps r of Some c \<Rightarrow> aacc_sampling_frequency c | None \<Rightarrow> AAC_FREQ_44100 OR AAC_FREQ_48000);
          has441 = bit_set freqs AAC_FREQ_44100;
          has48 = bit_set freqs AAC_FREQ_48000
      in if (wanted = 44100 \<and> has441) \<or> \<not> has48 then 44100 else 48000)"

subsection \<open>Vendor codec capabilities\<close>

text \<open>One definition per branch of \<^verbatim>\<open>take_vendor\<close>, then the dispatch in the source's order.\<close>

type_synonym vendor_take = "remote_caps \<times> vendor_capability"

definition take_ldac :: "remote_caps \<Rightarrow> u8 \<Rightarrow> bytes \<Rightarrow> vendor_take" where
  "take_ldac r seid info =
     (r\<lparr> rc_ldac := Some \<lparr> sep_seid = seid \<rparr>, rc_ldac_rates := byte_or0 info 6 AND LDAC_FREQ_ALL \<rparr>, Taken Ldac)"

definition take_aptxhd :: "remote_caps \<Rightarrow> u8 \<Rightarrow> bytes \<Rightarrow> vendor_take" where
  "take_aptxhd r seid info =
     (let caps = byte_or0 info 6
      in if 7 \<le> length info \<and> caps AND APTX_CH_STEREO = 0 then (r, Ignored AptxHd ''no stereo'')
         else (r\<lparr> rc_aptx_hd := Some \<lparr> sep_seid = seid \<rparr>, rc_aptxhd_caps := caps \<rparr>, Taken AptxHd))"

definition take_aptxll :: "remote_caps \<Rightarrow> u8 \<Rightarrow> u32 \<Rightarrow> bytes \<Rightarrow> vendor_take" where
  "take_aptxll r seid vid info =
     (let caps = byte_or0 info 6
      in if 7 \<le> length info \<and> caps AND APTX_CH_STEREO = 0 then (r, Ignored AptxLl ''no stereo'')
         else (if rc_aptx_ll r = None
               then r\<lparr> rc_aptx_ll := Some \<lparr> sep_seid = seid \<rparr>, rc_aptxll_caps := caps, rc_aptxll_vendor_id := vid,
                       rc_aptxll_info := take APTXLL_EXT_INFO_LEN info \<rparr>
               else r, Taken AptxLl))"

definition take_aptxad :: "features \<Rightarrow> remote_caps \<Rightarrow> u8 \<Rightarrow> bytes \<Rightarrow> vendor_take" where
  "take_aptxad f r seid info =
     (let r = r\<lparr> rc_aptx_adaptive := True \<rparr>
      in if \<not> available f AptxAdaptive then (r, AptxAdaptiveSeen)
         else if \<not> (APTXAD_R1_LEN \<le> length info \<and> bit_set (byte_or0 info 6) APTXAD_RATE_48000
                    \<and> bit_set (byte_or0 info 7) (APTXAD_CH_STEREO OR APTXAD_CH_JOINT_STEREO))
         then (r, Ignored AptxAdaptive ''no 48 kHz stereo'')
         else (if rc_aptxad r = None
               then r\<lparr> rc_aptxad := Some \<lparr> sep_seid = seid \<rparr>, rc_aptxad_info := take APTXAD_INFO_LEN info \<rparr>
               else r, Taken AptxAdaptive))"

definition take_lhdcv5 :: "features \<Rightarrow> remote_caps \<Rightarrow> u8 \<Rightarrow> bytes \<Rightarrow> vendor_take" where
  "take_lhdcv5 f r seid info =
     (let usable = (LHDCV5_INFO_LEN \<le> length info \<and> bit_set (info ! 6) LHDCV5_SR_MASK
              \<and> bit_set (info ! 7) (LHDCV5_BITS_16 OR LHDCV5_BITS_24)
              \<and> info ! 8 AND LHDCV5_VERSION_MASK AND LHDCV5_VERSION_1 \<noteq> 0 \<and> bit_set (info ! 8) LHDCV5_FRAME_5MS)
      in if \<not> usable \<or> \<not> available f LhdcV5 then (r, Ignored LhdcV5 ''version / frame length / rates'')
         else (if rc_lhdcv5 r = None
               then r\<lparr> rc_lhdcv5 := Some \<lparr> sep_seid = seid \<rparr>, rc_lhdcv5_info := take LHDCV5_INFO_LEN info \<rparr>
               else r, Taken LhdcV5))"

definition take_opus :: "remote_caps \<Rightarrow> u8 \<Rightarrow> bytes \<Rightarrow> vendor_take" where
  "take_opus r seid info =
     (let caps = byte_or0 info 6
      in if \<not> (OPUS_INFO_LEN \<le> length info \<and> bit_set caps OPUS_FREQ_48000 \<and> bit_set caps OPUS_FRAME_MASK
              \<and> bit_set caps (OPUS_CH_MONO OR OPUS_CH_STEREO))
         then (r, Ignored Opus ''no 48 kHz / frame duration / mono or stereo'')
         else (if rc_opus r = None then r\<lparr> rc_opus := Some \<lparr> sep_seid = seid \<rparr>, rc_opus_caps := caps \<rparr> else r, Taken Opus))"

definition take_opus05 :: "remote_caps \<Rightarrow> u8 \<Rightarrow> bytes \<Rightarrow> vendor_take" where
  "take_opus05 r seid info =
     (let channels = byte_or0 info OPUS05_MAIN; frames = byte_or0 info (OPUS05_MAIN + 6)
      in if length info < OPUS05_INFO_LEN \<or> channels = 0 \<or> frames AND (OPUS05_FRAME_10MS OR OPUS05_FRAME_20MS) = 0
         then (r, Ignored Opus05 ''no music direction with 10 / 20 ms frames'')
         else let bidi = (byte_or0 info OPUS05_BIDI \<noteq> 0)
              in (if rc_opus05 r = None \<or> (rc_opus05_bidi r \<and> \<not> bidi)
                  then r\<lparr> rc_opus05 := Some \<lparr> sep_seid = seid \<rparr>, rc_opus05_channels := channels,
                          rc_opus05_frames := frames,
                          rc_opus05_bitrate := of_le16 (byte_or0 info (OPUS05_MAIN + 7)) (byte_or0 info (OPUS05_MAIN + 8)),
                          rc_opus05_bidi := bidi \<rparr>
                  else r, Taken Opus05))"

definition take_faststream :: "remote_caps \<Rightarrow> u8 \<Rightarrow> bytes \<Rightarrow> vendor_take" where
  "take_faststream r seid info =
     (let rates = byte_or0 info 7 AND FASTSTREAM_SINK_MASK
      in if length info < FASTSTREAM_INFO_LEN \<or> byte_or0 info 6 AND FASTSTREAM_DIRECTION_SINK = 0 \<or> rates = 0
         then (r, Ignored FastStream ''no music direction at 44.1 / 48 kHz'')
         else (if rc_faststream r = None
               then r\<lparr> rc_faststream := Some \<lparr> sep_seid = seid \<rparr>, rc_faststream_rates := rates \<rparr>
               else r, Taken FastStream))"

definition take_aptx :: "remote_caps \<Rightarrow> u8 \<Rightarrow> bytes \<Rightarrow> vendor_take" where
  "take_aptx r seid info =
     (let caps = byte_or0 info 6
      in if 7 \<le> length info \<and> caps AND APTX_CH_STEREO = 0 then (r, Ignored Aptx ''no stereo'')
         else (r\<lparr> rc_aptx := Some \<lparr> sep_seid = seid \<rparr>, rc_aptx_caps := caps \<rparr>, Taken Aptx))"

definition take_vendor :: "features \<Rightarrow> remote_caps \<Rightarrow> u8 \<Rightarrow> bytes \<Rightarrow> vendor_take" where
  "take_vendor f r seid info =
     (case read_vendor info of
        None \<Rightarrow> (r, TooShort)
      | Some (vid, cid) \<Rightarrow>
          if vid = LDAC_VENDOR_ID \<and> cid = LDAC_CODEC_ID then take_ldac r seid info
          else if vid = APTXHD_VENDOR_ID \<and> cid = APTXHD_CODEC_ID then take_aptxhd r seid info
          else if (vid = APTXLL_VENDOR_ID \<or> vid = APTXLL_VENDOR_ID2) \<and> cid = APTXLL_CODEC_ID
          then take_aptxll r seid vid info
          else if vid = APTXAD_VENDOR_ID \<and> cid = APTXAD_CODEC_ID then take_aptxad f r seid info
          else if vid = LHDCV5_VENDOR_ID \<and> cid = LHDCV5_CODEC_ID then take_lhdcv5 f r seid info
          else if vid = OPUS_VENDOR_ID \<and> cid = OPUS_CODEC_ID then take_opus r seid info
          else if vid = OPUS05_VENDOR_ID \<and> cid = OPUS05_CODEC_ID then take_opus05 r seid info
          else if vid = FASTSTREAM_VENDOR_ID \<and> cid = FASTSTREAM_CODEC_ID then take_faststream r seid info
          else if vid = APTX_VENDOR_ID \<and> cid = APTX_CODEC_ID then take_aptx r seid info
          else (r, Unknown vid cid))"

definition add_vendor :: "features \<Rightarrow> remote_caps \<Rightarrow> u8 \<Rightarrow> bytes \<Rightarrow> vendor_take" where
  "add_vendor f r seid info =
     (let (r', taken) = take_vendor f r seid info
      in case taken of
           Ignored k _ \<Rightarrow> (r'\<lparr> rc_ignored := rc_ignored r' @ [(k, \<lparr> sep_seid = seid \<rparr>)] \<rparr>, taken)
         | _ \<Rightarrow> (r', taken))"

subsection \<open>What the sink lists\<close>

definition lhdcv5_rates :: "remote_caps \<Rightarrow> u8" where
  "lhdcv5_rates r = rc_lhdcv5_info r ! 6 AND LHDCV5_SR_MASK"

definition lhdcv5_24bit :: "remote_caps \<Rightarrow> bool" where
  "lhdcv5_24bit r = bit_set (rc_lhdcv5_info r ! 7) LHDCV5_BITS_24"

definition lhdcv5_bitrate_limits :: "remote_caps \<Rightarrow> u8" where
  "lhdcv5_bitrate_limits r = rc_lhdcv5_info r ! 7 AND LHDCV5_BITRATE_LIMITS_MASK"

definition aptxad_r2 :: "remote_caps \<Rightarrow> bool" where
  "aptxad_r2 r \<longleftrightarrow> APTXAD_EXT_VERSION < length (rc_aptxad_info r) \<and> rc_aptxad_info r ! APTXAD_EXT_VERSION = 1"

definition aptxad_96k :: "remote_caps \<Rightarrow> bool" where
  "aptxad_96k r \<longleftrightarrow> aptxad_r2 r \<and> 6 < length (rc_aptxad_info r) \<and> bit_set (rc_aptxad_info r ! 6) APTXAD_RATE_96000"

definition from_bits :: "(u8 \<times> u32) list \<Rightarrow> u8 \<Rightarrow> u32 list" where
  "from_bits table bits = sort (map snd (filter (\<lambda>(b, _). bit_set bits b) table))"

definition aptx_listed :: "u8 \<Rightarrow> u32 list" where
  "aptx_listed caps =
     (let f = caps AND APTX_FREQ_MASK
      in if f = 0 then [44100, 48000] else from_bits [(APTX_FREQ_44100, 44100), (APTX_FREQ_48000, 48000)] f)"

definition listed_sample_rates :: "remote_caps \<Rightarrow> codec_kind \<Rightarrow> u32 list" where
  "listed_sample_rates r k =
     (if \<not> caps_has r k then []
      else case k of
        Sbc \<Rightarrow> (case rc_sbc_caps r of Some c \<Rightarrow> sbc_sample_rates c | None \<Rightarrow> [])
      | SbcXq \<Rightarrow> (case rc_sbc_caps r of Some c \<Rightarrow> sbc_sample_rates c | None \<Rightarrow> [])
      | Aac \<Rightarrow> (case rc_aac_caps r of Some c \<Rightarrow> aac_sample_rates c | None \<Rightarrow> [])
      | Ldac \<Rightarrow> from_bits LDAC_RATES (if rc_ldac_rates r = 0 then LDAC_FREQ_ALL else rc_ldac_rates r)
      | LhdcV5 \<Rightarrow> from_bits [(LHDCV5_SR_44100, 44100), (LHDCV5_SR_48000, 48000), (LHDCV5_SR_96000, 96000),
            (LHDCV5_SR_192000, 192000)] (lhdcv5_rates r)
      | Aptx \<Rightarrow> aptx_listed (rc_aptx_caps r)
      | AptxHd \<Rightarrow> aptx_listed (rc_aptxhd_caps r)
      | AptxLl \<Rightarrow> aptx_listed (rc_aptxll_caps r)
      | FastStream \<Rightarrow> from_bits [(FASTSTREAM_SINK_44100, 44100), (FASTSTREAM_SINK_48000, 48000)] (rc_faststream_rates r)
      | AptxAdaptive \<Rightarrow> (if aptxad_96k r then [48000, 96000] else [48000])
      | Opus \<Rightarrow> [48000]
      | Opus05 \<Rightarrow> [48000])"

definition rate_family :: "u32 \<Rightarrow> bool" where
  "rate_family r \<longleftrightarrow> r mod 11025 = 0"

fun or_else :: "'a option \<Rightarrow> 'a option \<Rightarrow> 'a option" where
  "or_else (Some x) _ = Some x"
| "or_else None y = y"

definition nearest_rate :: "u32 list \<Rightarrow> u32 \<Rightarrow> u32" where
  "nearest_rate listed source =
     (let same = filter (\<lambda>r. rate_family r = rate_family source) listed;
          other = filter (\<lambda>r. rate_family r \<noteq> rate_family source) listed;
          below = (\<lambda>rates. List.find (\<lambda>r. r \<le> source) (rev rates));
          above = (\<lambda>rates. List.find (\<lambda>r. source \<le> r) rates)
      in case or_else (below same) (or_else (above same) (or_else (above other) (below other))) of
           Some r \<Rightarrow> r | None \<Rightarrow> source)"

definition match_sample_rate :: "remote_caps \<Rightarrow> codec_kind \<Rightarrow> u32 \<Rightarrow> u32" where
  "match_sample_rate r k source = nearest_rate (listed_sample_rates r k) source"

definition listed_bit_depths :: "remote_caps \<Rightarrow> codec_kind \<Rightarrow> u32 list" where
  "listed_bit_depths r k =
     (if k \<noteq> LhdcV5 \<or> \<not> caps_has r k then []
      else let bits = rc_lhdcv5_info r ! 7 AND LHDCV5_BITS_MASK
           in map snd (filter (\<lambda>(b, _). bit_set bits b) [(LHDCV5_BITS_16, 16), (LHDCV5_BITS_24, 24)]))"

definition listed_max_bitrate :: "remote_caps \<Rightarrow> codec_kind \<Rightarrow> u32" where
  "listed_max_bitrate r k =
     (if \<not> caps_has r k then 0
      else if k = Aac then (case rc_aac_caps r of Some c \<Rightarrow> aacc_bit_rate c | None \<Rightarrow> 0)
      else if k = LhdcV5
      then (let l = lhdcv5_bitrate_limits r AND 0x30
            in if l = 0x10 then 400000 else if l = 0x20 then 500000 else if l = 0x30 then 900000 else 0)
      else 0)"

definition opus_stream :: "remote_caps \<Rightarrow> u32 \<Rightarrow> u8 \<times> u8" where
  "opus_stream r channels =
     (if bit_set (rc_opus_caps r) OPUS_FRAME_10MS \<and> \<not> bit_set (rc_opus_caps r) OPUS_FRAME_20MS then 10 else 20,
      if channels = 1 \<and> bit_set (rc_opus_caps r) OPUS_CH_MONO then 1 else 2)"

definition opus05_stream :: "remote_caps \<Rightarrow> u8 \<times> u8" where
  "opus05_stream r =
     (if bit_set (rc_opus05_frames r) OPUS05_FRAME_10MS then 10 else 20, if rc_opus05_channels r = 1 then 1 else 2)"

definition opus05_bitrate_units :: "remote_caps \<Rightarrow> u16" where
  "opus05_bitrate_units r =
     (if rc_opus05_bitrate r = 0 then OPUS05_MAX_BITRATE_UNITS else min (rc_opus05_bitrate r) OPUS05_MAX_BITRATE_UNITS)"

definition opus_params :: "remote_caps \<Rightarrow> codec_kind \<Rightarrow> u32 \<Rightarrow> u8 \<times> u8 \<times> u32" where
  "opus_params r k channels =
     (case k of
        Opus \<Rightarrow> (let (frame_ms, wire) = opus_stream r channels in (frame_ms, wire, 0))
      | Opus05 \<Rightarrow> (let (frame_ms, wire) = opus05_stream r
                   in (frame_ms, wire, ucast (opus05_bitrate_units r) * OPUS05_BITRATE_UNIT))
      | _ \<Rightarrow> (0, 0, 0))"

definition aptxad_no_96k :: "remote_caps \<Rightarrow> quality \<Rightarrow> string option" where
  "aptxad_no_96k r q =
     (if q = LowLatency then Some ''low latency has no 96 kHz bitstream''
      else if \<not> aptxad_r2 r then Some ''the audio device is aptX Adaptive R1 (upstream streams 96 kHz to R2 only)''
      else if \<not> aptxad_96k r then Some ''the audio device does not list 96 kHz''
      else None)"

definition pick_aptxad_sample_rate :: "remote_caps \<Rightarrow> u32 \<Rightarrow> quality \<Rightarrow> u32" where
  "pick_aptxad_sample_rate r wanted q = (if wanted = 96000 \<and> aptxad_no_96k r q = None then 96000 else 48000)"

subsection \<open>Widened and forced capabilities\<close>

definition widen_sbc :: "sbc_capabilities \<Rightarrow> sbc_capabilities" where
  "widen_sbc c = c\<lparr> sbcc_sampling_frequency := sbcc_sampling_frequency c OR (SBC_FREQ_44100 OR SBC_FREQ_48000),
     sbcc_channel_mode := sbcc_channel_mode c OR 0x0F, sbcc_block_length := sbcc_block_length c OR 0x0F,
     sbcc_subbands := sbcc_subbands c OR 0x03, sbcc_allocation_method := sbcc_allocation_method c OR 0x03,
     sbcc_min_bitpool := 2, sbcc_max_bitpool := 255 \<rparr>"

definition widen_aac :: "aac_capabilities \<Rightarrow> aac_capabilities" where
  "widen_aac c = c\<lparr> aacc_sampling_frequency := aacc_sampling_frequency c OR (AAC_FREQ_44100 OR AAC_FREQ_48000),
     aacc_bit_rate := 0, aacc_vbr := True \<rparr>"

definition unlisted :: "remote_caps \<Rightarrow> codec_kind \<Rightarrow> remote_caps" where
  "unlisted r k =
     (case k of
        Sbc \<Rightarrow> r\<lparr> rc_sbc_caps := map_option widen_sbc (rc_sbc_caps r) \<rparr>
      | SbcXq \<Rightarrow> r\<lparr> rc_sbc_caps := map_option widen_sbc (rc_sbc_caps r) \<rparr>
      | Aac \<Rightarrow> r\<lparr> rc_aac_caps := map_option widen_aac (rc_aac_caps r) \<rparr>
      | Ldac \<Rightarrow> r\<lparr> rc_ldac_rates := 0 \<rparr>
      | Aptx \<Rightarrow> r\<lparr> rc_aptx_caps := rc_aptx_caps r OR (APTX_FREQ_44100 OR APTX_FREQ_48000) \<rparr>
      | AptxHd \<Rightarrow> r\<lparr> rc_aptxhd_caps := rc_aptxhd_caps r OR (APTX_FREQ_44100 OR APTX_FREQ_48000) \<rparr>
      | AptxLl \<Rightarrow> r\<lparr> rc_aptxll_caps := rc_aptxll_caps r OR (APTX_FREQ_44100 OR APTX_FREQ_48000) \<rparr>
      | FastStream \<Rightarrow> r\<lparr> rc_faststream_rates := rc_faststream_rates r OR (FASTSTREAM_SINK_44100 OR FASTSTREAM_SINK_48000) \<rparr>
      | LhdcV5 \<Rightarrow>
          let info = rc_lhdcv5_info r; info = info[6 := info ! 6 OR LHDCV5_SR_MASK]
          in r\<lparr> rc_lhdcv5_info := info[7 := (info ! 7 OR LHDCV5_BITS_16 OR LHDCV5_BITS_24) AND NOT 0x30] \<rparr>
      | Opus05 \<Rightarrow> r\<lparr> rc_opus05_bitrate := 0 \<rparr>
      | AptxAdaptive \<Rightarrow> r
      | Opus \<Rightarrow> r)"

definition any_sep :: "remote_caps \<Rightarrow> remote_sep option" where
  "any_sep r =
     or_else (case List.map_filter id [rc_sbc r, rc_aac r, rc_ldac r, rc_aptx r, rc_aptx_hd r, rc_aptx_ll r, rc_aptxad r,
                rc_lhdcv5 r, rc_opus r, rc_opus05 r, rc_faststream r] of [] \<Rightarrow> None | s # _ \<Rightarrow> Some s)
       (case rc_ignored r of [] \<Rightarrow> None | (_, s) # _ \<Rightarrow> Some s)"

definition forced_xq_caps :: "remote_caps \<Rightarrow> sbc_capabilities" where
  "forced_xq_caps r =
     (let listed = (case rc_sbc_caps r of Some c \<Rightarrow> c | None \<Rightarrow> default_sbc_capabilities)
      in \<lparr> sbcc_sampling_frequency = sbcc_sampling_frequency listed OR SBC_FREQ_44100 OR SBC_FREQ_48000,
           sbcc_channel_mode = sbcc_channel_mode listed OR SBC_CH_DUAL,
           sbcc_block_length = sbcc_block_length listed OR SBC_BLOCKS_16,
           sbcc_subbands = sbcc_subbands listed OR SBC_SUBBANDS_8,
           sbcc_allocation_method = sbcc_allocation_method listed OR SBC_ALLOC_LOUDNESS,
           sbcc_min_bitpool = min (sbcc_min_bitpool listed) SBC_XQ_MIN_MAX_BITPOOL,
           sbcc_max_bitpool = max (sbcc_max_bitpool listed) (xq_max_bitpool 48000) \<rparr>)"

definition force_on :: "features \<Rightarrow> remote_caps \<Rightarrow> codec_kind \<Rightarrow> u8 \<Rightarrow> remote_caps option" where
  "force_on f r k seid =
     (case k of
        Sbc \<Rightarrow> Some (add_sbc r seid)
      | SbcXq \<Rightarrow> Some (r\<lparr> rc_sbc := Some \<lparr> sep_seid = seid \<rparr>, rc_sbc_caps := Some (forced_xq_caps r) \<rparr>)
      | Aac \<Rightarrow> Some (add_aac r seid)
      | _ \<Rightarrow> (case List.find (\<lambda>e. ep_kind e = k) (local_endpoints f) of
                 None \<Rightarrow> None
               | Some ep \<Rightarrow> Some (fst (add_vendor f r seid (ep_caps ep)))))"

definition forcing :: "features \<Rightarrow> remote_caps \<Rightarrow> codec_kind \<Rightarrow> remote_caps option" where
  "forcing f r k =
     (if \<not> available f k then None
      else if caps_has r k then Some r
      else let own = map_option snd (List.find (\<lambda>(k', _). k' = k) (rc_ignored r))
           in case or_else own (any_sep r) of
                None \<Rightarrow> None
              | Some sep \<Rightarrow>
                  (case force_on f r k (sep_seid sep) of
                     None \<Rightarrow> None
                   | Some caps \<Rightarrow> if caps_has caps k then Some caps else None))"

subsection \<open>Sample rate pickers\<close>

definition pick_aptx_sample_rate :: "remote_caps \<Rightarrow> codec_kind \<Rightarrow> u32 \<Rightarrow> u32" where
  "pick_aptx_sample_rate r k wanted =
     (case (if k = Aptx then Some (rc_aptx_caps r) else if k = AptxHd then Some (rc_aptxhd_caps r)
            else if k = AptxLl then Some (rc_aptxll_caps r) else None) of
        None \<Rightarrow> wanted
      | Some caps \<Rightarrow>
          let freqs = caps AND APTX_FREQ_MASK;
              has441 = (freqs = 0 \<or> bit_set freqs APTX_FREQ_44100);
              has48 = (freqs = 0 \<or> bit_set freqs APTX_FREQ_48000)
          in if wanted = 48000 \<and> has48 then 48000
             else if wanted = 44100 \<and> has441 then 44100
             else if has48 then 48000
             else if has441 then 44100
             else wanted)"

definition pick_ldac_sample_rate :: "remote_caps \<Rightarrow> u32 \<Rightarrow> u32" where
  "pick_ldac_sample_rate r wanted =
     (let rates = (if rc_ldac_rates r = 0 then LDAC_FREQ_ALL else rc_ldac_rates r);
          listed = map snd (filter (\<lambda>(b, _). bit_set rates b) LDAC_RATES)
      in case or_else (List.find (\<lambda>x. x \<le> wanted) listed) (if listed = [] then None else Some (last listed)) of
           Some x \<Rightarrow> x | None \<Rightarrow> wanted)"

definition pick_faststream_sample_rate :: "remote_caps \<Rightarrow> u32 \<Rightarrow> u32" where
  "pick_faststream_sample_rate r wanted =
     (let has441 = bit_set (rc_faststream_rates r) FASTSTREAM_SINK_44100;
          has48 = bit_set (rc_faststream_rates r) FASTSTREAM_SINK_48000
      in if (wanted = 44100 \<and> has441) \<or> \<not> has48 then 44100 else 48000)"

definition pick_lhdcv5_sample_rate :: "remote_caps \<Rightarrow> u32 \<Rightarrow> u32" where
  "pick_lhdcv5_sample_rate r wanted =
     (let has = bit_set (lhdcv5_rates r)
      in if wanted = 44100 \<and> has LHDCV5_SR_44100 then 44100
         else if wanted = 48000 \<and> has LHDCV5_SR_48000 then 48000
         else if wanted = 96000 \<and> has LHDCV5_SR_96000 then 96000
         else if wanted = 192000 \<and> has LHDCV5_SR_192000 then 192000
         else if has LHDCV5_SR_48000 then 48000
         else if has LHDCV5_SR_44100 then 44100
         else if has LHDCV5_SR_96000 then 96000
         else if has LHDCV5_SR_192000 then 192000
         else wanted)"

end
