(* ===== verification/Stream_Config.thy ===== *)
theory Stream_Config
  imports Remote_Caps
begin

text \<open>
  The stream configuration and the codec choice, \<^verbatim>\<open>app/src/crates/codec/src/caps.rs\<close>
  (\<open>configuration_with\<close>, \<open>choose_in\<close>) with the part of \<^verbatim>\<open>app/src/crates/core/src/stream.rs\<close>
  that drives them: the capabilities as the profile asks for them, the capture rate and bit depth
  picked for the codec, and the parameters the encoder gets of the sink. The developer overrides are a
  global of the program and an argument here.
\<close>

subsection \<open>SET_CONFIGURATION\<close>

datatype config_request =
    SbcRequest u16 channel_mode u8 u8 allocation u8 u8
      \<comment> \<open>sampling frequency, channel mode, blocks, subbands, allocation, smallest and largest bitpool\<close>
  | AacRequest aac_object_type u32 u8 u32 bool
      \<comment> \<open>object type, sampling frequency, channels, bit rate, variable bit rate\<close>
  | VendorRequest bytes

record configuration =
  cf_kind :: codec_kind
  cf_remote_seid :: u8
  cf_request :: config_request

datatype config_error =
    NotOffered codec_kind
  | SampleRate codec_kind u32
  | BitDepth codec_kind u8
  | Channels codec_kind u8

definition aptx_freq_bits :: "codec_kind \<Rightarrow> u8 \<Rightarrow> u32 \<Rightarrow> config_error + u8" where
  "aptx_freq_bits k remote_caps rate =
     (case (if rate = 44100 then Some APTX_FREQ_44100 else if rate = 48000 then Some APTX_FREQ_48000 else None) of
        None \<Rightarrow> Inl (SampleRate k rate)
      | Some freq \<Rightarrow>
          let remote = remote_caps AND APTX_FREQ_MASK
          in if remote \<noteq> 0 \<and> remote AND freq = 0 then Inl (SampleRate k rate) else Inr freq)"

definition sbc_request :: "remote_caps \<Rightarrow> codec_kind \<Rightarrow> u32 \<Rightarrow> u32 \<Rightarrow> sbc_params \<Rightarrow> config_error + config_request" where
  "sbc_request r k rate channels sbc =
     (if rate \<noteq> 44100 \<and> rate \<noteq> 48000 then Inl (SampleRate k rate)
      else let cap = (if k = SbcXq then xq_max_bitpool rate else CAPS_SBC_MAX_BITPOOL);
               (min_bitpool, max_bitpool) = sbc_bitpool_range r cap;
               p = fst (caps_sbc_params r k sbc);
               min_bitpool = config_min_bitpool p min_bitpool max_bitpool
           in Inr (SbcRequest (ucast rate) (params_channel_mode p k channels) (params_blocks p) (params_subbands p)
                (params_allocation p) min_bitpool max_bitpool))"

definition aac_request :: "dev_overrides \<Rightarrow> remote_caps \<Rightarrow> u32 \<Rightarrow> u32 \<Rightarrow> bool \<Rightarrow> config_error + config_request" where
  "aac_request ov r rate channels vbr =
     (let freq = (if rate = 44100 then AAC_FREQ_44100 else if rate = 48000 then AAC_FREQ_48000 else 0)
      in if freq = 0 \<or> (case rc_aac_caps r of Some c \<Rightarrow> aacc_sampling_frequency c AND freq = 0 | None \<Rightarrow> False)
         then Inl (SampleRate Aac rate)
         else let object_type =
                (case rc_aac_caps r of
                   Some c \<Rightarrow> if aacc_object_types c AND AAC_OBJ_MPEG2_LC = 0 then Mpeg4Lc else Mpeg2Lc
                 | None \<Rightarrow> Mpeg2Lc)
              in Inr (AacRequest object_type rate (ucast channels)
                   (if aac_config_bitrate0 ov then 0 else aac_max_bitrate r) (vbr \<and> aac_vbr r)))"

definition ldac_request :: "u32 \<Rightarrow> bool \<Rightarrow> bytes" where
  "ldac_request rate is_mono =
     vendor_header LDAC_VENDOR_ID LDAC_CODEC_ID
     @ [if rate = 44100 then 0x20 else if rate = 48000 then 0x10 else if rate = 88200 then 0x08 else 0x04,
        if is_mono then 0x04 else 0x01]"

definition aptxhd_request :: "remote_caps \<Rightarrow> u32 \<Rightarrow> config_error + bytes" where
  "aptxhd_request r rate =
     (case aptx_freq_bits AptxHd (rc_aptxhd_caps r) rate of
        Inl e \<Rightarrow> Inl e
      | Inr freq \<Rightarrow> Inr (resize0 (vendor_header APTXHD_VENDOR_ID APTXHD_CODEC_ID @ [freq OR APTX_CH_STEREO]) APTXHD_INFO_LEN))"

definition aptx_request :: "remote_caps \<Rightarrow> u32 \<Rightarrow> config_error + bytes" where
  "aptx_request r rate =
     (case aptx_freq_bits Aptx (rc_aptx_caps r) rate of
        Inl e \<Rightarrow> Inl e
      | Inr freq \<Rightarrow> Inr (vendor_header APTX_VENDOR_ID APTX_CODEC_ID @ [freq OR APTX_CH_STEREO]))"

definition aptxll_request :: "remote_caps \<Rightarrow> u32 \<Rightarrow> config_error + bytes" where
  "aptxll_request r rate =
     (case aptx_freq_bits AptxLl (rc_aptxll_caps r) rate of
        Inl e \<Rightarrow> Inl e
      | Inr freq \<Rightarrow>
          let info = vendor_header (rc_aptxll_vendor_id r) APTXLL_CODEC_ID @ [freq OR APTX_CH_STEREO, 0];
              rc = rc_aptxll_info r
          in if APTXLL_EXT_INFO_LEN \<le> length rc \<and> bit_set (rc ! 7) APTXLL_HAS_NEW_CAPS
             then let le16 = (\<lambda>i. of_le16 (rc ! i) (rc ! (i + 1)));
                      target = max (le16 9) APTXLL_TARGET_LEVEL;
                      initial = max (le16 11) APTXLL_INITIAL_LEVEL;
                      good = max (le16 15) APTXLL_GOOD_LEVEL
                  in Inr (info[7 := APTXLL_HAS_NEW_CAPS] @ [rc ! 8] @ le16_bytes target @ le16_bytes initial
                       @ [if rc ! 13 \<noteq> 0 then rc ! 13 else APTXLL_SRA_MAX_RATE,
                          if rc ! 14 \<noteq> 0 then rc ! 14 else APTXLL_SRA_AVG_TIME] @ le16_bytes good)
             else Inr info)"

definition faststream_request :: "remote_caps \<Rightarrow> u32 \<Rightarrow> config_error + bytes" where
  "faststream_request r rate =
     (let freq = (if rate = 44100 then FASTSTREAM_SINK_44100 else if rate = 48000 then FASTSTREAM_SINK_48000 else 0)
      in if freq AND rc_faststream_rates r = 0 then Inl (SampleRate FastStream rate)
         else Inr (vendor_header FASTSTREAM_VENDOR_ID FASTSTREAM_CODEC_ID @ [FASTSTREAM_DIRECTION_SINK, freq]))"

definition lhdcv5_request :: "remote_caps \<Rightarrow> u32 \<Rightarrow> u8 \<Rightarrow> config_error + bytes" where
  "lhdcv5_request r rate bits_per_sample =
     (let freq = (if rate = 44100 then LHDCV5_SR_44100 else if rate = 48000 then LHDCV5_SR_48000
                  else if rate = 96000 then LHDCV5_SR_96000 else if rate = 192000 then LHDCV5_SR_192000 else 0)
      in if freq AND lhdcv5_rates r = 0 then Inl (SampleRate LhdcV5 rate)
         else let bits = (if bits_per_sample = 24 then LHDCV5_BITS_24 else LHDCV5_BITS_16)
              in if bits AND rc_lhdcv5_info r ! 7 AND LHDCV5_BITS_MASK = 0 then Inl (BitDepth LhdcV5 bits_per_sample)
                 else Inr (resize0 (vendor_header LHDCV5_VENDOR_ID LHDCV5_CODEC_ID
                        @ [freq, bits OR lhdcv5_bitrate_limits r, LHDCV5_CAPS_P8]) LHDCV5_INFO_LEN))"

definition opus_request :: "remote_caps \<Rightarrow> u32 \<Rightarrow> u32 \<Rightarrow> config_error + bytes" where
  "opus_request r rate channels =
     (if rate \<noteq> 48000 then Inl (SampleRate Opus rate)
      else let (frame_ms, wire) = opus_stream r channels;
               ch = (if wire = 1 then OPUS_CH_MONO else OPUS_CH_STEREO)
           in if rc_opus_caps r AND ch = 0 then Inl (Channels Opus wire)
              else Inr (vendor_header OPUS_VENDOR_ID OPUS_CODEC_ID
                     @ [OPUS_FREQ_48000 OR (if frame_ms = 10 then OPUS_FRAME_10MS else OPUS_FRAME_20MS) OR ch]))"

fun ttp_defaults :: "bytes \<Rightarrow> bytes \<Rightarrow> bytes" where
  "ttp_defaults (b # bs) (d # ds) = (if b = 0 then d else b) # ttp_defaults bs ds"
| "ttp_defaults bs _ = bs"

definition aptxad_request :: "remote_caps \<Rightarrow> u32 \<Rightarrow> config_error + bytes" where
  "aptxad_request r rate =
     (case (if rate = 48000 then Some APTXAD_RATE_48000
            else if rate = 96000 \<and> aptxad_96k r then Some APTXAD_RATE_96000 else None) of
        None \<Rightarrow> Inl (SampleRate AptxAdaptive rate)
      | Some freq \<Rightarrow>
          let byte = byte_or0 (rc_aptxad_info r);
              mode = (if bit_set (byte 7) APTXAD_CH_STEREO then APTXAD_CH_STEREO else APTXAD_CH_JOINT_STEREO);
              rate_byte = freq OR APTXAD_SOURCE_TYPE_HOST
          in if aptxad_r2 r then Inr (aptxad_element rate_byte mode APTXAD_R2_DATA)
             else let data = ttp_defaults (map byte [APTXAD_DATA..<APTXAD_R2_DATA_END]) APTXAD_TTP_DEFAULTS;
                      data = data[0 := max (data ! 0) APTXAD_LL0_MIN]
                  in Inr (aptxad_element rate_byte mode data))"

definition opus05_request :: "remote_caps \<Rightarrow> u32 \<Rightarrow> config_error + bytes" where
  "opus05_request r rate =
     (if rate \<noteq> 48000 then Inl (SampleRate Opus05 rate)
      else let (frame_ms, wire) = opus05_stream r;
               frame = (if frame_ms = 10 then OPUS05_FRAME_10MS else OPUS05_FRAME_20MS);
               (coupled, location) = (if wire = 2 then (1, OPUS05_LOCATION_STEREO) else (0, 0))
           in Inr (resize0 (vendor_header OPUS05_VENDOR_ID OPUS05_CODEC_ID
                  @ opus05_direction wire coupled location frame (opus05_bitrate_units r)) OPUS05_INFO_LEN))"

fun vendor_request :: "config_error + bytes \<Rightarrow> config_error + config_request" where
  "vendor_request (Inl e) = Inl e"
| "vendor_request (Inr info) = Inr (VendorRequest info)"

fun config_request_of :: "dev_overrides \<Rightarrow> remote_caps \<Rightarrow> codec_kind \<Rightarrow> u32 \<Rightarrow> u32 \<Rightarrow> u8 \<Rightarrow> bool \<Rightarrow> sbc_params
    \<Rightarrow> config_error + config_request" where
  "config_request_of ov r Sbc rate channels bits vbr sbc = sbc_request r Sbc rate channels sbc"
| "config_request_of ov r SbcXq rate channels bits vbr sbc = sbc_request r SbcXq rate channels sbc"
| "config_request_of ov r Aac rate channels bits vbr sbc = aac_request ov r rate channels vbr"
| "config_request_of ov r Ldac rate channels bits vbr sbc = Inr (VendorRequest (ldac_request rate (channels = 1)))"
| "config_request_of ov r AptxHd rate channels bits vbr sbc = vendor_request (aptxhd_request r rate)"
| "config_request_of ov r Aptx rate channels bits vbr sbc = vendor_request (aptx_request r rate)"
| "config_request_of ov r AptxLl rate channels bits vbr sbc = vendor_request (aptxll_request r rate)"
| "config_request_of ov r FastStream rate channels bits vbr sbc = vendor_request (faststream_request r rate)"
| "config_request_of ov r LhdcV5 rate channels bits vbr sbc = vendor_request (lhdcv5_request r rate bits)"
| "config_request_of ov r Opus rate channels bits vbr sbc = vendor_request (opus_request r rate channels)"
| "config_request_of ov r AptxAdaptive rate channels bits vbr sbc = vendor_request (aptxad_request r rate)"
| "config_request_of ov r Opus05 rate channels bits vbr sbc = vendor_request (opus05_request r rate)"

definition configuration_with :: "dev_overrides \<Rightarrow> remote_caps \<Rightarrow> codec_kind \<Rightarrow> u32 \<Rightarrow> u32 \<Rightarrow> u8 \<Rightarrow> bool \<Rightarrow> sbc_params
    \<Rightarrow> config_error + configuration" where
  "configuration_with ov r k rate channels bits vbr sbc =
     (case caps_sep r k of
        None \<Rightarrow> Inl (NotOffered k)
      | Some sep \<Rightarrow>
          (case config_request_of ov r k rate channels bits vbr sbc of
             Inl e \<Rightarrow> Inl e
           | Inr req \<Rightarrow> Inr \<lparr> cf_kind = k, cf_remote_seid = sep_seid sep, cf_request = req \<rparr>))"

definition configuration_vbr :: "dev_overrides \<Rightarrow> remote_caps \<Rightarrow> codec_kind \<Rightarrow> u32 \<Rightarrow> u32 \<Rightarrow> u8 \<Rightarrow> bool
    \<Rightarrow> config_error + configuration" where
  "configuration_vbr ov r k rate channels bits vbr = configuration_with ov r k rate channels bits vbr default_sbc_params"

definition configuration_plain :: "dev_overrides \<Rightarrow> remote_caps \<Rightarrow> codec_kind \<Rightarrow> u32 \<Rightarrow> u32 \<Rightarrow> u8
    \<Rightarrow> config_error + configuration" where
  "configuration_plain ov r k rate channels bits = configuration_vbr ov r k rate channels bits False"

subsection \<open>The codec choice\<close>

datatype unavailable =
    SepInUse u8 u8
  | AdaptiveOnly
  | NotSupported
  | Experimental

record choice =
  ch_kind :: codec_kind
  ch_replaced :: "(codec_kind \<times> unavailable) option"

definition caps_usable :: "features \<Rightarrow> remote_caps \<Rightarrow> codec_kind \<Rightarrow> bool \<Rightarrow> bool" where
  "caps_usable f r k experimental \<longleftrightarrow> available f k \<and> caps_has r k \<and> (experimental \<or> \<not> is_experimental k)"

definition best_in :: "features \<Rightarrow> remote_caps \<Rightarrow> auto_order \<Rightarrow> bool \<Rightarrow> codec_kind option" where
  "best_in f r order experimental = List.find (\<lambda>k. caps_usable f r k experimental) order"

definition best_of :: "features \<Rightarrow> remote_caps \<Rightarrow> bool \<Rightarrow> codec_kind option" where
  "best_of f r experimental = best_in f r default_order experimental"

definition best :: "features \<Rightarrow> remote_caps \<Rightarrow> codec_kind option" where
  "best f r = best_of f r True"

definition why_unavailable :: "remote_caps \<Rightarrow> codec_kind \<Rightarrow> bool \<Rightarrow> unavailable" where
  "why_unavailable r wanted experimental =
     (if is_experimental wanted \<and> \<not> experimental then Experimental
      else if rc_audio_sinks_in_use r > 0 then SepInUse (rc_audio_sinks_in_use r) (rc_audio_sinks r)
      else if (wanted = Aptx \<or> wanted = AptxHd \<or> wanted = AptxLl) \<and> rc_aptx_adaptive r then AdaptiveOnly
      else NotSupported)"

definition choose_in :: "features \<Rightarrow> remote_caps \<Rightarrow> codec_kind option \<Rightarrow> bool \<Rightarrow> bool \<Rightarrow> auto_order
    \<Rightarrow> (codec_kind \<times> unavailable) option + choice" where
  "choose_in f r requested fallback experimental order =
     (case requested of
        None \<Rightarrow> (case best_in f r order experimental of
                   Some k \<Rightarrow> Inr \<lparr> ch_kind = k, ch_replaced = None \<rparr> | None \<Rightarrow> Inl None)
      | Some wanted \<Rightarrow>
          if caps_usable f r wanted experimental then Inr \<lparr> ch_kind = wanted, ch_replaced = None \<rparr>
          else let why = why_unavailable r wanted experimental
               in case (if fallback then best_in f r order experimental else None) of
                    Some k \<Rightarrow> Inr \<lparr> ch_kind = k, ch_replaced = Some (wanted, why) \<rparr>
                  | None \<Rightarrow> Inl (Some (wanted, why)))"

definition choose_codec :: "features \<Rightarrow> remote_caps \<Rightarrow> codec_kind option \<Rightarrow> bool \<Rightarrow> bool
    \<Rightarrow> (codec_kind \<times> unavailable) option + choice" where
  "choose_codec f r requested fallback experimental = choose_in f r requested fallback experimental default_order"

subsection \<open>The stream setup\<close>

text \<open>The fields of \<^verbatim>\<open>StreamRequest\<close> the negotiation reads.\<close>

record stream_request =
  sr_codec :: "codec_kind option"
  sr_quality :: quality
  sr_abr :: bool
  sr_sbc_bitpool :: u8
  sr_sbcxq_bitpool :: u8
  sr_sbc_min_bitpool :: u8
  sr_sbcxq_min_bitpool :: u8
  sr_sbc :: sbc_params
  sr_sample_rate :: "u32 option"
  sr_bit_depth :: "u8 option"

definition request_sbc_params :: "stream_request \<Rightarrow> codec_kind \<Rightarrow> sbc_params" where
  "request_sbc_params req k =
     (sr_sbc req)\<lparr> sp_min_bitpool :=
        (case k of Sbc \<Rightarrow> sr_sbc_min_bitpool req | SbcXq \<Rightarrow> sr_sbcxq_min_bitpool req | _ \<Rightarrow> 0) \<rparr>"

definition as_asked :: "features \<Rightarrow> remote_caps \<Rightarrow> codec_kind option \<Rightarrow> codec_kind option \<Rightarrow> remote_caps" where
  "as_asked f remote forced unl =
     (let remote = (case forced of
            Some k \<Rightarrow> (case forcing f remote k of Some caps \<Rightarrow> caps | None \<Rightarrow> remote)
          | None \<Rightarrow> remote)
      in case unl of Some k \<Rightarrow> unlisted remote k | None \<Rightarrow> remote)"

definition sbc_abr :: "stream_request \<Rightarrow> codec_kind \<Rightarrow> bool" where
  "sbc_abr req k \<longleftrightarrow> sr_abr req \<and> (k = Sbc \<or> k = SbcXq) \<and> sr_codec req = Some k"

definition AUTO_SAMPLE_RATE :: u32 where
  "AUTO_SAMPLE_RATE = 48000"

text \<open>\<open>mix\<close> is the rate and depth of the captured output, read from Windows when
  \<^verbatim>\<open>match_source\<close> is on.\<close>

definition preferred_rate :: "remote_caps \<Rightarrow> codec_kind \<Rightarrow> stream_request \<Rightarrow> (u32 \<times> u8) option \<Rightarrow> u32" where
  "preferred_rate r k req mix =
     (let matched = map_option (\<lambda>m. match_sample_rate r k (fst m)) mix;
          preferred = (case or_else (sr_sample_rate req) matched of Some x \<Rightarrow> x | None \<Rightarrow> AUTO_SAMPLE_RATE)
      in if preferred > max_sample_rate k then max_sample_rate k else preferred)"

definition picked_rate :: "remote_caps \<Rightarrow> codec_kind \<Rightarrow> quality \<Rightarrow> u32 \<Rightarrow> u32" where
  "picked_rate r k q preferred =
     (case k of
        Aptx \<Rightarrow> pick_aptx_sample_rate r k preferred
      | AptxHd \<Rightarrow> pick_aptx_sample_rate r k preferred
      | AptxLl \<Rightarrow> pick_aptx_sample_rate r k preferred
      | LhdcV5 \<Rightarrow> pick_lhdcv5_sample_rate r preferred
      | Ldac \<Rightarrow> pick_ldac_sample_rate r preferred
      | FastStream \<Rightarrow> pick_faststream_sample_rate r preferred
      | AptxAdaptive \<Rightarrow> pick_aptxad_sample_rate r preferred (for_codec q k)
      | Opus \<Rightarrow> 48000
      | Opus05 \<Rightarrow> 48000
      | Aac \<Rightarrow> pick_aac_sample_rate r preferred
      | Sbc \<Rightarrow> if preferred \<noteq> 44100 then 48000 else preferred
      | SbcXq \<Rightarrow> if preferred \<noteq> 44100 then 48000 else preferred)"

definition stream_bits :: "remote_caps \<Rightarrow> codec_kind \<Rightarrow> stream_request \<Rightarrow> (u32 \<times> u8) option \<Rightarrow> u8" where
  "stream_bits r k req mix =
     (let source_16bit = (sr_bit_depth req = None \<and> (case mix of Some m \<Rightarrow> snd m \<le> 16 | None \<Rightarrow> False))
      in if k = AptxAdaptive then 24
         else if sr_bit_depth req = Some 16 then 16
         else if source_16bit then 16
         else if k = Ldac \<or> k = AptxHd then 24
         else if k = LhdcV5 \<and> lhdcv5_24bit r then 24
         else 16)"

definition stream_vbr :: "remote_caps \<Rightarrow> codec_kind \<Rightarrow> stream_request \<Rightarrow> bool" where
  "stream_vbr r k req \<longleftrightarrow> sr_abr req \<and> sr_codec req = Some Aac \<and> k = Aac \<and> aac_vbr r"

definition stream_peer_params :: "dev_overrides \<Rightarrow> remote_caps \<Rightarrow> codec_kind \<Rightarrow> u32 \<Rightarrow> stream_request \<Rightarrow> peer_params" where
  "stream_peer_params ov remote k channels req =
     (let (opus_frame_ms, opus_channels, opus_max_bitrate) = opus_params remote k channels;
          sbc = (if k = Sbc \<or> k = SbcXq then fst (caps_sbc_params remote k (request_sbc_params req k))
                 else default_sbc_params);
          ignore_max = ignore_sink_max ov;
          limits = lhdcv5_bitrate_limits remote;
          max_bitpool = sbc_max_bitpool remote;
          aac_max = (if k = Aac then aac_max_bitrate remote else 0)
      in \<lparr> pp_lhdcv5_bitrate_limits = (if ignore_max then limits AND NOT 0x30 else limits),
           pp_sbc_min_bitpool = sbc_min_bitpool remote,
           pp_sbc_max_bitpool = (if ignore_max \<and> 2 \<le> max_bitpool then 255 else max_bitpool),
           pp_sbc_bitpool = (case k of Sbc \<Rightarrow> sr_sbc_bitpool req | SbcXq \<Rightarrow> sr_sbcxq_bitpool req | _ \<Rightarrow> 0),
           pp_sbc = sbc,
           pp_opus_frame_ms = opus_frame_ms,
           pp_opus_channels = opus_channels,
           pp_opus_max_bitrate = (if ignore_max then 0 else opus_max_bitrate),
           pp_aac_max_bitrate = (if ignore_max then 0 else aac_max),
           pp_aptxad_r2 = (k = AptxAdaptive \<and> aptxad_r2 remote) \<rparr>)"

definition stream_encoder_config :: "dev_overrides \<Rightarrow> remote_caps \<Rightarrow> codec_kind \<Rightarrow> stream_request \<Rightarrow> u32 \<Rightarrow> u32 \<Rightarrow> u16 \<Rightarrow> u8
    \<Rightarrow> encoder_config" where
  "stream_encoder_config ov remote k req rate channels mtu bits =
     \<lparr> ec_sample_rate = rate, ec_channels = channels, ec_quality = for_codec (sr_quality req) k, ec_mtu = mtu,
       ec_bits_per_sample = bits,
       ec_abr = (sr_abr req \<and> (k = Ldac \<or> k = LhdcV5 \<or> k = AptxAdaptive \<or> (k = Aac \<and> stream_vbr remote k req))
                 \<or> sbc_abr req k),
       ec_peer = stream_peer_params ov remote k channels req \<rparr>"

end
