(* ===== verification/Caps_Discovery.thy ===== *)
theory Caps_Discovery
  imports Remote_Caps
begin

text \<open>
  Capability discovery, proved: whatever a sink reports, in whatever order, the record
  \<open>remote_caps\<close> keeps the facts the configuration relies on (\<open>caps_wf\<close>); which SBC endpoint is kept;
  when a codec the sink does not list can be forced; that the local endpoints' own information is
  understood by the parser of the remote's; and which rate matches a source.
\<close>

subsection \<open>Well-formed capabilities\<close>

definition lhdcv5_wf :: "remote_caps \<Rightarrow> bool" where
  "lhdcv5_wf r \<longleftrightarrow> length (rc_lhdcv5_info r) = LHDCV5_INFO_LEN
     \<and> (rc_lhdcv5 r \<noteq> None \<longrightarrow> lhdcv5_rates r \<noteq> 0 \<and> bit_set (rc_lhdcv5_info r ! 7) (LHDCV5_BITS_16 OR LHDCV5_BITS_24))"

definition opus_wf :: "remote_caps \<Rightarrow> bool" where
  "opus_wf r \<longleftrightarrow> (rc_opus r \<noteq> None \<longrightarrow> bit_set (rc_opus_caps r) OPUS_FREQ_48000
        \<and> bit_set (rc_opus_caps r) OPUS_FRAME_MASK \<and> bit_set (rc_opus_caps r) (OPUS_CH_MONO OR OPUS_CH_STEREO))
     \<and> (rc_opus05 r \<noteq> None \<longrightarrow> rc_opus05_channels r \<noteq> 0
        \<and> bit_set (rc_opus05_frames r) (OPUS05_FRAME_10MS OR OPUS05_FRAME_20MS))"

definition aptx_wf :: "remote_caps \<Rightarrow> bool" where
  "aptx_wf r \<longleftrightarrow>
     (rc_aptx r \<noteq> None \<longrightarrow> rc_aptx_caps r AND 0x0F = 0 \<or> bit_set (rc_aptx_caps r) APTX_CH_STEREO)
     \<and> (rc_aptx_hd r \<noteq> None \<longrightarrow> rc_aptxhd_caps r AND 0x0F = 0 \<or> bit_set (rc_aptxhd_caps r) APTX_CH_STEREO)
     \<and> (rc_aptx_ll r \<noteq> None \<longrightarrow> (rc_aptxll_caps r AND 0x0F = 0 \<or> bit_set (rc_aptxll_caps r) APTX_CH_STEREO)
          \<and> (rc_aptxll_vendor_id r = APTXLL_VENDOR_ID \<or> rc_aptxll_vendor_id r = APTXLL_VENDOR_ID2)
          \<and> 6 \<le> length (rc_aptxll_info r) \<and> length (rc_aptxll_info r) \<le> APTXLL_EXT_INFO_LEN)"

definition rates_wf :: "remote_caps \<Rightarrow> bool" where
  "rates_wf r \<longleftrightarrow>
     rc_ldac_rates r AND LDAC_FREQ_ALL = rc_ldac_rates r
     \<and> rc_faststream_rates r AND FASTSTREAM_SINK_MASK = rc_faststream_rates r
     \<and> (rc_faststream r \<noteq> None \<longrightarrow> rc_faststream_rates r \<noteq> 0)
     \<and> (rc_aptxad r \<noteq> None \<longrightarrow> rc_aptx_adaptive r \<and> APTXAD_R1_LEN \<le> length (rc_aptxad_info r)
          \<and> length (rc_aptxad_info r) \<le> APTXAD_INFO_LEN
          \<and> bit_set (rc_aptxad_info r ! 6) APTXAD_RATE_48000
          \<and> bit_set (rc_aptxad_info r ! 7) (APTXAD_CH_STEREO OR APTXAD_CH_JOINT_STEREO))
     \<and> (rc_sbc_caps r \<noteq> None \<longrightarrow> rc_sbc r \<noteq> None) \<and> (rc_aac_caps r \<noteq> None \<longrightarrow> rc_aac r \<noteq> None)"

definition caps_wf :: "remote_caps \<Rightarrow> bool" where
  "caps_wf r \<longleftrightarrow> lhdcv5_wf r \<and> opus_wf r \<and> aptx_wf r \<and> rates_wf r"

lemmas caps_wf_defs = lhdcv5_wf_def opus_wf_def aptx_wf_def rates_wf_def lhdcv5_rates_def

lemma caps_wf_default: "caps_wf default_caps"
  by (simp add: caps_wf_def caps_wf_defs default_caps_def)

lemma caps_wf_add_sbc: "caps_wf r \<Longrightarrow> caps_wf (add_sbc r seid)"
  by (simp add: caps_wf_def caps_wf_defs add_sbc_def)

lemma caps_wf_add_sbc_caps: "caps_wf r \<Longrightarrow> caps_wf (add_sbc_caps r seid c)"
  by (simp add: caps_wf_def caps_wf_defs add_sbc_caps_def)

lemma caps_wf_add_aac: "caps_wf r \<Longrightarrow> caps_wf (add_aac r seid)"
  by (simp add: caps_wf_def caps_wf_defs add_aac_def)

lemma caps_wf_add_aac_caps: "caps_wf r \<Longrightarrow> caps_wf (add_aac_caps r seid c)"
  by (simp add: caps_wf_def caps_wf_defs add_aac_caps_def)

lemma caps_wf_take_ldac: "caps_wf r \<Longrightarrow> caps_wf (fst (take_ldac r seid info))"
  by (simp add: caps_wf_def caps_wf_defs take_ldac_def ac_simps)

lemma caps_wf_take_aptxhd: "caps_wf r \<Longrightarrow> caps_wf (fst (take_aptxhd r seid info))"
  by (auto simp: caps_wf_def caps_wf_defs take_aptxhd_def Let_def bit_set_def byte_or0_def)

lemma caps_wf_take_aptx: "caps_wf r \<Longrightarrow> caps_wf (fst (take_aptx r seid info))"
  by (auto simp: caps_wf_def caps_wf_defs take_aptx_def Let_def bit_set_def byte_or0_def)

lemma caps_wf_take_aptxll:
  "caps_wf r \<Longrightarrow> vid = APTXLL_VENDOR_ID \<or> vid = APTXLL_VENDOR_ID2 \<Longrightarrow> 6 \<le> length info \<Longrightarrow>
     caps_wf (fst (take_aptxll r seid vid info))"
  by (auto simp: caps_wf_def caps_wf_defs take_aptxll_def Let_def bit_set_def byte_or0_def APTXLL_EXT_INFO_LEN_def)

lemma caps_wf_take_aptxad: "caps_wf r \<Longrightarrow> caps_wf (fst (take_aptxad f r seid info))"
  by (auto simp: caps_wf_def caps_wf_defs take_aptxad_def Let_def byte_or0_def APTXAD_R1_LEN_def APTXAD_INFO_LEN_def)

lemma caps_wf_take_lhdcv5: "caps_wf r \<Longrightarrow> caps_wf (fst (take_lhdcv5 f r seid info))"
  by (auto simp: caps_wf_def caps_wf_defs take_lhdcv5_def Let_def bit_set_def LHDCV5_INFO_LEN_def)

lemma caps_wf_take_opus: "caps_wf r \<Longrightarrow> caps_wf (fst (take_opus r seid info))"
  by (auto simp: caps_wf_def caps_wf_defs take_opus_def Let_def)

lemma caps_wf_take_opus05: "caps_wf r \<Longrightarrow> caps_wf (fst (take_opus05 r seid info))"
  by (auto simp: caps_wf_def caps_wf_defs take_opus05_def Let_def bit_set_def)

lemma caps_wf_take_faststream: "caps_wf r \<Longrightarrow> caps_wf (fst (take_faststream r seid info))"
  by (auto simp: caps_wf_def caps_wf_defs take_faststream_def Let_def ac_simps)

lemmas caps_wf_takes = caps_wf_take_ldac caps_wf_take_aptxhd caps_wf_take_aptx caps_wf_take_aptxll
  caps_wf_take_aptxad caps_wf_take_lhdcv5 caps_wf_take_opus caps_wf_take_opus05 caps_wf_take_faststream

lemma read_vendor_length: "read_vendor info = Some v \<Longrightarrow> 6 \<le> length info"
  by (simp add: read_vendor_def split: if_splits)

lemma caps_wf_take_vendor: "caps_wf r \<Longrightarrow> caps_wf (fst (take_vendor f r seid info))"
  using caps_wf_take_aptxll[of r _ info seid] read_vendor_length[of info]
  by (simp add: take_vendor_def caps_wf_takes split: option.split)

lemma caps_wf_ignored: "caps_wf (r\<lparr> rc_ignored := x \<rparr>) = caps_wf r"
  by (simp add: caps_wf_def caps_wf_defs)

lemma caps_wf_add_vendor: "caps_wf r \<Longrightarrow> caps_wf (fst (add_vendor f r seid info))"
  using caps_wf_take_vendor[of r f seid info]
  by (auto simp: add_vendor_def split_beta Let_def caps_wf_ignored split: vendor_capability.splits)

lemma low_nibble: "(x OR (APTX_FREQ_44100 OR APTX_FREQ_48000)) AND 0x0F = x AND 0x0F" for x :: u8
  by (simp add: bit.conj_disj_distrib2 caps_consts)

lemma caps_wf_unlisted: "caps_wf r \<Longrightarrow> caps_wf (unlisted r k)"
proof (cases k)
  case LhdcV5
  assume wf: "caps_wf r"
  then have len: "length (rc_lhdcv5_info r) = 11" by (simp add: caps_wf_def caps_wf_defs LHDCV5_INFO_LEN_def)
  have "((x OR LHDCV5_BITS_16 OR LHDCV5_BITS_24) AND NOT 0x30) AND (LHDCV5_BITS_16 OR LHDCV5_BITS_24) \<noteq> 0" for x
  proof -
    have "bit (((x OR LHDCV5_BITS_16 OR LHDCV5_BITS_24) AND NOT 0x30) AND (LHDCV5_BITS_16 OR LHDCV5_BITS_24)) 1"
      by (simp add: bit_simps caps_consts)
    then show ?thesis by auto
  qed
  moreover have "(x OR LHDCV5_SR_MASK) AND LHDCV5_SR_MASK \<noteq> 0" for x
    by (rule or_and_nonzero) (simp add: LHDCV5_SR_MASK_def)
  ultimately show ?thesis using wf len LhdcV5
    by (simp add: caps_wf_def caps_wf_defs unlisted_def Let_def bit_set_def)
next
  case FastStream
  assume "caps_wf r"
  then show ?thesis using FastStream or_mask_absorb[of "rc_faststream_rates r" FASTSTREAM_SINK_MASK "FASTSTREAM_SINK_44100 OR FASTSTREAM_SINK_48000"]
    by (simp add: caps_wf_def caps_wf_defs unlisted_def or_eq_0 caps_consts)
next
  case Aptx
  assume "caps_wf r"
  then show ?thesis using Aptx by (simp add: caps_wf_def caps_wf_defs unlisted_def low_nibble) (blast intro: bit_set_or)
next
  case AptxHd
  assume "caps_wf r"
  then show ?thesis using AptxHd by (simp add: caps_wf_def caps_wf_defs unlisted_def low_nibble) (blast intro: bit_set_or)
next
  case AptxLl
  assume "caps_wf r"
  then show ?thesis using AptxLl by (simp add: caps_wf_def caps_wf_defs unlisted_def low_nibble) (blast intro: bit_set_or)
qed (auto simp: caps_wf_def caps_wf_defs unlisted_def map_option_case split: option.splits)

subsection \<open>Vendor information and endpoints\<close>


lemma or_else_Some: "or_else a b = Some x \<longleftrightarrow> a = Some x \<or> (a = None \<and> b = Some x)"
  by (cases a) auto

lemma length_vendor_header [simp]: "length (vendor_header v c) = 6"
  by (simp add: vendor_header_def)

lemma read_vendor_header [simp]: "read_vendor (vendor_header v c @ t) = Some (v, c)"
  by (simp add: read_vendor_def vendor_header_def le32_bytes_def le16_bytes_def)

lemma read_vendor_take:
  assumes "6 \<le> n" "6 \<le> m"
  shows "read_vendor (take n (vendor_header v c @ t) @ z) = Some (v, c)"
proof -
  have "take n (vendor_header v c @ t) @ z = vendor_header v c @ (take (n - 6) t @ z)" using assms by simp
  then show ?thesis by (metis read_vendor_header)
qed

lemma read_vendor_resize [simp]: "6 \<le> n \<Longrightarrow> read_vendor (resize0 (vendor_header v c @ t) n) = Some (v, c)"
  by (simp add: resize0_def read_vendor_take)

lemma byte_or0_header: "6 \<le> i \<Longrightarrow> byte_or0 (vendor_header v c @ t) i = byte_or0 t (i - 6)"
  by (simp add: byte_or0_append)

lemma nth_header: "6 \<le> i \<Longrightarrow> (vendor_header v c @ t) ! i = t ! (i - 6)"
  by (simp add: nth_append)

lemmas info_eval = byte_or0_header byte_or0_resize byte_or0_Cons nth_header nth_resize0

lemmas take_defs = take_ldac_def take_aptxhd_def take_aptxll_def take_aptxad_def take_lhdcv5_def take_opus_def
  take_opus05_def take_faststream_def take_aptx_def

definition vendor_kind :: "codec_kind \<Rightarrow> bool" where
  "vendor_kind k \<longleftrightarrow> k \<noteq> Sbc \<and> k \<noteq> SbcXq \<and> k \<noteq> Aac"

lemma endpoint_taken:
  assumes "available f k" "vendor_kind k"
  shows "\<exists>ep. List.find (\<lambda>e. ep_kind e = k) (local_endpoints f) = Some ep
    \<and> snd (take_vendor f r seid (ep_caps ep)) = Taken k \<and> caps_has (fst (take_vendor f r seid (ep_caps ep))) k"
  using assms
  by (cases k) (simp_all add: vendor_kind_def local_endpoints_def vendor_endpoint_def aptxad_element_def
      take_vendor_def take_defs caps_has_def bit_set_def Let_def info_eval caps_consts opus05_direction_def
      le32_bytes_def le16_bytes_def)



lemma caps_wf_force_on: "caps_wf r \<Longrightarrow> force_on f r k seid = Some caps \<Longrightarrow> caps_wf caps"
proof (cases "vendor_kind k")
  case True
  assume "caps_wf r" "force_on f r k seid = Some caps"
  with True show ?thesis
    by (cases k) (auto simp: vendor_kind_def force_on_def intro: caps_wf_add_vendor split: option.splits)
next
  case False
  assume wf: "caps_wf r" and s: "force_on f r k seid = Some caps"
  have "caps_wf (r\<lparr> rc_sbc := Some s, rc_sbc_caps := c \<rparr>)" for s c
    using wf by (simp add: caps_wf_def caps_wf_defs)
  with False s wf show ?thesis
    by (auto simp: vendor_kind_def force_on_def caps_wf_add_sbc caps_wf_add_aac)
qed

lemma forcing_SomeD: "forcing f r k = Some caps \<Longrightarrow> caps_wf r \<Longrightarrow> caps_wf caps \<and> caps_has caps k \<and> available f k"
  by (auto simp: forcing_def Let_def intro: caps_wf_force_on split: if_splits option.splits)


subsection \<open>Discovery as a machine\<close>

datatype discovery =
    FoundSbc u8
  | FoundSbcCaps u8 sbc_capabilities
  | FoundAac u8
  | FoundAacCaps u8 aac_capabilities
  | FoundVendor u8 bytes

fun discover :: "features \<Rightarrow> remote_caps \<Rightarrow> discovery \<Rightarrow> remote_caps" where
  "discover f r (FoundSbc seid) = add_sbc r seid"
| "discover f r (FoundSbcCaps seid c) = add_sbc_caps r seid c"
| "discover f r (FoundAac seid) = add_aac r seid"
| "discover f r (FoundAacCaps seid c) = add_aac_caps r seid c"
| "discover f r (FoundVendor seid info) = fst (add_vendor f r seid info)"

lemma caps_wf_discover: "caps_wf r \<Longrightarrow> caps_wf (discover f r ev)"
  by (cases ev) (simp_all add: caps_wf_add_sbc caps_wf_add_sbc_caps caps_wf_add_aac caps_wf_add_aac_caps caps_wf_add_vendor)

interpretation disc: inv_machine default_caps "discover f" "\<lambda>_. True" caps_wf for f
  by unfold_locales (simp_all add: caps_wf_default caps_wf_discover)

lemma add_sbc_caps_Some:
  "rc_sbc_caps r = Some c0 \<Longrightarrow> add_sbc_caps r s c =
     (if allows_xq c0 \<and> \<not> allows_xq c then r else r\<lparr> rc_sbc := Some \<lparr> sep_seid = s \<rparr>, rc_sbc_caps := Some c \<rparr>)"
  by (simp add: add_sbc_caps_def)

lemma add_sbc_caps_run:
  "xs \<noteq> [] \<Longrightarrow> (let ok = filter (\<lambda>x. allows_xq (snd x)) xs; (s, c) = last (if ok = [] then xs else ok)
     in rc_sbc (foldl (\<lambda>r (s, c). add_sbc_caps r s c) default_caps xs) = Some \<lparr> sep_seid = s \<rparr> \<and> rc_sbc_caps (foldl (\<lambda>r (s, c). add_sbc_caps r s c) default_caps xs) = Some c)"
proof (induction xs rule: rev_induct)
  case (snoc x xs)
  obtain s c where x: "x = (s, c)" by (cases x)
  show ?case
  proof (cases "xs = []")
    case True
    then show ?thesis by (simp add: x add_sbc_caps_def default_caps_def Let_def)
  next
    case False
    obtain s0 c0 where l: "last (if filter (\<lambda>x. allows_xq (snd x)) xs = [] then xs else filter (\<lambda>x. allows_xq (snd x)) xs) = (s0, c0)"
      by (meson surj_pair)
    have c0: "allows_xq c0 \<longleftrightarrow> filter (\<lambda>x. allows_xq (snd x)) xs \<noteq> []"
    proof (cases "filter (\<lambda>x. allows_xq (snd x)) xs = []")
      case True
      then have "last xs = (s0, c0)" using l by simp
      with True last_in_set[OF False] show ?thesis by (auto simp: filter_empty_conv)
    next
      case f: False
      then have "(s0, c0) \<in> set (filter (\<lambda>x. allows_xq (snd x)) xs)" using l last_in_set[OF f] by simp
      with f show ?thesis by simp
    qed
    have r: "rc_sbc (foldl (\<lambda>r (s, c). add_sbc_caps r s c) default_caps xs) = Some \<lparr> sep_seid = s0 \<rparr>" "rc_sbc_caps (foldl (\<lambda>r (s, c). add_sbc_caps r s c) default_caps xs) = Some c0"
      using snoc.IH[OF False] l by (simp_all add: Let_def)
    show ?thesis
    proof (cases "allows_xq c \<or> \<not> allows_xq c0")
      case True
      then have eq: "last (if filter (\<lambda>x. allows_xq (snd x)) (xs @ [x]) = [] then xs @ [x] else filter (\<lambda>x. allows_xq (snd x)) (xs @ [x])) = (s, c)"
        using c0 by (auto simp: x)
      show ?thesis unfolding Let_def eq using True r by (auto simp: x add_sbc_caps_Some[OF r(2)])
    next
      case False
      with c0 r l show ?thesis by (simp add: x add_sbc_caps_Some[OF r(2)] Let_def)
    qed
  qed
qed simp


subsection \<open>The nearest rate\<close>

lemma nearest_cases:
  fixes A B :: "'a::linorder set"
  assumes "A = {} \<Longrightarrow> B \<noteq> {}"
  shows "(case or_else (if {r \<in> A. r \<le> s} = {} then None else Some (Max {r \<in> A. r \<le> s}))
       (or_else (if {r \<in> A. s \<le> r} = {} then None else Some (Min {r \<in> A. s \<le> r}))
       (or_else (if {r \<in> B. s \<le> r} = {} then None else Some (Min {r \<in> B. s \<le> r}))
         (if {r \<in> B. r \<le> s} = {} then None else Some (Max {r \<in> B. r \<le> s})))) of Some r \<Rightarrow> r | None \<Rightarrow> s)
     = (if {r \<in> A. r \<le> s} \<noteq> {} then Max {r \<in> A. r \<le> s} else if A \<noteq> {} then Min A
        else if {r \<in> B. s \<le> r} \<noteq> {} then Min {r \<in> B. s \<le> r} else Max B)"
proof -
  have up: "{r \<in> C. r \<le> s} = {} \<Longrightarrow> {r \<in> C. s \<le> r} = C" for C by force
  have down: "{r \<in> C. s \<le> r} = {} \<Longrightarrow> {r \<in> C. r \<le> s} = C" for C by force
  consider "{r \<in> A. r \<le> s} \<noteq> {}" | "{r \<in> A. r \<le> s} = {}" "A \<noteq> {}" | "A = {}" "{r \<in> B. s \<le> r} \<noteq> {}"
    | "A = {}" "{r \<in> B. s \<le> r} = {}" by blast
  then show ?thesis
  proof cases
    case 1
    then show ?thesis by (simp only: if_False if_True or_else.simps option.case not_False_eq_True)
  next
    case 2
    then show ?thesis unfolding up[OF 2(1)] by (simp only: if_False if_True or_else.simps option.case not_False_eq_True refl simp_thms)
  next
    case 3
    then show ?thesis by auto
  next
    case 4
    then show ?thesis using assms unfolding down[OF 4(2)] by simp
  qed
qed

subsection \<open>Properties\<close>

text \<open>A build with every codec, for the concrete instances.\<close>

definition all_features :: features where
  "all_features = \<lparr> feat_aac = True, feat_aptx = True, feat_ldac = True, feat_lhdcv5 = True, feat_opus = True,
     feat_aptx_adaptive = True \<rparr>"

text \<open>C14. Discovery invariant: after any sequence of capability reports, the capabilities are well
  formed: LHDC V5 has a rate and a bit depth BlueCaster encodes, Opus a rate, a frame duration and a
  channel mode, FastStream and LDAC only rates of their own, aptX Adaptive its 48 kHz stereo layout,
  aptX LL one of its two vendor identifiers. Widening the options of a codec and forcing one keep
  that.\<close>

theorem discovery_caps_wf:
  fixes f :: features and evs :: "discovery list"
  defines "r \<equiv> foldl (discover f) default_caps evs"
  shows "caps_wf r \<and> caps_wf (unlisted r k) \<and> pred_option caps_wf (forcing f r k)"
proof -
  have "caps_wf r" unfolding r_def by (rule disc.reachable_inv) (simp add: list_all_iff)
  then show ?thesis
    using forcing_SomeD[of f r k] by (cases "forcing f r k") (simp_all add: caps_wf_unlisted)
qed



text \<open>Several SBC endpoints: of the endpoints reported with their capabilities, the one kept is the
  last that allows SBC XQ, or the last of all when none does; SBC XQ is offered exactly when one of
  them allows it.\<close>

lemma sbc_endpoint_kept:
  assumes "xs \<noteq> []"
  shows "let r = foldl (\<lambda>r (s, c). add_sbc_caps r s c) default_caps xs;
             ok = filter (\<lambda>x. allows_xq (snd x)) xs;
             kept = last (if ok = [] then xs else ok)
         in rc_sbc r = Some \<lparr> sep_seid = fst kept \<rparr> \<and> rc_sbc_caps r = Some (snd kept)
            \<and> (caps_has r SbcXq \<longleftrightarrow> ok \<noteq> [])"
proof -
  let ?ok = "filter (\<lambda>x. allows_xq (snd x)) xs"
  obtain s c where l: "last (if ?ok = [] then xs else ?ok) = (s, c)" by (meson surj_pair)
  have "allows_xq c \<longleftrightarrow> ?ok \<noteq> []"
  proof (cases "?ok = []")
    case True
    then show ?thesis using l last_in_set[OF assms] by (auto simp: filter_empty_conv)
  next
    case False
    then show ?thesis using l last_in_set[OF False] by auto
  qed
  then show ?thesis using add_sbc_caps_run[OF assms] by (simp add: Let_def l caps_has_def)
qed

definition example_sbc_caps :: "u8 \<Rightarrow> sbc_capabilities" where
  "example_sbc_caps mx = \<lparr> sbcc_sampling_frequency = 0x03, sbcc_channel_mode = 0x0F, sbcc_block_length = 0x0F,
     sbcc_subbands = 0x03, sbcc_allocation_method = 0x03, sbcc_min_bitpool = 2, sbcc_max_bitpool = mx \<rparr>"

lemma sbc_endpoint_kept_instance:
  "rc_sbc (foldl (\<lambda>r (s, c). add_sbc_caps r s c) default_caps
      [(1, example_sbc_caps 53), (2, example_sbc_caps 53), (3, example_sbc_caps 20)]) = Some \<lparr> sep_seid = 2 \<rparr>"
proof -
  have "allows_xq (example_sbc_caps 53)" "\<not> allows_xq (example_sbc_caps 20)"
    by (simp_all add: allows_xq_def xq_refusal_def example_sbc_caps_def caps_consts)
  then show ?thesis
    using sbc_endpoint_kept[of "[(1, example_sbc_caps 53), (2, example_sbc_caps 53), (3, example_sbc_caps 20)]"]
    by (simp add: Let_def)
qed

text \<open>C17. The vendor codecs' own capabilities are understood by the parser of the remote's: for every
  vendor codec of the build, the local endpoint exists, its capabilities are taken as that codec, and
  the codec is offered from then on.\<close>

theorem local_endpoints_understood:
  assumes "available f k" "k \<notin> {Sbc, SbcXq, Aac}"
  shows "\<exists>ep. List.find (\<lambda>e. ep_kind e = k) (local_endpoints f) = Some ep
    \<and> snd (add_vendor f r seid (ep_caps ep)) = Taken k \<and> caps_has (fst (add_vendor f r seid (ep_caps ep))) k"
proof -
  have "vendor_kind k" using assms(2) by (simp add: vendor_kind_def)
  from endpoint_taken[OF assms(1) this, of r seid] show ?thesis
    by (auto simp: add_vendor_def split_beta Let_def)
qed

theorem local_endpoints_understood_witness:
  "\<exists>ep. List.find (\<lambda>e. ep_kind e = LhdcV5) (local_endpoints all_features) = Some ep
    \<and> snd (add_vendor all_features default_caps 5 (ep_caps ep)) = Taken LhdcV5
    \<and> caps_has (fst (add_vendor all_features default_caps 5 (ep_caps ep))) LhdcV5"
  using local_endpoints_understood[of all_features LhdcV5 default_caps 5] by (simp add: all_features_def)

definition same_family :: "u32 list \<Rightarrow> u32 \<Rightarrow> u32 set" where
  "same_family listed source = {r \<in> set listed. rate_family r = rate_family source}"

definition other_family :: "u32 list \<Rightarrow> u32 \<Rightarrow> u32 set" where
  "other_family listed source = {r \<in> set listed. rate_family r \<noteq> rate_family source}"

text \<open>Matching the source's rate: of the listed rates (lowest first) the one taken is the highest of
  the source's family (44.1 kHz multiples or not) that is not above it, else the lowest of its family,
  else the lowest of the other family that is not below it, else the highest of the other
  family.\<close>

lemma nearest_rate_spec:
  assumes "sorted listed" "listed \<noteq> []"
  shows "(let same = same_family listed source; other = other_family listed source
     in nearest_rate listed source =
       (if {r \<in> same. r \<le> source} \<noteq> {} then Max {r \<in> same. r \<le> source}
        else if same \<noteq> {} then Min same
        else if {r \<in> other. source \<le> r} \<noteq> {} then Min {r \<in> other. source \<le> r}
        else Max other))"
proof -
  let ?S = "filter (\<lambda>r. rate_family r = rate_family source) listed"
  let ?O = "filter (\<lambda>r. rate_family r \<noteq> rate_family source) listed"
  have s: "sorted ?S" "sorted ?O" using assms sorted_filter[of "\<lambda>x. x" listed] by simp_all
  have S: "same_family listed source = set ?S" and O: "other_family listed source = set ?O"
    by (auto simp: same_family_def other_family_def)
  have ne: "set ?S = {} \<Longrightarrow> set ?O \<noteq> {}" using assms(2) by (cases listed) (auto split: if_splits)
  have "nearest_rate listed source =
      (case or_else (List.find (\<lambda>r. r \<le> source) (rev ?S)) (or_else (List.find (\<lambda>r. source \<le> r) ?S)
         (or_else (List.find (\<lambda>r. source \<le> r) ?O) (List.find (\<lambda>r. r \<le> source) (rev ?O)))) of
         Some r \<Rightarrow> r | None \<Rightarrow> source)"
    by (simp add: nearest_rate_def Let_def)
  then show ?thesis
    unfolding S O Let_def find_below_Max[OF s(1)] find_below_Max[OF s(2)] find_above_Min[OF s(1)] find_above_Min[OF s(2)]
    using nearest_cases[OF ne, where s = source] by (simp only:)
qed

lemma nearest_rate_spec_instance:
  "nearest_rate [44100, 48000, 96000] 88200 = 44100"
proof -
  have f: "rate_family 44100" "\<not> rate_family 48000" "\<not> rate_family 96000" "rate_family 88200"
    by (simp_all add: rate_family_def)
  have same: "same_family [44100, 48000, 96000] 88200 = {44100}" by (auto simp: same_family_def f)
  have "{r \<in> {44100::u32}. r \<le> 88200} = {44100}" by auto
  then show ?thesis
    using nearest_rate_spec[of "[44100, 48000, 96000]" 88200] unfolding same Let_def by simp
qed

end
