(* ===== verification/Caps_Offered.thy ===== *)
theory Caps_Offered
  imports Caps_Discovery
begin

text \<open>
  What a sink offers, said of the reports alone: which vendor information offers which codec
  (\<open>vendor_offers\<close>, the ids and the fields of the bytes), which codecs a sequence of discovery reports
  leaves on offer (\<open>offered_by\<close>), and that the record the discovery builds lists exactly those
  (\<open>offered_run\<close>), whatever the order of the reports.
\<close>

subsection \<open>What a run of reports offers\<close>

text \<open>\<open>since P Q xs\<close>: some element satisfies \<open>P\<close> and every later one satisfies \<open>Q\<close>.\<close>

primrec since :: "('a \<Rightarrow> bool) \<Rightarrow> ('a \<Rightarrow> bool) \<Rightarrow> 'a list \<Rightarrow> bool" where
  "since P Q [] = False"
| "since P Q (x # xs) = (P x \<and> list_all Q xs \<or> since P Q xs)"

lemma since_snoc [simp]: "since P Q (xs @ [x]) \<longleftrightarrow> P x \<or> (Q x \<and> since P Q xs)"
  by (induction xs) auto

text \<open>Which vendor information offers which codec, read from the bytes alone: the vendor and codec ids of
  the codec, and what the codec needs of the fields after them.\<close>

fun vendor_ids :: "codec_kind \<Rightarrow> (u32 \<times> u16) set" where
  "vendor_ids Ldac = {(0x12D, 0xAA)}"
| "vendor_ids Aptx = {(0x4F, 0x1)}"
| "vendor_ids AptxHd = {(0xD7, 0x24)}"
| "vendor_ids AptxLl = {(0xA, 0x2), (0xD7, 0x2)}"
| "vendor_ids AptxAdaptive = {(0xD7, 0xAD)}"
| "vendor_ids LhdcV5 = {(0x53A, 0x4C35)}"
| "vendor_ids Opus = {(0xE0, 0x1)}"
| "vendor_ids Opus05 = {(0x5F1, 0x1005)}"
| "vendor_ids FastStream = {(0xA, 0x1)}"
| "vendor_ids _ = {}"

fun vendor_fields_ok :: "codec_kind \<Rightarrow> bytes \<Rightarrow> bool" where
  "vendor_fields_ok Ldac info = True"
| "vendor_fields_ok AptxAdaptive info = (APTXAD_R1_LEN \<le> length info \<and> bit_set (info ! 6) APTXAD_RATE_48000
     \<and> bit_set (info ! 7) (APTXAD_CH_STEREO OR APTXAD_CH_JOINT_STEREO))"
| "vendor_fields_ok LhdcV5 info = (LHDCV5_INFO_LEN \<le> length info \<and> bit_set (info ! 6) LHDCV5_SR_MASK
     \<and> bit_set (info ! 7) (LHDCV5_BITS_16 OR LHDCV5_BITS_24)
     \<and> info ! 8 AND LHDCV5_VERSION_MASK AND LHDCV5_VERSION_1 \<noteq> 0 \<and> bit_set (info ! 8) LHDCV5_FRAME_5MS)"
| "vendor_fields_ok Opus info = (OPUS_INFO_LEN \<le> length info \<and> bit_set (info ! 6) OPUS_FREQ_48000
     \<and> bit_set (info ! 6) OPUS_FRAME_MASK \<and> bit_set (info ! 6) (OPUS_CH_MONO OR OPUS_CH_STEREO))"
| "vendor_fields_ok Opus05 info = (OPUS05_INFO_LEN \<le> length info \<and> info ! OPUS05_MAIN \<noteq> 0
     \<and> bit_set (info ! (OPUS05_MAIN + 6)) (OPUS05_FRAME_10MS OR OPUS05_FRAME_20MS))"
| "vendor_fields_ok FastStream info = (FASTSTREAM_INFO_LEN \<le> length info
     \<and> bit_set (info ! 6) FASTSTREAM_DIRECTION_SINK \<and> bit_set (info ! 7) FASTSTREAM_SINK_MASK)"
| "vendor_fields_ok _ info = (7 \<le> length info \<longrightarrow> bit_set (info ! 6) APTX_CH_STEREO)"

definition vendor_offers :: "codec_kind \<Rightarrow> bytes \<Rightarrow> bool" where
  "vendor_offers k info \<longleftrightarrow> (\<exists>i \<in> vendor_ids k. read_vendor info = Some i) \<and> vendor_fields_ok k info"

text \<open>The endpoint of a codec a sequence of reports leaves: SBC endpoints without readable capabilities
  forget that SBC XQ fits, AAC ones forget a usable capability.\<close>

fun offered_by :: "codec_kind \<Rightarrow> discovery list \<Rightarrow> bool" where
  "offered_by Sbc reports = list_ex (\<lambda>e. case e of FoundSbc _ \<Rightarrow> True | FoundSbcCaps _ _ \<Rightarrow> True | _ \<Rightarrow> False) reports"
| "offered_by SbcXq reports =
     since (\<lambda>e. case e of FoundSbcCaps _ c \<Rightarrow> allows_xq c | _ \<Rightarrow> False)
       (\<lambda>e. case e of FoundSbc _ \<Rightarrow> False | _ \<Rightarrow> True) reports"
| "offered_by Aac reports \<longleftrightarrow>
     since (\<lambda>e. case e of FoundAac _ \<Rightarrow> True | _ \<Rightarrow> False) (\<lambda>e. case e of FoundAacCaps _ _ \<Rightarrow> False | _ \<Rightarrow> True) reports
     \<or> since (\<lambda>e. case e of FoundAacCaps _ c \<Rightarrow> aac_usable c | _ \<Rightarrow> False)
       (\<lambda>e. case e of FoundAac _ \<Rightarrow> False | _ \<Rightarrow> True) reports"
| "offered_by k reports = list_ex (\<lambda>e. case e of FoundVendor _ info \<Rightarrow> vendor_offers k info | _ \<Rightarrow> False) reports"

lemma take_ldac_other: "k \<noteq> Ldac \<Longrightarrow> vendor_kind k \<Longrightarrow> caps_sep (fst (take_ldac r s info)) k = caps_sep r k"
  by (cases k) (simp_all add: vendor_kind_def take_ldac_def Let_def)

lemma take_aptxhd_other: "k \<noteq> AptxHd \<Longrightarrow> vendor_kind k \<Longrightarrow> caps_sep (fst (take_aptxhd r s info)) k = caps_sep r k"
  by (cases k) (simp_all add: vendor_kind_def take_aptxhd_def Let_def)

lemma take_aptxll_other: "k \<noteq> AptxLl \<Longrightarrow> vendor_kind k \<Longrightarrow> caps_sep (fst (take_aptxll r s v info)) k = caps_sep r k"
  by (cases k) (simp_all add: vendor_kind_def take_aptxll_def Let_def)

lemma take_aptxad_other: "k \<noteq> AptxAdaptive \<Longrightarrow> vendor_kind k \<Longrightarrow> caps_sep (fst (take_aptxad f r s info)) k = caps_sep r k"
  by (cases k) (simp_all add: vendor_kind_def take_aptxad_def Let_def)

lemma take_lhdcv5_other: "k \<noteq> LhdcV5 \<Longrightarrow> vendor_kind k \<Longrightarrow> caps_sep (fst (take_lhdcv5 f r s info)) k = caps_sep r k"
  by (cases k) (simp_all add: vendor_kind_def take_lhdcv5_def Let_def)

lemma take_opus_other: "k \<noteq> Opus \<Longrightarrow> vendor_kind k \<Longrightarrow> caps_sep (fst (take_opus r s info)) k = caps_sep r k"
  by (cases k) (simp_all add: vendor_kind_def take_opus_def Let_def)

lemma take_opus05_other: "k \<noteq> Opus05 \<Longrightarrow> vendor_kind k \<Longrightarrow> caps_sep (fst (take_opus05 r s info)) k = caps_sep r k"
  by (cases k) (simp_all add: vendor_kind_def take_opus05_def Let_def)

lemma take_faststream_other: "k \<noteq> FastStream \<Longrightarrow> vendor_kind k \<Longrightarrow> caps_sep (fst (take_faststream r s info)) k = caps_sep r k"
  by (cases k) (simp_all add: vendor_kind_def take_faststream_def Let_def)

lemma take_aptx_other: "k \<noteq> Aptx \<Longrightarrow> vendor_kind k \<Longrightarrow> caps_sep (fst (take_aptx r s info)) k = caps_sep r k"
  by (cases k) (simp_all add: vendor_kind_def take_aptx_def Let_def)

lemma take_ldac_self: "caps_sep (fst (take_ldac r s info)) Ldac \<noteq> None
    \<longleftrightarrow> vendor_fields_ok Ldac info \<or> caps_sep r Ldac \<noteq> None"
  by (auto simp: take_ldac_def Let_def bit_set_def byte_or0_def OPUS_INFO_LEN_def OPUS05_INFO_LEN_def OPUS05_MAIN_def FASTSTREAM_INFO_LEN_def
  APTXAD_R1_LEN_def LHDCV5_INFO_LEN_def)

lemma take_aptxhd_self: "caps_sep (fst (take_aptxhd r s info)) AptxHd \<noteq> None
    \<longleftrightarrow> vendor_fields_ok AptxHd info \<or> caps_sep r AptxHd \<noteq> None"
  by (auto simp: take_aptxhd_def Let_def bit_set_def byte_or0_def OPUS_INFO_LEN_def OPUS05_INFO_LEN_def OPUS05_MAIN_def FASTSTREAM_INFO_LEN_def
  APTXAD_R1_LEN_def LHDCV5_INFO_LEN_def)

lemma take_aptxll_self: "caps_sep (fst (take_aptxll r s v info)) AptxLl \<noteq> None
    \<longleftrightarrow> vendor_fields_ok AptxLl info \<or> caps_sep r AptxLl \<noteq> None"
  by (auto simp: take_aptxll_def Let_def bit_set_def byte_or0_def OPUS_INFO_LEN_def OPUS05_INFO_LEN_def OPUS05_MAIN_def FASTSTREAM_INFO_LEN_def
  APTXAD_R1_LEN_def LHDCV5_INFO_LEN_def)

lemma take_aptxad_self: "available f AptxAdaptive \<Longrightarrow> caps_sep (fst (take_aptxad f r s info)) AptxAdaptive \<noteq> None
    \<longleftrightarrow> vendor_fields_ok AptxAdaptive info \<or> caps_sep r AptxAdaptive \<noteq> None"
  by (auto simp: take_aptxad_def Let_def bit_set_def byte_or0_def OPUS_INFO_LEN_def OPUS05_INFO_LEN_def OPUS05_MAIN_def FASTSTREAM_INFO_LEN_def
  APTXAD_R1_LEN_def LHDCV5_INFO_LEN_def)

lemma take_lhdcv5_self: "available f LhdcV5 \<Longrightarrow> caps_sep (fst (take_lhdcv5 f r s info)) LhdcV5 \<noteq> None
    \<longleftrightarrow> vendor_fields_ok LhdcV5 info \<or> caps_sep r LhdcV5 \<noteq> None"
  by (auto simp: take_lhdcv5_def Let_def bit_set_def byte_or0_def OPUS_INFO_LEN_def OPUS05_INFO_LEN_def OPUS05_MAIN_def FASTSTREAM_INFO_LEN_def
  APTXAD_R1_LEN_def LHDCV5_INFO_LEN_def)

lemma take_opus_self: "caps_sep (fst (take_opus r s info)) Opus \<noteq> None
    \<longleftrightarrow> vendor_fields_ok Opus info \<or> caps_sep r Opus \<noteq> None"
  by (auto simp: take_opus_def Let_def bit_set_def byte_or0_def OPUS_INFO_LEN_def OPUS05_INFO_LEN_def OPUS05_MAIN_def FASTSTREAM_INFO_LEN_def
  APTXAD_R1_LEN_def LHDCV5_INFO_LEN_def)

lemma take_opus05_self: "caps_sep (fst (take_opus05 r s info)) Opus05 \<noteq> None
    \<longleftrightarrow> vendor_fields_ok Opus05 info \<or> caps_sep r Opus05 \<noteq> None"
  by (auto simp: take_opus05_def Let_def bit_set_def byte_or0_def OPUS_INFO_LEN_def OPUS05_INFO_LEN_def OPUS05_MAIN_def FASTSTREAM_INFO_LEN_def
  APTXAD_R1_LEN_def LHDCV5_INFO_LEN_def)

lemma take_faststream_self: "caps_sep (fst (take_faststream r s info)) FastStream \<noteq> None
    \<longleftrightarrow> vendor_fields_ok FastStream info \<or> caps_sep r FastStream \<noteq> None"
  by (auto simp: take_faststream_def Let_def bit_set_def byte_or0_def OPUS_INFO_LEN_def OPUS05_INFO_LEN_def OPUS05_MAIN_def FASTSTREAM_INFO_LEN_def
  APTXAD_R1_LEN_def LHDCV5_INFO_LEN_def)

lemma take_aptx_self: "caps_sep (fst (take_aptx r s info)) Aptx \<noteq> None
    \<longleftrightarrow> vendor_fields_ok Aptx info \<or> caps_sep r Aptx \<noteq> None"
  by (auto simp: take_aptx_def Let_def bit_set_def byte_or0_def OPUS_INFO_LEN_def OPUS05_INFO_LEN_def OPUS05_MAIN_def FASTSTREAM_INFO_LEN_def
  APTXAD_R1_LEN_def LHDCV5_INFO_LEN_def)

lemmas take_other = take_ldac_other take_aptxhd_other take_aptxll_other take_aptxad_other take_lhdcv5_other take_opus_other take_opus05_other take_faststream_other take_aptx_other

lemmas take_self = take_ldac_self take_aptxhd_self take_aptxll_self take_aptxad_self take_lhdcv5_self take_opus_self take_opus05_self take_faststream_self take_aptx_self

lemmas codec_ids = LDAC_VENDOR_ID_def LDAC_CODEC_ID_def APTXHD_VENDOR_ID_def APTXHD_CODEC_ID_def APTXLL_VENDOR_ID_def
  APTXLL_VENDOR_ID2_def APTXLL_CODEC_ID_def APTX_VENDOR_ID_def APTX_CODEC_ID_def APTXAD_VENDOR_ID_def APTXAD_CODEC_ID_def
  LHDCV5_VENDOR_ID_def LHDCV5_CODEC_ID_def OPUS_VENDOR_ID_def OPUS_CODEC_ID_def OPUS05_VENDOR_ID_def OPUS05_CODEC_ID_def
  FASTSTREAM_VENDOR_ID_def FASTSTREAM_CODEC_ID_def

lemma vendor_ids_consts:
  "vendor_ids Ldac = {(LDAC_VENDOR_ID, LDAC_CODEC_ID)}" "vendor_ids Aptx = {(APTX_VENDOR_ID, APTX_CODEC_ID)}"
  "vendor_ids AptxHd = {(APTXHD_VENDOR_ID, APTXHD_CODEC_ID)}"
  "vendor_ids AptxLl = {(APTXLL_VENDOR_ID, APTXLL_CODEC_ID), (APTXLL_VENDOR_ID2, APTXLL_CODEC_ID)}"
  "vendor_ids AptxAdaptive = {(APTXAD_VENDOR_ID, APTXAD_CODEC_ID)}"
  "vendor_ids LhdcV5 = {(LHDCV5_VENDOR_ID, LHDCV5_CODEC_ID)}" "vendor_ids Opus = {(OPUS_VENDOR_ID, OPUS_CODEC_ID)}"
  "vendor_ids Opus05 = {(OPUS05_VENDOR_ID, OPUS05_CODEC_ID)}"
  "vendor_ids FastStream = {(FASTSTREAM_VENDOR_ID, FASTSTREAM_CODEC_ID)}"
  by (simp_all add: codec_ids)

lemma vendor_ids_disjoint: "i \<in> vendor_ids k \<Longrightarrow> i \<in> vendor_ids k' \<Longrightarrow> k = k'"
  by (cases k; cases k'; simp)

text \<open>The branch \<open>take_vendor\<close> takes is that of the codec with those ids.\<close>

lemma take_vendor_split:
  assumes i: "read_vendor info = Some (vid, cid)"
    and "(vid, cid) \<in> vendor_ids Ldac \<Longrightarrow> P (take_ldac r seid info)"
    and "(vid, cid) \<in> vendor_ids AptxHd \<Longrightarrow> P (take_aptxhd r seid info)"
    and "(vid, cid) \<in> vendor_ids AptxLl \<Longrightarrow> P (take_aptxll r seid vid info)"
    and "(vid, cid) \<in> vendor_ids AptxAdaptive \<Longrightarrow> P (take_aptxad f r seid info)"
    and "(vid, cid) \<in> vendor_ids LhdcV5 \<Longrightarrow> P (take_lhdcv5 f r seid info)"
    and "(vid, cid) \<in> vendor_ids Opus \<Longrightarrow> P (take_opus r seid info)"
    and "(vid, cid) \<in> vendor_ids Opus05 \<Longrightarrow> P (take_opus05 r seid info)"
    and "(vid, cid) \<in> vendor_ids FastStream \<Longrightarrow> P (take_faststream r seid info)"
    and "(vid, cid) \<in> vendor_ids Aptx \<Longrightarrow> P (take_aptx r seid info)"
    and "(\<And>k. (vid, cid) \<notin> vendor_ids k) \<Longrightarrow> P (r, Unknown vid cid)"
  shows "P (take_vendor f r seid info)"
proof -
  have none: "(vid, cid) \<notin> vendor_ids k" if "(vid, cid) \<notin> vendor_ids Ldac \<union> vendor_ids AptxHd \<union> vendor_ids AptxLl
      \<union> vendor_ids AptxAdaptive \<union> vendor_ids LhdcV5 \<union> vendor_ids Opus \<union> vendor_ids Opus05 \<union> vendor_ids FastStream
      \<union> vendor_ids Aptx" for k
    using that by (cases k) (simp_all del: vendor_ids.simps(1-9))
  note a = assms(2-10)[unfolded vendor_ids_consts insert_iff prod.inject empty_iff simp_thms]
  note u = none[unfolded vendor_ids_consts Un_iff insert_iff prod.inject empty_iff simp_thms, THEN assms(11)]
  show ?thesis
    unfolding take_vendor_def i option.case prod.case
    unfolding if_split[of P]
    by (intro conjI impI; (erule a(1) | erule a(2) | erule a(4) | erule a(5) | erule a(6) | erule a(7) | erule a(8)
          | erule a(9) | (rule a(3), blast) | (rule u, blast)))
qed

lemma take_step:
  assumes "available f k" "vendor_kind k"
  shows "(caps_sep (fst (take_ldac r s info)) k \<noteq> None) = (k = Ldac \<and> vendor_fields_ok k info \<or> caps_sep r k \<noteq> None)"
    and "(caps_sep (fst (take_aptxhd r s info)) k \<noteq> None) = (k = AptxHd \<and> vendor_fields_ok k info \<or> caps_sep r k \<noteq> None)"
    and "(caps_sep (fst (take_aptxll r s v info)) k \<noteq> None) = (k = AptxLl \<and> vendor_fields_ok k info \<or> caps_sep r k \<noteq> None)"
    and "(caps_sep (fst (take_aptxad f r s info)) k \<noteq> None) = (k = AptxAdaptive \<and> vendor_fields_ok k info \<or> caps_sep r k \<noteq> None)"
    and "(caps_sep (fst (take_lhdcv5 f r s info)) k \<noteq> None) = (k = LhdcV5 \<and> vendor_fields_ok k info \<or> caps_sep r k \<noteq> None)"
    and "(caps_sep (fst (take_opus r s info)) k \<noteq> None) = (k = Opus \<and> vendor_fields_ok k info \<or> caps_sep r k \<noteq> None)"
    and "(caps_sep (fst (take_opus05 r s info)) k \<noteq> None) = (k = Opus05 \<and> vendor_fields_ok k info \<or> caps_sep r k \<noteq> None)"
    and "(caps_sep (fst (take_faststream r s info)) k \<noteq> None) = (k = FastStream \<and> vendor_fields_ok k info \<or> caps_sep r k \<noteq> None)"
    and "(caps_sep (fst (take_aptx r s info)) k \<noteq> None) = (k = Aptx \<and> vendor_fields_ok k info \<or> caps_sep r k \<noteq> None)"
  subgoal using assms take_ldac_self take_ldac_other by (cases "k = Ldac") auto
  subgoal using assms take_aptxhd_self take_aptxhd_other by (cases "k = AptxHd") auto
  subgoal using assms take_aptxll_self take_aptxll_other by (cases "k = AptxLl") auto
  subgoal using assms take_aptxad_self take_aptxad_other by (cases "k = AptxAdaptive") auto
  subgoal using assms take_lhdcv5_self take_lhdcv5_other by (cases "k = LhdcV5") auto
  subgoal using assms take_opus_self take_opus_other by (cases "k = Opus") auto
  subgoal using assms take_opus05_self take_opus05_other by (cases "k = Opus05") auto
  subgoal using assms take_faststream_self take_faststream_other by (cases "k = FastStream") auto
  subgoal using assms take_aptx_self take_aptx_other by (cases "k = Aptx") auto
  done

lemma vendor_sep:
  assumes k: "available f k" "vendor_kind k"
  shows "caps_sep (fst (take_vendor f r seid info)) k \<noteq> None \<longleftrightarrow> vendor_offers k info \<or> caps_sep r k \<noteq> None"
proof (cases "read_vendor info")
  case None
  then show ?thesis by (simp add: take_vendor_def vendor_offers_def)
next
  case (Some i)
  obtain vid cid where i: "read_vendor info = Some (vid, cid)" using Some by (cases i) simp
  have offers: "vendor_offers k info \<longleftrightarrow> k = k' \<and> vendor_fields_ok k info" if "(vid, cid) \<in> vendor_ids k'" for k'
    using that vendor_ids_disjoint[of "(vid, cid)" k' k] by (auto simp: vendor_offers_def i)
  show ?thesis
    by (rule take_vendor_split[where P = "\<lambda>t. caps_sep (fst t) k \<noteq> None \<longleftrightarrow> _", OF i])
      ((drule offers, simp only: take_step[OF k]) | simp add: vendor_offers_def i)+
qed


lemma vendor_keeps:
  "rc_sbc (fst (take_vendor f r seid info)) = rc_sbc r \<and> rc_sbc_caps (fst (take_vendor f r seid info)) = rc_sbc_caps r
   \<and> rc_aac (fst (take_vendor f r seid info)) = rc_aac r \<and> rc_aac_caps (fst (take_vendor f r seid info)) = rc_aac_caps r"
proof (cases "read_vendor info")
  case None
  then show ?thesis by (simp add: take_vendor_def)
next
  case (Some i)
  obtain vid cid where i: "read_vendor info = Some (vid, cid)" using Some by (cases i) simp
  show ?thesis
    by (rule take_vendor_split[where P = "\<lambda>t. rc_sbc (fst t) = rc_sbc r \<and> rc_sbc_caps (fst t) = rc_sbc_caps r
          \<and> rc_aac (fst t) = rc_aac r \<and> rc_aac_caps (fst t) = rc_aac_caps r", OF i])
      (simp_all add: take_defs Let_def)
qed

lemma add_vendor_fields:
  "caps_sep (fst (add_vendor f r seid info)) k = caps_sep (fst (take_vendor f r seid info)) k"
  "rc_sbc_caps (fst (add_vendor f r seid info)) = rc_sbc_caps r"
  "rc_aac_caps (fst (add_vendor f r seid info)) = rc_aac_caps r"
  "rc_sbc (fst (add_vendor f r seid info)) = rc_sbc r"
  "rc_aac (fst (add_vendor f r seid info)) = rc_aac r"
proof -
  have keep: "fst (add_vendor f r seid info) = fst (take_vendor f r seid info)
      \<or> (\<exists>x. fst (add_vendor f r seid info) = fst (take_vendor f r seid info)\<lparr> rc_ignored := x \<rparr>)"
    by (auto simp: add_vendor_def split_beta Let_def split: vendor_capability.split)
  have sep: "caps_sep (c\<lparr> rc_ignored := x \<rparr>) k = caps_sep c k" for c x
    by (cases k) (simp_all cong: option.case_cong if_cong)
  show "caps_sep (fst (add_vendor f r seid info)) k = caps_sep (fst (take_vendor f r seid info)) k"
    using keep sep by metis
  show "rc_sbc_caps (fst (add_vendor f r seid info)) = rc_sbc_caps r" "rc_aac_caps (fst (add_vendor f r seid info)) = rc_aac_caps r"
    "rc_sbc (fst (add_vendor f r seid info)) = rc_sbc r" "rc_aac (fst (add_vendor f r seid info)) = rc_aac r"
    using keep vendor_keeps[of f r seid info] by auto
qed

text \<open>What the record lists, codec by codec, follows the reports.\<close>

lemma xq_run:
  "(\<exists>c. rc_sbc_caps (foldl (discover f) default_caps reports) = Some c \<and> allows_xq c) \<longleftrightarrow> offered_by SbcXq reports"
proof (induction reports rule: rev_induct)
  case (snoc e es)
  then show ?case
    by (cases e) (auto simp: add_vendor_fields add_sbc_def add_sbc_caps_def add_aac_def add_aac_caps_def split: option.splits)
qed (simp add: default_caps_def)

lemma sbc_run: "rc_sbc (foldl (discover f) default_caps reports) \<noteq> None \<longleftrightarrow> offered_by Sbc reports"
proof (induction reports rule: rev_induct)
  case (snoc e es)
  have "rc_sbc_caps (foldl (discover f) default_caps es) \<noteq> None \<Longrightarrow> rc_sbc (foldl (discover f) default_caps es) \<noteq> None"
    using disc.reachable_inv[of es f] by (simp add: list_all_iff caps_wf_def rates_wf_def)
  with snoc show ?case
    by (cases e) (auto simp: add_vendor_fields add_sbc_def add_sbc_caps_def add_aac_def add_aac_caps_def split: option.splits)
qed (simp add: default_caps_def)

lemma aac_run:
  "(rc_aac_caps (foldl (discover f) default_caps reports) = None \<and> rc_aac (foldl (discover f) default_caps reports) \<noteq> None \<longleftrightarrow>
     since (\<lambda>e. case e of FoundAac _ \<Rightarrow> True | _ \<Rightarrow> False) (\<lambda>e. case e of FoundAacCaps _ _ \<Rightarrow> False | _ \<Rightarrow> True) reports)
   \<and> ((\<exists>c. rc_aac_caps (foldl (discover f) default_caps reports) = Some c \<and> aac_usable c) \<longleftrightarrow>
     since (\<lambda>e. case e of FoundAacCaps _ c \<Rightarrow> aac_usable c | _ \<Rightarrow> False) (\<lambda>e. case e of FoundAac _ \<Rightarrow> False | _ \<Rightarrow> True) reports)"
proof (induction reports rule: rev_induct)
  case (snoc e es)
  then show ?case
    by (cases e) (auto simp: add_vendor_fields add_sbc_def add_sbc_caps_def add_aac_def add_aac_caps_def split: option.splits)
qed (simp add: default_caps_def)

lemma vendor_run:
  assumes k: "available f k" "vendor_kind k"
  shows "caps_sep (foldl (discover f) default_caps reports) k \<noteq> None \<longleftrightarrow>
    list_ex (\<lambda>e. case e of FoundVendor _ info \<Rightarrow> vendor_offers k info | _ \<Rightarrow> False) reports"
proof (induction reports rule: rev_induct)
  case Nil
  show ?case using k(2) by (cases k) (simp_all add: vendor_kind_def default_caps_def)
next
  case (snoc e es)
  have other: "caps_sep (add_sbc r s) k = caps_sep r k" "caps_sep (add_sbc_caps r s c) k = caps_sep r k"
    "caps_sep (add_aac r s) k = caps_sep r k" "caps_sep (add_aac_caps r s a) k = caps_sep r k" for r s c a
    using k(2) by (cases k; simp add: vendor_kind_def add_sbc_def add_sbc_caps_def add_aac_def add_aac_caps_def)+
  show ?case
    using snoc vendor_sep[OF k] by (cases e) (auto simp: add_vendor_fields other)
qed

lemma offered_run:
  assumes "available f k"
  shows "caps_sep (foldl (discover f) default_caps reports) k \<noteq> None \<longleftrightarrow> offered_by k reports"
proof (cases "vendor_kind k")
  case True
  with vendor_run[OF assms True] show ?thesis by (cases k) (simp_all add: vendor_kind_def)
next
  case False
  let ?r = "foldl (discover f) default_caps reports"
  have wf: "caps_wf ?r" by (rule disc.reachable_inv) (simp add: list_all_iff)
  then have sbc: "rc_sbc_caps ?r \<noteq> None \<longrightarrow> rc_sbc ?r \<noteq> None" and aac: "rc_aac_caps ?r \<noteq> None \<longrightarrow> rc_aac ?r \<noteq> None"
    by (simp_all add: caps_wf_def rates_wf_def)
  consider "k = Sbc" | "k = SbcXq" | "k = Aac" using False by (auto simp: vendor_kind_def)
  then show ?thesis
  proof cases
    case 1
    then show ?thesis using sbc_run[of f reports] by simp
  next
    case 2
    then show ?thesis using xq_run[of f reports] sbc by (auto split: option.splits)
  next
    case 3
    then show ?thesis using aac_run[of f reports] aac by (auto split: option.splits)
  qed
qed

lemma vendor_adaptive:
  "rc_aptx_adaptive (fst (add_vendor f r seid info)) \<longleftrightarrow> rc_aptx_adaptive r \<or> read_vendor info = Some (0xD7, 0xAD)"
proof -
  have "rc_aptx_adaptive (fst (add_vendor f r seid info)) = rc_aptx_adaptive (fst (take_vendor f r seid info))"
    by (auto simp: add_vendor_def split_beta Let_def split: vendor_capability.split)
  also have "\<dots> \<longleftrightarrow> rc_aptx_adaptive r \<or> read_vendor info = Some (0xD7, 0xAD)"
  proof (cases "read_vendor info")
    case None
    then show ?thesis by (simp add: take_vendor_def)
  next
    case (Some i)
    obtain vid cid where i: "read_vendor info = Some (vid, cid)" using Some by (cases i) simp
    have ids: "(vid, cid) = (0xD7, 0xAD) \<longleftrightarrow> (vid, cid) \<in> vendor_ids AptxAdaptive" by simp
    have one: "(vid, cid) \<in> vendor_ids AptxAdaptive \<longleftrightarrow> k = AptxAdaptive" if "(vid, cid) \<in> vendor_ids k" for k
      using that vendor_ids_disjoint by blast
    show ?thesis unfolding i option.inject ids
      by (rule take_vendor_split[where P = "\<lambda>t. rc_aptx_adaptive (fst t) \<longleftrightarrow> rc_aptx_adaptive r \<or> _", OF i])
        ((drule one, simp only: take_defs Let_def, simp) | simp del: vendor_ids.simps)+
  qed
  finally show ?thesis .
qed

lemma adaptive_run:
  "rc_aptx_adaptive (foldl (discover f) default_caps reports) \<longleftrightarrow>
     list_ex (\<lambda>e. case e of FoundVendor _ info \<Rightarrow> read_vendor info = Some (0xD7, 0xAD) | _ \<Rightarrow> False) reports"
proof (induction reports rule: rev_induct)
  case (snoc e es)
  then show ?case
    by (cases e) (auto simp: vendor_adaptive add_sbc_def add_sbc_caps_def add_aac_def add_aac_caps_def)
qed (simp add: default_caps_def)

end
