(* ===== verification/Sbc_Abr.thy ===== *)
theory Sbc_Abr
  imports Sbc_Setup
begin

text \<open>
  The adaptive bitpool of SBC, proved: the states \<^verbatim>\<open>BitpoolAbr\<close> and its
  \<^verbatim>\<open>StallMemory\<close> reach keep the bitpool between the floor and the ceiling, step down at
  most once in five ticks and come back to the ceiling on a drained queue; the encoder that follows
  it never produces a frame longer than the \<^verbatim>\<open>max_output_bytes\<close> it announced.
\<close>

lemmas abr_consts = ABR_DOWN_DEPTH_def ABR_UP_DEPTH_def ABR_DOWN_STEP_def ABR_UP_STEP_def
  ABR_DOWN_TICKS_def ABR_UP_TICKS_def ABR_MIN_BITPOOL_def STALL_TICKS_def STALL_MAX_TICKS_def
  FORGET_TICKS_def

lemmas u8_nat = word_le_nat_alt word_less_nat_alt unat_saturating_sub unat_saturating_add

lemma abr_next:
  "bp < c \<Longrightarrow> unat (min (saturating_add bp ABR_UP_STEP) c) = unat bp + 1" for bp c :: u8
proof -
  assume "bp < c"
  moreover have "unat c < 256" using unsigned_less[of c] by simp
  ultimately have "saturating_add bp ABR_UP_STEP \<le> c"
    by (simp add: u8_nat abr_consts)
  then show ?thesis using \<open>bp < c\<close> \<open>unat c < 256\<close> by (simp add: u8_nat abr_consts min_def)
qed

subsection \<open>The bitpool over a run\<close>

definition abr_tick :: "bitpool_abr \<times> u8 \<Rightarrow> u32 \<Rightarrow> bitpool_abr \<times> u8" where
  "abr_tick s d = abr_step (fst s) (snd s) d"

lemma abr_tick_Pair: "abr_tick (a, bp) d = abr_step a bp d"
  by (simp add: abr_tick_def)

definition stall_ok :: "stall_memory \<Rightarrow> bool" where
  "stall_ok m \<longleftrightarrow> (case sm_stall m of None \<Rightarrow> True | Some s \<Rightarrow> stall_wait s \<le> STALL_MAX_TICKS)"

definition abr_wf :: "bitpool_abr \<times> u8 \<Rightarrow> bool" where
  "abr_wf s \<longleftrightarrow> abr_low (fst s) \<le> snd s \<and> snd s \<le> abr_ceiling (fst s) \<and> stall_ok (stalls (fst s))
     \<and> (snd s < abr_ceiling (fst s) \<longrightarrow> calm (fst s) < STALL_MAX_TICKS)"

lemma stall_ok_stepped_down: "stall_ok m \<Longrightarrow> stall_ok (stepped_down m b)"
  by (auto simp: stall_ok_def stepped_down_def Let_def abr_consts split: option.splits)

lemma stall_ok_tick: "stall_ok m \<Longrightarrow> stall_ok (stall_tick m n c u)"
  by (auto simp: stall_ok_def stall_tick_def Let_def split: option.splits)

lemma stall_ok_wait: "stall_ok m \<Longrightarrow> stall_wait_for m n x ABR_UP_TICKS \<le> STALL_MAX_TICKS"
  by (auto simp: stall_ok_def stall_wait_for_def abr_consts split: option.splits)

lemma abr_step_fixed:
  "abr_low (fst (abr_step a bp d)) = abr_low a" "abr_ceiling (fst (abr_step a bp d)) = abr_ceiling a"
  by (simp_all add: abr_step_def Let_def)

lemma abr_step_congested:
  assumes "ABR_DOWN_DEPTH \<le> d"
  shows "calm (fst (abr_step a bp d)) = 0"
    and "snd (abr_step a bp d) = (if ABR_DOWN_TICKS \<le> saturating_add (since_down a) 1 \<and> abr_low a < bp
           then max (saturating_sub bp ABR_DOWN_STEP) (abr_low a) else bp)"
    and "stalls (fst (abr_step a bp d)) = (if ABR_DOWN_TICKS \<le> saturating_add (since_down a) 1 \<and> abr_low a < bp
           then stepped_down (stalls a) bp else stalls a)"
    and "since_down (fst (abr_step a bp d)) = (if ABR_DOWN_TICKS \<le> saturating_add (since_down a) 1 \<and> abr_low a < bp
           then 0 else saturating_add (since_down a) 1)"
  using assms by (simp_all add: abr_step_def Let_def)

lemma abr_step_flowing:
  fixes a :: bitpool_abr and bp :: u8 and d :: u32
  assumes "d < ABR_DOWN_DEPTH"
  defines "c \<equiv> (if d \<le> ABR_UP_DEPTH then calm a + 1 else 0)"
  defines "m \<equiv> stall_tick (stalls a) bp c ABR_UP_TICKS"
  defines "nxt \<equiv> min (saturating_add bp ABR_UP_STEP) (abr_ceiling a)"
  defines "up \<equiv> stall_wait_for m bp nxt ABR_UP_TICKS \<le> c \<and> bp < abr_ceiling a"
  shows "calm (fst (abr_step a bp d)) = (if up then 0 else c)"
    and "snd (abr_step a bp d) = (if up then nxt else bp)"
    and "stalls (fst (abr_step a bp d)) = m"
    and "since_down (fst (abr_step a bp d)) = saturating_add (since_down a) 1"
  using assms by (simp_all add: abr_step_def Let_def not_le[symmetric])

lemma abr_step_wf:
  assumes wf: "abr_wf (a, bp)"
  shows "abr_wf (abr_step a bp d)"
proof (cases "ABR_DOWN_DEPTH \<le> d")
  case True
  have "saturating_sub bp ABR_DOWN_STEP \<le> abr_ceiling a" "abr_low a \<le> abr_ceiling a"
    using wf by (auto simp: abr_wf_def u8_nat)
  with True wf show ?thesis
    by (auto simp: abr_wf_def abr_step_fixed abr_step_congested stall_ok_stepped_down abr_consts)
next
  case False
  then have lt: "d < ABR_DOWN_DEPTH" by simp
  let ?c = "if d \<le> ABR_UP_DEPTH then calm a + 1 else 0"
  let ?m = "stall_tick (stalls a) bp ?c ABR_UP_TICKS"
  let ?nxt = "min (saturating_add bp ABR_UP_STEP) (abr_ceiling a)"
  have ok: "stall_ok ?m" using wf by (simp add: abr_wf_def stall_ok_tick)
  note w = stall_ok_wait[OF ok, of bp ?nxt]
  show ?thesis
  proof (cases "stall_wait_for ?m bp ?nxt ABR_UP_TICKS \<le> ?c \<and> bp < abr_ceiling a")
    case up: True
    have "unat ?nxt = unat bp + 1" using up by (intro abr_next) simp
    then have "abr_low a \<le> ?nxt" using wf by (simp add: abr_wf_def word_le_nat_alt)
    with up ok show ?thesis
      unfolding abr_wf_def abr_step_fixed abr_step_flowing[OF lt] by (simp add: abr_consts)
  next
    case stay: False
    have "bp < abr_ceiling a \<Longrightarrow> ?c < STALL_MAX_TICKS" using stay w by auto
    with ok wf show ?thesis
      unfolding abr_wf_def abr_step_fixed abr_step_flowing[OF lt] if_not_P[OF stay]
      by (simp split del: if_split)
  qed
qed

lemma abr_new_wf: "abr_wf (abr_new lo hi, hi)"
  by (simp add: abr_wf_def abr_new_def stall_ok_def abr_consts)

interpretation abr: inv_machine "(abr_new lo hi, hi)" abr_tick "\<lambda>_. True" abr_wf
  for lo hi :: u8
  by unfold_locales (auto simp: abr_new_wf abr_tick_def intro: abr_step_wf)

lemma abr_run_fixed:
  "abr_low (fst (foldl abr_tick s ds)) = abr_low (fst s)"
  "abr_ceiling (fst (foldl abr_tick s ds)) = abr_ceiling (fst s)"
  by (induction ds arbitrary: s) (simp_all add: abr_tick_def abr_step_fixed)

lemma abr_step_not_down:
  assumes wf: "abr_wf (a, bp)" and "unat (since_down a) + 1 < 5"
  shows "bp \<le> snd (abr_step a bp d) \<and> unat (since_down (fst (abr_step a bp d))) = unat (since_down a) + 1"
proof -
  have s: "unat (saturating_add (since_down a) 1) = unat (since_down a) + 1"
    using assms(2) by (simp add: unat_saturating_add)
  then have n: "\<not> ABR_DOWN_TICKS \<le> saturating_add (since_down a) 1"
    using assms(2) by (simp add: word_le_nat_alt abr_consts)
  show ?thesis
  proof (cases "ABR_DOWN_DEPTH \<le> d")
    case True
    then show ?thesis using n s by (simp add: abr_step_congested)
  next
    case False
    then have lt: "d < ABR_DOWN_DEPTH" by simp
    have "bp < abr_ceiling a \<Longrightarrow> bp \<le> min (saturating_add bp ABR_UP_STEP) (abr_ceiling a)"
      using abr_next[of bp "abr_ceiling a"] by (simp add: word_le_nat_alt)
    then show ?thesis using s unfolding abr_step_flowing[OF lt] by auto
  qed
qed

lemma abr_run_not_down:
  "abr_wf s \<Longrightarrow> unat (since_down (fst s)) + length ds < 5 \<Longrightarrow> snd s \<le> snd (foldl abr_tick s ds)"
proof (induction ds arbitrary: s)
  case (Cons d ds)
  obtain a bp where s: "s = (a, bp)" by (cases s)
  have st: "bp \<le> snd (abr_step a bp d)" "unat (since_down (fst (abr_step a bp d))) = unat (since_down a) + 1"
    using abr_step_not_down[of a bp d] Cons.prems s by auto
  have "snd (abr_step a bp d) \<le> snd (foldl abr_tick (abr_step a bp d) ds)"
    using Cons.prems s st by (intro Cons.IH) (auto intro: abr_step_wf)
  with st(1) have "bp \<le> snd (foldl abr_tick (abr_step a bp d) ds)" by (rule order_trans)
  then show ?case by (simp add: s abr_tick_Pair)
qed simp

lemma abr_drained_step:
  assumes wf: "abr_wf (a, bp)" and d: "d \<le> ABR_UP_DEPTH" and below: "bp < abr_ceiling a"
  shows "(unat (snd (abr_step a bp d)) = unat bp + 1)
       \<or> (snd (abr_step a bp d) = bp \<and> unat (calm (fst (abr_step a bp d))) = unat (calm a) + 1)"
proof -
  have lt: "d < ABR_DOWN_DEPTH" using d by (simp add: abr_consts word_less_nat_alt word_le_nat_alt)
  have "calm a < STALL_MAX_TICKS" using wf below by (simp add: abr_wf_def)
  then have "unat (calm a + 1) = unat (calm a) + 1"
    by (simp add: abr_consts word_less_nat_alt unat_word_ariths)
  then show ?thesis using d below abr_next[OF below]
    unfolding abr_step_flowing[OF lt] by auto
qed

lemma abr_drained_ceiling:
  assumes d: "d \<le> ABR_UP_DEPTH"
  shows "snd (abr_step a (abr_ceiling a) d) = abr_ceiling a"
proof -
  have "d < ABR_DOWN_DEPTH" using d by (simp add: abr_consts word_less_nat_alt word_le_nat_alt)
  then show ?thesis by (simp add: abr_step_flowing)
qed

lemma abr_stays_at_ceiling:
  "list_all (\<lambda>d. d \<le> ABR_UP_DEPTH) ds \<Longrightarrow> snd s = abr_ceiling (fst s) \<Longrightarrow> snd (foldl abr_tick s ds) = abr_ceiling (fst s)"
  by (induction ds arbitrary: s) (simp_all add: abr_tick_def abr_step_fixed abr_drained_ceiling)

text \<open>How many drained ticks the bitpool is at most away from the ceiling: 1200 for every step below it,
  less the calm ticks counted so far.\<close>

definition abr_wait :: "bitpool_abr \<times> u8 \<Rightarrow> nat" where
  "abr_wait s = 1200 * (unat (abr_ceiling (fst s)) - unat (snd s))
     - (if snd s < abr_ceiling (fst s) then unat (calm (fst s)) else 0)"

lemma abr_wait_step:
  assumes wf: "abr_wf (a, bp)" and d: "d \<le> ABR_UP_DEPTH" and below: "bp < abr_ceiling a"
  shows "abr_wait (abr_step a bp d) < abr_wait (a, bp)"
proof -
  have c: "unat (calm a) < 1200" using wf below by (simp add: abr_wf_def abr_consts word_less_nat_alt)
  have b: "unat bp < unat (abr_ceiling a)" using below by (simp add: word_less_nat_alt)
  obtain k where k: "unat (abr_ceiling a) = Suc (unat bp + k)" using b less_iff_Suc_add by metis
  from abr_drained_step[OF wf d below] show ?thesis
    using c k below by (auto simp: abr_wait_def abr_step_fixed)
qed

lemma abr_drains_to_ceiling:
  "abr_wf s \<Longrightarrow> list_all (\<lambda>d. d \<le> ABR_UP_DEPTH) ds \<Longrightarrow> abr_wait s \<le> length ds \<Longrightarrow>
     snd (foldl abr_tick s ds) = abr_ceiling (fst s)"
proof (induction ds arbitrary: s)
  case Nil
  obtain a bp where s: "s = (a, bp)" by (cases s)
  have "\<not> bp < abr_ceiling a"
  proof
    assume below: "bp < abr_ceiling a"
    have "abr_wait (abr_step a bp 0) < abr_wait (a, bp)"
      using Nil.prems below s by (intro abr_wait_step) (auto simp: abr_consts)
    then show False using Nil.prems s by simp
  qed
  then show ?case using Nil.prems s by (simp add: abr_wf_def)
next
  case (Cons d ds)
  obtain a bp where s: "s = (a, bp)" by (cases s)
  show ?case
  proof (cases "bp < abr_ceiling a")
    case True
    then have "abr_wait (abr_step a bp d) < abr_wait (a, bp)" using Cons.prems s by (intro abr_wait_step) auto
    then have "snd (foldl abr_tick (abr_step a bp d) ds) = abr_ceiling (fst (abr_step a bp d))"
      using Cons.prems s by (intro Cons.IH) (auto intro: abr_step_wf)
    then show ?thesis by (simp add: s abr_tick_Pair abr_step_fixed)
  next
    case False
    then have "snd s = abr_ceiling (fst s)" using Cons.prems s by (simp add: abr_wf_def)
    then show ?thesis using Cons.prems by (intro abr_stays_at_ceiling) auto
  qed
qed

subsection \<open>The encoder over a run\<close>

datatype abr_event = Adjust u32 | Reconnect

fun se_step :: "sbc_encoder \<Rightarrow> abr_event \<Rightarrow> sbc_encoder" where
  "se_step e (Adjust depth) = se_abr_adjust e depth"
| "se_step e Reconnect = se_abr_reset e"

lemma effective_bitpool_nat:
  "unat (effective_bitpool c) = min (unat (sc_bitpool c))
     (if shared_bitpool (sc_channel_mode c) then (if sc_subbands c = 8 then 255 else 128)
      else 16 * unat (sc_subbands c))"
proof -
  have "unat (of_nat (min (unat (sc_bitpool c)) m) :: u8) = min (unat (sc_bitpool c)) m" for m
    using unsigned_less[of "sc_bitpool c", where ?'a = nat]
    by (simp add: unat_of_nat take_bit_eq_mod min_less_iff_disj)
  then show ?thesis by (simp add: effective_bitpool_def Let_def)
qed

lemma effective_bitpool_le: "effective_bitpool c \<le> sc_bitpool c"
  by (simp add: word_le_nat_alt effective_bitpool_nat)

lemma frame_len_mono:
  assumes "effective_bitpool (c\<lparr>sc_bitpool := b\<rparr>) \<le> effective_bitpool (c\<lparr>sc_bitpool := b'\<rparr>)"
  shows "frame_len (c\<lparr>sc_bitpool := b\<rparr>) \<le> frame_len (c\<lparr>sc_bitpool := b'\<rparr>)"
proof -
  have le: "unat (effective_bitpool (c\<lparr>sc_bitpool := b\<rparr>)) \<le> unat (effective_bitpool (c\<lparr>sc_bitpool := b'\<rparr>))"
    using assms by (simp add: word_le_nat_alt)
  show ?thesis
    unfolding frame_len_def Let_def
    by (cases "sc_channel_mode c") (auto intro!: div_le_mono add_mono mult_le_mono simp: le)
qed

definition se_wf :: "sbc_encoder \<Rightarrow> bool" where
  "se_wf e \<longleftrightarrow>
     (let c = fe_config (se_frame e)
      in fe_bitpool (se_frame e) = effective_bitpool c
       \<and> se_frame_len e = max_frame_len (se_frame e)
       \<and> (sc_subbands c = 4 \<or> sc_subbands c = 8)
       \<and> (case se_abr e of
            None \<Rightarrow> se_frame_len e = se_max_frame_len e
          | Some a \<Rightarrow> 0 < abr_low a \<and> abr_low a < abr_ceiling a \<and> abr_low a \<le> sc_bitpool c
              \<and> effective_bitpool c \<le> abr_ceiling a
              \<and> effective_bitpool (c\<lparr>sc_bitpool := abr_ceiling a\<rparr>) = abr_ceiling a
              \<and> se_max_frame_len e = frame_len (c\<lparr>sc_bitpool := abr_ceiling a\<rparr>)))"

lemma effective_pos:
  assumes "sc_subbands c = 4 \<or> sc_subbands c = 8" and "0 < sc_bitpool c"
  shows "effective_bitpool c \<noteq> 0"
proof -
  have "0 < unat (effective_bitpool c)"
    using assms by (auto simp: effective_bitpool_nat word_less_nat_alt)
  then show ?thesis by auto
qed

lemma se_wf_bound: "se_wf e \<Longrightarrow> se_frame_len e \<le> se_max_frame_len e"
proof (cases "se_abr e")
  case (Some a)
  assume wf: "se_wf e"
  let ?c = "fe_config (se_frame e)"
  have pos: "0 < sc_bitpool ?c" using wf Some by (auto simp: se_wf_def Let_def)
  then have "se_frame_len e = frame_len ?c"
    using wf effective_pos[of ?c] by (auto simp: se_wf_def Let_def max_frame_len_def)
  moreover have "frame_len (?c\<lparr>sc_bitpool := sc_bitpool ?c\<rparr>) \<le> frame_len (?c\<lparr>sc_bitpool := abr_ceiling a\<rparr>)"
    using wf Some by (intro frame_len_mono) (simp add: se_wf_def Let_def)
  ultimately show ?thesis using wf Some by (simp add: se_wf_def Let_def)
qed (simp add: se_wf_def Let_def)

lemma effective_mono: "b \<le> b' \<Longrightarrow> effective_bitpool (c\<lparr>sc_bitpool := b\<rparr>) \<le> effective_bitpool (c\<lparr>sc_bitpool := b'\<rparr>)"
  by (auto simp: word_le_nat_alt effective_bitpool_nat)

lemma effective_capped: "b \<le> n \<Longrightarrow> effective_bitpool (c\<lparr>sc_bitpool := b\<rparr>) \<le> n"
  using effective_bitpool_le[of "c\<lparr>sc_bitpool := b\<rparr>"] by simp

lemma abr_step_bitpool:
  assumes "abr_low a \<le> bp" and "abr_low a < abr_ceiling a"
  shows "abr_low a \<le> snd (abr_step a bp d) \<and> (snd (abr_step a bp d) \<le> bp \<or> snd (abr_step a bp d) \<le> abr_ceiling a)"
proof (cases "ABR_DOWN_DEPTH \<le> d")
  case True
  moreover have "saturating_sub bp ABR_DOWN_STEP \<le> bp" by (simp add: u8_nat)
  ultimately show ?thesis using assms by (auto simp: abr_step_congested)
next
  case False
  then have lt: "d < ABR_DOWN_DEPTH" by simp
  have "bp < abr_ceiling a \<Longrightarrow> abr_low a \<le> min (saturating_add bp ABR_UP_STEP) (abr_ceiling a)"
    using abr_next[of bp "abr_ceiling a"] assms by (simp add: word_le_nat_alt)
  then show ?thesis using assms unfolding abr_step_flowing[OF lt] by auto
qed

lemma se_set_bitpool_wf:
  assumes wf: "se_wf e" and a: "se_abr e = Some a" and low: "abr_low a \<le> bp"
    and cap: "bp \<le> sc_bitpool (fe_config (se_frame e)) \<or> bp \<le> abr_ceiling a"
    and a': "abr_low a' = abr_low a" "abr_ceiling a' = abr_ceiling a"
  shows "se_wf (se_set_bitpool (e\<lparr>se_abr := Some a'\<rparr>) bp)"
proof -
  let ?c = "fe_config (se_frame e)"
  have "effective_bitpool (?c\<lparr>sc_bitpool := bp\<rparr>) \<le> abr_ceiling a"
  proof (cases "bp \<le> abr_ceiling a")
    case False
    then have "effective_bitpool (?c\<lparr>sc_bitpool := bp\<rparr>) \<le> effective_bitpool (?c\<lparr>sc_bitpool := sc_bitpool ?c\<rparr>)"
      using cap by (intro effective_mono) simp
    also have "\<dots> \<le> abr_ceiling a" using wf a by (simp add: se_wf_def Let_def)
    finally show ?thesis .
  qed (rule effective_capped)
  with assms show ?thesis
    by (auto simp: se_wf_def se_set_bitpool_def se_bitpool_def frame_set_bitpool_def Let_def)
qed

lemma se_step_wf: "se_wf e \<Longrightarrow> se_wf (se_step e ev)"
proof (cases "se_abr e")
  case None
  then show "se_wf e \<Longrightarrow> ?thesis" by (cases ev) (simp_all add: se_abr_adjust_def se_abr_reset_def)
next
  case (Some a)
  assume wf: "se_wf e"
  let ?bp = "se_bitpool e"
  have inv: "abr_low a \<le> ?bp" "abr_low a < abr_ceiling a"
    using wf Some by (auto simp: se_wf_def Let_def se_bitpool_def)
  show ?thesis
  proof (cases ev)
    case (Adjust d)
    have "se_wf (se_set_bitpool (e\<lparr>se_abr := Some (fst (abr_step a ?bp d))\<rparr>) (snd (abr_step a ?bp d)))"
      using abr_step_bitpool[OF inv, of d]
      by (intro se_set_bitpool_wf[OF wf Some]) (auto simp: abr_step_fixed se_bitpool_def)
    moreover have "se_set_bitpool (e\<lparr>se_abr := Some x\<rparr>) ?bp = e\<lparr>se_abr := Some x\<rparr>" for x
      by (simp add: se_set_bitpool_def se_bitpool_def)
    ultimately show ?thesis
      using Adjust Some by (auto simp: se_abr_adjust_def Let_def split_beta)
  next
    case Reconnect
    have "se_wf (se_set_bitpool (e\<lparr>se_abr := Some (abr_new (abr_low a) (abr_ceiling a))\<rparr>) (abr_ceiling a))"
      using inv by (intro se_set_bitpool_wf[OF wf Some]) (auto simp: abr_new_def)
    then show ?thesis using Reconnect Some
      by (simp add: se_abr_reset_def abr_reset_def Let_def abr_new_def)
  qed
qed

lemma frame_encoder_new_wf:
  "frame_encoder_new c = Inr fe \<Longrightarrow>
     fe_config fe = c \<and> fe_bitpool fe = effective_bitpool c \<and> (sc_subbands c = 4 \<or> sc_subbands c = 8)"
  by (auto simp: frame_encoder_new_def validate_def Let_def split: sum.splits if_splits option.splits)

lemma abr_floor_pos:
  "0 < ceiling \<Longrightarrow> 0 < abr_floor k m rate sink_min ceiling"
  "0 < ceiling \<Longrightarrow> 0 < user_abr_floor mn sink_min ceiling"
  by (auto simp: abr_floor_def user_abr_floor_def abr_consts Let_def less_max_iff_disj)

definition sbc_abr_low :: "codec_kind \<Rightarrow> encoder_config \<Rightarrow> u8 \<Rightarrow> u8" where
  "sbc_abr_low k cfg ceiling =
     (let p = pp_sbc (ec_peer cfg)
      in if sp_min_bitpool p = 0
         then abr_floor k (params_channel_mode p k (ec_channels cfg)) (ec_sample_rate cfg)
                (pp_sbc_min_bitpool (ec_peer cfg)) ceiling
         else user_abr_floor (sp_min_bitpool p) (pp_sbc_min_bitpool (ec_peer cfg)) ceiling)"

lemma sbc_with_mode_Inr:
  assumes "sbc_with_mode k cfg bp = Inr e"
  obtains c fe low where "frame_encoder_new c = Inr fe" "sc_bitpool c = bp" "se_frame e = fe"
    "se_frame_len e = max_frame_len fe" "se_max_frame_len e = max_frame_len fe"
    "0 < effective_bitpool c \<Longrightarrow> 0 < low"
    "low = sbc_abr_low k cfg (effective_bitpool c)"
    "se_abr e = (if ec_abr cfg \<and> min low (effective_bitpool c) < effective_bitpool c
                 then Some (abr_new low (effective_bitpool c)) else None)"
proof -
  let ?p = "pp_sbc (ec_peer cfg)"
  let ?mode = "params_channel_mode ?p k (ec_channels cfg)"
  let ?c = "\<lparr> sc_sample_rate = ec_sample_rate cfg, sc_channel_mode = ?mode,
               sc_blocks = params_blocks ?p, sc_subbands = params_subbands ?p,
               sc_allocation = params_allocation ?p, sc_bitpool = bp \<rparr>"
  let ?low = "sbc_abr_low k cfg (effective_bitpool ?c)"
  obtain fe where fe: "frame_encoder_new ?c = Inr fe"
    using assms by (auto simp: sbc_with_mode_def Let_def split: if_splits sum.splits)
  have cfg: "fe_config fe = ?c" using frame_encoder_new_wf[OF fe] by simp
  have "0 < effective_bitpool ?c \<Longrightarrow> 0 < ?low" by (simp add: abr_floor_pos sbc_abr_low_def Let_def)
  moreover have "se_frame e = fe \<and> se_frame_len e = max_frame_len fe \<and> se_max_frame_len e = max_frame_len fe
      \<and> se_abr e = (if ec_abr cfg \<and> min ?low (effective_bitpool ?c) < effective_bitpool ?c
                   then Some (abr_new ?low (effective_bitpool ?c)) else None)"
    using assms fe cfg unfolding sbc_with_mode_def sbc_abr_low_def Let_def
    by (simp add: abr_new_def split: if_split_asm) force+
  ultimately show thesis using that[OF fe, of ?low] by simp
qed

lemma sbc_with_mode_wf:
  assumes "sbc_with_mode k cfg bp = Inr e"
  shows "se_wf e"
  using assms
proof (cases rule: sbc_with_mode_Inr)
  case (1 c fe low)
  note w = frame_encoder_new_wf[OF 1(1)]
  have idem: "effective_bitpool (c\<lparr>sc_bitpool := effective_bitpool c\<rparr>) = effective_bitpool c"
    by (simp add: word_eq_iff_unsigned[where ?'a = nat] effective_bitpool_nat)
  then have len: "frame_len (c\<lparr>sc_bitpool := effective_bitpool c\<rparr>) = frame_len c"
    by (simp add: frame_len_def Let_def)
  show ?thesis
  proof (cases "se_abr e")
    case None
    then show ?thesis using 1 w by (simp add: se_wf_def Let_def)
  next
    case (Some a)
    then have a: "a = abr_new low (effective_bitpool c)" and lt: "low < effective_bitpool c"
      using 1 by (auto simp: min_less_iff_disj split: if_splits)
    have "effective_bitpool c \<le> bp" using effective_bitpool_le[of c] 1 by simp
    then have "low \<le> bp" using lt by simp
    moreover have "0 < low" using 1(6) lt by (auto simp: word_gt_0)
    ultimately show ?thesis
      using Some 1 w a lt idem len by (auto simp: se_wf_def Let_def abr_new_def max_frame_len_def)
  qed
qed

lemma se_step_max: "se_max_frame_len (se_step e ev) = se_max_frame_len e"
  by (cases ev) (simp_all add: se_abr_adjust_def se_abr_reset_def se_set_bitpool_def Let_def split_beta
      split: option.splits)

lemma se_run_max: "se_max_frame_len (foldl se_step e evs) = se_max_frame_len e"
  by (induction evs arbitrary: e) (simp_all add: se_step_max)

lemma se_wf_machine: "se_wf e \<Longrightarrow> inv_machine e se_step (\<lambda>_. True) se_wf"
  by unfold_locales (simp_all add: se_step_wf)

lemma abr_down_restarts:
  assumes wf: "abr_wf (a, bp)" and down: "snd (abr_step a bp d) < bp"
  shows "since_down (fst (abr_step a bp d)) = 0"
proof (cases "ABR_DOWN_DEPTH \<le> d")
  case True
  then show ?thesis using down by (auto simp: abr_step_congested)
next
  case False
  then have lt: "d < ABR_DOWN_DEPTH" by simp
  have "bp < abr_ceiling a \<Longrightarrow> \<not> min (saturating_add bp ABR_UP_STEP) (abr_ceiling a) < bp"
    using abr_next[of bp "abr_ceiling a"] by (simp add: word_less_nat_alt)
  then show ?thesis using down unfolding abr_step_flowing[OF lt] by (auto split: if_splits)
qed

text \<open>The bitpool of a run stays between a bound the controller's floor respects and the bitpool the
  encoder was made with.\<close>

definition se_between :: "u8 \<Rightarrow> u8 \<Rightarrow> sbc_encoder \<Rightarrow> bool" where
  "se_between lo hi e \<longleftrightarrow> lo \<le> se_bitpool e \<and> se_bitpool e \<le> hi
     \<and> (case se_abr e of None \<Rightarrow> True
        | Some a \<Rightarrow> lo \<le> abr_low a \<and> abr_low a < abr_ceiling a \<and> abr_ceiling a \<le> hi \<and> abr_low a \<le> se_bitpool e)"

lemma se_bitpool_set: "se_bitpool (se_set_bitpool e bp) = bp"
  by (simp add: se_set_bitpool_def se_bitpool_def frame_set_bitpool_def Let_def)

lemma se_abr_set: "se_abr (se_set_bitpool e bp) = se_abr e"
  by (simp add: se_set_bitpool_def Let_def)

lemma se_between_step: "se_between lo hi e \<Longrightarrow> se_between lo hi (se_step e ev)"
proof (cases "se_abr e")
  case None
  then show "se_between lo hi e \<Longrightarrow> ?thesis" by (cases ev) (simp_all add: se_abr_adjust_def se_abr_reset_def)
next
  case (Some a)
  assume b: "se_between lo hi e"
  let ?bp = "se_bitpool e"
  have inv: "abr_low a \<le> ?bp" "abr_low a < abr_ceiling a" "lo \<le> abr_low a" "abr_ceiling a \<le> hi" "?bp \<le> hi"
    using b Some by (simp_all add: se_between_def)
  show ?thesis
  proof (cases ev)
    case (Adjust d)
    let ?r = "abr_step a ?bp d"
    have "abr_low a \<le> snd ?r" "snd ?r \<le> hi" using abr_step_bitpool[OF inv(1,2), of d] inv by auto
    moreover have "se_bitpool (se_step e ev) = snd ?r" "se_abr (se_step e ev) = Some (fst ?r)"
      using Adjust Some by (simp_all add: se_abr_adjust_def Let_def split_beta se_bitpool_set se_abr_set)
        (simp add: se_bitpool_def)
    ultimately show ?thesis using inv by (simp add: se_between_def abr_step_fixed)
  next
    case Reconnect
    then show ?thesis using Some inv
      by (auto simp: se_between_def se_abr_reset_def abr_reset_def Let_def se_bitpool_set se_abr_set abr_new_def)
  qed
qed

lemma se_between_run: "se_between lo hi e \<Longrightarrow> se_between lo hi (foldl se_step e evs)"
  by (induction evs arbitrary: e) (simp_all add: se_between_step)

lemma sbc_with_mode_between:
  assumes "sbc_with_mode k cfg bp = Inr e" and lo: "lo \<le> bp"
    and low: "lo \<le> sbc_abr_low k cfg bp" and bp: "bp \<le> 53"
  shows "se_between lo bp e"
  using assms(1)
proof (cases rule: sbc_with_mode_Inr)
  case (1 c fe low)
  have w: "fe_config fe = c" "sc_subbands c = 4 \<or> sc_subbands c = 8" using frame_encoder_new_wf[OF 1(1)] by auto
  have "unat bp \<le> 53" using bp by (simp add: word_le_nat_alt)
  then have eff: "effective_bitpool c = bp"
    using w 1(2) by (auto simp: word_eq_iff_unsigned[where ?'a = nat] effective_bitpool_nat)
  have "se_bitpool e = bp" using 1 w by (simp add: se_bitpool_def)
  then show ?thesis using 1(8) 1(7) lo low eff
    by (auto simp: se_between_def abr_new_def min_less_iff_disj)
qed

subsection \<open>Properties\<close>

lemmas abr_eval = abr_tick_def abr_step_def abr_new_def stepped_down_def saturating_add_def
  saturating_sub_def abr_consts Let_def

text \<open>C8. Adaptive bitpool range: whatever the queue depths of a run were, the bitpool stays between
  the floor (never above the ceiling) and the ceiling the controller was made with, and the
  controller's own bounds never change.\<close>

theorem abr_bitpool_in_range:
  fixes lo hi :: u8 and depths :: "u32 list"
  defines "s \<equiv> foldl abr_tick (abr_new lo hi, hi) depths"
  shows "min lo hi \<le> snd s \<and> snd s \<le> hi \<and> abr_low (fst s) = min lo hi \<and> abr_ceiling (fst s) = hi"
proof -
  have "abr_wf s" unfolding s_def by (rule abr.reachable_inv) (simp add: list_all_iff)
  moreover have "abr_low (fst s) = min lo hi" "abr_ceiling (fst s) = hi"
    unfolding s_def abr_run_fixed by (simp_all add: abr_new_def)
  ultimately show ?thesis by (simp add: abr_wf_def)
qed

text \<open>C9. Spacing of the steps down: in any reachable state of the controller, after a tick that
  lowered the bitpool, none of the next four ticks lowers it further, however deep the queue is.\<close>

theorem abr_steps_down_spaced:
  fixes lo hi :: u8
  defines "s \<equiv> \<lambda>ds. foldl abr_tick (abr_new lo hi, hi) ds"
  assumes down: "snd (s (past @ [d])) < snd (s past)" and few: "length later \<le> 4"
  shows "snd (s (past @ [d])) \<le> snd (s (past @ [d] @ later))"
proof -
  obtain a bp where s: "s past = (a, bp)" by (cases "s past")
  have wf: "abr_wf (s ds)" for ds
    unfolding s_def by (rule abr.reachable_inv) (simp add: list_all_iff)
  have step: "s (past @ [d]) = abr_step a bp d"
    using s by (simp add: s_def abr_tick_Pair)
  have "since_down (fst (s (past @ [d]))) = 0"
    using abr_down_restarts[of a bp d] down wf[of past] by (simp add: step s)
  then have "snd (s (past @ [d])) \<le> snd (foldl abr_tick (s (past @ [d])) later)"
    using few by (intro abr_run_not_down wf) simp
  then show ?thesis by (simp add: s_def)
qed

theorem abr_steps_down_spaced_witness:
  "snd (foldl abr_tick (abr_new 12 53, 53) ([] @ [9])) \<le> snd (foldl abr_tick (abr_new 12 53, 53) ([] @ [9] @ [20, 20, 20, 20]))
   \<and> snd (foldl abr_tick (abr_new 12 53, 53) ([] @ [9])) = 51"
proof -
  have "snd (foldl abr_tick (abr_new 12 53, 53) ([] @ [9])) = 51" by (simp add: abr_eval)
  then show ?thesis
    using abr_steps_down_spaced[where lo = 12 and hi = 53 and past = "[]" and d = 9 and later = "[20, 20, 20, 20]"]
    by simp
qed

text \<open>C10. Recovery: from every state a run can reach, a queue that stays drained (any depths, each at
  most the clean depth) brings the bitpool back to the ceiling within 1200 ticks (two minutes, the
  longest wait the stall memory can impose) for each step it is below it, and keeps it there.\<close>

theorem abr_recovers_ceiling:
  fixes lo hi :: u8 and depths ds :: "u32 list"
  defines "s \<equiv> foldl abr_tick (abr_new lo hi, hi) depths"
  assumes drained: "list_all (\<lambda>d. d \<le> ABR_UP_DEPTH) ds"
    and long: "1200 * (unat hi - unat (snd s)) \<le> length ds"
  shows "snd (foldl abr_tick s ds) = hi"
proof -
  have wf: "abr_wf s" unfolding s_def by (rule abr.reachable_inv) (simp add: list_all_iff)
  have c: "abr_ceiling (fst s) = hi" unfolding s_def abr_run_fixed by (simp add: abr_new_def)
  have "abr_wait s \<le> length ds" using long by (simp add: abr_wait_def c)
  with wf drained show ?thesis using abr_drains_to_ceiling[of s ds] c by simp
qed

theorem abr_recovers_ceiling_witness:
  "snd (foldl abr_tick (foldl abr_tick (abr_new 12 53, 53) [9]) (concat (replicate 800 [0, 1, 0]))) = 53"
proof -
  have "snd (foldl abr_tick (abr_new 12 53, 53) [9]) = 51" by (simp add: abr_eval)
  moreover have "length (concat (replicate n [0 :: u32, 1, 0])) = 3 * n" for n by (induction n) simp_all
  moreover have "list_all (\<lambda>d. d \<le> ABR_UP_DEPTH) (concat (replicate n [0 :: u32, 1, 0]))" for n
    by (auto simp: list_all_iff ABR_UP_DEPTH_def)
  ultimately show ?thesis
    by (intro abr_recovers_ceiling) simp_all
qed

text \<open>Frame length bound: whatever encoder \<open>sbc_with_mode\<close> makes, no sequence of ABR adjustments
  and reconnect resets makes its frames longer than the maximum it announced when it was made.\<close>

lemma sbc_frame_len_bounded:
  assumes "sbc_with_mode k cfg bitpool = Inr e"
  shows "se_frame_len (foldl se_step e evs) \<le> se_max_frame_len e
    \<and> se_max_frame_len (foldl se_step e evs) = se_max_frame_len e"
proof -
  have "se_wf (foldl se_step e evs)"
    using inv_machine.run_inv[OF se_wf_machine] sbc_with_mode_wf[OF assms] by (auto simp: list_all_iff)
  from se_wf_bound[OF this] show ?thesis by (simp add: se_run_max)
qed

lemmas encoder_eval = sbc_new_def sbc_new_bitpool_def sbc_with_mode_def frame_encoder_new_def validate_def
  sink_bitpool_def params_channel_mode_def params_blocks_def params_subbands_def params_allocation_def
  default_sbc_params_def auto_bitpool_def abr_floor_def user_abr_floor_def abr_new_def effective_bitpool_def
  shared_bitpool_def max_frame_len_def frame_len_def mode_channels_def pcm_samples_def abr_consts Let_def
  SBC_MAX_BITPOOL_def

definition example_encoder_config :: encoder_config where
  "example_encoder_config =
     \<lparr> ec_sample_rate = 44100, ec_channels = 2, ec_quality = High, ec_mtu = 895, ec_bits_per_sample = 16,
       ec_abr = True,
       ec_peer = \<lparr> pp_lhdcv5_bitrate_limits = 0, pp_sbc_min_bitpool = 2, pp_sbc_max_bitpool = 53,
         pp_sbc_bitpool = 0, pp_sbc = default_sbc_params, pp_opus_frame_ms = 0, pp_opus_channels = 0,
         pp_opus_max_bitrate = 0, pp_aac_max_bitrate = 0, pp_aptxad_r2 = False \<rparr> \<rparr>"

lemma sbc_frame_len_bounded_instance:
  "case sbc_new example_encoder_config of
     Inl _ \<Rightarrow> False
   | Inr e \<Rightarrow> se_abr e \<noteq> None \<and> se_max_frame_len e = 119
       \<and> se_frame_len (foldl se_step e [Adjust 9, Adjust 0, Reconnect]) \<le> se_max_frame_len e"
proof -
  have ok: "case sbc_new example_encoder_config of Inl _ \<Rightarrow> False
      | Inr e \<Rightarrow> se_abr e \<noteq> None \<and> se_max_frame_len e = 119" by (simp add: encoder_eval example_encoder_config_def)
  then obtain e where e: "sbc_new example_encoder_config = Inr e" by (auto split: sum.splits)
  show ?thesis
    using ok sbc_frame_len_bounded[OF e[unfolded sbc_new_def], of "[Adjust 9, Adjust 0, Reconnect]"]
    by (simp add: e)
qed

end
