(* ===== verification/Negotiation.thy ===== *)
theory Negotiation
  imports Stream_Config Caps_Offered Sbc_Abr
begin

text \<open>
  Stream negotiation, proved: which codec \<open>choose_in\<close> takes; that the configuration at the rate the
  stream picks succeeds exactly when the sink lists what is asked for; that a vendor configuration is
  understood by the same parser as a capability; and that the SBC encoder stays within the bitpool
  range and the frame setup of the SET_CONFIGURATION, for the whole stream.
\<close>

subsection \<open>The codec choice\<close>

lemma best_in_Some: "best_in f r order e = Some k \<longleftrightarrow>
    (\<exists>n < length order. order ! n = k \<and> caps_usable f r k e \<and> (\<forall>m<n. \<not> caps_usable f r (order ! m) e))"
  by (auto simp: best_in_def find_Some_iff)

lemma best_in_None: "best_in f r order e = None \<longleftrightarrow> list_all (\<lambda>k. \<not> caps_usable f r k e) order"
  by (simp add: best_in_def find_None_ball list_all_iff)

lemma usable_run:
  assumes "\<And>k. caps_sep r k = caps_sep (foldl (discover f) default_caps reports) k"
  shows "caps_usable f r k e \<longleftrightarrow> (k = Aac \<longrightarrow> feat_aac f) \<and> (k \<in> {Aptx, AptxHd, AptxLl} \<longrightarrow> feat_aptx f)
     \<and> (k = Ldac \<longrightarrow> feat_ldac f) \<and> (k = LhdcV5 \<longrightarrow> feat_lhdcv5 f) \<and> (k \<in> {Opus, Opus05} \<longrightarrow> feat_opus f)
     \<and> (k = AptxAdaptive \<longrightarrow> feat_aptx_adaptive f)
     \<and> offered_by k reports \<and> (e \<or> k \<notin> {AptxHd, AptxLl, FastStream, Opus, Opus05})"
proof -
  have a: "available f k \<longleftrightarrow> (k = Aac \<longrightarrow> feat_aac f) \<and> (k \<in> {Aptx, AptxHd, AptxLl} \<longrightarrow> feat_aptx f)
     \<and> (k = Ldac \<longrightarrow> feat_ldac f) \<and> (k = LhdcV5 \<longrightarrow> feat_lhdcv5 f) \<and> (k \<in> {Opus, Opus05} \<longrightarrow> feat_opus f)
     \<and> (k = AptxAdaptive \<longrightarrow> feat_aptx_adaptive f)"
    by (cases k) simp_all
  have "caps_usable f r k e \<longleftrightarrow> available f k \<and> offered_by k reports \<and> (e \<or> k \<notin> {AptxHd, AptxLl, FastStream, Opus, Opus05})"
    using offered_run[of f k reports] by (auto simp: caps_usable_def caps_has_def is_experimental_def assms)
  then show ?thesis using a by metis
qed

subsection \<open>The configuration at the picked rate\<close>

text \<open>What a configuration needs of the sink besides the codec being offered.\<close>

definition stream_ready :: "remote_caps \<Rightarrow> codec_kind \<Rightarrow> u32 \<Rightarrow> u8 \<Rightarrow> bool" where
  "stream_ready r k channels bits \<longleftrightarrow>
     (case k of
        Aptx \<Rightarrow> rc_aptx_caps r AND APTX_FREQ_MASK = 0 \<or> bit_set (rc_aptx_caps r) (APTX_FREQ_44100 OR APTX_FREQ_48000)
      | AptxHd \<Rightarrow> rc_aptxhd_caps r AND APTX_FREQ_MASK = 0 \<or> bit_set (rc_aptxhd_caps r) (APTX_FREQ_44100 OR APTX_FREQ_48000)
      | AptxLl \<Rightarrow> rc_aptxll_caps r AND APTX_FREQ_MASK = 0 \<or> bit_set (rc_aptxll_caps r) (APTX_FREQ_44100 OR APTX_FREQ_48000)
      | LhdcV5 \<Rightarrow> bit_set (rc_lhdcv5_info r ! 7) (if bits = 24 then LHDCV5_BITS_24 else LHDCV5_BITS_16)
      | Opus \<Rightarrow> bit_set (rc_opus_caps r) OPUS_CH_STEREO \<or> (channels = 1 \<and> bit_set (rc_opus_caps r) OPUS_CH_MONO)
      | _ \<Rightarrow> True)"

lemma vendor_request_Inr [simp]: "is_Inr (vendor_request x) = is_Inr x"
  by (cases x) simp_all

lemma aptx_bits_mask: "(x AND APTX_FREQ_MASK) AND APTX_FREQ_44100 = x AND APTX_FREQ_44100"
  "(x AND APTX_FREQ_MASK) AND APTX_FREQ_48000 = x AND APTX_FREQ_48000"
  by (rule and_and_mask, simp add: caps_consts)+

lemma aptx_freq_exact:
  assumes "k = Aptx \<and> caps = rc_aptx_caps r \<or> k = AptxHd \<and> caps = rc_aptxhd_caps r \<or> k = AptxLl \<and> caps = rc_aptxll_caps r"
  shows "is_Inr (aptx_freq_bits k caps (pick_aptx_sample_rate r k w)) \<longleftrightarrow>
    caps AND APTX_FREQ_MASK = 0 \<or> bit_set caps (APTX_FREQ_44100 OR APTX_FREQ_48000)"
proof -
  have pick: "pick_aptx_sample_rate r k w =
    (let freqs = caps AND APTX_FREQ_MASK; h1 = (freqs = 0 \<or> bit_set freqs APTX_FREQ_44100); h2 = (freqs = 0 \<or> bit_set freqs APTX_FREQ_48000)
     in if w = 48000 \<and> h2 then 48000 else if w = 44100 \<and> h1 then 44100 else if h2 then 48000 else if h1 then 44100 else w)"
    using assms by (auto simp: pick_aptx_sample_rate_def)
  show ?thesis
    unfolding pick bit_set_disj by (simp add: aptx_freq_bits_def Let_def bit_set_def aptx_bits_mask)
qed

lemma lhdcv5_rates_bits: "lhdcv5_rates r = 0 \<longleftrightarrow> \<not> bit_set (lhdcv5_rates r) LHDCV5_SR_44100 \<and> \<not> bit_set (lhdcv5_rates r) LHDCV5_SR_48000
   \<and> \<not> bit_set (lhdcv5_rates r) LHDCV5_SR_96000 \<and> \<not> bit_set (lhdcv5_rates r) LHDCV5_SR_192000"
proof -
  have m: "LHDCV5_SR_MASK = LHDCV5_SR_44100 OR (LHDCV5_SR_48000 OR (LHDCV5_SR_96000 OR LHDCV5_SR_192000))"
    by (simp add: caps_consts)
  have "lhdcv5_rates r AND LHDCV5_SR_MASK = lhdcv5_rates r" by (simp add: lhdcv5_rates_def)
  then have "lhdcv5_rates r = 0 \<longleftrightarrow> \<not> bit_set (lhdcv5_rates r) LHDCV5_SR_MASK" by (simp add: bit_set_def)
  then show ?thesis unfolding m bit_set_disj by blast
qed

lemma lhdcv5_bits_mask: "b = LHDCV5_BITS_24 \<or> b = LHDCV5_BITS_16 \<Longrightarrow> b AND x AND LHDCV5_BITS_MASK = x AND b"
proof -
  assume "b = LHDCV5_BITS_24 \<or> b = LHDCV5_BITS_16"
  then have "b AND LHDCV5_BITS_MASK = b" by (auto simp: caps_consts)
  then have "x AND (b AND LHDCV5_BITS_MASK) = x AND b" by simp
  then show ?thesis by (simp add: and.left_commute)
qed

lemma lhdcv5_exact:
  assumes "lhdcv5_rates r \<noteq> 0"
  shows "is_Inr (lhdcv5_request r (pick_lhdcv5_sample_rate r w) bits)
    \<longleftrightarrow> bit_set (rc_lhdcv5_info r ! 7) (if bits = 24 then LHDCV5_BITS_24 else LHDCV5_BITS_16)"
proof -
  have n: "lhdcv5_rates r \<noteq> 0 \<Longrightarrow>
    (let rate = pick_lhdcv5_sample_rate r w in 
     (if rate = 44100 then LHDCV5_SR_44100 else if rate = 48000 then LHDCV5_SR_48000
                  else if rate = 96000 then LHDCV5_SR_96000 else if rate = 192000 then LHDCV5_SR_192000 else 0) AND lhdcv5_rates r \<noteq> 0)"
    unfolding lhdcv5_rates_bits pick_lhdcv5_sample_rate_def Let_def
    by (auto simp: bit_set_def and.commute)
  show ?thesis using n[OF assms] by (simp add: lhdcv5_request_def Let_def bit_set_def lhdcv5_bits_mask)
qed

lemma faststream_rates_bits:
  "rc_faststream_rates r AND FASTSTREAM_SINK_MASK = rc_faststream_rates r \<Longrightarrow>
   rc_faststream_rates r = 0 \<longleftrightarrow> \<not> bit_set (rc_faststream_rates r) FASTSTREAM_SINK_44100
     \<and> \<not> bit_set (rc_faststream_rates r) FASTSTREAM_SINK_48000"
proof -
  assume m: "rc_faststream_rates r AND FASTSTREAM_SINK_MASK = rc_faststream_rates r"
  have "FASTSTREAM_SINK_MASK = FASTSTREAM_SINK_44100 OR FASTSTREAM_SINK_48000" by (simp add: caps_consts)
  then show ?thesis using m bit_set_disj[of "rc_faststream_rates r" FASTSTREAM_SINK_44100 FASTSTREAM_SINK_48000]
    by (simp add: bit_set_def) blast
qed

lemma faststream_exact:
  assumes "caps_wf r" "rc_faststream r \<noteq> None"
  shows "is_Inr (faststream_request r (pick_faststream_sample_rate r w))"
proof -
  have "rc_faststream_rates r \<noteq> 0" "rc_faststream_rates r AND FASTSTREAM_SINK_MASK = rc_faststream_rates r"
    using assms by (auto simp: caps_wf_def rates_wf_def)
  then show ?thesis using faststream_rates_bits[of r]
    by (auto simp: faststream_request_def pick_faststream_sample_rate_def Let_def bit_set_def and.commute)
qed

lemma aac_exact:
  assumes "caps_sep r Aac = Some sep"
  shows "is_Inr (aac_request ov r (pick_aac_sample_rate r w) channels vbr)"
proof (cases "rc_aac_caps r")
  case None
  then show ?thesis by (simp add: aac_request_def pick_aac_sample_rate_def Let_def caps_consts)
next
  case (Some c)
  then have "aac_usable c" using assms by (simp split: if_splits)
  then have "bit_set (aacc_sampling_frequency c) (AAC_FREQ_44100 OR AAC_FREQ_48000)"
    by (simp add: aac_usable_def bit_set_def)
  then have f: "bit_set (aacc_sampling_frequency c) AAC_FREQ_44100 \<or> bit_set (aacc_sampling_frequency c) AAC_FREQ_48000"
    by (simp add: bit_set_disj)
  have nz: "AAC_FREQ_44100 \<noteq> 0" "AAC_FREQ_48000 \<noteq> 0" by (simp_all add: caps_consts)
  show ?thesis using Some f nz
    by (auto simp: aac_request_def pick_aac_sample_rate_def Let_def bit_set_def)
qed

lemma aptxad_exact: "is_Inr (aptxad_request r (pick_aptxad_sample_rate r w q))"
  by (auto simp: aptxad_request_def pick_aptxad_sample_rate_def aptxad_no_96k_def Let_def split: if_splits)

lemma opus_exact:
  "is_Inr (opus_request r 48000 channels) \<longleftrightarrow>
     bit_set (rc_opus_caps r) OPUS_CH_STEREO \<or> (channels = 1 \<and> bit_set (rc_opus_caps r) OPUS_CH_MONO)"
  by (auto simp: opus_request_def opus_stream_def Let_def bit_set_def)

lemma aptx_requests_Inr:
  "is_Inr (aptx_request r rate) = is_Inr (aptx_freq_bits Aptx (rc_aptx_caps r) rate)"
  "is_Inr (aptxhd_request r rate) = is_Inr (aptx_freq_bits AptxHd (rc_aptxhd_caps r) rate)"
  "is_Inr (aptxll_request r rate) = is_Inr (aptx_freq_bits AptxLl (rc_aptxll_caps r) rate)"
  by (simp_all add: aptx_request_def aptxhd_request_def aptxll_request_def Let_def split: sum.split)

lemma request_exact:
  assumes wf: "caps_wf r" and has: "caps_sep r k = Some sep"
  shows "is_Inr (config_request_of ov r k (picked_rate r k q preferred) channels bits vbr sbc)
    \<longleftrightarrow> stream_ready r k channels bits"
proof (cases k)
  case LhdcV5
  then have "lhdcv5_rates r \<noteq> 0" using wf has by (simp add: caps_wf_def lhdcv5_wf_def)
  then show ?thesis using LhdcV5 lhdcv5_exact by (simp add: picked_rate_def stream_ready_def)
next
  case FastStream
  then show ?thesis using wf has faststream_exact by (simp add: picked_rate_def stream_ready_def)
next
  case Aac
  then show ?thesis using has aac_exact by (simp add: picked_rate_def stream_ready_def)
next
  case Opus
  then show ?thesis using opus_exact by (simp add: picked_rate_def stream_ready_def)
next
  case AptxAdaptive
  then show ?thesis using aptxad_exact by (simp add: picked_rate_def stream_ready_def)
next
  case Opus05
  then show ?thesis by (simp add: picked_rate_def stream_ready_def opus05_request_def split_beta Let_def)
qed (simp_all add: picked_rate_def stream_ready_def aptx_requests_Inr aptx_freq_exact sbc_request_def split_beta Let_def)

subsection \<open>The SBC bitpool of the configuration and of the encoder\<close>

lemma quality_bitpool_bounds: "2 \<le> quality_bitpool q \<and> quality_bitpool q \<le> 53"
  by (cases q) simp_all

lemma auto_bitpool_bounds: "2 \<le> auto_bitpool q m \<and> auto_bitpool q m \<le> 53"
  by (cases q; cases m) (simp_all add: auto_bitpool_def Let_def)

lemma xq_bitpool_bounds: "2 \<le> xq_bitpool q rate \<and> xq_bitpool q rate \<le> xq_max_bitpool rate \<and> xq_max_bitpool rate \<le> 53"
  by (cases q) (simp_all add: xq_bitpool_def xq_max_bitpool_def Let_def)

text \<open>The bitpool the encoder starts with, for both codecs.\<close>

definition stream_cap :: "codec_kind \<Rightarrow> u32 \<Rightarrow> u8" where
  "stream_cap k rate = (if k = SbcXq then xq_max_bitpool rate else CAPS_SBC_MAX_BITPOOL)"

definition wanted_bitpool :: "codec_kind \<Rightarrow> u32 \<Rightarrow> u8 \<Rightarrow> encoder_config \<Rightarrow> u8" where
  "wanted_bitpool k rate auto cfg =
     max (if pp_sbc_bitpool (ec_peer cfg) = 0 then auto else min (pp_sbc_bitpool (ec_peer cfg)) (stream_cap k rate))
         (min (sp_min_bitpool (pp_sbc (ec_peer cfg))) (stream_cap k rate))"

lemma create_sbc_bitpool:
  assumes "k = Sbc \<or> k = SbcXq"
  obtains auto where "2 \<le> auto" "auto \<le> stream_cap k (ec_sample_rate cfg)"
    "create_sbc k cfg = sbc_with_mode k cfg (sink_bitpool (wanted_bitpool k (ec_sample_rate cfg) auto cfg) cfg)"
proof (cases "k = SbcXq")
  case True
  then show thesis
    using that[of "xq_bitpool (ec_quality cfg) (ec_sample_rate cfg)"] xq_bitpool_bounds
    by (simp add: create_sbc_def sbc_new_xq_def sbc_new_xq_bitpool_def wanted_bitpool_def stream_cap_def Let_def)
next
  case False
  then show thesis
    using that[of "auto_bitpool (ec_quality cfg) (params_channel_mode (pp_sbc (ec_peer cfg)) Sbc (ec_channels cfg))"]
      auto_bitpool_bounds assms
    by (simp add: create_sbc_def sbc_new_def sbc_new_bitpool_def wanted_bitpool_def stream_cap_def Let_def
        SBC_MAX_BITPOOL_def CAPS_SBC_MAX_BITPOOL_def)
qed

text \<open>The sink's bitpool range is one the code handles: known and not degenerate, or unknown with a
  profile bitpool that is a bitpool.\<close>

definition sane_bitpools :: "remote_caps \<Rightarrow> codec_kind \<Rightarrow> u32 \<Rightarrow> u8 \<Rightarrow> bool" where
  "sane_bitpools r k rate asked \<longleftrightarrow>
     (case rc_sbc_caps r of
        None \<Rightarrow> asked = 0 \<or> 2 \<le> asked
      | Some c \<Rightarrow> 2 \<le> sbcc_max_bitpool c \<and> sbcc_min_bitpool c \<le> stream_cap k rate)"

lemma stream_cap_bounds: "2 \<le> stream_cap k rate \<and> stream_cap k rate \<le> 53"
  using xq_bitpool_bounds[of High rate] by (simp add: stream_cap_def CAPS_SBC_MAX_BITPOOL_def xq_max_bitpool_def)

lemma range_bounds:
  "2 \<le> fst (sbc_bitpool_range r cap) \<and> fst (sbc_bitpool_range r cap) \<le> snd (sbc_bitpool_range r cap)"
  by (auto simp: sbc_bitpool_range_def Let_def split: option.split)

lemma config_min_bounds:
  "lo \<le> hi \<Longrightarrow> lo \<le> config_min_bitpool p lo hi \<and> config_min_bitpool p lo hi \<le> hi
     \<and> config_min_bitpool p lo hi \<le> max lo (min (sp_min_bitpool p) hi)"
  by (auto simp: config_min_bitpool_def clamp_word_def min_def max_def)

lemma capped_order:
  fixes w :: "'a::linorder"
  assumes "min pmin cap \<le> w" "w \<le> cap" "two \<le> smax" "two \<le> cap" "smin \<le> cap"
  shows "max (min (max smin two) (max (min cap smax) two)) (min pmin (max (min cap smax) two))
           \<le> max (max (min w smax) (min smin smax)) two"
    and "max (max (min w smax) (min smin smax)) two \<le> max (min cap smax) two"
  using assms by (auto simp: le_max_iff_disj min_le_iff_disj)

lemma start_bitpool_in_range:
  assumes peer: "pp_sbc_min_bitpool (ec_peer cfg) = sbc_min_bitpool r" "pp_sbc_max_bitpool (ec_peer cfg) = sbc_max_bitpool r"
    and sane: "sane_bitpools r k rate (pp_sbc_bitpool (ec_peer cfg))"
    and auto: "2 \<le> auto" "auto \<le> stream_cap k rate"
  defines "hi \<equiv> snd (sbc_bitpool_range r (stream_cap k rate))" and "lo \<equiv> fst (sbc_bitpool_range r (stream_cap k rate))"
  defines "bp \<equiv> sink_bitpool (wanted_bitpool k rate auto cfg) cfg"
  shows "max lo (min (sp_min_bitpool (pp_sbc (ec_peer cfg))) hi) \<le> bp \<and> bp \<le> hi"
proof -
  let ?cap = "stream_cap k rate" and ?w = "wanted_bitpool k rate auto cfg" and ?pmin = "sp_min_bitpool (pp_sbc (ec_peer cfg))"
  have w: "min ?pmin ?cap \<le> ?w" "?w \<le> ?cap" using auto(2) by (auto simp: wanted_bitpool_def)
  show ?thesis
  proof (cases "rc_sbc_caps r")
    case None
    have "2 \<le> ?w" using sane auto(1) None stream_cap_bounds[of k rate]
      by (auto simp: wanted_bitpool_def sane_bitpools_def le_max_iff_disj)
    then show ?thesis using w None peer stream_cap_bounds[of k rate]
      by (auto simp: hi_def lo_def bp_def sbc_bitpool_range_def sink_bitpool_def sbc_max_bitpool_def max_absorb1 Let_def)
  next
    case (Some c)
    then have s: "2 \<le> sbcc_max_bitpool c" "sbcc_min_bitpool c \<le> ?cap" using sane by (simp_all add: sane_bitpools_def)
    have bp: "bp = max (max (min ?w (sbcc_max_bitpool c)) (min (sbcc_min_bitpool c) (sbcc_max_bitpool c))) 2"
      using Some peer s(1) by (simp add: bp_def sink_bitpool_def sbc_max_bitpool_def sbc_min_bitpool_def Let_def)
    have "hi = max (min ?cap (sbcc_max_bitpool c)) 2" "lo = min (max (sbcc_min_bitpool c) 2) hi"
      using Some by (simp_all add: hi_def lo_def sbc_bitpool_range_def Let_def)
    then show ?thesis unfolding bp
      using capped_order[OF w s(1) _ s(2)] stream_cap_bounds[of k rate] by simp
  qed
qed

lemma create_sbc_succeeds:
  assumes "ec_sample_rate cfg = 44100 \<or> ec_sample_rate cfg = 48000" "ec_channels cfg = 1 \<or> ec_channels cfg = 2"
  shows "is_Inr (create_sbc k cfg)"
proof -
  have v: "validate \<lparr> sc_sample_rate = ec_sample_rate cfg, sc_channel_mode = m, sc_blocks = params_blocks p,
      sc_subbands = params_subbands p, sc_allocation = a, sc_bitpool = bp \<rparr> \<noteq> Inl x" for m p a bp x
    using assms(1) by (auto simp: validate_def params_blocks_def params_subbands_def Let_def)
  have "is_Inr (sbc_with_mode k' cfg bp)" for k' bp
    using assms v unfolding sbc_with_mode_def frame_encoder_new_def Let_def is_Inr_def
    by (simp split: sum.split)
  then show ?thesis by (simp add: create_sbc_def sbc_new_def sbc_new_xq_def)
qed

lemma se_step_config:
  "fe_config (se_frame (se_step e ev)) = (fe_config (se_frame e))\<lparr> sc_bitpool := se_bitpool (se_step e ev) \<rparr>"
  by (cases ev) (auto simp: se_abr_adjust_def se_abr_reset_def se_set_bitpool_def se_bitpool_def frame_set_bitpool_def
      Let_def split_beta split: option.split)

lemma se_run_config:
  "fe_config (se_frame (foldl se_step e evs)) = (fe_config (se_frame e))\<lparr> sc_bitpool := se_bitpool (foldl se_step e evs) \<rparr>"
proof (induction evs rule: rev_induct)
  case Nil
  show ?case by (simp add: se_bitpool_def)
next
  case (snoc ev evs)
  then show ?case by (simp add: se_step_config)
qed

lemma sbc_with_mode_config:
  assumes "sbc_with_mode k cfg bp = Inr e"
  shows "fe_config (se_frame e) = (let p = pp_sbc (ec_peer cfg) in
     \<lparr> sc_sample_rate = ec_sample_rate cfg, sc_channel_mode = params_channel_mode p k (ec_channels cfg),
       sc_blocks = params_blocks p, sc_subbands = params_subbands p, sc_allocation = params_allocation p, sc_bitpool = bp \<rparr>)"
  using assms by (auto simp: sbc_with_mode_def Let_def dest: frame_encoder_new_wf split: if_splits sum.splits)

lemma config_min_le: "config_min_bitpool p lo hi \<le> max lo (min (sp_min_bitpool p) hi)" if "lo \<le> hi"
  using config_min_bounds[OF that] by blast

lemma floor_covers:
  assumes peer: "pp_sbc_min_bitpool (ec_peer cfg) = sbc_min_bitpool r"
    and m: "m = max (fst (sbc_bitpool_range r cap)) (min (sp_min_bitpool (pp_sbc (ec_peer cfg))) hi)" and le: "m \<le> ceiling"
  shows "m \<le> sbc_abr_low k cfg ceiling"
proof -
  let ?pmin = "sp_min_bitpool (pp_sbc (ec_peer cfg))"
  have lo: "fst (sbc_bitpool_range r cap) \<le> max (sbc_min_bitpool r) 2"
    by (auto simp: sbc_bitpool_range_def sbc_min_bitpool_def Let_def min_le_iff_disj split: option.split)
  have twelve: "max (sbc_min_bitpool r) 2 \<le> max (max x ABR_MIN_BITPOOL) (sbc_min_bitpool r)" for x
  proof (rule max.boundedI)
    have "2 \<le> ABR_MIN_BITPOOL" by (simp add: ABR_MIN_BITPOOL_def)
    also have "\<dots> \<le> max (max x ABR_MIN_BITPOOL) (sbc_min_bitpool r)" by (simp add: le_max_iff_disj)
    finally show "2 \<le> max (max x ABR_MIN_BITPOOL) (sbc_min_bitpool r)" .
  qed (simp add: le_max_iff_disj)
  show ?thesis
  proof (cases "?pmin = 0")
    case True
    then have "m \<le> max (sbc_min_bitpool r) 2" using m lo by simp
    note m12 = order_trans[OF this twelve]
    show ?thesis using True le peer m12 by (simp add: sbc_abr_low_def abr_floor_def Let_def)
  next
    case False
    have "m \<le> max (max ?pmin (sbc_min_bitpool r)) 2" using m lo by (auto simp: le_max_iff_disj min_le_iff_disj)
    then show ?thesis using False le peer by (simp add: sbc_abr_low_def user_abr_floor_def Let_def)
  qed
qed



subsection \<open>Vendor configurations read back\<close>

lemma vendor_taken_header:
  "take_vendor f r seid (vendor_header LDAC_VENDOR_ID LDAC_CODEC_ID @ t) = take_ldac r seid (vendor_header LDAC_VENDOR_ID LDAC_CODEC_ID @ t)"
  "take_vendor f r seid (vendor_header APTX_VENDOR_ID APTX_CODEC_ID @ t) = take_aptx r seid (vendor_header APTX_VENDOR_ID APTX_CODEC_ID @ t)"
  "take_vendor f r seid (vendor_header FASTSTREAM_VENDOR_ID FASTSTREAM_CODEC_ID @ t)
     = take_faststream r seid (vendor_header FASTSTREAM_VENDOR_ID FASTSTREAM_CODEC_ID @ t)"
  "take_vendor f r seid (vendor_header OPUS_VENDOR_ID OPUS_CODEC_ID @ t) = take_opus r seid (vendor_header OPUS_VENDOR_ID OPUS_CODEC_ID @ t)"
  "vid = APTXLL_VENDOR_ID \<or> vid = APTXLL_VENDOR_ID2 \<Longrightarrow>
     take_vendor f r seid (vendor_header vid APTXLL_CODEC_ID @ t) = take_aptxll r seid vid (vendor_header vid APTXLL_CODEC_ID @ t)"
  by (auto simp: take_vendor_def caps_consts)

lemma vendor_taken_resized:
  "6 \<le> n \<Longrightarrow> take_vendor f r seid (resize0 (vendor_header APTXHD_VENDOR_ID APTXHD_CODEC_ID @ t) n)
     = take_aptxhd r seid (resize0 (vendor_header APTXHD_VENDOR_ID APTXHD_CODEC_ID @ t) n)"
  "6 \<le> n \<Longrightarrow> take_vendor f r seid (resize0 (vendor_header LHDCV5_VENDOR_ID LHDCV5_CODEC_ID @ t) n)
     = take_lhdcv5 f r seid (resize0 (vendor_header LHDCV5_VENDOR_ID LHDCV5_CODEC_ID @ t) n)"
  "6 \<le> n \<Longrightarrow> take_vendor f r seid (resize0 (vendor_header OPUS05_VENDOR_ID OPUS05_CODEC_ID @ t) n)
     = take_opus05 r seid (resize0 (vendor_header OPUS05_VENDOR_ID OPUS05_CODEC_ID @ t) n)"
  "6 \<le> n \<Longrightarrow> take_vendor f r seid (resize0 (vendor_header APTXAD_VENDOR_ID APTXAD_CODEC_ID @ t) n)
     = take_aptxad f r seid (resize0 (vendor_header APTXAD_VENDOR_ID APTXAD_CODEC_ID @ t) n)"
  by (simp_all add: take_vendor_def) (simp_all add: caps_consts)

lemma understood_ldac: "snd (take_vendor f r seid (ldac_request rate m)) = Taken Ldac"
  by (simp add: ldac_request_def vendor_taken_header take_ldac_def)

lemma or_stereo: "APTX_CH_STEREO \<noteq> 0"
  by (simp add: caps_consts)

lemma understood_aptx: "aptx_request r0 rate = Inr info \<Longrightarrow> snd (take_vendor f r seid info) = Taken Aptx"
  by (auto simp: aptx_request_def vendor_taken_header take_aptx_def Let_def info_eval or_stereo split: sum.splits)

lemma understood_aptxhd: "aptxhd_request r0 rate = Inr info \<Longrightarrow> snd (take_vendor f r seid info) = Taken AptxHd"
  by (auto simp: aptxhd_request_def vendor_taken_resized APTXHD_INFO_LEN_def take_aptxhd_def Let_def info_eval or_stereo
      split: sum.splits)

lemma understood_aptxll:
  assumes "rc_aptxll_vendor_id r0 = APTXLL_VENDOR_ID \<or> rc_aptxll_vendor_id r0 = APTXLL_VENDOR_ID2"
    and "aptxll_request r0 rate = Inr info"
  shows "snd (take_vendor f r seid info) = Taken AptxLl"
proof -
  obtain freq b t where "info = vendor_header (rc_aptxll_vendor_id r0) APTXLL_CODEC_ID @ [freq OR APTX_CH_STEREO, b] @ t"
    using assms(2) by (auto simp: aptxll_request_def Let_def list_update_append split: sum.splits if_splits)
  then show ?thesis using assms(1)
    by (auto simp: vendor_taken_header take_aptxll_def Let_def info_eval or_stereo)
qed

lemma understood_faststream:
  "faststream_request r0 rate = Inr info \<Longrightarrow> snd (take_vendor f r seid info) = Taken FastStream"
  by (auto simp: faststream_request_def vendor_taken_header take_faststream_def Let_def info_eval split: if_splits)
    (simp_all add: caps_consts)

lemma understood_opus: "opus_request r0 rate channels = Inr info \<Longrightarrow> snd (take_vendor f r seid info) = Taken Opus"
  by (auto simp: opus_request_def vendor_taken_header take_opus_def Let_def info_eval split_beta bit_set_def OPUS_INFO_LEN_def split: if_splits)
    (simp_all add: caps_consts)

lemma understood_opus05: "opus05_request r0 rate = Inr info \<Longrightarrow> snd (take_vendor f r seid info) = Taken Opus05"
  by (auto simp: opus05_request_def OPUS05_INFO_LEN_def vendor_taken_resized take_opus05_def Let_def info_eval split_beta
      opus05_direction_def opus05_stream_def le32_bytes_def le16_bytes_def OPUS05_MAIN_def OPUS05_BIDI_def split: if_splits)
    (simp_all add: caps_consts)

lemma understood_lhdcv5:
  assumes "available f LhdcV5" "lhdcv5_request r0 rate bits = Inr info"
  shows "snd (take_vendor f r seid info) = Taken LhdcV5"
proof -
  obtain freq b where info: "info = resize0 (vendor_header LHDCV5_VENDOR_ID LHDCV5_CODEC_ID @ [freq, b OR lhdcv5_bitrate_limits r0, LHDCV5_CAPS_P8]) LHDCV5_INFO_LEN"
    and f: "freq AND lhdcv5_rates r0 \<noteq> 0" and b: "b = LHDCV5_BITS_24 \<or> b = LHDCV5_BITS_16"
    using assms(2) by (auto simp: lhdcv5_request_def Let_def split: if_splits)
  have "freq AND LHDCV5_SR_MASK \<noteq> 0" using f by (auto simp: lhdcv5_rates_def and.left_commute[of freq])
  moreover have "(b OR lhdcv5_bitrate_limits r0) AND (LHDCV5_BITS_16 OR LHDCV5_BITS_24) \<noteq> 0"
    using b or_and_nonzero[of b "LHDCV5_BITS_16 OR LHDCV5_BITS_24" "lhdcv5_bitrate_limits r0"]
    by (auto simp: or.commute caps_consts)
  moreover have "LHDCV5_CAPS_P8 AND LHDCV5_VERSION_MASK AND LHDCV5_VERSION_1 \<noteq> 0" "LHDCV5_CAPS_P8 AND LHDCV5_FRAME_5MS \<noteq> 0"
    by (simp_all add: caps_consts)
  ultimately show ?thesis using assms(1)
    by (simp add: info vendor_taken_resized LHDCV5_INFO_LEN_def take_lhdcv5_def Let_def info_eval bit_set_def)
qed

lemma understood_aptxad:
  assumes "available f AptxAdaptive" "aptxad_request r0 48000 = Inr info"
  shows "snd (take_vendor f r seid info) = Taken AptxAdaptive"
proof -
  obtain m data where info: "info = aptxad_element (APTXAD_RATE_48000 OR APTXAD_SOURCE_TYPE_HOST) m data"
    and m: "m = APTXAD_CH_STEREO \<or> m = APTXAD_CH_JOINT_STEREO"
    using assms(2) by (auto simp: aptxad_request_def Let_def split: if_splits)
  have "m AND (APTXAD_CH_STEREO OR APTXAD_CH_JOINT_STEREO) \<noteq> 0"
    "(APTXAD_RATE_48000 OR APTXAD_SOURCE_TYPE_HOST) AND APTXAD_RATE_48000 \<noteq> 0" using m by (auto simp: caps_consts)
  then show ?thesis using assms(1)
    by (simp add: info aptxad_element_def vendor_taken_resized APTXAD_INFO_LEN_def APTXAD_R1_LEN_def take_aptxad_def Let_def info_eval bit_set_def)
qed



subsection \<open>Properties\<close>

text \<open>C12. The codec choice, from the reports of the discovery to the codec: a codec is usable when its
  feature is built in, the reports leave it on offer (\<open>offered_by\<close>, read from the reports alone) and it
  is not one of the five experimental codecs unless these are allowed. The codec taken is the one asked
  for if that is usable, for Auto the first usable one in the device's order, or, with fallback and only
  when the one asked for is not usable, that first usable one with the reason reported. The choice fails
  only when nothing in the order is usable (Auto, or fallback) or when the codec asked for is not usable
  and fallback is off. The reason is, in this order: experimental and not allowed, an audio sink of the
  device in use, aptX (HD, LL) asked of a sink that reported aptX Adaptive, not supported.\<close>

theorem choose_in_spec:
  fixes f :: features and reports :: "discovery list" and sinks in_use :: u8
    and requested :: "codec_kind option" and fallback experimental :: bool and order :: auto_order
  defines "caps \<equiv> (foldl (discover f) default_caps reports)\<lparr> rc_audio_sinks := sinks, rc_audio_sinks_in_use := in_use \<rparr>"
    and "usable \<equiv> \<lambda>k. (k = Aac \<longrightarrow> feat_aac f) \<and> (k \<in> {Aptx, AptxHd, AptxLl} \<longrightarrow> feat_aptx f)
      \<and> (k = Ldac \<longrightarrow> feat_ldac f) \<and> (k = LhdcV5 \<longrightarrow> feat_lhdcv5 f) \<and> (k \<in> {Opus, Opus05} \<longrightarrow> feat_opus f)
      \<and> (k = AptxAdaptive \<longrightarrow> feat_aptx_adaptive f)
      \<and> offered_by k reports \<and> (experimental \<or> k \<notin> {AptxHd, AptxLl, FastStream, Opus, Opus05})"
    and "reason \<equiv> \<lambda>k.
      if k \<in> {AptxHd, AptxLl, FastStream, Opus, Opus05} \<and> \<not> experimental then Experimental
      else if 0 < in_use then SepInUse in_use sinks
      else if k \<in> {Aptx, AptxHd, AptxLl}
        \<and> list_ex (\<lambda>e. case e of FoundVendor _ info \<Rightarrow> read_vendor info = Some (0xD7, 0xAD) | _ \<Rightarrow> False) reports
      then AdaptiveOnly else NotSupported"
  defines "first \<equiv> \<lambda>k. \<exists>n < length order. order ! n = k \<and> usable k \<and> (\<forall>m<n. \<not> usable (order ! m))"
  shows "case choose_in f caps requested fallback experimental order of
     Inr c \<Rightarrow> (case ch_replaced c of
         None \<Rightarrow> (requested = Some (ch_kind c) \<and> usable (ch_kind c)) \<or> (requested = None \<and> first (ch_kind c))
       | Some (wanted, why) \<Rightarrow> requested = Some wanted \<and> \<not> usable wanted \<and> why = reason wanted
           \<and> fallback \<and> first (ch_kind c))
   | Inl None \<Rightarrow> requested = None \<and> list_all (\<lambda>k. \<not> usable k) order
   | Inl (Some (wanted, why)) \<Rightarrow> requested = Some wanted \<and> \<not> usable wanted \<and> why = reason wanted
       \<and> (\<not> fallback \<or> list_all (\<lambda>k. \<not> usable k) order)"
proof -
  have sep: "caps_sep caps k = caps_sep (foldl (discover f) default_caps reports) k" for k
    by (cases k) (simp_all add: caps_def cong: option.case_cong if_cong)
  have us: "caps_usable f caps k experimental = usable k" for k
    unfolding usable_run[OF sep] usable_def by simp
  have why: "why_unavailable caps k experimental = reason k" for k
    by (auto simp: why_unavailable_def reason_def is_experimental_def caps_def adaptive_run)
  have best: "best_in f caps order experimental = Some k \<longleftrightarrow> first k" for k
    by (simp add: best_in_Some us first_def)
  have none: "best_in f caps order experimental = None \<longleftrightarrow> list_all (\<lambda>k. \<not> usable k) order"
    by (simp add: best_in_None us)
  show ?thesis
  proof (cases requested)
    case None
    then show ?thesis by (auto simp: choose_in_def best none split: option.split)
  next
    case (Some w)
    then show ?thesis by (auto simp: choose_in_def Let_def us why best none split: option.splits)
  qed
qed

text \<open>A sink that reports SBC and aptX HD only: with experimental codecs off, asking for aptX HD is refused as
  experimental and replaced by SBC.\<close>

definition example_reports :: "discovery list" where
  "example_reports = [FoundSbc 1, FoundVendor 2 [0xD7, 0, 0, 0, 0x24, 0, 0x32, 0, 0, 0, 0]]"

lemma example_offered: "offered_by k example_reports \<longleftrightarrow> k \<in> {Sbc, AptxHd}"
  by (cases k) (simp_all add: example_reports_def vendor_offers_def read_vendor_def of_le32_def of_le16_def bit_set_def caps_consts)

theorem choose_in_spec_witness:
  "choose_in all_features ((foldl (discover all_features) default_caps example_reports)\<lparr> rc_audio_sinks := 2, rc_audio_sinks_in_use := 0 \<rparr>)
     (Some AptxHd) True False default_order = Inr \<lparr> ch_kind = Sbc, ch_replaced = Some (AptxHd, Experimental) \<rparr>"
proof -
  let ?u = "\<lambda>k. k \<in> {Sbc, AptxHd} \<and> k \<notin> {AptxHd, AptxLl, FastStream, Opus, Opus05}"
  let ?c = "choose_in all_features ((foldl (discover all_features) default_caps example_reports)\<lparr> rc_audio_sinks := 2, rc_audio_sinks_in_use := 0 \<rparr>)
     (Some AptxHd) True False default_order"
  note spec = choose_in_spec[where f = all_features and reports = example_reports and requested = "Some AptxHd"
      and fallback = True and experimental = False and order = default_order and sinks = 2 and in_use = 0]
  have "Sbc \<in> set default_order" by (simp add: default_order_def AUTO_PRIORITY_def)
  then have "\<not> list_all (\<lambda>k. \<not> ?u k) default_order" by (auto simp: list_all_iff)
  then have "\<exists>c. ?c = Inr c \<and> ch_kind c = Sbc \<and> ch_replaced c = Some (AptxHd, Experimental)"
    using spec by (auto simp: example_offered all_features_def split: sum.splits option.splits)
  then show ?thesis by auto
qed

text \<open>C13. The configuration at the picked rate: for a codec the sink offers and capabilities as discovery
  makes them, the SET_CONFIGURATION at the rate the stream picks is built, for that codec and its SEP,
  exactly when the sink lists the bit depth chosen (LHDC V5), a channel mode for the channels captured
  (Opus) or a 44.1 or 48 kHz rate or none at all (aptX); the rate picked is never the reason of a
  failure of another codec.\<close>

theorem configuration_at_picked_rate:
  assumes "caps_wf r" and "caps_sep r k = Some sep"
  shows "(\<exists>request. configuration_with ov r k (picked_rate r k q preferred) channels bits vbr sbc
            = Inr \<lparr> cf_kind = k, cf_remote_seid = sep_seid sep, cf_request = request \<rparr>)
         \<longleftrightarrow> stream_ready r k channels bits"
  using request_exact[OF assms, of ov q preferred channels bits vbr sbc] assms(2)
  by (auto simp: configuration_with_def is_Inr_def split: sum.splits)

definition example_lhdc_caps :: remote_caps where
  "example_lhdc_caps = default_caps\<lparr> rc_lhdcv5 := Some \<lparr> sep_seid = 4 \<rparr>,
     rc_lhdcv5_info := [0x3A, 0x05, 0, 0, 0x35, 0x4C, 0x10, 0x02, 0x11, 0, 0] \<rparr>"

theorem configuration_at_picked_rate_witness:
  "(\<exists>request. configuration_with default_overrides example_lhdc_caps LhdcV5
        (picked_rate example_lhdc_caps LhdcV5 High 96000) 2 24 False default_sbc_params
      = Inr \<lparr> cf_kind = LhdcV5, cf_remote_seid = 4, cf_request = request \<rparr>)
   \<and> \<not> (\<exists>request. configuration_with default_overrides example_lhdc_caps LhdcV5
        (picked_rate example_lhdc_caps LhdcV5 High 96000) 2 16 False default_sbc_params
      = Inr \<lparr> cf_kind = LhdcV5, cf_remote_seid = 4, cf_request = request \<rparr>)"
proof -
  have wf: "caps_wf example_lhdc_caps"
    by (simp add: example_lhdc_caps_def default_caps_def caps_wf_def caps_wf_defs bit_set_def caps_consts)
  have sep: "caps_sep example_lhdc_caps LhdcV5 = Some \<lparr> sep_seid = 4 \<rparr>" by (simp add: example_lhdc_caps_def)
  have "stream_ready example_lhdc_caps LhdcV5 2 24" "\<not> stream_ready example_lhdc_caps LhdcV5 2 16"
    by (simp_all add: stream_ready_def example_lhdc_caps_def bit_set_def caps_consts)
  then show ?thesis
    using configuration_at_picked_rate[OF wf sep, of default_overrides High 96000 2 24 False default_sbc_params]
      configuration_at_picked_rate[OF wf sep, of default_overrides High 96000 2 16 False default_sbc_params]
    by simp
qed

text \<open>C11. The SBC encoder keeps to its configuration: with the sink's range known and not degenerate (or
  unknown and a proper bitpool asked for), and the sink's maximum not overridden, the encoder made for
  the stream has, after any sequence of ABR adjustments and reconnects, a bitpool within the minimum
  and maximum of the SET_CONFIGURATION and the rate, channel mode, blocks, subbands and allocation
  configured.\<close>

theorem encoder_within_configuration:
  assumes k: "k = Sbc \<or> k = SbcXq" and max: "\<not> ignore_sink_max ov"
    and sane: "sane_bitpools r k rate (if k = Sbc then sr_sbc_bitpool req else sr_sbcxq_bitpool req)"
    and cfg: "configuration_with ov r k rate channels bits vbr (request_sbc_params req k) = Inr cfg"
    and req: "cf_request cfg = SbcRequest freq mode blocks subbands alloc min_bitpool max_bitpool"
    and enc: "create_sbc k (stream_encoder_config ov r k req rate channels mtu bits) = Inr e"
  shows "let c = fe_config (se_frame (foldl se_step e evs))
    in min_bitpool \<le> sc_bitpool c \<and> sc_bitpool c \<le> max_bitpool
       \<and> sc_sample_rate c = rate \<and> freq = ucast rate \<and> sc_channel_mode c = mode \<and> sc_blocks c = blocks
       \<and> sc_subbands c = subbands \<and> sc_allocation c = alloc"
proof -
  let ?ec = "stream_encoder_config ov r k req rate channels mtu bits"
  let ?p = "fst (caps_sbc_params r k (request_sbc_params req k))"
  let ?cap = "stream_cap k rate"
  let ?lo = "fst (sbc_bitpool_range r ?cap)" and ?hi = "snd (sbc_bitpool_range r ?cap)"
  have sreq: "sbc_request r k rate channels (request_sbc_params req k)
      = Inr (SbcRequest freq mode blocks subbands alloc min_bitpool max_bitpool)"
    using cfg req k by (auto simp: configuration_with_def split: option.splits sum.splits)
  then have q: "freq = ucast rate" "mode = params_channel_mode ?p k channels" "blocks = params_blocks ?p"
      "subbands = params_subbands ?p" "alloc = params_allocation ?p" "max_bitpool = ?hi"
      "min_bitpool = config_min_bitpool ?p ?lo ?hi"
    by (auto simp: sbc_request_def stream_cap_def Let_def split_beta split: if_splits)
  have peer: "pp_sbc (ec_peer ?ec) = ?p" "pp_sbc_min_bitpool (ec_peer ?ec) = sbc_min_bitpool r"
      "pp_sbc_max_bitpool (ec_peer ?ec) = sbc_max_bitpool r" "ec_sample_rate ?ec = rate" "ec_channels ?ec = channels"
      "pp_sbc_bitpool (ec_peer ?ec) = (if k = Sbc then sr_sbc_bitpool req else sr_sbcxq_bitpool req)"
    using k max by (auto simp: stream_encoder_config_def stream_peer_params_def Let_def split_beta)
  obtain auto where auto: "2 \<le> auto" "auto \<le> ?cap"
    and made: "create_sbc k ?ec = sbc_with_mode k ?ec (sink_bitpool (wanted_bitpool k rate auto ?ec) ?ec)"
    using create_sbc_bitpool[OF k, of ?ec] peer by auto
  let ?bp = "sink_bitpool (wanted_bitpool k rate auto ?ec) ?ec"
  let ?m = "max ?lo (min (sp_min_bitpool ?p) ?hi)"
  have range: "?m \<le> ?bp" "?bp \<le> ?hi"
    using start_bitpool_in_range[OF peer(2,3) _ auto] sane peer by auto
  have hi: "?hi \<le> 53" using stream_cap_bounds[of k rate]
    by (auto simp: sbc_bitpool_range_def Let_def min_le_iff_disj split: option.split)
  have "?m \<le> sbc_abr_low k ?ec ?bp" using floor_covers[OF peer(2) _ range(1), of ?cap ?hi] peer(1) by simp
  then have "se_between ?m ?bp e"
    using sbc_with_mode_between[OF enc[unfolded made] range(1)] range(2) hi by simp
  then have bt: "?m \<le> se_bitpool (foldl se_step e evs)" "se_bitpool (foldl se_step e evs) \<le> ?hi"
    using se_between_run[of ?m ?bp e evs] range(2) by (auto simp: se_between_def)
  have mn: "min_bitpool \<le> ?m" using config_min_le range_bounds q(7) by simp
  show ?thesis
    using order_trans[OF mn bt(1)] bt(2) q sbc_with_mode_config[OF enc[unfolded made]] peer
    by (simp add: se_run_config Let_def)
qed

definition example_sbc_sink :: remote_caps where
  "example_sbc_sink = add_sbc_caps default_caps 1 (example_sbc_caps 40)"

definition example_request :: stream_request where
  "example_request = \<lparr> sr_codec = Some Sbc, sr_quality = High, sr_abr = True, sr_sbc_bitpool = 0, sr_sbcxq_bitpool = 0,
     sr_sbc_min_bitpool = 10, sr_sbcxq_min_bitpool = 0, sr_sbc = default_sbc_params, sr_sample_rate = None, sr_bit_depth = None \<rparr>"

lemma example_sbc_configuration:
  "configuration_with default_overrides example_sbc_sink Sbc 44100 2 16 False (request_sbc_params example_request Sbc)
     = Inr \<lparr> cf_kind = Sbc, cf_remote_seid = 1, cf_request = SbcRequest 44100 JointStereo 16 8 Loudness 10 40 \<rparr>"
  by (simp add: configuration_with_def example_sbc_sink_def add_sbc_caps_def default_caps_def sbc_request_def
      sbc_bitpool_range_def example_sbc_caps_def caps_sbc_params_def params_sanitised_def request_sbc_params_def
      example_request_def default_sbc_params_def config_min_bitpool_def clamp_word_def params_channel_mode_def
      params_blocks_def params_subbands_def params_allocation_def CAPS_SBC_MAX_BITPOOL_def Let_def)

theorem encoder_within_configuration_witness:
  "\<exists>e. create_sbc Sbc (stream_encoder_config default_overrides example_sbc_sink Sbc example_request 44100 2 895 16) = Inr e
     \<and> 10 \<le> sc_bitpool (fe_config (se_frame (foldl se_step e [Adjust 20, Adjust 0])))
     \<and> sc_bitpool (fe_config (se_frame (foldl se_step e [Adjust 20, Adjust 0]))) \<le> 40"
proof -
  obtain e where e: "create_sbc Sbc (stream_encoder_config default_overrides example_sbc_sink Sbc example_request 44100 2 895 16) = Inr e"
    using create_sbc_succeeds[of "stream_encoder_config default_overrides example_sbc_sink Sbc example_request 44100 2 895 16" Sbc]
    by (auto simp: is_Inr_def stream_encoder_config_def split: sum.splits)
  have "sane_bitpools example_sbc_sink Sbc 44100 (if Sbc = Sbc then sr_sbc_bitpool example_request else sr_sbcxq_bitpool example_request)"
    by (simp add: sane_bitpools_def example_sbc_sink_def add_sbc_caps_def default_caps_def example_sbc_caps_def
        stream_cap_def CAPS_SBC_MAX_BITPOOL_def)
  from encoder_within_configuration[OF _ _ this example_sbc_configuration _ e, of 44100 JointStereo 16 8 Loudness 10 40 "[Adjust 20, Adjust 0]"]
  show ?thesis using e by (simp add: default_overrides_def Let_def)
qed

text \<open>C16. A vendor configuration is vendor codec information of its own codec: read back as a
  capability, what the SET_CONFIGURATION carries is taken as that codec (aptX Adaptive at 48 kHz, the
  rate every capability of it has to list).\<close>

theorem vendor_configuration_understood:
  assumes wf: "caps_wf r" and avail: "available f k"
    and cfg: "configuration_with ov r k rate channels bits vbr sbc = Inr c" and info: "cf_request c = VendorRequest info"
    and r48: "k = AptxAdaptive \<Longrightarrow> rate = 48000"
  shows "snd (take_vendor f r' seid info) = Taken k"
proof -
  have req: "config_request_of ov r k rate channels bits vbr sbc = Inr (VendorRequest info)" and has: "caps_sep r k \<noteq> None"
    using cfg info by (auto simp: configuration_with_def split: option.splits sum.splits)
  have v: "vendor_request x = Inr (VendorRequest i) \<longleftrightarrow> x = Inr i" for x i by (cases x) auto
  show ?thesis
  proof (cases k)
    case AptxLl
    then show ?thesis using req has wf by (auto simp: v caps_wf_def aptx_wf_def intro: understood_aptxll)
  next
    case AptxAdaptive
    then show ?thesis using req r48 avail by (auto simp: v intro: understood_aptxad)
  next
    case LhdcV5
    then show ?thesis using req avail by (auto simp: v intro: understood_lhdcv5)
  qed (use req in \<open>auto simp: v sbc_request_def aac_request_def Let_def split_beta understood_ldac
       intro: understood_aptx understood_aptxhd understood_faststream understood_opus understood_opus05 split: if_splits\<close>)
qed

theorem vendor_configuration_understood_witness:
  "\<exists>c info. configuration_with default_overrides example_lhdc_caps LhdcV5 48000 2 24 False default_sbc_params = Inr c
     \<and> cf_request c = VendorRequest info \<and> snd (take_vendor all_features default_caps 9 info) = Taken LhdcV5"
proof -
  have wf: "caps_wf example_lhdc_caps"
    by (simp add: example_lhdc_caps_def default_caps_def caps_wf_def caps_wf_defs bit_set_def caps_consts)
  have "is_Inr (lhdcv5_request example_lhdc_caps 48000 24)"
    by (simp add: example_lhdc_caps_def lhdcv5_request_def lhdcv5_rates_def Let_def caps_consts)
  then obtain info where "lhdcv5_request example_lhdc_caps 48000 24 = Inr info"
    by (auto simp: is_Inr_def split: sum.splits)
  then obtain c where "configuration_with default_overrides example_lhdc_caps LhdcV5 48000 2 24 False default_sbc_params = Inr c"
      "cf_request c = VendorRequest info"
    by (simp add: configuration_with_def example_lhdc_caps_def)
  moreover have "available all_features LhdcV5" by (simp add: all_features_def)
  ultimately show ?thesis using vendor_configuration_understood[OF wf] by blast
qed

end
