(* ===== verification/Sbc_Bit_Alloc.thy ===== *)
theory Sbc_Bit_Alloc
  imports Sbc_Setup
begin

text \<open>
  SBC bit allocation, \<^verbatim>\<open>app/src/crates/codec/src/sbc/bit_alloc.rs\<close>: the bit need of each
  subband, the slicing loop, the initial bits and the two passes that hand out the leftovers, for mono
  and dual channel (per channel) and for stereo and joint stereo (over both channels). The values are
  the \<^verbatim>\<open>i32\<close> of the code as \<open>int\<close>: scale factors are at most 31 and a bitpool at most 255, so
  they stay far from the limits. The slicing loop has no bound in the code; it is a
  \<open>partial_function\<close>, and that it ends is part of the theorems. The buffer \<^verbatim>\<open>scratch\<close> only
  carries the bit need from one line to the next and is a local value here.
\<close>

subsection \<open>Bit need and slices\<close>

definition OFFSET4 :: "int list list" where
  "OFFSET4 = [[-1, 0, 0, 0], [-2, 0, 0, 1], [-2, 0, 0, 1], [-2, 0, 0, 1]]"

definition OFFSET8 :: "int list list" where
  "OFFSET8 = [[-2, 0, 0, 0, 0, 0, 0, 1], [-3, 0, 0, 0, 0, 0, 1, 2], [-4, 0, 0, 0, 0, 0, 1, 2],
     [-4, 0, 0, 0, 0, 0, 1, 2]]"

record alloc_params =
  al_subbands :: nat
  al_freq_index :: nat
  al_snr :: bool
  al_bitpool :: int

definition loudness_need :: "int \<Rightarrow> int \<Rightarrow> int" where
  "loudness_need s off = (if s = 0 then - 5 else let l = s - off in if l > 0 then l div 2 else l)"

text \<open>The bit need of one channel and its maximum, the search for which starts at 0.\<close>

definition loudness :: "int list \<Rightarrow> nat \<Rightarrow> int list \<times> int" where
  "loudness scf freq_index =
     (let offsets = (if length scf = 4 then OFFSET4 ! freq_index else OFFSET8 ! freq_index);
          out = map2 loudness_need scf offsets
      in (out, foldl max 0 out))"

definition slice_bits :: "int \<Rightarrow> int" where
  "slice_bits d = (if d = 1 then 2 else if 2 \<le> d \<and> d \<le> 15 then 1 else 0)"

definition slice_count :: "int list \<Rightarrow> int \<Rightarrow> int" where
  "slice_count bitneed sl = sum_list (map (\<lambda>bn. slice_bits (bn - sl)) bitneed)"

definition initial_bits :: "int list \<Rightarrow> int \<Rightarrow> int list" where
  "initial_bits bitneed sl = map (\<lambda>bn. if bn < sl + 2 then 0 else min (bn - sl) 16) bitneed"

partial_function (option) slice_loop :: "int list \<Rightarrow> int \<Rightarrow> int \<Rightarrow> int \<Rightarrow> (int \<times> int \<times> int) option" where
  "slice_loop bitneed sl count sc =
     (let sl = sl - 1; count = count - sc; sc = slice_count bitneed sl
      in if count - sc \<le> 0 then Some (sl, count, sc) else slice_loop bitneed sl count sc)"

subsection \<open>The leftovers\<close>

text \<open>The two passes visit the subbands in a fixed order, given as the list of their indices.\<close>

fun first_pass :: "int list \<Rightarrow> int \<Rightarrow> nat list \<Rightarrow> int list \<Rightarrow> int \<Rightarrow> int list \<times> int" where
  "first_pass bitneed sl [] bits count = (bits, count)"
| "first_pass bitneed sl (i # is) bits count =
     (if count > 0 then
        (if bits ! i \<ge> 2 \<and> bits ! i < 16
         then first_pass bitneed sl is (bits[i := bits ! i + 1]) (count - 1)
         else if bitneed ! i = sl + 1 \<and> count > 1
         then first_pass bitneed sl is (bits[i := 2]) (count - 2)
         else first_pass bitneed sl is bits count)
      else (bits, count))"

fun second_pass :: "nat list \<Rightarrow> int list \<Rightarrow> int \<Rightarrow> int list \<times> int" where
  "second_pass [] bits count = (bits, count)"
| "second_pass (i # is) bits count =
     (if count > 0 then
        (if bits ! i < 16 then second_pass is (bits[i := bits ! i + 1]) (count - 1)
         else second_pass is bits count)
      else (bits, count))"

definition leftovers :: "int list \<Rightarrow> int \<Rightarrow> int \<Rightarrow> nat list \<Rightarrow> int list" where
  "leftovers bitneed sl count order =
     (let (bits, count) = first_pass bitneed sl order (initial_bits bitneed sl) count
      in fst (second_pass order bits count))"

subsection \<open>Mono and dual channel\<close>

definition mono_channel :: "alloc_params \<Rightarrow> int list \<Rightarrow> int list option" where
  "mono_channel p scf =
     (let (bitneed, max_bitneed) =
        (if al_snr p then (scf, foldl max 0 scf) else loudness scf (al_freq_index p))
      in case slice_loop bitneed (max_bitneed + 1) (al_bitpool p) 0 of
           None \<Rightarrow> None
         | Some (sl, count, sc) \<Rightarrow>
             let (count, sl) = (if count = 0 then (count - sc, sl - 1) else (count, sl))
             in Some (leftovers bitneed sl count [0..<al_subbands p]))"

fun mono_channels :: "alloc_params \<Rightarrow> nat list \<Rightarrow> int list \<Rightarrow> int list \<Rightarrow> int list option" where
  "mono_channels p [] scf bits = Some bits"
| "mono_channels p (ch # chs) scf bits =
     (let n = al_subbands p
      in case mono_channel p (subslice scf (ch * n) ((ch + 1) * n)) of
           None \<Rightarrow> None
         | Some b \<Rightarrow> mono_channels p chs scf (take (ch * n) bits @ b @ drop ((ch + 1) * n) bits))"

definition mono_alloc :: "alloc_params \<Rightarrow> nat \<Rightarrow> int list \<Rightarrow> int list \<Rightarrow> int list option" where
  "mono_alloc p channels scf bits = mono_channels p [0..<channels] scf bits"

subsection \<open>Stereo and joint stereo\<close>

definition stereo_order :: "nat \<Rightarrow> nat list" where
  "stereo_order n = concat (map (\<lambda>sb. [sb, n + sb]) [0..<n])"

definition stereo_alloc :: "alloc_params \<Rightarrow> int \<Rightarrow> int list \<Rightarrow> int list \<Rightarrow> int list option" where
  "stereo_alloc p max_bit scf bits =
     (let n = al_subbands p;
          (bitneed, max_bitneed) =
            (if al_snr p then (take (2 * n) scf, max_bit)
             else let (b0, m0) = loudness (take n scf) (al_freq_index p);
                      (b1, m1) = loudness (subslice scf n (2 * n)) (al_freq_index p)
                  in (b0 @ b1, max m0 m1))
      in case slice_loop bitneed (max_bitneed + 1) (al_bitpool p) 0 of
           None \<Rightarrow> None
         | Some (sl, count, sc) \<Rightarrow>
             let (count, sl) = (if count - sc = 0 then (count - sc, sl - 1) else (count, sl))
             in Some (leftovers bitneed sl count (stereo_order n) @ drop (2 * n) bits))"

subsection \<open>The slicing loop\<close>

definition taken :: "int list \<Rightarrow> int \<Rightarrow> int" where
  "taken bitneed sl = sum_list (initial_bits bitneed sl)"

lemma taken_step: "taken bn (s - 1) = taken bn s + slice_count bn s"
  by (induction bn) (auto simp: taken_def initial_bits_def slice_count_def slice_bits_def min_def)

lemma taken_top: "\<forall>b\<in>set bn. b \<le> m \<Longrightarrow> taken bn m = 0"
  by (induction bn) (auto simp: taken_def initial_bits_def)

lemma slice_count_top: "\<forall>b\<in>set bn. b \<le> m \<Longrightarrow> slice_count bn m = 0"
  by (induction bn) (auto simp: slice_count_def slice_bits_def)

lemma taken_full: "\<forall>b\<in>set bn. s + 16 \<le> b \<Longrightarrow> taken bn s = 16 * int (length bn)"
  by (induction bn) (auto simp: taken_def initial_bits_def min_def)

lemma list_lower: "\<exists>m. \<forall>b\<in>set bn. m \<le> (b::int)"
  by (rule exI[of _ "foldr min bn 0"]) (induction bn, auto)

lemma slice_loop_ends_from:
  assumes low: "\<forall>b\<in>set bn. m \<le> b" and bp: "bitpool \<le> 16 * int (length bn)"
  shows "count - sc = bitpool - taken bn (sl - 1) \<Longrightarrow> 0 \<le> count - sc \<Longrightarrow> (count - sc = 0 \<Longrightarrow> bitpool = 0) \<Longrightarrow>
     \<exists>s c. slice_loop bn sl count sc = Some (s, c, slice_count bn s) \<and> c = bitpool - taken bn s
       \<and> 0 \<le> c \<and> c \<le> slice_count bn s \<and> (c = 0 \<longrightarrow> bitpool = 0)"
proof (induction "nat (sl - (m - 20))" arbitrary: sl count sc rule: less_induct)
  case less
  let ?s = "sl - 1"
  let ?c = "count - sc"
  show ?case
  proof (cases "?c - slice_count bn ?s \<le> 0")
    case True
    then have "slice_loop bn sl count sc = Some (?s, ?c, slice_count bn ?s)"
      by (subst slice_loop.simps) (simp add: Let_def)
    with True less.prems show ?thesis by auto
  next
    case False
    then have eq: "slice_loop bn sl count sc = slice_loop bn ?s ?c (slice_count bn ?s)"
      by (subst slice_loop.simps) (simp add: Let_def)
    have inv: "?c - slice_count bn ?s = bitpool - taken bn (?s - 1)"
      using less.prems(1) taken_step[of bn ?s] by simp
    have "\<not> (\<forall>b\<in>set bn. (?s - 1) + 16 \<le> b)"
      using taken_full[of bn "?s - 1"] inv False bp by auto
    then have "m < sl + 14" using low by fastforce
    then show ?thesis
      unfolding eq using False by (intro less.hyps) (auto simp: inv)
  qed
qed

lemma slice_loop_ends:
  assumes top: "\<forall>b\<in>set bn. b \<le> m" and bp: "0 \<le> bitpool" "bitpool \<le> 16 * int (length bn)"
  obtains s c where "slice_loop bn (m + 1) bitpool 0 = Some (s, c, slice_count bn s)"
    "c = bitpool - taken bn s" "0 \<le> c" "c \<le> slice_count bn s" "c = 0 \<Longrightarrow> bitpool = 0"
proof -
  obtain l where "\<forall>b\<in>set bn. l \<le> b" using list_lower by blast
  from slice_loop_ends_from[OF this bp(2), of bitpool 0 "m + 1"] bp taken_top[OF top] that
  show thesis by auto
qed

subsection \<open>The passes\<close>

lemma sum_list_update_int: "i < length xs \<Longrightarrow> sum_list (xs[i := v]) = sum_list xs - xs ! i + (v::int)"
  by (induction xs arbitrary: i) (auto simp: nth_Cons split: nat.splits)

definition room :: "int list \<Rightarrow> int list \<Rightarrow> int \<Rightarrow> nat \<Rightarrow> int" where
  "room bits bn s i = (if bits ! i \<ge> 2 \<and> bits ! i < 16 then 1 else if bn ! i = s + 1 then 2 else 0)"

definition bits_ok :: "int list \<Rightarrow> bool" where
  "bits_ok bits \<longleftrightarrow> (\<forall>b\<in>set bits. 0 \<le> b \<and> b \<le> 16)"

lemma bits_ok_update: "bits_ok bits \<Longrightarrow> 0 \<le> v \<Longrightarrow> v \<le> 16 \<Longrightarrow> bits_ok (bits[i := v])"
  using set_update_subset_insert[of bits i v] by (auto simp: bits_ok_def)

lemma bits_ok_nth: "bits_ok bits \<Longrightarrow> i < length bits \<Longrightarrow> 0 \<le> bits ! i \<and> bits ! i \<le> 16"
  by (simp add: bits_ok_def)

text \<open>What the first pass keeps and what it may leave over: at most one bit, or everything its
  subbands had no room for.\<close>

definition pass_result :: "int list \<Rightarrow> int list \<Rightarrow> int \<Rightarrow> nat list \<Rightarrow> int \<Rightarrow> int list \<times> int \<Rightarrow> bool" where
  "pass_result bits bn s is count r \<longleftrightarrow>
     length (fst r) = length bits \<and> sum_list (fst r) + snd r = sum_list bits + count \<and> bits_ok (fst r)
     \<and> 0 \<le> snd r \<and> snd r \<le> count
     \<and> (snd r \<le> 1 \<or> snd r = count - sum_list (map (room bits bn s) is))"

lemma pass_result_step:
  assumes r: "pass_result (bits[i := v]) bn s is (count - k) r" and i: "i < length bits" "i \<notin> set is"
    and v: "v = bits ! i + k" "0 \<le> k" "room bits bn s i = k"
  shows "pass_result bits bn s (i # is) count r"
proof -
  have "room (bits[i := v]) bn s j = room bits bn s j" if "j \<in> set is" for j
    using i that by (cases "i = j") (auto simp: room_def)
  then have same: "map (room (bits[i := v]) bn s) is = map (room bits bn s) is" by simp
  show ?thesis using r i(1) v(2,3) unfolding pass_result_def same
    by (auto simp: sum_list_update_int v(1))
qed

lemma first_pass_keeps:
  assumes "set is \<subseteq> {..<length bits}" "0 \<le> count" "bits_ok bits" "distinct is"
    "\<forall>i\<in>set is. bn ! i = s + 1 \<longrightarrow> bits ! i = 0"
  shows "pass_result bits bn s is count (first_pass bn s is bits count)"
  using assms
proof (induction bn s "is" bits count rule: first_pass.induct)
  case (1 bn s bits count)
  then show ?case by (simp add: pass_result_def)
next
  case (2 bn s i "is" bits count)
  have i: "i < length bits" "i \<notin> set is" using "2.prems" by auto
  have z: "\<forall>j\<in>set is. bn ! j = s + 1 \<longrightarrow> bits[i := v] ! j = 0" for v
    using "2.prems"(5) i by (metis list.set_intros(2) nth_list_update_neq)
  consider (none) "\<not> count > 0" | (a) "count > 0" "bits ! i \<ge> 2 \<and> bits ! i < 16"
    | (b) "count > 0" "\<not> (bits ! i \<ge> 2 \<and> bits ! i < 16)" "bn ! i = s + 1 \<and> count > 1"
    | (c) "count > 0" "\<not> (bits ! i \<ge> 2 \<and> bits ! i < 16)" "\<not> (bn ! i = s + 1 \<and> count > 1)" by blast
  then show ?case
  proof cases
    case none
    then show ?thesis using "2.prems"(2,3) by (simp add: pass_result_def)
  next
    case a
    have "pass_result (bits[i := bits ! i + 1]) bn s is (count - 1)
        (first_pass bn s is (bits[i := bits ! i + 1]) (count - 1))"
      using "2.prems" a z by (intro "2.IH"(1)) (auto simp: bits_ok_update)
    from pass_result_step[OF this i] a show ?thesis by (simp add: room_def)
  next
    case b
    have "pass_result (bits[i := 2]) bn s is (count - 2) (first_pass bn s is (bits[i := 2]) (count - 2))"
      using "2.prems" b z by (intro "2.IH"(2)) (auto simp: bits_ok_update)
    from pass_result_step[OF this i] b "2.prems"(5) show ?thesis by (simp add: room_def)
  next
    case c
    have "pass_result bits bn s is count (first_pass bn s is bits count)"
      using "2.prems" c by (intro "2.IH"(3)) auto
    moreover have "room bits bn s i = 0 \<or> count = 1" using c by (auto simp: room_def)
    ultimately show ?thesis using c by (auto simp: pass_result_def)
  qed
qed

lemma second_pass_keeps:
  "set is \<subseteq> {..<length bits} \<Longrightarrow> 0 \<le> count \<Longrightarrow> count \<le> 1 \<Longrightarrow> bits_ok bits \<Longrightarrow>
   (count = 0 \<or> (\<exists>i\<in>set is. bits ! i < 16)) \<Longrightarrow> second_pass is bits count = (bits', count') \<Longrightarrow>
   length bits' = length bits \<and> sum_list bits' = sum_list bits + count \<and> bits_ok bits'"
proof (induction "is" bits count arbitrary: bits' count' rule: second_pass.induct)
  case (2 i "is" bits count)
  have i: "i < length bits" using "2.prems" by auto
  show ?case
  proof (cases "count > 0 \<and> bits ! i < 16")
    case True
    then have c: "count = 1" using "2.prems" by auto
    have stop: "second_pass js bs 0 = (bs, 0)" for js bs by (cases js) auto
    have "bits' = bits[i := bits ! i + 1]" using "2.prems"(6) True c by (simp add: stop)
    moreover have "bits_ok (bits[i := bits ! i + 1])"
      using True "2.prems"(4) bits_ok_nth[OF _ i] by (intro bits_ok_update) auto
    ultimately show ?thesis using c i by (simp add: sum_list_update_int)
  next
    case False
    then show ?thesis using 2 by (auto split: if_splits)
  qed
qed simp

lemma sum_list_le_16: "\<forall>b\<in>set bs. b \<le> (16::int) \<Longrightarrow> sum_list bs \<le> 16 * int (length bs)"
  by (induction bs) auto

lemma sum_list_all_16: "\<forall>b\<in>set bs. b = (16::int) \<Longrightarrow> sum_list bs = 16 * int (length bs)"
  by (induction bs) auto

lemma sum_list_order:
  assumes "distinct is" "set is = {..<n}"
  shows "sum_list (map f is) = sum_list (map (f :: nat \<Rightarrow> int) [0..<n])"
  using assms by (simp add: sum_list_distinct_conv_sum_set atLeast0LessThan)

lemma room_initial:
  assumes "distinct is" "set is = {..<length bn}"
  shows "sum_list (map (room (initial_bits bn s) bn s) is) = slice_count bn s"
proof -
  have "map (room (initial_bits bn s) bn s) [0..<length bn] = map (\<lambda>b. slice_bits (b - s)) bn"
    by (rule nth_equalityI) (auto simp: room_def initial_bits_def slice_bits_def min_def)
  then show ?thesis using sum_list_order[OF assms] by (simp add: slice_count_def)
qed

lemma initial_bits_range: "bits_ok (initial_bits bn s)"
  by (auto simp: bits_ok_def initial_bits_def)

lemma leftovers_sum:
  assumes ord: "distinct is" "set is = {..<length bn}"
    and c: "0 \<le> c" "c \<le> slice_count bn s" "taken bn s + c \<le> 16 * int (length bn)"
  shows "length (leftovers bn s c is) = length bn \<and> sum_list (leftovers bn s c is) = taken bn s + c
     \<and> bits_ok (leftovers bn s c is)"
proof -
  let ?b = "initial_bits bn s"
  obtain b1 c1 where fp: "first_pass bn s is ?b c = (b1, c1)" by (cases "first_pass bn s is ?b c")
  obtain b2 c2 where sp: "second_pass is b1 c1 = (b2, c2)" by (cases "second_pass is b1 c1")
  have len: "length ?b = length bn" by (simp add: initial_bits_def)
  have z: "\<forall>i\<in>set is. bn ! i = s + 1 \<longrightarrow> ?b ! i = 0" using ord by (auto simp: initial_bits_def)
  have "pass_result ?b bn s is c (b1, c1)"
    unfolding fp[symmetric] using c(1) ord z initial_bits_range by (intro first_pass_keeps) (auto simp: len)
  then have k1: "length b1 = length bn" "sum_list b1 + c1 = taken bn s + c" "bits_ok b1" "0 \<le> c1"
      "c1 \<le> 1 \<or> c1 = c - slice_count bn s"
    by (simp_all add: pass_result_def room_initial[OF ord] len taken_def)
  then have c1: "c1 \<le> 1" using c by auto
  have "c1 = 0 \<or> (\<exists>i\<in>set is. b1 ! i < 16)"
  proof (rule ccontr)
    assume n: "\<not> ?thesis"
    then have "\<forall>i<length b1. b1 ! i = 16" using k1 ord(2) bits_ok_nth[OF k1(3)] by (auto simp: antisym not_less)
    then have "\<forall>b\<in>set b1. b = 16" by (simp add: all_set_conv_all_nth)
    then have "sum_list b1 = 16 * int (length bn)" using sum_list_all_16[of b1] k1 by simp
    with k1 c n show False by auto
  qed
  with second_pass_keeps[OF _ _ c1 _ _ sp] k1 ord(2) show ?thesis
    by (auto simp: leftovers_def fp sp)
qed

lemma slice_count_nonneg: "0 \<le> slice_count bn s"
  by (induction bn) (auto simp: slice_count_def slice_bits_def)

lemma foldl_max_ge: "\<forall>b\<in>set xs. b \<le> foldl max m xs" "m \<le> foldl max (m::int) xs"
proof (induction xs arbitrary: m)
  case (Cons x xs)
  { case 1 show ?case using Cons[of "max m x"] by auto }
  { case 2 show ?case using Cons(2)[of "max m x"] by auto }
qed auto

lemma loudness_bounds:
  assumes "length scf = 4 \<or> length scf = 8" "f < 4"
  shows "length (fst (loudness scf f)) = length scf \<and> (\<forall>b\<in>set (fst (loudness scf f)). b \<le> snd (loudness scf f))"
proof -
  have "length (OFFSET4 ! f) = 4" "length (OFFSET8 ! f) = 8"
    using assms(2) by (auto simp: OFFSET4_def OFFSET8_def less_Suc_eq numeral_eq_Suc)
  then show ?thesis using assms(1) by (auto simp: loudness_def Let_def foldl_max_ge)
qed


lemma alloc_core:
  assumes top: "\<forall>b\<in>set bn. b \<le> m" and bp: "0 \<le> bitpool" "bitpool \<le> 16 * int (length bn)"
    and ord: "distinct is" "set is = {..<length bn}"
  obtains s c where "slice_loop bn (m + 1) bitpool 0 = Some (s, c, slice_count bn s)"
    "c = 0 \<Longrightarrow> slice_count bn s = 0 \<and> bitpool = 0"
    "\<And>c' s'. (c', s') = (c, s) \<or> (c = slice_count bn s \<and> (c', s') = (0, s - 1)) \<Longrightarrow>
       length (leftovers bn s' c' is) = length bn \<and> sum_list (leftovers bn s' c' is) = bitpool
       \<and> bits_ok (leftovers bn s' c' is)"
proof -
  obtain s c where l: "slice_loop bn (m + 1) bitpool 0 = Some (s, c, slice_count bn s)"
    "c = bitpool - taken bn s" "0 \<le> c" "c \<le> slice_count bn s" "c = 0 \<Longrightarrow> bitpool = 0"
    using slice_loop_ends[OF top bp] by blast
  have res: "length (leftovers bn s' c' is) = length bn \<and> sum_list (leftovers bn s' c' is) = bitpool
       \<and> bits_ok (leftovers bn s' c' is)"
    if "(c', s') = (c, s) \<or> (c = slice_count bn s \<and> (c', s') = (0, s - 1))" for c' s'
    using that leftovers_sum[OF ord, of c s] leftovers_sum[OF ord, of 0 "s - 1"] l bp taken_step[of bn s]
      slice_count_nonneg[of bn "s - 1"] by auto
  have "slice_count bn s = 0" if "c = 0"
  proof -
    have "slice_loop bn (m + 1) 0 0 = Some (m, 0, 0)"
      by (subst slice_loop.simps) (simp add: Let_def slice_count_top[OF top])
    then show ?thesis using l that by simp
  qed
  with l res that show thesis by blast
qed

lemma mono_channel_sum:
  assumes n: "length scf = al_subbands p" "al_subbands p = 4 \<or> al_subbands p = 8" and f: "al_freq_index p < 4"
    and bp: "0 \<le> al_bitpool p" "al_bitpool p \<le> 16 * int (al_subbands p)"
  obtains bits where "mono_channel p scf = Some bits" "length bits = al_subbands p"
    "sum_list bits = al_bitpool p" "bits_ok bits"
proof -
  obtain bn m where need: "(if al_snr p then (scf, foldl max 0 scf) else loudness scf (al_freq_index p)) = (bn, m)"
    by fastforce
  then have len: "length bn = al_subbands p" and top: "\<forall>b\<in>set bn. b \<le> m"
    using loudness_bounds[of scf "al_freq_index p"] n f foldl_max_ge(1)[of scf 0] by (auto split: if_splits)
  have ord: "distinct [0..<al_subbands p]" "set [0..<al_subbands p] = {..<length bn}" by (auto simp: len)
  obtain s c where l: "slice_loop bn (m + 1) (al_bitpool p) 0 = Some (s, c, slice_count bn s)"
    "c = 0 \<Longrightarrow> slice_count bn s = 0 \<and> al_bitpool p = 0"
    "\<And>c' s'. (c', s') = (c, s) \<or> (c = slice_count bn s \<and> (c', s') = (0, s - 1)) \<Longrightarrow>
       length (leftovers bn s' c' [0..<al_subbands p]) = length bn
       \<and> sum_list (leftovers bn s' c' [0..<al_subbands p]) = al_bitpool p
       \<and> bits_ok (leftovers bn s' c' [0..<al_subbands p])"
    using alloc_core[OF top bp(1) _ ord] bp(2) len by auto
  let ?r = "if c = 0 then (0, s - 1) else (c, s)"
  have "mono_channel p scf = Some (leftovers bn (snd ?r) (fst ?r) [0..<al_subbands p])"
    using l(1,2) need by (auto simp: mono_channel_def Let_def)
  have "(fst ?r, snd ?r) = (c, s) \<or> (c = slice_count bn s \<and> (fst ?r, snd ?r) = (0, s - 1))"
    using l(2) by auto
  note r = this
  show thesis by (rule that[OF \<open>mono_channel p scf = _\<close>]) (use l(3)[OF r] len in auto)
qed

lemma mono_channels_append:
  "mono_channels p (xs @ ys) scf bits =
     (case mono_channels p xs scf bits of None \<Rightarrow> None | Some b \<Rightarrow> mono_channels p ys scf b)"
  by (induction p xs scf bits rule: mono_channels.induct) (auto simp: Let_def split: option.splits)

lemma subslice_replace:
  assumes "a \<le> b" "b \<le> length xs" "length ys = b - a"
  shows "subslice (take a xs @ ys @ drop b xs) a b = ys"
    and "hi \<le> a \<Longrightarrow> subslice (take a xs @ ys @ drop b xs) lo hi = subslice xs lo hi"
  using assms by (simp_all add: subslice_def drop_take min_absorb1)

lemma mono_channels_sum:
  assumes n: "al_subbands p = 4 \<or> al_subbands p = 8" and f: "al_freq_index p < 4"
    and bp: "0 \<le> al_bitpool p" "al_bitpool p \<le> 16 * int (al_subbands p)"
    and len: "length scf = 16" "length bits = 16"
  shows "a * al_subbands p \<le> 16 \<Longrightarrow>
    \<exists>bits'. mono_channels p [0..<a] scf bits = Some bits' \<and> length bits' = 16
      \<and> (\<forall>ch<a. sum_list (subslice bits' (ch * al_subbands p) ((ch + 1) * al_subbands p)) = al_bitpool p
           \<and> bits_ok (subslice bits' (ch * al_subbands p) ((ch + 1) * al_subbands p)))"
proof (induction a)
  case (Suc a)
  let ?n = "al_subbands p"
  obtain b1 where b1: "mono_channels p [0..<a] scf bits = Some b1" "length b1 = 16"
    "\<forall>ch<a. sum_list (subslice b1 (ch * ?n) ((ch + 1) * ?n)) = al_bitpool p
       \<and> bits_ok (subslice b1 (ch * ?n) ((ch + 1) * ?n))"
    using Suc by auto
  have hi: "(a + 1) * ?n \<le> 16" using Suc.prems by simp
  then have "length (subslice scf (a * ?n) ((a + 1) * ?n)) = ?n" using len by simp
  then obtain b where b: "mono_channel p (subslice scf (a * ?n) ((a + 1) * ?n)) = Some b" "length b = ?n"
    "sum_list b = al_bitpool p" "bits_ok b"
    using mono_channel_sum[OF _ n f bp] by blast
  let ?b2 = "take (a * ?n) b1 @ b @ drop ((a + 1) * ?n) b1"
  have "mono_channels p [0..<Suc a] scf bits = Some ?b2"
    using b1(1) b(1) by (simp add: mono_channels_append Let_def)
  moreover have "length ?b2 = 16" using b1(2) b(2) hi by simp
  moreover have "subslice ?b2 (a * ?n) ((a + 1) * ?n) = b"
    using hi b1(2) b(2) by (intro subslice_replace) auto
  moreover have "subslice ?b2 (ch * ?n) ((ch + 1) * ?n) = subslice b1 (ch * ?n) ((ch + 1) * ?n)" if "ch < a" for ch
    using hi b1(2) b(2) mult_le_mono1[of "ch + 1" a ?n] that by (intro subslice_replace) auto
  ultimately show ?case using b1(3) b(3,4) by (auto simp: less_Suc_eq)
qed (simp add: len)

lemma stereo_order_props: "distinct (stereo_order n)" "set (stereo_order n) = {..<2 * n}"
proof -
  have s: "set (stereo_order n) = {..<2 * n}"
  proof
    show "{..<2 * n} \<subseteq> set (stereo_order n)"
    proof
      fix i assume "i \<in> {..<2 * n}"
      then consider "i < n" | "n \<le> i" "i - n < n" by fastforce
      then show "i \<in> set (stereo_order n)"
        by cases (auto simp: stereo_order_def intro: bexI[of _ "i - n"])
    qed
  qed (auto simp: stereo_order_def)
  moreover have "length (stereo_order n) = 2 * n"
    by (simp add: stereo_order_def length_concat comp_def sum_list_triv)
  ultimately show "distinct (stereo_order n)" by (simp add: card_distinct)
  show "set (stereo_order n) = {..<2 * n}" by (rule s)
qed

lemma stereo_sum:
  assumes n: "al_subbands p = 4 \<or> al_subbands p = 8" and f: "al_freq_index p < 4"
    and bp: "0 \<le> al_bitpool p" "al_bitpool p \<le> 32 * int (al_subbands p)"
    and len: "length scf = 16" "length bits = 16"
    and snr: "al_snr p \<Longrightarrow> \<forall>x\<in>set (take (2 * al_subbands p) scf). x \<le> max_bit"
  shows "\<exists>bits'. stereo_alloc p max_bit scf bits = Some bits' \<and> length bits' = 16
      \<and> sum_list (take (2 * al_subbands p) bits') = al_bitpool p
      \<and> bits_ok (take (2 * al_subbands p) bits') \<and> drop (2 * al_subbands p) bits' = drop (2 * al_subbands p) bits"
proof -
  let ?n = "al_subbands p"
  let ?l0 = "loudness (take ?n scf) (al_freq_index p)" and ?l1 = "loudness (subslice scf ?n (2 * ?n)) (al_freq_index p)"
  define bn where "bn = (if al_snr p then take (2 * ?n) scf else fst ?l0 @ fst ?l1)"
  define m where "m = (if al_snr p then max_bit else max (snd ?l0) (snd ?l1))"
  have "length (take ?n scf) = ?n" "length (subslice scf ?n (2 * ?n)) = ?n" using n len by auto
  then have L0: "length (fst ?l0) = ?n" "\<forall>b\<in>set (fst ?l0). b \<le> snd ?l0"
    and L1: "length (fst ?l1) = ?n" "\<forall>b\<in>set (fst ?l1). b \<le> snd ?l1"
    using loudness_bounds[OF _ f, of "take ?n scf"] loudness_bounds[OF _ f, of "subslice scf ?n (2 * ?n)"] n by auto
  have bl: "length bn = 2 * ?n" using L0 L1 n len by (auto simp: bn_def)
  have top: "\<forall>b\<in>set bn. b \<le> m" using L0 L1 snr by (auto simp: bn_def m_def le_max_iff_disj)
  have ord: "distinct (stereo_order ?n)" "set (stereo_order ?n) = {..<length bn}"
    by (simp_all add: stereo_order_props bl)
  obtain s c where l: "slice_loop bn (m + 1) (al_bitpool p) 0 = Some (s, c, slice_count bn s)"
    "c = 0 \<Longrightarrow> slice_count bn s = 0 \<and> al_bitpool p = 0"
    "\<And>c' s'. (c', s') = (c, s) \<or> (c = slice_count bn s \<and> (c', s') = (0, s - 1)) \<Longrightarrow>
       length (leftovers bn s' c' (stereo_order ?n)) = length bn
       \<and> sum_list (leftovers bn s' c' (stereo_order ?n)) = al_bitpool p
       \<and> bits_ok (leftovers bn s' c' (stereo_order ?n))"
    using alloc_core[OF top bp(1) _ ord] bp(2) bl by auto
  let ?r = "if c - slice_count bn s = 0 then (0, s - 1) else (c, s)"
  have st: "stereo_alloc p max_bit scf bits = Some (leftovers bn (snd ?r) (fst ?r) (stereo_order ?n) @ drop (2 * ?n) bits)"
    using l(1) by (simp add: stereo_alloc_def bn_def m_def Let_def split_beta split: if_splits)
  have r: "(fst ?r, snd ?r) = (c, s) \<or> (c = slice_count bn s \<and> (fst ?r, snd ?r) = (0, s - 1))" by auto
  define b where "b = leftovers bn (snd ?r) (fst ?r) (stereo_order ?n)"
  have "length b = 2 * ?n" "sum_list b = al_bitpool p" "bits_ok b"
    using l(3)[OF r] bl by (simp_all add: b_def)
  then show ?thesis unfolding st b_def[symmetric] using n len by auto
qed

subsection \<open>Properties\<close>

text \<open>C18. Mono and dual channel allocation ends and spends the bitpool exactly: for every scale factor
  array, the slicing loop returns, each channel's subbands get \<open>bitpool\<close> bits in all, and every
  subband gets between 0 and 16. The bound \<open>16 * subbands\<close> on the bitpool is the one
  \<open>effective_bitpool\<close> enforces.\<close>

theorem mono_alloc_spends_bitpool:
  assumes "al_subbands p = 4 \<or> al_subbands p = 8" and "al_freq_index p < 4"
    and "0 \<le> al_bitpool p" "al_bitpool p \<le> 16 * int (al_subbands p)"
    and "length scf = 16" "length bits = 16" and "channels \<le> 2"
  shows "\<exists>bits'. mono_alloc p channels scf bits = Some bits' \<and> length bits' = 16
      \<and> (\<forall>ch<channels. let b = subslice bits' (ch * al_subbands p) ((ch + 1) * al_subbands p)
           in sum_list b = al_bitpool p \<and> (\<forall>x\<in>set b. 0 \<le> x \<and> x \<le> 16))"
proof -
  have "channels * al_subbands p \<le> 16" using assms(1,7) by auto
  from mono_channels_sum[OF assms(1-6) this] show ?thesis
    by (simp add: mono_alloc_def Let_def bits_ok_def)
qed

theorem mono_alloc_spends_bitpool_witness:
  "\<exists>bits'. mono_alloc \<lparr> al_subbands = 4, al_freq_index = 2, al_snr = False, al_bitpool = 31 \<rparr> 2
       [9, 4, 0, 2, 7, 7, 1, 0, 0, 0, 0, 0, 0, 0, 0, 0] (replicate 16 0) = Some bits'
     \<and> sum_list (subslice bits' 4 8) = 31"
proof -
  let ?p = "\<lparr> al_subbands = 4, al_freq_index = 2, al_snr = False, al_bitpool = 31 \<rparr>"
  let ?scf = "[9, 4, 0, 2, 7, 7, 1, 0, 0, 0, 0, 0, 0, 0, 0, 0]"
  obtain bits' where "mono_alloc ?p 2 ?scf (replicate 16 0) = Some bits'"
    "\<forall>ch<2. sum_list (subslice bits' (ch * 4) ((ch + 1) * 4)) = 31"
    using mono_alloc_spends_bitpool[of ?p ?scf "replicate 16 0" 2] by (auto simp: Let_def)
  then show ?thesis by (auto dest: spec[of _ 1])
qed

text \<open>C19. Stereo and joint stereo allocation ends and spends the bitpool exactly over both channels
  together, with 0 to 16 bits per subband; with SNR allocation the caller's maximum has to cover the
  scale factors, as it does in \<^verbatim>\<open>encode\<close>.\<close>

theorem stereo_alloc_spends_bitpool:
  assumes "al_subbands p = 4 \<or> al_subbands p = 8" and "al_freq_index p < 4"
    and "0 \<le> al_bitpool p" "al_bitpool p \<le> 32 * int (al_subbands p)"
    and "length scf = 16" "length bits = 16"
    and "al_snr p \<Longrightarrow> \<forall>x\<in>set (take (2 * al_subbands p) scf). x \<le> max_bit"
  shows "\<exists>bits'. stereo_alloc p max_bit scf bits = Some bits' \<and> length bits' = 16
      \<and> (let b = take (2 * al_subbands p) bits'
         in sum_list b = al_bitpool p \<and> (\<forall>x\<in>set b. 0 \<le> x \<and> x \<le> 16))"
  using stereo_sum[OF assms] by (auto simp: Let_def bits_ok_def)

theorem stereo_alloc_spends_bitpool_witness:
  "\<exists>bits'. stereo_alloc \<lparr> al_subbands = 8, al_freq_index = 3, al_snr = True, al_bitpool = 53 \<rparr> 11
       [11, 9, 7, 5, 3, 2, 1, 0, 10, 9, 8, 7, 6, 5, 4, 3] (replicate 16 0) = Some bits'
     \<and> sum_list bits' = 53"
  using stereo_alloc_spends_bitpool[of "\<lparr> al_subbands = 8, al_freq_index = 3, al_snr = True, al_bitpool = 53 \<rparr>"
      "[11, 9, 7, 5, 3, 2, 1, 0, 10, 9, 8, 7, 6, 5, 4, 3]" "replicate 16 0" 11]
  by (force simp: Let_def)

end
