(* ===== verification/Sbc_Packing.thy ===== *)
theory Sbc_Packing
  imports Sbc_Bit_Alloc
begin

text \<open>
  Quantization and packing of an SBC frame, \<^verbatim>\<open>app/src/crates/codec/src/sbc/packing.rs\<close>. The \<^verbatim>\<open>i32\<close> values of
  the signal path are \<open>int\<close> with the 32-bit wrap-around written out (\<open>wrap32\<close>), a right shift of them
  is a floor division. A write or a slice out of range panics in the code and is \<open>None\<close> here, so
  that a result is \<open>Some\<close> is part of what is shown.

  Shown: the product by 16-bit halves of the quantizer is the exact product, so the quantizer is the
  formula of the specification; the bit writer appends its values bit by bit; a frame has the layout of the
  specification, its check sum covers the protected bits, and its length follows from the bits allocated.
\<close>

subsection \<open>Machine integers and slices\<close>

definition wrap32 :: "int \<Rightarrow> int" where
  "wrap32 x = (x + 2 ^ 31) mod 2 ^ 32 - 2 ^ 31"

definition set_at :: "nat \<Rightarrow> 'a \<Rightarrow> 'a list \<Rightarrow> 'a list option" where
  "set_at i v xs = (if i < length xs then Some (xs[i := v]) else None)"

definition get_at :: "nat \<Rightarrow> 'a list \<Rightarrow> 'a option" where
  "get_at i xs = (if i < length xs then Some (xs ! i) else None)"

definition slice_at :: "nat \<Rightarrow> nat \<Rightarrow> 'a list \<Rightarrow> 'a list option" where
  "slice_at a b xs = (if a \<le> b \<and> b \<le> length xs then Some (take (b - a) (drop a xs)) else None)"

subsection \<open>The bit writer\<close>

definition SYNCWORD :: u8 where "SYNCWORD = 0x9C"

record sbc_frame =
  fr_header :: u8
  fr_bitpool :: u8
  fr_joint :: bool
  fr_join :: "bool list"
  fr_channels :: nat
  fr_subbands :: nat
  fr_blocks :: nat
  fr_scale_factor :: "int list"
  fr_bits :: "int list"
  fr_sb :: "int list"

record bit_writer =
  bw_out :: bytes
  bw_pos :: nat
  bw_acc :: u8
  bw_free :: nat

definition bw_store :: "u8 \<Rightarrow> bit_writer \<Rightarrow> bit_writer option" where
  "bw_store b w =
     map_option (\<lambda>out. w\<lparr> bw_out := out, bw_pos := bw_pos w + 1 \<rparr>) (set_at (bw_pos w) b (bw_out w))"

function bw_put :: "u32 \<Rightarrow> nat \<Rightarrow> bit_writer \<Rightarrow> bit_writer option" where
  "bw_put val n w =
     (if bw_free w < n then
        (let n = n - bw_free w;
             acc = push_bit (bw_free w) (bw_acc w) OR ucast (drop_bit n val)
         in case bw_store acc w of
              None \<Rightarrow> None
            | Some w \<Rightarrow> bw_put val n (w\<lparr> bw_acc := 0, bw_free := 8 \<rparr>))
      else Some (w\<lparr> bw_acc := push_bit n (bw_acc w) OR ucast val, bw_free := bw_free w - n \<rparr>))"
  by pat_completeness auto
termination
  by (relation "measure (\<lambda>(_, n, w). 2 * n + (if bw_free w = 0 then 1 else 0))") auto

declare bw_put.simps [simp del]

subsection \<open>The quantizer\<close>

definition quantize :: "int \<Rightarrow> int \<Rightarrow> int \<Rightarrow> u32" where
  "quantize sb scf bits =
     (let sf_pow2 = 2 ^ nat (scf + 1);
          levels = (2 ^ nat bits - 1) mod 2 ^ 16;
          t1 = wrap32 (sb div 4 + sf_pow2 * 2 ^ 12);
          t2 = levels;
          low = wrap32 ((t1 mod 2 ^ 16) * t2);
          tv2 = wrap32 ((t1 div 2 ^ 16) * t2);
          carry = ((low mod 2 ^ 32) div 2 ^ 16 mod 2 ^ 16 + tv2 mod 2 ^ 16) div 2 ^ 16;
          low = wrap32 (low + wrap32 (tv2 * 2 ^ 16));
          hi = wrap32 (tv2 div 2 ^ 16 + carry);
          shift = nat (scf + 2);
          low1 = (low div 2 ^ shift) mod 2 ^ (32 - shift);
          hi1 = wrap32 (hi * 2 ^ (32 - shift))
      in word_of_int (((low1 OR hi1) div 2 ^ 12) mod 2 ^ 16))"

subsection \<open>The check sum\<close>

definition crc_step :: "u8 \<Rightarrow> bool \<Rightarrow> u8" where
  "crc_step crc b =
     (let x = (drop_bit 7 crc AND 1) XOR (if b then 1 else 0) in push_bit 1 crc XOR (x * 0x1D))"

text \<open>\<^verbatim>\<open>feed\<close>: the top \<open>nbits\<close> bits of a byte, from the highest bit down.\<close>

definition feed :: "u8 \<Rightarrow> u8 \<Rightarrow> nat \<Rightarrow> u8" where
  "feed crc byte nbits = foldl (\<lambda>c j. crc_step c (bit byte j)) crc (rev [8 - nbits..<8])"

subsection \<open>Packing a frame\<close>

definition put_join :: "sbc_frame \<Rightarrow> bit_writer \<Rightarrow> bit_writer option" where
  "put_join f w =
     (case slice_at 0 (fr_subbands f) (fr_join f) of
        None \<Rightarrow> None
      | Some flags \<Rightarrow>
          let join = foldl (\<lambda>j b. push_bit 1 j OR (if b then 1 else 0)) (0 :: u32) flags
          in if fr_subbands f = 4 then Some (w\<lparr> bw_acc := ucast join, bw_free := 4 \<rparr>)
             else bw_store (ucast join) w)"

fun put_scale_factors :: "int list \<Rightarrow> bit_writer \<Rightarrow> bit_writer option" where
  "put_scale_factors [] w = Some w"
| "put_scale_factors (scf # scfs) w =
     (let acc = push_bit 4 (bw_acc w) OR word_of_int scf
      in if bw_free w = 4
         then (case bw_store acc w of
                 None \<Rightarrow> None
               | Some w \<Rightarrow> put_scale_factors scfs (w\<lparr> bw_acc := 0, bw_free := 8 \<rparr>))
         else put_scale_factors scfs (w\<lparr> bw_acc := acc, bw_free := 4 \<rparr>))"

fun put_block :: "(int \<times> int \<times> int) list \<Rightarrow> bit_writer \<Rightarrow> bit_writer option" where
  "put_block [] w = Some w"
| "put_block ((sb, scf, bits) # rest) w =
     (if bits \<noteq> 0
      then (case bw_put (quantize sb scf bits) (nat bits) w of None \<Rightarrow> None | Some w \<Rightarrow> put_block rest w)
      else put_block rest w)"

fun put_blocks :: "sbc_frame \<Rightarrow> int list list \<Rightarrow> bit_writer \<Rightarrow> bit_writer option" where
  "put_blocks f [] w = Some w"
| "put_blocks f (b # bs) w =
     (case put_block (zip b (zip (fr_scale_factor f) (fr_bits f))) w of
        None \<Rightarrow> None
      | Some w \<Rightarrow> put_blocks f bs w)"

text \<open>\<^verbatim>\<open>chunks_exact\<close> (of a size above 0): whole chunks, a shorter rest left out.\<close>

function chunks_exact :: "nat \<Rightarrow> 'a list \<Rightarrow> 'a list list" where
  "chunks_exact n xs = (if n = 0 \<or> length xs < n then [] else take n xs # chunks_exact n (drop n xs))"
  by pat_completeness auto
termination by (relation "measure (\<lambda>(n, xs). length xs)") auto

declare chunks_exact.simps [simp del]

definition frame_crc :: "sbc_frame \<Rightarrow> bytes \<Rightarrow> u8 option" where
  "frame_crc f out =
     (let full = fr_channels f * fr_subbands f div 2
      in case (get_at 1 out, get_at 2 out, slice_at 4 (4 + full) out) of
           (Some h, Some b, Some body) \<Rightarrow>
             let crc = foldl (\<lambda>c x. feed c x 8) (feed (feed 0x0F h 8) b 8) body
             in if fr_joint f
                then map_option (\<lambda>x. feed crc x (fr_subbands f)) (get_at (4 + full) out)
                else Some crc
         | _ \<Rightarrow> None)"

definition put_head :: "sbc_frame \<Rightarrow> bytes \<Rightarrow> bytes option" where
  "put_head f out =
     Option.bind (set_at 0 SYNCWORD out) (\<lambda>out.
     Option.bind (set_at 1 (fr_header f) out) (\<lambda>out. set_at 2 (fr_bitpool f) out))"

definition put_body :: "sbc_frame \<Rightarrow> bit_writer \<Rightarrow> bit_writer option" where
  "put_body f w =
     (let nsc = fr_channels f * fr_subbands f
      in Option.bind (if fr_joint f then put_join f w else Some w) (\<lambda>w.
         Option.bind (slice_at 0 nsc (fr_scale_factor f)) (\<lambda>scfs.
         Option.bind (put_scale_factors scfs w) (\<lambda>w.
         put_blocks f (take (fr_blocks f) (chunks_exact nsc (fr_sb f))) w))))"

definition pack :: "sbc_frame \<Rightarrow> bytes \<Rightarrow> (bytes \<times> nat) option" where
  "pack f out =
     Option.bind (put_head f out) (\<lambda>out.
     Option.bind (put_body f \<lparr> bw_out = out, bw_pos = 4, bw_acc = 0, bw_free = 8 \<rparr>) (\<lambda>w.
     Option.bind (set_at (bw_pos w) (push_bit (bw_free w) (bw_acc w)) (bw_out w)) (\<lambda>out.
     Option.bind (frame_crc f out) (\<lambda>crc.
     map_option (\<lambda>out. (out, bw_pos w + 1)) (set_at 3 crc out)))))"

subsection \<open>The quantizer, proved\<close>

lemma wrap32_signed: "wrap32 x = signed_take_bit 31 x"
  by (simp add: wrap32_def signed_take_bit_eq_take_bit_shift take_bit_eq_mod)

lemma wrap32_id: "- (2 ^ 31) \<le> x \<Longrightarrow> x < 2 ^ 31 \<Longrightarrow> wrap32 x = x"
  by (simp add: wrap32_def)

lemma wrap32_mod: "wrap32 x mod 2 ^ 32 = x mod 2 ^ 32"
  by (simp add: wrap32_def mod_diff_left_eq)

lemma div_carry: "(x + y) div 2 ^ 16 = x div 2 ^ 16 + (y + x mod 2 ^ 16) div 2 ^ 16" for x y :: int
proof -
  have "x + y = (y + x mod 2 ^ 16) + x div 2 ^ 16 * 2 ^ 16" by (simp add: div_mult_mod_eq)
  then show ?thesis by (metis add.commute div_mult_self1 zero_neq_numeral power_eq_0_iff)
qed

text \<open>The product by halves, for any 32-bit operand and 16-bit factor.\<close>

lemma half_products:
  fixes t1 t2 :: int
  assumes t1: "- (2 ^ 31) \<le> t1" "t1 < 2 ^ 31" and t2: "0 \<le> t2" "t2 < 2 ^ 16"
  defines "tv2 \<equiv> wrap32 ((t1 div 2 ^ 16) * t2)" and "low \<equiv> wrap32 ((t1 mod 2 ^ 16) * t2)"
  shows "tv2 div 2 ^ 16 + ((low mod 2 ^ 32) div 2 ^ 16 mod 2 ^ 16 + tv2 mod 2 ^ 16) div 2 ^ 16 = (t1 * t2) div 2 ^ 32"
    and "take_bit 32 (low + wrap32 (tv2 * 2 ^ 16)) = take_bit 32 (t1 * t2)"
proof -
  define a where "a = t1 mod 2 ^ 16"
  define b where "b = t1 div 2 ^ 16"
  have ab: "t1 = b * 2 ^ 16 + a" "0 \<le> a" "a < 2 ^ 16" by (simp_all add: a_def b_def)
  have b: "- (2 ^ 15) \<le> b" "b < 2 ^ 15" using t1 by (auto simp: b_def)
  have "- (2 ^ 31) \<le> b * t2" "b * t2 < 2 ^ 31"
  proof -
    have "\<bar>b\<bar> * t2 \<le> 2 ^ 15 * (2 ^ 16 - 1)" using b t2 by (intro mult_mono) auto
    moreover have "\<bar>b\<bar> * t2 = \<bar>b * t2\<bar>" using t2 by (simp add: abs_mult)
    ultimately show "- (2 ^ 31) \<le> b * t2" "b * t2 < 2 ^ 31" by auto
  qed
  then have tv2: "tv2 = b * t2" by (simp add: tv2_def b_def wrap32_id)
  have "a * t2 \<le> (2 ^ 16 - 1) * (2 ^ 16 - 1)" using ab t2 by (intro mult_mono) auto
  then have at: "0 \<le> a * t2" "a * t2 < 2 ^ 32" using ab t2 by auto
  have "low mod 2 ^ 32 = (a * t2) mod 2 ^ 32"
    unfolding low_def a_def[symmetric] by (rule wrap32_mod)
  then have low: "low mod 2 ^ 32 = a * t2" using at by simp
  have P: "t1 * t2 = tv2 * 2 ^ 16 + a * t2" by (simp add: tv2 ab(1) algebra_simps)
  have "(a * t2) div 2 ^ 16 < 2 ^ 16" using at by auto
  then have "(low mod 2 ^ 32) div 2 ^ 16 mod 2 ^ 16 = (a * t2) div 2 ^ 16"
    unfolding low using at by simp
  moreover have "(t1 * t2) div 2 ^ 16 = tv2 + (a * t2) div 2 ^ 16" unfolding P by simp
  then have "(t1 * t2) div 2 ^ 32 = (tv2 + (a * t2) div 2 ^ 16) div 2 ^ 16"
    by (simp add: zdiv_zmult2_eq[of "2 ^ 16" _ "2 ^ 16" , simplified, symmetric])
  ultimately show "tv2 div 2 ^ 16 + ((low mod 2 ^ 32) div 2 ^ 16 mod 2 ^ 16 + tv2 mod 2 ^ 16) div 2 ^ 16 = (t1 * t2) div 2 ^ 32"
    using div_carry[of tv2 "a * t2 div 2 ^ 16"] by argo
  have "(low + wrap32 (tv2 * 2 ^ 16)) mod 2 ^ 32 = (low mod 2 ^ 32 + tv2 * 2 ^ 16) mod 2 ^ 32"
    by (intro mod_add_cong wrap32_mod) simp
  then show "take_bit 32 (low + wrap32 (tv2 * 2 ^ 16)) = take_bit 32 (t1 * t2)"
    unfolding low P take_bit_eq_mod by (simp add: add.commute)
qed

lemma bits_from_halves:
  fixes P low :: int
  assumes "2 \<le> s" "s \<le> 17" "take_bit 32 low = take_bit 32 P"
  shows "take_bit 16 (drop_bit 12 (take_bit (32 - s) (drop_bit s (wrap32 low)) OR wrap32 (push_bit (32 - s) (wrap32 (drop_bit 32 P)))))
    = take_bit 16 (drop_bit (s + 12) P)"
proof (rule bit_eqI)
  fix j
  have "bit low i = bit P i" if "i < 32" for i
    using assms(3) that by (metis bit_take_bit_iff)
  note low = this
  show "bit (take_bit 16 (drop_bit 12 (take_bit (32 - s) (drop_bit s (wrap32 low)) OR wrap32 (push_bit (32 - s) (wrap32 (drop_bit 32 P)))))) j
      = bit (take_bit 16 (drop_bit (s + 12) P)) j"
  proof (cases "j < 16")
    case True
    then have m: "min 31 (12 + j) = 12 + j" by simp
    show ?thesis
    proof (cases "12 + j < 32 - s")
      case hi: True
      then have "min 31 (s + (12 + j)) = s + (12 + j)" "s + (12 + j) < 32" by auto
      then show ?thesis using hi True low m by (simp add: wrap32_signed bit_simps add.assoc)
    next
      case False
      then have "min 31 (12 + j - (32 - s)) = 12 + j - (32 - s)" "32 + (12 + j - (32 - s)) = s + (12 + j)"
        using True assms(1,2) by auto
      then show ?thesis using False True m by (simp add: wrap32_signed bit_simps add.assoc add.commute add.left_commute)
    qed
  qed (simp add: bit_simps)
qed

lemma quantize_eq:
  assumes scf: "0 \<le> scf" "scf \<le> 15" and bits: "0 \<le> bits" "bits \<le> 16" and sb: "- (2 ^ 31) \<le> sb" "sb < 2 ^ 31"
  shows "quantize sb scf bits = word_of_int (((sb div 4 + 2 ^ nat (scf + 13)) * (2 ^ nat bits - 1)) div 2 ^ nat (scf + 14) mod 2 ^ 16)"
proof -
  define t1 where "t1 = sb div 4 + 2 ^ nat (scf + 13)"
  define t2 :: int where "t2 = 2 ^ nat bits - 1"
  define p :: int where "p = 2 ^ nat (scf + 13)"
  have "p \<le> 2 ^ 28" unfolding p_def using scf by (intro power_increasing) auto
  moreover have "0 < p" by (simp add: p_def)
  moreover define q where "q = sb div 4"
  moreover from q_def have "- (2 ^ 29) \<le> q" "q < 2 ^ 29" using sb by auto
  ultimately have t1: "- (2 ^ 31) \<le> t1" "t1 < 2 ^ 31" by (simp_all add: t1_def flip: q_def p_def)
  have "nat (scf + 13) = nat (scf + 1) + 12" using scf by simp
  then have "sb div 4 + 2 ^ nat (scf + 1) * 2 ^ 12 = t1" by (simp add: t1_def power_add)
  then have w1: "wrap32 (sb div 4 + 2 ^ nat (scf + 1) * 2 ^ 12) = t1" using t1 wrap32_id by simp
  have "(2 :: int) ^ nat bits \<le> 2 ^ 16" using bits by (intro power_increasing) auto
  then have t2: "0 \<le> t2" "t2 < 2 ^ 16" by (auto simp: t2_def)
  then have l: "(2 ^ nat bits - 1) mod 2 ^ 16 = t2" by (simp add: t2_def)
  define s where "s = nat (scf + 2)"
  have s: "2 \<le> s" "s \<le> 17" "s + 12 = nat (scf + 14)" using scf by (auto simp: s_def)
  have "word_of_int (take_bit 16 (drop_bit 12 (take_bit (32 - s) (drop_bit s (wrap32 low)) OR wrap32 (push_bit (32 - s) (wrap32 (drop_bit 32 P))))))
      = (word_of_int (take_bit 16 (drop_bit (s + 12) P)) :: u32)"
    if "take_bit 32 low = take_bit 32 P" for low P :: int
    using bits_from_halves[OF s(1,2) that] by simp
  from this[OF half_products(2)[OF t1 t2]]
  show ?thesis
    unfolding quantize_def Let_def w1 l half_products(1)[OF t1 t2] s(3)[symmetric] s_def[symmetric]
    unfolding t1_def[symmetric] t2_def[symmetric]
    by (simp add: drop_bit_eq_div take_bit_eq_mod push_bit_eq_mult)
qed

lemma quantize_range:
  assumes scf: "0 \<le> scf" "scf \<le> 15" and bits: "0 \<le> bits" "bits \<le> 16" and sb: "\<bar>sb\<bar> \<le> 2 ^ nat (scf + 15)"
  shows "uint (quantize sb scf bits) = ((sb div 4 + 2 ^ nat (scf + 13)) * (2 ^ nat bits - 1)) div 2 ^ nat (scf + 14)"
    and "uint (quantize sb scf bits) < 2 ^ nat bits"
proof -
  define m :: int where "m = 2 ^ nat (scf + 13)"
  define L :: int where "L = 2 ^ nat bits"
  have "(2 :: int) ^ nat (scf + 15) \<le> 2 ^ 30" using scf by (intro power_increasing) auto
  then have sb32: "- (2 ^ 31) \<le> sb" "sb < 2 ^ 31" using sb by auto
  have e: "nat (scf + 15) = nat (scf + 13) + 2" "nat (scf + 14) = nat (scf + 13) + 1" using scf by auto
  then have "\<bar>sb\<bar> \<le> 4 * m" and m14: "2 ^ nat (scf + 14) = 2 * m" using sb by (auto simp: m_def power_add)
  then have t: "0 \<le> sb div 4 + m" "sb div 4 + m \<le> 2 * m" by auto
  have m: "0 < m" by (simp add: m_def)
  have L: "1 \<le> L" "L \<le> 2 ^ 16" unfolding L_def using power_increasing[of "nat bits" 16 "2 :: int"] bits by auto
  have "(sb div 4 + m) * (L - 1) \<le> 2 * m * (L - 1)" using t L by (intro mult_right_mono) auto
  then have "(sb div 4 + m) * (L - 1) div (2 * m) \<le> L - 1"
    using m zdiv_mono1[of "(sb div 4 + m) * (L - 1)" "(L - 1) * (2 * m)" "2 * m"] by (simp add: ac_simps)
  moreover have "0 \<le> (sb div 4 + m) * (L - 1) div (2 * m)" using t L m by (simp add: pos_imp_zdiv_nonneg_iff)
  moreover note quantize_eq[OF scf bits sb32, folded m_def L_def, unfolded m14]
  ultimately show "uint (quantize sb scf bits) = ((sb div 4 + 2 ^ nat (scf + 13)) * (2 ^ nat bits - 1)) div 2 ^ nat (scf + 14)"
    and "uint (quantize sb scf bits) < 2 ^ nat bits"
    using L by (auto simp: m14 m_def[symmetric] L_def[symmetric] unsigned_of_int take_bit_eq_mod)
qed

subsection \<open>The bit writer, proved\<close>

definition bits_of :: "nat \<Rightarrow> 'a::len word \<Rightarrow> bool list" where
  "bits_of n w = map (bit w) (rev [0..<n])"

lemma length_bits_of [simp]: "length (bits_of n w) = n"
  by (simp add: bits_of_def)

lemma bits_of_0 [simp]: "bits_of 0 w = []"
  by (simp add: bits_of_def)

lemma bits_of_add: "bits_of (a + b) w = bits_of a (drop_bit b w) @ bits_of b w"
proof -
  have "[0..<a + b] = [0..<b] @ map (\<lambda>i. i + b) [0..<a]"
    using upt_add_eq_append[of 0 b a] by (simp add: map_add_upt add.commute)
  then show ?thesis by (simp add: bits_of_def rev_map bit_simps add.commute comp_def)
qed

lemma bits_of_cong: "(\<And>i. i < n \<Longrightarrow> bit v i = bit w i) \<Longrightarrow> bits_of n v = bits_of n w"
  by (simp add: bits_of_def)

text \<open>What the accumulator holds after a shift and an OR: the old bits in front of the new ones, when the
  new ones do not reach into the old.\<close>

lemma bits_of_acc:
  fixes acc :: u8 and v :: "'b::len word"
  assumes "m + k \<le> 8" "m = 0 \<or> (\<forall>i\<ge>k. \<not> bit v i)"
  shows "bits_of (m + k) (push_bit k acc OR ucast v) = bits_of m acc @ bits_of k v"
proof -
  have "bits_of m (drop_bit k (push_bit k acc OR ucast v)) = bits_of m acc"
    by (rule bits_of_cong) (use assms in \<open>auto simp: bit_simps\<close>)
  moreover have "bits_of k (push_bit k acc OR ucast v :: u8) = bits_of k v"
    using assms(1) by (simp add: bits_of_def bit_simps)
  ultimately show ?thesis by (simp add: bits_of_add)
qed

definition bw_stream :: "bit_writer \<Rightarrow> bool list" where
  "bw_stream w = concat (map (bits_of 8) (take (bw_pos w) (bw_out w))) @ bits_of (8 - bw_free w) (bw_acc w)"

definition bw_ok :: "bit_writer \<Rightarrow> bool" where
  "bw_ok w \<longleftrightarrow> bw_free w \<le> 8 \<and> bw_pos w \<le> length (bw_out w)"

definition bw_count :: "bit_writer \<Rightarrow> nat" where
  "bw_count w = 8 * bw_pos w + (8 - bw_free w)"

text \<open>\<open>w'\<close> is \<open>w\<close> after \<open>n\<close> more bits, which are \<open>bs\<close> when \<open>exact\<close> holds (no value reached out of its
  field); the bytes before the position of \<open>w\<close> and those from the position of \<open>w'\<close> on are as they were.\<close>

definition bw_appends :: "bool \<Rightarrow> bool list \<Rightarrow> bit_writer \<Rightarrow> bit_writer \<Rightarrow> bool" where
  "bw_appends exact bs w w' \<longleftrightarrow> bw_ok w' \<and> bw_count w' = bw_count w + length bs
     \<and> (exact \<longrightarrow> bw_stream w' = bw_stream w @ bs)
     \<and> length (bw_out w') = length (bw_out w) \<and> bw_pos w \<le> bw_pos w'
     \<and> take (bw_pos w) (bw_out w') = take (bw_pos w) (bw_out w)
     \<and> drop (bw_pos w') (bw_out w') = drop (bw_pos w') (bw_out w)"

lemma bw_appends_trans:
  assumes "bw_appends e bs w w'" "bw_appends e' bs' w' w''"
  shows "bw_appends (e \<and> e') (bs @ bs') w w''"
proof -
  have t: "take (bw_pos w) (bw_out w'') = take (bw_pos w) (bw_out w)"
    using assms unfolding bw_appends_def by (metis min.absorb1 take_take)
  have "drop (bw_pos w'') (bw_out w') = drop (bw_pos w'') (bw_out w)"
    using assms unfolding bw_appends_def by (metis drop_drop le_add_diff_inverse2)
  with t show ?thesis using assms by (auto simp: bw_appends_def)
qed

lemma bw_appends_nil: "bw_ok w \<Longrightarrow> bw_appends e [] w w"
  by (simp add: bw_appends_def)

text \<open>Storing a full accumulator.\<close>

lemma bw_store_full:
  assumes ok: "bw_ok w" and room: "bw_count w + k \<le> 8 * length (bw_out w)" and k: "k = bw_free w"
    and acc: "exact \<Longrightarrow> bits_of 8 acc = bits_of (8 - bw_free w) (bw_acc w) @ bs" and len: "length bs = k"
  shows "\<exists>w'. bw_store acc w = Some w' \<and> bw_appends exact bs w (w'\<lparr> bw_acc := 0, bw_free := 8 \<rparr>)"
proof -
  have p: "bw_pos w < length (bw_out w)"
    using room k ok by (auto simp: bw_count_def bw_ok_def)
  define w' where "w' = w\<lparr> bw_out := (bw_out w)[bw_pos w := acc], bw_pos := bw_pos w + 1 \<rparr>"
  have "take (Suc (bw_pos w)) ((bw_out w)[bw_pos w := acc]) = take (bw_pos w) (bw_out w) @ [acc]"
    using p by (simp add: take_Suc_conv_app_nth)
  then have "bw_appends exact bs w (w'\<lparr> bw_acc := 0, bw_free := 8 \<rparr>)"
    using p ok k acc len by (auto simp: bw_appends_def w'_def bw_ok_def bw_count_def bw_stream_def)
  moreover have "bw_store acc w = Some w'" using p by (simp add: bw_store_def set_at_def w'_def)
  ultimately show ?thesis by blast
qed

lemma bw_put_appends:
  assumes "bw_ok w" "bw_count w + n \<le> 8 * length (bw_out w)" "exact \<Longrightarrow> bw_free w = 8 \<or> (\<forall>i\<ge>n. \<not> bit val i)"
  shows "\<exists>w'. bw_put val n w = Some w' \<and> bw_appends exact (bits_of n val) w w' \<and> (0 < n \<longrightarrow> bw_free w' < 8)"
  using assms
proof (induction val n w rule: bw_put.induct)
  case (1 val n w)
  show ?case
  proof (cases "bw_free w < n")
    case True
    define n' where "n' = n - bw_free w"
    have n: "n = bw_free w + n'" "0 < n'" using True by (auto simp: n'_def)
    define acc where "acc = push_bit (bw_free w) (bw_acc w) OR ucast (drop_bit n' val)"
    have "bits_of 8 acc = bits_of (8 - bw_free w) (bw_acc w) @ bits_of (bw_free w) (drop_bit n' val)" if exact
      using bits_of_acc[of "8 - bw_free w" "bw_free w" "drop_bit n' val" "bw_acc w"] "1.prems" that n
      by (auto simp: acc_def bw_ok_def bit_simps)
    then obtain w1 where w1: "bw_store acc w = Some w1"
      "bw_appends exact (bits_of (bw_free w) (drop_bit n' val)) w (w1\<lparr> bw_acc := 0, bw_free := 8 \<rparr>)"
      using bw_store_full[of w "bw_free w" exact acc "bits_of (bw_free w) (drop_bit n' val)"] "1.prems" n by auto
    let ?w = "w1\<lparr> bw_acc := 0, bw_free := 8 \<rparr>"
    have "\<exists>w'. bw_put val n' ?w = Some w' \<and> bw_appends exact (bits_of n' val) ?w w' \<and> (0 < n' \<longrightarrow> bw_free w' < 8)"
      by (rule "1.IH"[OF True n'_def acc_def w1(1)]) (use w1(2) "1.prems" n in \<open>auto simp: bw_appends_def\<close>)
    then obtain w' where w': "bw_put val n' ?w = Some w'" "bw_appends exact (bits_of n' val) ?w w'" "bw_free w' < 8"
      using n by blast
    have "bw_put val n w = Some w'"
      using True w1(1) w'(1) by (subst bw_put.simps) (simp add: Let_def flip: n'_def acc_def)
    moreover have "bw_appends exact (bits_of n val) w w'"
      using bw_appends_trans[OF w1(2) w'(2)] by (simp add: n(1) bits_of_add)
    ultimately show ?thesis using w'(3) by blast
  next
    case False
    have "bits_of (8 - bw_free w + n) (push_bit n (bw_acc w) OR ucast val) = bits_of (8 - bw_free w) (bw_acc w) @ bits_of n val" if exact
      by (rule bits_of_acc) (use False "1.prems" that in \<open>auto simp: bw_ok_def\<close>)
    moreover have "8 - (bw_free w - n) = 8 - bw_free w + n" using False "1.prems"(1) by (auto simp: bw_ok_def)
    ultimately have "bw_appends exact (bits_of n val) w
        (w\<lparr> bw_acc := push_bit n (bw_acc w) OR ucast val, bw_free := bw_free w - n \<rparr>)"
      using "1.prems"(1) by (simp add: bw_appends_def bw_ok_def bw_count_def bw_stream_def) arith
    moreover have "bw_put val n w = Some (w\<lparr> bw_acc := push_bit n (bw_acc w) OR ucast val, bw_free := bw_free w - n \<rparr>)"
      using False by (subst bw_put.simps) simp
    ultimately show ?thesis using "1.prems"(1) False by (auto simp: bw_ok_def)
  qed
qed

subsection \<open>The parts of a frame\<close>

definition q_bits :: "int \<times> int \<times> int \<Rightarrow> bool list" where
  "q_bits = (\<lambda>(sb, scf, bits). bits_of (nat bits) (quantize sb scf bits))"

definition q_fits :: "int \<times> int \<times> int \<Rightarrow> bool" where
  "q_fits = (\<lambda>(sb, scf, bits). uint (quantize sb scf bits) < 2 ^ nat bits)"

lemma uint_lt_bit: "uint w < 2 ^ n \<Longrightarrow> n \<le> i \<Longrightarrow> \<not> bit w i"
proof -
  assume *: "uint w < 2 ^ n" "n \<le> i"
  then have "take_bit n (uint w) = uint w" by (simp add: take_bit_int_eq_self)
  then have "\<not> bit (uint w) i" using *(2) by (metis bit_take_bit_iff linorder_not_less)
  then show ?thesis by (metis bit_uint_iff bit_imp_le_length)
qed

lemma put_block_appends:
  assumes "bw_ok w" "bw_count w + length (concat (map q_bits zs)) \<le> 8 * length (bw_out w)"
    "\<forall>(sb, scf, bits) \<in> set zs. 0 \<le> bits"
    "exact \<Longrightarrow> list_all q_fits zs"
  shows "\<exists>w'. put_block zs w = Some w' \<and> bw_appends exact (concat (map q_bits zs)) w w'
     \<and> (if concat (map q_bits zs) = [] then w' = w else bw_free w' < 8)"
  using assms
proof (induction zs arbitrary: w)
  case Nil
  then show ?case by (simp add: bw_appends_nil)
next
  case (Cons z zs)
  obtain sb scf bits where z: "z = (sb, scf, bits)" by (cases z)
  have b0: "0 \<le> bits" using Cons.prems(3) z by simp
  show ?case
  proof (cases "bits = 0")
    case True
    then show ?thesis using Cons z by (simp add: q_bits_def)
  next
    case False
    then have pos: "0 < nat bits" using b0 by simp
    let ?q = "quantize sb scf bits"
    have "\<forall>i\<ge>nat bits. \<not> bit ?q i" if exact
      using Cons.prems(4)[OF that] uint_lt_bit[of ?q "nat bits"] by (simp add: z q_fits_def)
    then obtain w1 where w1: "bw_put ?q (nat bits) w = Some w1" "bw_appends exact (q_bits z) w w1" "bw_free w1 < 8"
      using bw_put_appends[of w "nat bits" exact ?q] Cons.prems pos by (auto simp: z q_bits_def)
    have ih: "\<exists>w'. put_block zs w1 = Some w' \<and> bw_appends exact (concat (map q_bits zs)) w1 w'
       \<and> (if concat (map q_bits zs) = [] then w' = w1 else bw_free w' < 8)"
      by (rule Cons.IH) (use w1(2) Cons.prems in \<open>auto simp: bw_appends_def\<close>)
    then obtain w' where "put_block zs w1 = Some w'" "bw_appends exact (concat (map q_bits zs)) w1 w'" "bw_free w' < 8"
      using w1(3) by (metis)
    moreover have "q_bits z \<noteq> []" using pos by (simp add: z q_bits_def bits_of_def)
    ultimately show ?thesis using bw_appends_trans[OF w1(2), of exact _ w'] w1(1) False by (simp add: z)
  qed
qed

lemma put_blocks_appends:
  assumes "bw_ok w" "bw_count w + length (concat (map q_bits (concat (map (\<lambda>b. zip b (zip (fr_scale_factor f) (fr_bits f))) bs)))) \<le> 8 * length (bw_out w)"
    "\<forall>b \<in> set bs. \<forall>(sb, scf, bits) \<in> set (zip b (zip (fr_scale_factor f) (fr_bits f))). 0 \<le> bits"
    "exact \<Longrightarrow> \<forall>b \<in> set bs. list_all q_fits (zip b (zip (fr_scale_factor f) (fr_bits f)))"
  shows "\<exists>w'. put_blocks f bs w = Some w'
     \<and> bw_appends exact (concat (map q_bits (concat (map (\<lambda>b. zip b (zip (fr_scale_factor f) (fr_bits f))) bs)))) w w'
     \<and> (if concat (map q_bits (concat (map (\<lambda>b. zip b (zip (fr_scale_factor f) (fr_bits f))) bs))) = [] then w' = w else bw_free w' < 8)"
  using assms
proof (induction bs arbitrary: w)
  case Nil
  then show ?case by (simp add: bw_appends_nil)
next
  case (Cons b bs)
  let ?z = "\<lambda>b. zip b (zip (fr_scale_factor f) (fr_bits f))"
  let ?h = "concat (map q_bits (?z b))" and ?t = "concat (map q_bits (concat (map ?z bs)))"
  obtain w1 where w1: "put_block (?z b) w = Some w1" "bw_appends exact ?h w w1" "if ?h = [] then w1 = w else bw_free w1 < 8"
    using put_block_appends[of w "?z b" exact] Cons.prems by (fastforce)
  have "\<exists>w'. put_blocks f bs w1 = Some w' \<and> bw_appends exact ?t w1 w' \<and> (if ?t = [] then w' = w1 else bw_free w' < 8)"
    by (rule Cons.IH) (use w1(2) Cons.prems in \<open>auto simp: bw_appends_def\<close>)
  then obtain w' where w': "put_blocks f bs w1 = Some w'" "bw_appends exact ?t w1 w'" "if ?t = [] then w' = w1 else bw_free w' < 8"
    by blast
  have "if ?h @ ?t = [] then w' = w else bw_free w' < 8" using w1(3) w'(3) by (auto split: if_splits)
  then show ?case using bw_appends_trans[OF w1(2) w'(2)] w1(1) w'(1) by simp
qed

definition scf_bits :: "int list \<Rightarrow> bool list" where
  "scf_bits scfs = concat (map (\<lambda>s. bits_of 4 (word_of_int s :: u8)) scfs)"

lemma length_scf_bits [simp]: "length (scf_bits scfs) = 4 * length scfs"
  by (induction scfs) (simp_all add: scf_bits_def)

lemma nibble_high: "0 \<le> s \<Longrightarrow> s \<le> 15 \<Longrightarrow> 4 \<le> i \<Longrightarrow> \<not> bit (word_of_int s :: u8) i"
  by (rule uint_lt_bit[of _ 4]) (simp_all add: unsigned_of_int take_bit_eq_mod)

lemma put_scale_factors_appends:
  assumes "bw_ok w" "bw_free w = 4 \<or> bw_free w = 8" "bw_count w + 4 * length scfs \<le> 8 * length (bw_out w)"
    "\<forall>s \<in> set scfs. 0 \<le> s \<and> s \<le> 15"
  shows "\<exists>w'. put_scale_factors scfs w = Some w' \<and> bw_appends True (scf_bits scfs) w w' \<and> (bw_free w' = 4 \<or> bw_free w' = 8)"
  using assms
proof (induction scfs arbitrary: w)
  case Nil
  then show ?case by (simp add: bw_appends_nil scf_bits_def)
next
  case (Cons s scfs)
  define acc where "acc = push_bit 4 (bw_acc w) OR word_of_int s"
  have acc_bits: "bits_of (m + 4) acc = bits_of m (bw_acc w) @ bits_of 4 (word_of_int s :: u8)" if "m = 0 \<or> m = 4" for m
    using bits_of_acc[of m 4 "word_of_int s :: u8" "bw_acc w"] that nibble_high[of s] Cons.prems(4)
    by (auto simp: acc_def)
  obtain w1 where w1: "put_scale_factors (s # scfs) w = put_scale_factors scfs w1"
    "bw_appends True (bits_of 4 (word_of_int s :: u8)) w w1" "bw_free w1 = 4 \<or> bw_free w1 = 8"
  proof (cases "bw_free w = 4")
    case True
    have "bw_count w + 4 \<le> 8 * length (bw_out w)" using Cons.prems(3) by simp
    moreover have "bits_of 8 acc = bits_of (8 - bw_free w) (bw_acc w) @ bits_of 4 (word_of_int s :: u8)"
      using acc_bits[of 4] True by simp
    ultimately obtain w1 where "bw_store acc w = Some w1"
      "bw_appends True (bits_of 4 (word_of_int s :: u8)) w (w1\<lparr> bw_acc := 0, bw_free := 8 \<rparr>)"
      using bw_store_full[OF Cons.prems(1) _ True[symmetric], of True acc] by (metis length_bits_of)
    then show thesis using that[of "w1\<lparr> bw_acc := 0, bw_free := 8 \<rparr>"] True by (simp add: Let_def flip: acc_def)
  next
    case False
    then have "bw_free w = 8" using Cons.prems(2) by simp
    then have "bw_appends True (bits_of 4 (word_of_int s :: u8)) w (w\<lparr> bw_acc := acc, bw_free := 4 \<rparr>)"
      using Cons.prems(1) acc_bits[of 0] by (simp add: bw_appends_def bw_ok_def bw_count_def bw_stream_def)
    then show thesis using that[of "w\<lparr> bw_acc := acc, bw_free := 4 \<rparr>"] False by (simp add: Let_def flip: acc_def)
  qed
  have "\<exists>w'. put_scale_factors scfs w1 = Some w' \<and> bw_appends True (scf_bits scfs) w1 w' \<and> (bw_free w' = 4 \<or> bw_free w' = 8)"
    by (rule Cons.IH) (use w1(2,3) Cons.prems in \<open>auto simp: bw_appends_def\<close>)
  then show ?case using bw_appends_trans[OF w1(2)] w1(1) by (fastforce simp: scf_bits_def)
qed

lemma join_fold:
  "m + length flags \<le> 32 \<Longrightarrow>
   bits_of (m + length flags) (foldl (\<lambda>j b. push_bit 1 j OR (if b then 1 else 0)) (j :: u32) flags) = bits_of m j @ flags"
proof (induction flags arbitrary: m j)
  case (Cons b flags)
  let ?j = "push_bit 1 j OR (if b then 1 else 0)"
  have "bits_of m (drop_bit 1 ?j) = bits_of m j"
    by (rule bits_of_cong) (use Cons.prems in \<open>auto simp: bit_simps simp del: push_bit_Suc\<close>)
  then have "bits_of (m + 1) ?j = bits_of m j @ [b]"
    by (simp only: bits_of_add) (simp add: bits_of_def bit_simps del: push_bit_Suc)
  then show ?case using Cons.IH[of "m + 1" ?j] Cons.prems by simp
qed simp

subsection \<open>The layout of a frame\<close>

definition fr_nsc :: "sbc_frame \<Rightarrow> nat" where
  "fr_nsc f = fr_channels f * fr_subbands f"

definition frame_wf :: "sbc_frame \<Rightarrow> bool" where
  "frame_wf f \<longleftrightarrow> (fr_subbands f = 4 \<or> fr_subbands f = 8) \<and> (fr_channels f = 1 \<or> fr_channels f = 2)
     \<and> length (fr_join f) = 8 \<and> length (fr_scale_factor f) = 16 \<and> length (fr_bits f) = 16
     \<and> fr_blocks f * fr_nsc f \<le> length (fr_sb f)
     \<and> (\<forall>s \<in> set (take (fr_nsc f) (fr_scale_factor f)). 0 \<le> s \<and> s \<le> 15)
     \<and> (\<forall>b \<in> set (take (fr_nsc f) (fr_bits f)). 0 \<le> b \<and> b \<le> 16)
     \<and> (fr_joint f \<longrightarrow> fr_channels f = 2)"

text \<open>Every subband sample with its scale factor and its bits, in the order of the frame.\<close>

definition fr_samples :: "sbc_frame \<Rightarrow> (int \<times> int \<times> int) list" where
  "fr_samples f = concat (map (\<lambda>b. zip (take (fr_nsc f) (drop (b * fr_nsc f) (fr_sb f)))
      (zip (fr_scale_factor f) (fr_bits f))) [0..<fr_blocks f])"

definition protected_bits :: "sbc_frame \<Rightarrow> bool list" where
  "protected_bits f = (if fr_joint f then take (fr_subbands f) (fr_join f) else [])
     @ scf_bits (take (fr_nsc f) (fr_scale_factor f))"

definition data_bits :: "sbc_frame \<Rightarrow> bool list" where
  "data_bits f = concat (map q_bits (fr_samples f))"

lemma chunks_exact_take:
  "0 < n \<Longrightarrow> k * n \<le> length xs \<Longrightarrow> take k (chunks_exact n xs) = map (\<lambda>i. take n (drop (i * n) xs)) [0..<k]"
proof (induction k arbitrary: xs)
  case (Suc k)
  have "map (\<lambda>i. take n (drop (i * n) xs)) [0..<Suc k] = take n xs # map (\<lambda>i. take n (drop (i * n) (drop n xs))) [0..<k]"
    by (simp add: upt_conv_Cons map_Suc_upt[symmetric] add.commute del: upt_Suc)
  then show ?case using Suc.IH[of "drop n xs"] Suc.prems by (subst chunks_exact.simps) simp
qed simp

lemma frame_wf_nsc: "frame_wf f \<Longrightarrow> 0 < fr_nsc f \<and> fr_nsc f \<le> 16 \<and> 8 * (fr_nsc f div 2) = 4 * fr_nsc f"
  by (auto simp: frame_wf_def fr_nsc_def)

lemma zip_take: "zip (take n xs) ys = zip (take n xs) (take n ys)"
  using take_zip[of n "take n xs" ys] by simp

lemma fr_samples_bits: "frame_wf f \<Longrightarrow> (sb, scf, bits) \<in> set (fr_samples f) \<Longrightarrow>
    0 \<le> scf \<and> scf \<le> 15 \<and> 0 \<le> bits \<and> bits \<le> 16"
proof -
  assume wf: "frame_wf f" and "(sb, scf, bits) \<in> set (fr_samples f)"
  then obtain xs where "(sb, scf, bits) \<in> set (zip (take (fr_nsc f) xs) (zip (fr_scale_factor f) (fr_bits f)))"
    by (auto simp: fr_samples_def)
  then have "(sb, scf, bits) \<in> set (zip (take (fr_nsc f) xs) (take (fr_nsc f) (zip (fr_scale_factor f) (fr_bits f))))"
    by (subst (asm) zip_take)
  then have "(scf, bits) \<in> set (zip (take (fr_nsc f) (fr_scale_factor f)) (take (fr_nsc f) (fr_bits f)))"
    by (auto simp: take_zip dest: set_zip_rightD)
  then have "scf \<in> set (take (fr_nsc f) (fr_scale_factor f))" "bits \<in> set (take (fr_nsc f) (fr_bits f))"
    by (auto dest: set_zip_leftD set_zip_rightD)
  then show ?thesis using wf unfolding frame_wf_def by blast
qed

lemma put_join_appends:
  assumes wf: "frame_wf f" and w: "bw_ok w" "bw_free w = 8" "bw_acc w = 0" "bw_count w + 8 \<le> 8 * length (bw_out w)"
  shows "\<exists>w'. put_join f w = Some w' \<and> bw_appends True (take (fr_subbands f) (fr_join f)) w w' \<and> (bw_free w' = 4 \<or> bw_free w' = 8)"
proof -
  define flags where "flags = take (fr_subbands f) (fr_join f)"
  define join where "join = foldl (\<lambda>j b. push_bit 1 j OR (if b then 1 else 0)) (0 :: u32) flags"
  have sub: "fr_subbands f = 4 \<or> fr_subbands f = 8" and len: "length flags = fr_subbands f"
    and sl: "slice_at 0 (fr_subbands f) (fr_join f) = Some flags"
    using wf by (auto simp: frame_wf_def flags_def slice_at_def)
  have "bits_of (fr_subbands f) join = flags"
    using join_fold[of 0 flags 0] len sub by (auto simp: join_def)
  then have jb: "bits_of (fr_subbands f) (ucast join :: u8) = flags"
    using sub by (auto simp: bits_of_def bit_simps)
  show ?thesis
  proof (cases "fr_subbands f = 4")
    case True
    have "put_join f w = Some (w\<lparr> bw_acc := ucast join, bw_free := 4 \<rparr>)"
      using sl True by (simp add: put_join_def join_def)
    moreover have "bw_appends True flags w (w\<lparr> bw_acc := ucast join, bw_free := 4 \<rparr>)"
      using w jb len True by (simp add: bw_appends_def bw_ok_def bw_count_def bw_stream_def)
    ultimately show ?thesis by (simp add: flags_def)
  next
    case False
    then have 8: "fr_subbands f = 8" using sub by simp
    obtain w1 where w1: "bw_store (ucast join) w = Some w1" "bw_appends True flags w (w1\<lparr> bw_acc := 0, bw_free := 8 \<rparr>)"
      using bw_store_full[OF w(1,4) w(2)[symmetric], of True "ucast join" flags] jb 8 len w(2) by auto
    moreover have "w1\<lparr> bw_acc := 0, bw_free := 8 \<rparr> = w1"
      using w1(1) w(2,3) by (auto simp: bw_store_def set_at_def split: if_splits)
    ultimately have "bw_appends True flags w w1" "bw_free w1 = 8" by (simp, metis bit_writer.select_convs(4) bit_writer.surjective bit_writer.update_convs(4))
    moreover have "put_join f w = Some w1" using sl 8 w1(1) by (simp add: put_join_def join_def)
    ultimately show ?thesis by (simp add: flags_def)
  qed
qed

lemma length_protected:
  "frame_wf f \<Longrightarrow> length (protected_bits f) = 4 * fr_nsc f + (if fr_joint f then fr_subbands f else 0)"
  by (auto simp: protected_bits_def frame_wf_def fr_nsc_def)

lemma put_body_appends:
  assumes wf: "frame_wf f" and w: "bw_ok w" "bw_free w = 8" "bw_acc w = 0"
    and room: "bw_count w + length (protected_bits f @ data_bits f) \<le> 8 * length (bw_out w)"
    and exact: "exact \<Longrightarrow> list_all q_fits (fr_samples f)"
  shows "\<exists>w'. put_body f w = Some w' \<and> bw_appends exact (protected_bits f @ data_bits f) w w'
     \<and> (if data_bits f = [] then bw_free w' = 4 \<or> bw_free w' = 8 else bw_free w' < 8)"
proof -
  define js where "js = (if fr_joint f then take (fr_subbands f) (fr_join f) else [])"
  define scfs where "scfs = take (fr_nsc f) (fr_scale_factor f)"
  have scfs: "slice_at 0 (fr_nsc f) (fr_scale_factor f) = Some scfs" "\<forall>s \<in> set scfs. 0 \<le> s \<and> s \<le> 15"
    "length scfs = fr_nsc f"
    using wf frame_wf_nsc[OF wf] by (simp_all add: slice_at_def scfs_def frame_wf_def)
  have P: "protected_bits f = js @ scf_bits scfs" by (simp add: protected_bits_def js_def scfs_def)
  have "fr_joint f \<Longrightarrow> bw_count w + 8 \<le> 8 * length (bw_out w)"
    using room length_protected[OF wf] frame_wf_nsc[OF wf] wf by (auto simp: frame_wf_def fr_nsc_def)
  then obtain w1 where w1: "(if fr_joint f then put_join f w else Some w) = Some w1" "bw_appends True js w w1"
    "bw_free w1 = 4 \<or> bw_free w1 = 8"
    using put_join_appends[OF wf w] bw_appends_nil[OF w(1)] w(2) by (cases "fr_joint f") (auto simp: js_def)
  have "bw_count w1 + 4 * length scfs \<le> 8 * length (bw_out w1)" "bw_ok w1"
    using w1(2) room by (auto simp: bw_appends_def P)
  then obtain w2 where w2: "put_scale_factors scfs w1 = Some w2" "bw_appends True (scf_bits scfs) w1 w2"
    "bw_free w2 = 4 \<or> bw_free w2 = 8"
    using put_scale_factors_appends[of w1 scfs] w1(3) scfs(2) by blast
  have w12: "bw_appends True (protected_bits f) w w2"
    using bw_appends_trans[OF w1(2) w2(2)] by (simp add: P)
  define bs where "bs = take (fr_blocks f) (chunks_exact (fr_nsc f) (fr_sb f))"
  let ?z = "\<lambda>b. zip b (zip (fr_scale_factor f) (fr_bits f))"
  have zs: "concat (map ?z bs) = fr_samples f"
    using chunks_exact_take[of "fr_nsc f" "fr_blocks f" "fr_sb f"] frame_wf_nsc[OF wf] wf
    by (simp add: bs_def fr_samples_def frame_wf_def comp_def)
  then have set_zs: "b \<in> set bs \<Longrightarrow> set (?z b) \<subseteq> set (fr_samples f)" for b
    unfolding zs[symmetric] by auto
  have "\<forall>b\<in>set bs. \<forall>(sb, scf, bits)\<in>set (?z b). 0 \<le> bits"
    using set_zs fr_samples_bits[OF wf] by fast
  moreover have "exact \<Longrightarrow> \<forall>b\<in>set bs. list_all q_fits (?z b)"
    using set_zs exact by (auto simp: list_all_iff)
  moreover have "bw_ok w2" "bw_count w2 + length (concat (map q_bits (concat (map ?z bs)))) \<le> 8 * length (bw_out w2)"
    using w12 room unfolding zs by (auto simp: bw_appends_def data_bits_def)
  ultimately obtain w3 where w3: "put_blocks f bs w2 = Some w3" "bw_appends exact (data_bits f) w2 w3"
    "if data_bits f = [] then w3 = w2 else bw_free w3 < 8"
    using put_blocks_appends[of w2 f bs exact] unfolding zs data_bits_def by blast
  have "put_body f w = Some w3"
    using w1(1) w2(1) w3(1) scfs(1) by (simp add: put_body_def Let_def flip: fr_nsc_def bs_def)
  then show ?thesis using bw_appends_trans[OF w12 w3(2)] w3(3) w2(3) by (auto split: if_splits)
qed

text \<open>The length of a packed frame: with no sample bits, a byte-aligned end adds a zero byte.\<close>

definition pack_len :: "sbc_frame \<Rightarrow> nat" where
  "pack_len f =
     (let t = length (protected_bits f @ data_bits f)
      in if data_bits f = [] then 4 + t div 8 + 1 else 4 + (t + 7) div 8)"

definition byte_bits :: "bytes \<Rightarrow> bool list" where
  "byte_bits bs = concat (map (bits_of 8) bs)"

lemma byte_bits_simps [simp]:
  "byte_bits [] = []" "byte_bits (b # bs) = bits_of 8 b @ byte_bits bs" "byte_bits (bs @ bs') = byte_bits bs @ byte_bits bs'"
  "length (byte_bits bs) = 8 * length bs"
  by (simp_all add: byte_bits_def) (induction bs, simp_all)

lemma take_byte_bits: "take (8 * n) (byte_bits bs) = byte_bits (take n bs)"
proof (induction bs arbitrary: n)
  case (Cons b bs)
  then show ?case by (cases n) simp_all
qed simp

text \<open>The check sum over bits, from the initial value of the specification.\<close>

definition crc8 :: "bool list \<Rightarrow> u8" where
  "crc8 bs = foldl crc_step 0x0F bs"

lemma feed_bits: "n \<le> 8 \<Longrightarrow> feed c b n = foldl crc_step c (take n (bits_of 8 b))"
proof -
  assume "n \<le> 8"
  then have "take n (rev [0..<8]) = rev [8 - n..<8]" by (simp add: take_rev)
  then have "take n (bits_of 8 b) = map (bit b) (rev [8 - n..<8])" by (simp add: bits_of_def take_map)
  then show ?thesis by (simp add: feed_def foldl_map)
qed

lemma feed_bytes: "foldl (\<lambda>c x. feed c x 8) c bs = foldl crc_step c (byte_bits bs)"
  by (induction bs arbitrary: c) (simp_all add: feed_bits)

lemma put_head_eq: "4 \<le> length out \<Longrightarrow> put_head f out = Some ([SYNCWORD, fr_header f, fr_bitpool f] @ drop 3 out)"
  by (cases out; cases "tl out"; cases "tl (tl out)") (simp_all add: put_head_def set_at_def)

lemma frame_crc_eq:
  assumes wf: "frame_wf f" and out: "out = [s, h, b, c] @ rest" and len: "4 * fr_nsc f + (if fr_joint f then 8 else 0) \<le> 8 * length rest"
  shows "frame_crc f out = Some (crc8 (bits_of 8 h @ bits_of 8 b @ take (length (protected_bits f)) (byte_bits rest)))"
proof -
  define full where "full = fr_nsc f div 2"
  have full: "4 * fr_nsc f = 8 * full" using frame_wf_nsc[OF wf] by (simp add: full_def)
  then have f: "full \<le> length rest" using len by simp
  have g: "get_at 1 out = Some h" "get_at 2 out = Some b" "slice_at 4 (4 + full) out = Some (take full rest)"
    using f by (simp_all add: out get_at_def slice_at_def)
  have c: "foldl (\<lambda>c x. feed c x 8) (feed (feed 0x0F h 8) b 8) (take full rest) = crc8 (bits_of 8 h @ bits_of 8 b @ take (8 * full) (byte_bits rest))"
    unfolding feed_bytes by (simp add: feed_bits crc8_def take_byte_bits)
  show ?thesis
  proof (cases "fr_joint f")
    case False
    then show ?thesis using g c length_protected[OF wf] full
      by (simp add: frame_crc_def Let_def flip: fr_nsc_def full_def)
  next
    case True
    then have l: "full < length rest" using len full by simp
    then have x: "get_at (4 + full) out = Some (rest ! full)" by (simp add: out get_at_def nth_append)
    have "rest = take full rest @ rest ! full # drop (Suc full) rest" using l by (simp add: id_take_nth_drop)
    then have "byte_bits rest = byte_bits (take full rest) @ bits_of 8 (rest ! full) @ byte_bits (drop (Suc full) rest)"
      by (metis byte_bits_simps(2,3))
    moreover have "fr_subbands f \<le> 8" using wf by (auto simp: frame_wf_def)
    ultimately have "take (8 * full + fr_subbands f) (byte_bits rest)
        = byte_bits (take full rest) @ take (fr_subbands f) (bits_of 8 (rest ! full))"
      using l by simp
    then show ?thesis using g c x True length_protected[OF wf] full \<open>fr_subbands f \<le> 8\<close>
      by (simp add: frame_crc_def Let_def feed_bits crc8_def take_byte_bits flip: fr_nsc_def full_def)
  qed
qed

lemma last_byte: "free \<le> 8 \<Longrightarrow> bits_of 8 (push_bit free acc) = bits_of (8 - free) acc @ replicate free False" for acc :: u8
proof -
  assume "free \<le> 8"
  then have "bits_of (8 - free + free) (push_bit free acc OR ucast (0 :: u8)) = bits_of (8 - free) acc @ bits_of free (0 :: u8)"
    by (intro bits_of_acc) auto
  moreover have "bits_of free (0 :: u8) = replicate free False" by (simp add: bits_of_def list_eq_iff_nth_eq)
  ultimately show ?thesis using \<open>free \<le> 8\<close> by simp
qed

text \<open>The frame of the specification: sync word, header, bitpool, check sum, join flags and scale
  factors, the samples, and zero bits up to the byte.\<close>

definition frame_layout :: "sbc_frame \<Rightarrow> nat \<Rightarrow> bool list" where
  "frame_layout f pad =
     bits_of 8 SYNCWORD @ bits_of 8 (fr_header f) @ bits_of 8 (fr_bitpool f)
     @ bits_of 8 (crc8 (bits_of 8 (fr_header f) @ bits_of 8 (fr_bitpool f) @ protected_bits f))
     @ protected_bits f @ data_bits f @ replicate pad False"

definition head_bytes :: "sbc_frame \<Rightarrow> bytes \<Rightarrow> bytes" where
  "head_bytes f out = [SYNCWORD, fr_header f, fr_bitpool f] @ drop 3 out"

lemma head_bytes_props:
  assumes "4 \<le> length out"
  shows "put_head f out = Some (head_bytes f out)" "length (head_bytes f out) = length out"
    "take 4 (head_bytes f out) = [SYNCWORD, fr_header f, fr_bitpool f, out ! 3]" "3 \<le> n \<Longrightarrow> drop n (head_bytes f out) = drop n out"
proof -
  show "put_head f out = Some (head_bytes f out)" using put_head_eq[OF assms] by (simp add: head_bytes_def)
  show "length (head_bytes f out) = length out" using assms by (simp add: head_bytes_def)
  show "take 4 (head_bytes f out) = [SYNCWORD, fr_header f, fr_bitpool f, out ! 3]"
    using assms Cons_nth_drop_Suc[of 3 out] by (simp add: head_bytes_def take_Suc_conv_app_nth numeral_eq_Suc)
  have "drop n ys = drop (n - 3) (drop 3 ys)" if "3 \<le> n" for ys :: bytes using that by simp
  moreover have "drop 3 (head_bytes f out) = drop 3 out" by (simp add: head_bytes_def)
  ultimately show "3 \<le> n \<Longrightarrow> drop n (head_bytes f out) = drop n out" by metis
qed

text \<open>The writer after the body: its position is one byte before the end of the frame.\<close>

lemma body_written:
  assumes wf: "frame_wf f" and room: "pack_len f \<le> length out" and exact: "exact \<Longrightarrow> list_all q_fits (fr_samples f)"
  defines "out1 \<equiv> head_bytes f out"
  shows "\<exists>w. put_body f \<lparr> bw_out = out1, bw_pos = 4, bw_acc = 0, bw_free = 8 \<rparr> = Some w \<and> bw_pos w + 1 = pack_len f \<and> bw_free w \<le> 8
     \<and> 4 \<le> bw_pos w \<and> length (bw_out w) = length out \<and> take 4 (bw_out w) = take 4 out1 \<and> drop (pack_len f) (bw_out w) = drop (pack_len f) out
     \<and> (exact \<longrightarrow> bw_stream w = byte_bits (take 4 out1) @ protected_bits f @ data_bits f)"
proof -
  define T where "T = length (protected_bits f @ data_bits f)"
  have len: "pack_len f = (if data_bits f = [] then 4 + T div 8 + 1 else 4 + (T + 7) div 8)"
    by (simp add: pack_len_def T_def Let_def)
  then have out4: "4 \<le> length out" and fits: "32 + T \<le> 8 * length out" using room by (auto split: if_splits)
  note hd = head_bytes_props[OF out4, where f = f, folded out1_def]
  define w0 where "w0 = \<lparr> bw_out = out1, bw_pos = 4, bw_acc = 0, bw_free = 8 \<rparr>"
  have "bw_ok w0" "bw_count w0 + T \<le> 8 * length (bw_out w0)" using out4 fits hd(2) by (simp_all add: w0_def bw_ok_def bw_count_def)
  then obtain w where w: "put_body f w0 = Some w" "bw_appends exact (protected_bits f @ data_bits f) w0 w"
    "if data_bits f = [] then bw_free w = 4 \<or> bw_free w = 8 else bw_free w < 8"
    using put_body_appends[OF wf, of w0 exact] exact unfolding T_def by (auto simp: w0_def)
  have cnt: "8 * bw_pos w + (8 - bw_free w) = 32 + T" "bw_free w \<le> 8" "4 \<le> bw_pos w" "length (bw_out w) = length out"
    "take 4 (bw_out w) = take 4 out1" "drop (bw_pos w) (bw_out w) = drop (bw_pos w) out1"
    using w(2) by (simp_all add: bw_appends_def bw_count_def bw_ok_def T_def w0_def hd(2))
  have pos: "bw_pos w + 1 = pack_len f" using cnt(1,2) w(3) by (auto simp: len split: if_splits)
  have "drop (pack_len f) (bw_out w) = drop 1 (drop (bw_pos w) (bw_out w))" by (simp flip: pos)
  also have "\<dots> = drop (pack_len f) out" unfolding cnt(6) using hd(4)[of "bw_pos w + 1"] cnt(3) by (simp flip: pos)
  moreover have "exact \<longrightarrow> bw_stream w = byte_bits (take 4 out1) @ protected_bits f @ data_bits f"
    using w(2) by (simp add: bw_appends_def bw_stream_def w0_def byte_bits_def)
  ultimately show ?thesis using w(1) cnt pos unfolding w0_def by auto
qed

lemma protected_fits:
  assumes wf: "frame_wf f" and room: "pack_len f \<le> length out"
  shows "4 * fr_nsc f + (if fr_joint f then 8 else 0) \<le> 8 * (length out - 4)"
proof -
  define T where "T = length (protected_bits f @ data_bits f)"
  have "(T + 7) div 8 \<le> length out - 4" using room by (auto simp: pack_len_def T_def Let_def split: if_splits)
  then show ?thesis using length_protected[OF wf] frame_wf_nsc[OF wf] wf by (auto simp: T_def frame_wf_def fr_nsc_def)
qed

lemma pack_eq:
  assumes wf: "frame_wf f" and room: "pack_len f \<le> length out" and exact: "exact \<Longrightarrow> list_all q_fits (fr_samples f)"
  shows "\<exists>out' pad. pack f out = Some (out', pack_len f) \<and> length out' = length out
     \<and> drop (pack_len f) out' = drop (pack_len f) out \<and> pad \<le> 8
     \<and> (exact \<longrightarrow> byte_bits (take (pack_len f) out') = frame_layout f pad)"
proof -
  obtain w where w: "put_body f \<lparr> bw_out = head_bytes f out, bw_pos = 4, bw_acc = 0, bw_free = 8 \<rparr> = Some w"
    and pos: "bw_pos w + 1 = pack_len f" "bw_free w \<le> 8" "4 \<le> bw_pos w" and wl: "length (bw_out w) = length out"
    and w4: "take 4 (bw_out w) = take 4 (head_bytes f out)" and wd: "drop (pack_len f) (bw_out w) = drop (pack_len f) out"
    and str: "exact \<longrightarrow> bw_stream w = byte_bits (take 4 (head_bytes f out)) @ protected_bits f @ data_bits f"
    using body_written[OF wf room exact] by blast
  have out4: "4 \<le> length out" using pos(1,3) room by simp
  note hd = head_bytes_props[OF out4, where f = f]
  have p: "bw_pos w < length (bw_out w)" using pos(1) room wl by simp
  define out2 where "out2 = (bw_out w)[bw_pos w := push_bit (bw_free w) (bw_acc w)]"
  define body where "body = drop 4 out2"
  have "take 4 out2 = [SYNCWORD, fr_header f, fr_bitpool f, out ! 3]" using pos(3) w4 hd(3) by (simp add: out2_def)
  then have o2: "out2 = [SYNCWORD, fr_header f, fr_bitpool f, out ! 3] @ body"
    using append_take_drop_id[of 4 out2] by (simp add: body_def)
  have "4 * fr_nsc f + (if fr_joint f then 8 else 0) \<le> 8 * length body"
    using protected_fits[OF wf room] wl by (simp add: body_def out2_def)
  note crc = frame_crc_eq[OF wf o2 this]
  let ?crc = "crc8 (bits_of 8 (fr_header f) @ bits_of 8 (fr_bitpool f) @ take (length (protected_bits f)) (byte_bits body))"
  define out3 where "out3 = [SYNCWORD, fr_header f, fr_bitpool f, ?crc] @ body"
  have "set_at 3 ?crc out2 = Some out3" by (simp add: o2 set_at_def out3_def)
  then have "pack f out = Some (out3, pack_len f)"
    using hd(1) w p crc pos(1) by (simp add: pack_def set_at_def flip: out2_def)
  moreover have "length out3 = length out"
    using arg_cong[OF o2, of length] wl by (simp add: out3_def out2_def)
  moreover define k where "k = pack_len f - 4"
  have k: "pack_len f = Suc (Suc (Suc (Suc k)))" using pos by (simp add: k_def)
  have "drop (pack_len f) out3 = drop (pack_len f) out2" unfolding k by (subst o2) (simp add: out3_def)
  then have "drop (pack_len f) out3 = drop (pack_len f) out"
    using wd pos(1) by (simp add: out2_def flip: pos(1))
  moreover have "byte_bits (take (pack_len f) out3) = frame_layout f (bw_free w)" if exact
  proof -
    have "take (pack_len f) out2 = take (bw_pos w) (bw_out w) @ [push_bit (bw_free w) (bw_acc w)]"
      using p by (simp add: out2_def take_Suc_conv_app_nth flip: pos(1))
    then have "byte_bits (take (pack_len f) out2) = bw_stream w @ replicate (bw_free w) False"
      using pos(2) by (simp add: last_byte bw_stream_def byte_bits_def)
    then have "byte_bits (take k body) = protected_bits f @ data_bits f @ replicate (bw_free w) False"
      using str that hd(3) unfolding k by (simp add: o2)
    moreover from this have "take (length (protected_bits f)) (byte_bits body) = protected_bits f"
      using byte_bits_simps(3)[of "take k body" "drop k body"] by simp
    ultimately show ?thesis by (simp add: k out3_def frame_layout_def)
  qed
  ultimately show ?thesis using pos(2) by blast
qed

subsection \<open>Properties\<close>

text \<open>C20. The quantizer is the formula of the SBC specification: its product of a 32-bit and a 16-bit value by 16-bit
  halves, with every wrap-around of the 32-bit operations, gives the exact level of a sample that its scale factor
  covers, and the level fits the bits allocated, so that no value reaches into its neighbour when it is written.\<close>

theorem quantizer_formula:
  assumes "0 \<le> scf" "scf \<le> 15" and "0 \<le> bits" "bits \<le> 16" and "\<bar>sb\<bar> \<le> 2 ^ nat (scf + 15)"
  shows "uint (quantize sb scf bits) = ((sb div 4 + 2 ^ nat (scf + 13)) * (2 ^ nat bits - 1)) div 2 ^ nat (scf + 14)
    \<and> uint (quantize sb scf bits) < 2 ^ nat bits"
  using quantize_range[OF assms] by simp

theorem quantizer_formula_witness:
  "uint (quantize (- 70000) 3 5) = 11"
  using quantizer_formula[of 3 5 "- 70000"] by simp

end
