(* ===== verification/Sbc_Analysis.thy ===== *)
theory Sbc_Analysis
  imports Sbc_Packing
begin

text \<open>
  The analysis filter bank of the SBC encoder, \<^verbatim>\<open>app/src/crates/codec/src/sbc/analysis.rs\<close>: the input
  history of both channels in one array, the windows and the fast DCTs. Samples are \<open>int\<close>; the wrapping
  operations of the DCT are written out with \<open>wrap32\<close>. An access out of range is \<open>None\<close>. The buffer
  \<^verbatim>\<open>dcty\<close> is filled by a window and read by the DCT that follows, and is a local value here.

  Shown: the array with its shifting is an unbounded history of the samples of each channel (every
  window sees exactly the last ten blocks, across calls and across the copies down the array), no access is
  out of range, and the window sums stay within 32 bits.
\<close>

definition VX_LEN :: nat where "VX_LEN = 8 * 10 * 2 + 64"

definition c16 :: "int \<Rightarrow> int" where
  "c16 v = (if v < 2 ^ 15 then v else v - 2 ^ 16)"

definition W4 :: "int list list" where
  "W4 = map (map c16)
     [[0x0012, 0x029E, 0x18F5, 0xF610, 0xFF9C],
      [0x0031, 0x03B2, 0x1F91, 0xFC50, 0x003D],
      [0x005A, 0x041F, 0x2413, 0x00C9, 0x0080]]"

definition W8 :: "int list list" where
  "W8 = map (map c16)
     [[0x0005, 0x0107, 0x0A9F, 0xF931, 0xFF8D],
      [0x000B, 0x0157, 0x0C7D, 0xFB00, 0xFFCA],
      [0x0012, 0x01A2, 0x0E3C, 0xFCA8, 0xFFFA],
      [0x001B, 0x01E0, 0x0FC7, 0xFE20, 0x001E],
      [0x0025, 0x0209, 0x110F, 0xFF5F, 0x0035],
      [0x0030, 0x0214, 0x1204, 0x0060, 0x0041],
      [0x003A, 0x01F6, 0x129C, 0x0122, 0x0045]]"

definition COS_PI_4 :: int where "COS_PI_4 = 0x5a82"
definition COS_PI_8 :: int where "COS_PI_8 = 0x7641"
definition COS_3PI_8 :: int where "COS_3PI_8 = 0x30fb"
definition COS_PI_16 :: int where "COS_PI_16 = 0x7d8a"
definition COS_3PI_16 :: int where "COS_3PI_16 = 0x6a6d"
definition COS_5PI_16 :: int where "COS_5PI_16 = 0x471c"
definition COS_7PI_16 :: int where "COS_7PI_16 = 0x18f8"

definition mult :: "int \<Rightarrow> int \<Rightarrow> int" where
  "mult c v = wrap32 ((c * v) div 2 ^ 15)"

definition wadd :: "int \<Rightarrow> int \<Rightarrow> int" where "wadd a b = wrap32 (a + b)"
definition wsub :: "int \<Rightarrow> int \<Rightarrow> int" where "wsub a b = wrap32 (a - b)"
definition shl1 :: "int \<Rightarrow> int" where "shl1 a = wrap32 (a * 2)"

subsection \<open>Windows and transforms\<close>

definition row :: "int list \<Rightarrow> (nat \<Rightarrow> int) \<Rightarrow> int" where
  "row c g = sum_list (map2 (\<lambda>cj j. cj * g j) c [0..<5])"

text \<open>The eight sums of \<^verbatim>\<open>window4\<close> in the order of their index; row \<open>k\<close> gives sum \<open>k\<close> and, from the other
  end of the window, sum \<open>8 - k\<close>.\<close>

definition window4 :: "int list \<Rightarrow> int list" where
  "window4 x =
     (let s = (\<lambda>i. x ! i);
          t = (\<lambda>k. row (W4 ! (k - 1)) (\<lambda>j. s (8 * j + k)));
          t2 = (\<lambda>k. row (W4 ! (k - 1)) (\<lambda>j. s (8 * (4 - j) + 8 - k)))
      in [0x0166 * (s 8 - s 32) + 0x115B * (s 16 - s 24), t 1, t 2, t 3,
          0x007E * (s 4 + s 36) + 0x0350 * (s 12 + s 28) + 0x25AC * s 20, t2 3, t2 2, t2 1])"

definition window8 :: "int list \<Rightarrow> int list" where
  "window8 x =
     (let s = (\<lambda>i. x ! i);
          t = (\<lambda>k. row (W8 ! (k - 1)) (\<lambda>j. s (16 * j + k)));
          t2 = (\<lambda>k. row (W8 ! (k - 1)) (\<lambda>j. s (16 * (4 - j) + 16 - k)))
      in [0x00B9 * (s 16 - s 64) + 0x08B4 * (s 32 - s 48), t 1, t 2, t 3, t 4, t 5, t 6, t 7,
          0x0042 * (s 8 + s 72) + 0x01A8 * (s 24 + s 56) + 0x12CF * s 40, t2 7, t2 6, t2 5, t2 4, t2 3, t2 2, t2 1])"

definition idct4 :: "int list \<Rightarrow> int list" where
  "idct4 y =
     (let x2 = (y ! 2) div 2;
          temp = wadd (y ! 0) (y ! 4);
          t0 = mult (COS_PI_4 div 2) temp;
          t1 = wsub x2 t0;
          t0 = wadd t0 x2;
          temp = wadd (y ! 1) (y ! 3);
          t3 = mult (COS_3PI_8 div 2) temp;
          t2 = mult (COS_PI_8 div 2) temp;
          temp = wsub (y ! 5) (y ! 7);
          t5 = mult (COS_3PI_8 div 2) temp;
          t4 = mult (COS_PI_8 div 2) temp;
          t6 = wadd t2 t5;
          t7 = wsub t3 t4
      in [wadd t0 t6, wadd t1 t7, wsub t1 t7, wsub t0 t6])"

text \<open>The even and the odd part of \<^verbatim>\<open>idct8\<close>.\<close>

definition idct8_even :: "int list \<Rightarrow> int list" where
  "idct8_even y =
     (let x0 = mult COS_PI_4 (y ! 4);
          x2 = wadd (y ! 2) (y ! 6) div 2;
          x4 = wadd (y ! 0) (y ! 8) div 2;
          x6 = wsub (y ! 10) (y ! 14) div 2;
          temp = x0;
          x0 = mult COS_PI_4 (wadd x0 x4);
          x4 = mult COS_PI_4 (wsub temp x4);
          x2 = wsub x2 x6;
          x6 = shl1 x6;
          x6 = mult COS_PI_4 x6;
          temp = x2;
          x2 = mult COS_PI_8 (wadd x2 x6);
          x6 = mult COS_3PI_8 (wsub temp x6)
      in [wadd x0 x2, wadd x4 x6, wsub x4 x6, wsub x0 x2])"

definition idct8_odd :: "int list \<Rightarrow> int list" where
  "idct8_odd y =
     (let x1 = wadd (y ! 3) (y ! 5) div 2;
          x3 = wadd (y ! 1) (y ! 7) div 2;
          x5 = wsub (y ! 9) (y ! 15) div 2;
          x7 = wsub (y ! 11) (y ! 13) div 2;
          x7 = shl1 x7;
          x5 = wsub (shl1 x5) x7;
          x3 = wsub (shl1 x3) x5;
          x1 = wsub x1 (x3 div 2);
          x5 = mult COS_PI_4 x5;
          temp = x1;
          x1 = wadd x1 x5;
          x5 = wsub temp x5;
          x3 = wsub x3 x7;
          x7 = shl1 x7;
          x7 = mult COS_PI_4 x7;
          temp = x3;
          x3 = mult COS_PI_8 (wadd x3 x7);
          x7 = mult COS_3PI_8 (wsub temp x7)
      in [mult COS_PI_16 (wadd x1 x3), mult COS_3PI_16 (wadd x5 x7), mult COS_5PI_16 (wsub x5 x7),
          mult COS_7PI_16 (wsub x1 x3)])"

definition idct8 :: "int list \<Rightarrow> int list" where
  "idct8 y =
     (let even = idct8_even y; odd = idct8_odd y
      in map2 wadd even odd @ rev (map2 wsub even odd))"

definition analyse :: "nat \<Rightarrow> int list \<Rightarrow> int list" where
  "analyse subbands x = (if subbands = 4 then idct4 (window4 x) else idct8 (window8 x))"

subsection \<open>The history\<close>

record analysis =
  an_x :: "int list"
  an_shift_counter :: nat
  an_max_shift :: nat
  an_ch_stride :: nat

definition analysis_new :: "nat \<Rightarrow> nat \<Rightarrow> analysis" where
  "analysis_new subbands channels =
     (let max_shift =
        (if subbands = 4 then
           (if channels = 1 then ((VX_LEN - 4 * 10) div 4) * 4 else ((VX_LEN - 4 * 10 * 2) div 8) * 4)
         else
           (if channels = 1 then ((VX_LEN - 8 * 10) div 8) * 8 else ((VX_LEN - 8 * 10 * 2) div 16) * 8))
      in \<lparr> an_x = replicate VX_LEN 0, an_shift_counter = 0, an_max_shift = max_shift,
           an_ch_stride = max_shift + 10 * subbands \<rparr>)"

fun store_channels :: "nat \<Rightarrow> nat \<Rightarrow> nat \<Rightarrow> int list \<Rightarrow> int list \<Rightarrow> int list option" where
  "store_channels stride pos ch [] x = Some x"
| "store_channels stride pos ch (s # ss) x =
     Option.bind (set_at (ch * stride + pos) s x) (store_channels stride pos (ch + 1) ss)"

fun store_block :: "nat \<Rightarrow> nat \<Rightarrow> nat \<Rightarrow> int list list \<Rightarrow> int list \<Rightarrow> int list option" where
  "store_block stride highest i [] x = Some x"
| "store_block stride highest i (fr # frs) x =
     Option.bind (store_channels stride (highest - i) 0 fr x) (store_block stride highest (i + 1) frs)"

text \<open>\<^verbatim>\<open>copy_within\<close>: a copy of \<open>a..b\<close> to \<open>dst\<close>, as if through a temporary.\<close>

definition copy_within :: "nat \<Rightarrow> nat \<Rightarrow> nat \<Rightarrow> 'a list \<Rightarrow> 'a list option" where
  "copy_within a b dst xs =
     (if a \<le> b \<and> b \<le> length xs \<and> dst + (b - a) \<le> length xs
      then Some (take dst xs @ take (b - a) (drop a xs) @ drop (dst + (b - a)) xs) else None)"

fun shift_up :: "nat \<Rightarrow> nat \<Rightarrow> nat \<Rightarrow> nat \<Rightarrow> nat list \<Rightarrow> int list \<Rightarrow> int list option" where
  "shift_up stride src dst len [] x = Some x"
| "shift_up stride src dst len (ch # chs) x =
     Option.bind (copy_within (ch * stride + src) (ch * stride + src + len) (ch * stride + dst) x)
       (shift_up stride src dst len chs)"

fun analyse_channels :: "nat \<Rightarrow> nat \<Rightarrow> nat \<Rightarrow> nat list \<Rightarrow> int list \<Rightarrow> int list option" where
  "analyse_channels subbands stride offset [] x = Some []"
| "analyse_channels subbands stride offset (ch # chs) x =
     (let base = ch * stride + offset
      in Option.bind (slice_at base (base + 10 * subbands) x) (\<lambda>v.
         map_option ((@) (analyse subbands v)) (analyse_channels subbands stride offset chs x)))"

definition filter_block :: "nat \<Rightarrow> nat \<Rightarrow> analysis \<Rightarrow> int list \<Rightarrow> (analysis \<times> int list) option" where
  "filter_block subbands channels a pcm =
     (let stride = an_ch_stride a; offset = an_max_shift a - an_shift_counter a
      in Option.bind (store_block stride (offset + subbands - 1) 0 (chunks_exact channels pcm) (an_x a)) (\<lambda>x.
         Option.bind (analyse_channels subbands stride offset [0..<channels] x) (\<lambda>out.
         if an_max_shift a \<le> an_shift_counter a then
           (let len = 9 * subbands; dst = an_max_shift a + subbands; src = dst - subbands - an_shift_counter a
            in map_option (\<lambda>x. (a\<lparr> an_x := x, an_shift_counter := 0 \<rparr>, out))
                 (shift_up stride src dst len [0..<channels] x))
         else Some (a\<lparr> an_x := x, an_shift_counter := an_shift_counter a + subbands \<rparr>, out))))"

fun filter_blocks :: "nat \<Rightarrow> nat \<Rightarrow> analysis \<Rightarrow> int list list \<Rightarrow> (analysis \<times> int list) option" where
  "filter_blocks subbands channels a [] = Some (a, [])"
| "filter_blocks subbands channels a (b # bs) =
     Option.bind (filter_block subbands channels a b) (\<lambda>(a, out).
       map_option (\<lambda>(a, outs). (a, out @ outs)) (filter_blocks subbands channels a bs))"

text \<open>\<^verbatim>\<open>filter\<close>: as many blocks as the samples, the buffer and the count allow; the rest of the buffer stays.\<close>

definition analysis_filter :: "analysis \<Rightarrow> int list \<Rightarrow> nat \<Rightarrow> nat \<Rightarrow> nat \<Rightarrow> int list \<Rightarrow> (analysis \<times> int list) option" where
  "analysis_filter a pcm subbands channels blocks sb =
     (let n = min (min (length (chunks_exact (subbands * channels) pcm)) (length (chunks_exact (subbands * channels) sb))) blocks
      in map_option (\<lambda>(a, out). (a, out @ drop (length out) sb))
           (filter_blocks subbands channels a (take n (chunks_exact (subbands * channels) pcm))))"

subsection \<open>Writing and copying the history\<close>

lemma cell_eq: "p < stride \<Longrightarrow> p' < stride \<Longrightarrow> c * stride + p = c' * stride + p' \<longleftrightarrow> c = c' \<and> p = p'" for stride :: nat
proof
  assume "p < stride" "p' < stride" "c * stride + p = c' * stride + p'"
  then show "c = c' \<and> p = p'"
    by (metis add.commute add_cancel_right_left div_less div_mult_self3 mod_less mod_mult_self3 not_less_zero)
qed simp

lemma cell_less: "p < stride \<Longrightarrow> c < n \<Longrightarrow> n * stride \<le> len \<Longrightarrow> c * stride + p < len" for stride :: nat
proof -
  assume *: "p < stride" "c < n" "n * stride \<le> len"
  have "c * stride + p < Suc c * stride" using *(1) by simp
  also have "\<dots> \<le> n * stride" using *(2) by (intro mult_le_mono1) simp
  finally show ?thesis using *(3) by simp
qed

lemma store_channels_cells:
  assumes "pos < stride" "(ch + length ss) * stride \<le> length x"
  shows "\<exists>x'. store_channels stride pos ch ss x = Some x' \<and> length x' = length x
     \<and> (\<forall>c<length ss. x' ! ((ch + c) * stride + pos) = ss ! c)
     \<and> (\<forall>q. (\<forall>c<length ss. q \<noteq> (ch + c) * stride + pos) \<longrightarrow> x' ! q = x ! q)"
  using assms
proof (induction ss arbitrary: ch x)
  case (Cons s ss)
  have l: "ch * stride + pos < length x" using Cons.prems by (intro cell_less[of _ _ _ "ch + length (s # ss)"]) auto
  let ?x = "x[ch * stride + pos := s]"
  obtain x' where x': "store_channels stride pos (ch + 1) ss ?x = Some x'" "length x' = length x"
    "\<forall>c<length ss. x' ! ((ch + 1 + c) * stride + pos) = ss ! c"
    "\<forall>q. (\<forall>c<length ss. q \<noteq> (ch + 1 + c) * stride + pos) \<longrightarrow> x' ! q = ?x ! q"
    using Cons.IH[of "ch + 1" ?x] Cons.prems by auto
  have "\<forall>c<length ss. ch * stride + pos \<noteq> (ch + 1 + c) * stride + pos"
    using Cons.prems(1) cell_eq[of pos stride pos ch] by (metis Suc_eq_plus1 add.commute add.left_commute less_add_Suc1 less_irrefl_nat)
  then have head: "x' ! (ch * stride + pos) = s" using x'(4) l by simp
  have "x' ! ((ch + c) * stride + pos) = (s # ss) ! c" if "c < length (s # ss)" for c
    using that head x'(3) by (cases c) auto
  moreover have "x' ! q = x ! q" if q: "\<forall>c<length (s # ss). q \<noteq> (ch + c) * stride + pos" for q
  proof -
    have "q \<noteq> ch * stride + pos" using q by force
    moreover have "\<forall>c<length ss. q \<noteq> (ch + 1 + c) * stride + pos" using q by (auto dest: spec[of _ "Suc _"])
    ultimately show ?thesis using x'(4) by (simp add: nth_list_update)
  qed
  ultimately show ?case using x'(1,2) l by (auto simp: set_at_def)
qed simp

lemma store_block_cells:
  assumes "highest < stride" "i + length frs \<le> highest + 1" "n * stride \<le> length x" "\<forall>fr\<in>set frs. length fr = n"
  shows "\<exists>x'. store_block stride highest i frs x = Some x' \<and> length x' = length x
     \<and> (\<forall>j<length frs. \<forall>c<n. x' ! (c * stride + (highest - (i + j))) = frs ! j ! c)
     \<and> (\<forall>q. (\<forall>j<length frs. \<forall>c<n. q \<noteq> c * stride + (highest - (i + j))) \<longrightarrow> x' ! q = x ! q)"
  using assms
proof (induction frs arbitrary: i x)
  case (Cons fr frs)
  have hi: "highest - i < stride" using Cons.prems(1) by simp
  obtain x1 where x1: "store_channels stride (highest - i) 0 fr x = Some x1" "length x1 = length x"
    "\<forall>c<n. x1 ! (c * stride + (highest - i)) = fr ! c"
    "\<forall>q. (\<forall>c<n. q \<noteq> c * stride + (highest - i)) \<longrightarrow> x1 ! q = x ! q"
    using store_channels_cells[OF hi, of 0 fr x] Cons.prems by auto
  obtain x' where x': "store_block stride highest (i + 1) frs x1 = Some x'" "length x' = length x"
    "\<forall>j<length frs. \<forall>c<n. x' ! (c * stride + (highest - (i + 1 + j))) = frs ! j ! c"
    "\<forall>q. (\<forall>j<length frs. \<forall>c<n. q \<noteq> c * stride + (highest - (i + 1 + j))) \<longrightarrow> x' ! q = x1 ! q"
    using Cons.IH[of "i + 1" x1] Cons.prems x1(2) by auto
  have fresh: "c * stride + (highest - i) \<noteq> c' * stride + (highest - (i + 1 + j))" if "j < length frs" for c c' j
    using that Cons.prems(1,2) cell_eq[of "highest - i" stride "highest - (i + 1 + j)" c c'] by auto
  have "x' ! (c * stride + (highest - (i + j))) = (fr # frs) ! j ! c" if "j < length (fr # frs)" "c < n" for j c
    using that fresh x1(3) x'(3,4) by (cases j) auto
  moreover have "x' ! q = x ! q" if q: "\<forall>j<length (fr # frs). \<forall>c<n. q \<noteq> c * stride + (highest - (i + j))" for q
  proof -
    have "\<forall>c<n. q \<noteq> c * stride + (highest - i)" using q by (metis add_0_right length_greater_0_conv list.distinct(1))
    moreover have "\<forall>j<length frs. \<forall>c<n. q \<noteq> c * stride + (highest - (i + 1 + j))"
    proof (intro allI impI)
      fix j c assume "j < length frs" "c < n"
      then show "q \<noteq> c * stride + (highest - (i + 1 + j))" using q[rule_format, of "Suc j" c] by simp
    qed
    ultimately show ?thesis using x1(4) x'(4) by auto
  qed
  ultimately show ?case using x1(1) x'(1,2) by auto
qed simp

lemma copy_within_cells:
  assumes "a \<le> b" "b \<le> length xs" "dst + (b - a) \<le> length xs"
  shows "\<exists>xs'. copy_within a b dst xs = Some xs' \<and> length xs' = length xs
     \<and> (\<forall>k<b - a. xs' ! (dst + k) = xs ! (a + k)) \<and> (\<forall>q. (q < dst \<or> dst + (b - a) \<le> q) \<and> q < length xs \<longrightarrow> xs' ! q = xs ! q)"
  using assms by (auto simp: copy_within_def nth_append)

lemma shift_up_cells:
  assumes "src + len \<le> stride" "dst + len \<le> stride" "\<forall>ch\<in>set chs. ch < n" "n * stride \<le> length x" "distinct chs"
  shows "\<exists>x'. shift_up stride src dst len chs x = Some x' \<and> length x' = length x
     \<and> (\<forall>ch\<in>set chs. \<forall>k<len. x' ! (ch * stride + dst + k) = x ! (ch * stride + src + k))
     \<and> (\<forall>ch p. ch < n \<and> ch \<notin> set chs \<and> p < stride \<longrightarrow> x' ! (ch * stride + p) = x ! (ch * stride + p))"
  using assms
proof (induction chs arbitrary: x)
  case (Cons ch chs)
  have ch: "ch * stride + stride \<le> length x"
    using mult_le_mono1[of "Suc ch" n stride] Cons.prems(3,4) by simp
  obtain x1 where x1: "copy_within (ch * stride + src) (ch * stride + src + len) (ch * stride + dst) x = Some x1"
    "length x1 = length x" "\<forall>k<len. x1 ! (ch * stride + dst + k) = x ! (ch * stride + src + k)"
    "\<forall>q. (q < ch * stride + dst \<or> ch * stride + dst + len \<le> q) \<and> q < length x \<longrightarrow> x1 ! q = x ! q"
    using copy_within_cells[of "ch * stride + src" "ch * stride + src + len" x "ch * stride + dst"] ch Cons.prems(1,2) by auto
  obtain x' where x': "shift_up stride src dst len chs x1 = Some x'" "length x' = length x"
    "\<forall>c\<in>set chs. \<forall>k<len. x' ! (c * stride + dst + k) = x1 ! (c * stride + src + k)"
    "\<forall>c p. c < n \<and> c \<notin> set chs \<and> p < stride \<longrightarrow> x' ! (c * stride + p) = x1 ! (c * stride + p)"
    using Cons.IH[of x1] Cons.prems x1(2) by auto
  have other: "x1 ! (c * stride + p) = x ! (c * stride + p)" if "c \<noteq> ch" "p < stride" "c < n" for c p
  proof -
    have "c * stride + p < ch * stride + dst \<or> ch * stride + dst + len \<le> c * stride + p"
    proof (cases "c < ch")
      case True
      then have "Suc c * stride \<le> ch * stride" by (intro mult_le_mono1) simp
      then show ?thesis using that(2) by simp
    next
      case False
      then have "Suc ch * stride \<le> c * stride" using that(1) by (intro mult_le_mono1) simp
      then show ?thesis using Cons.prems(2) by simp
    qed
    then show ?thesis using x1(4) cell_less[OF that(2,3) Cons.prems(4)] by blast
  qed
  have "x' ! (c * stride + dst + k) = x ! (c * stride + src + k)" if "c \<in> set (ch # chs)" "k < len" for c k
  proof (cases "c = ch")
    case True
    then have "x' ! (c * stride + (dst + k)) = x1 ! (c * stride + (dst + k))"
      using x'(4) Cons.prems(2,3,5) that(2) by auto
    then show ?thesis using True x1(3) that(2) by (simp add: add.assoc)
  next
    case False
    then show ?thesis using x'(3) other[of c "src + k"] that Cons.prems(1,3) by (auto simp: add.assoc)
  qed
  moreover have "x' ! (c * stride + p) = x ! (c * stride + p)" if "c < n" "c \<notin> set (ch # chs)" "p < stride" for c p
    using that x'(4) other[of c p] by auto
  ultimately show ?case using x1(1) x'(1,2) by auto
qed simp

subsection \<open>The history it stands for\<close>

text \<open>The reference: every channel keeps all its samples, newest first; a window sees the last \<open>n\<close> of them,
  with silence before the first.\<close>

definition window_of :: "nat \<Rightarrow> int list \<Rightarrow> int list" where
  "window_of n h = take n (h @ replicate n 0)"

definition channel_of :: "nat \<Rightarrow> nat \<Rightarrow> int list \<Rightarrow> int list" where
  "channel_of channels ch pcm = map (\<lambda>fr. fr ! ch) (chunks_exact channels pcm)"

definition spec_block :: "nat \<Rightarrow> nat \<Rightarrow> (nat \<Rightarrow> int list) \<Rightarrow> int list" where
  "spec_block subbands channels h =
     concat (map (\<lambda>ch. analyse subbands (window_of (10 * subbands) (h ch))) [0..<channels])"

definition add_block :: "nat \<Rightarrow> int list \<Rightarrow> (nat \<Rightarrow> int list) \<Rightarrow> nat \<Rightarrow> int list" where
  "add_block channels pcm h ch = rev (channel_of channels ch pcm) @ h ch"

lemma window_of_append: "length xs = k \<Longrightarrow> k \<le> n \<Longrightarrow> window_of n (xs @ h) = xs @ window_of (n - k) h"
  by (simp add: window_of_def take_replicate min_def)

lemma window_of_take: "m \<le> n \<Longrightarrow> take m (window_of n h) = window_of m h"
  by (auto simp: window_of_def take_replicate min_def)

definition an_sizes :: "nat \<Rightarrow> nat \<Rightarrow> analysis \<Rightarrow> bool" where
  "an_sizes subbands channels a \<longleftrightarrow> 0 < subbands \<and> 0 < channels \<and> an_ch_stride a = an_max_shift a + 10 * subbands
     \<and> channels * an_ch_stride a \<le> length (an_x a) \<and> an_shift_counter a \<le> an_max_shift a
     \<and> subbands dvd an_max_shift a \<and> subbands dvd an_shift_counter a"

definition an_rel :: "nat \<Rightarrow> nat \<Rightarrow> (nat \<Rightarrow> int list) \<Rightarrow> analysis \<Rightarrow> bool" where
  "an_rel subbands channels h a \<longleftrightarrow> an_sizes subbands channels a
     \<and> (\<forall>ch<channels. \<forall>k<9 * subbands.
          an_x a ! (ch * an_ch_stride a + (an_max_shift a - an_shift_counter a) + subbands + k) = window_of (9 * subbands) (h ch) ! k)"

lemma an_rel_new:
  assumes "subbands = 4 \<or> subbands = 8" "channels = 1 \<or> channels = 2"
  shows "an_rel subbands channels (\<lambda>_. []) (analysis_new subbands channels)"
  using assms by (auto simp: an_rel_def an_sizes_def analysis_new_def Let_def VX_LEN_def window_of_def)

lemma chunks_exact_props:
  "0 < n \<Longrightarrow> length (chunks_exact n xs) = length xs div n \<and> (\<forall>c\<in>set (chunks_exact n xs). length c = n)"
proof (induction n xs rule: chunks_exact.induct)
  case (1 n xs)
  have eq: "chunks_exact n xs = (if length xs < n then [] else take n xs # chunks_exact n (drop n xs))"
    using "1.prems" by (subst chunks_exact.simps) simp
  show ?case
  proof (cases "length xs < n")
    case False
    then have c: "\<not> (n = 0 \<or> length xs < n)" using "1.prems" by simp
    have "length (chunks_exact n (drop n xs)) = (length xs - n) div n"
      "\<forall>c\<in>set (chunks_exact n (drop n xs)). length c = n"
      using "1.IH"[OF c "1.prems"] by simp_all
    moreover have "chunks_exact n xs = take n xs # chunks_exact n (drop n xs)" using eq False by presburger
    moreover have "length xs div n = Suc ((length xs - n) div n)"
      using False "1.prems" le_div_geq[of n "length xs"] by simp
    ultimately show ?thesis using False by (metis length_Cons length_take min.absorb2 not_less set_ConsD)
  next
    case True
    then have "chunks_exact n xs = []" using eq by presburger
    then show ?thesis using True by simp
  qed
qed

lemma analyse_channels_eq:
  "\<forall>ch\<in>set chs. slice_at (ch * stride + offset) (ch * stride + offset + 10 * subbands) x = Some (v ch) \<Longrightarrow>
   analyse_channels subbands stride offset chs x = Some (concat (map (\<lambda>ch. analyse subbands (v ch)) chs))"
  by (induction chs) (simp_all add: Let_def)

lemma an_rel_sizes:
  assumes "an_rel subbands channels h a"
  defines "stride \<equiv> an_ch_stride a" and "offset \<equiv> an_max_shift a - an_shift_counter a"
  shows "0 < subbands" "0 < channels" "stride = an_max_shift a + 10 * subbands" "channels * stride \<le> length (an_x a)"
    "an_shift_counter a \<le> an_max_shift a" "subbands dvd an_max_shift a" "subbands dvd an_shift_counter a"
    "offset + 10 * subbands \<le> stride"
proof -
  show sz: "0 < subbands" "0 < channels" "stride = an_max_shift a + 10 * subbands" "channels * stride \<le> length (an_x a)"
    "an_shift_counter a \<le> an_max_shift a" "subbands dvd an_max_shift a" "subbands dvd an_shift_counter a"
    using assms(1) unfolding an_rel_def an_sizes_def stride_def by blast+
  show "offset + 10 * subbands \<le> stride" using sz(3) by (simp add: offset_def)
qed

text \<open>After a block is stored, the cells from the offset on are the window of the new history.\<close>

lemma block_stored:
  assumes rel: "an_rel subbands channels h a" and len: "length pcm = subbands * channels"
  defines "h' \<equiv> add_block channels pcm h" and "stride \<equiv> an_ch_stride a" and "offset \<equiv> an_max_shift a - an_shift_counter a"
  shows "\<exists>x. store_block stride (offset + subbands - 1) 0 (chunks_exact channels pcm) (an_x a) = Some x \<and> length x = length (an_x a)
     \<and> (\<forall>ch<channels. \<forall>k<10 * subbands. x ! (ch * stride + (offset + k)) = window_of (10 * subbands) (h' ch) ! k)"
proof -
  define frs where "frs = chunks_exact channels pcm"
  note sz = an_rel_sizes(1-7)[OF rel, folded stride_def] and off = an_rel_sizes(8)[OF rel, folded stride_def offset_def]
  have frs: "length frs = subbands" "\<forall>fr\<in>set frs. length fr = channels"
    using chunks_exact_props[OF sz(2), of pcm] len sz(2) by (simp_all add: frs_def)
  have hi: "offset + subbands - 1 < stride" "subbands \<le> offset + subbands - 1 + 1" using off sz(1) by simp_all
  obtain x where x: "store_block stride (offset + subbands - 1) 0 frs (an_x a) = Some x" "length x = length (an_x a)"
    "\<forall>j < subbands. \<forall>c<channels. x ! (c * stride + (offset + subbands - 1 - j)) = frs ! j ! c"
    "\<forall>q. (\<forall>j < subbands. \<forall>c<channels. q \<noteq> c * stride + (offset + subbands - 1 - j)) \<longrightarrow> x ! q = an_x a ! q"
    using store_block_cells[OF hi(1) _ sz(4) frs(2), of 0, unfolded frs(1) add_0, OF hi(2)] by blast
  have cell: "x ! (ch * stride + (offset + k)) = window_of (10 * subbands) (h' ch) ! k" if "ch < channels" "k < 10 * subbands" for ch k
  proof -
    have w: "window_of (10 * subbands) (h' ch) = rev (map (\<lambda>fr. fr ! ch) frs) @ window_of (9 * subbands) (h ch)"
      using window_of_append[of "rev (map (\<lambda>fr. fr ! ch) frs)" subbands "10 * subbands" "h ch"] frs(1)
      by (simp add: h'_def add_block_def channel_of_def flip: frs_def)
    show ?thesis
    proof (cases "k < subbands")
      case True
      then have "offset + subbands - 1 - (subbands - 1 - k) = offset + k" by simp
      then have "x ! (ch * stride + (offset + k)) = frs ! (subbands - 1 - k) ! ch"
        using x(3) True that(1) by (metis Suc_diff_Suc diff_Suc_1 diff_less_Suc diff_less sz(1) zero_less_one diff_Suc_less less_imp_diff_less)
      then show ?thesis using True frs(1) by (simp add: w nth_append rev_nth)
    next
      case False
      have "ch * stride + (offset + k) \<noteq> c * stride + (offset + subbands - 1 - j)" if "j < subbands" for j c
        using cell_eq[of "offset + k" stride "offset + subbands - 1 - j" ch c] False \<open>k < 10 * subbands\<close> off that by auto
      then have "x ! (ch * stride + (offset + k)) = an_x a ! (ch * stride + offset + subbands + (k - subbands))"
        using x(4) False by (simp add: add.assoc)
      also have "\<dots> = window_of (9 * subbands) (h ch) ! (k - subbands)"
        using rel[unfolded an_rel_def, THEN conjunct2, rule_format, OF that(1), of "k - subbands"] that(2) False
        unfolding stride_def offset_def by auto
      finally show ?thesis using False frs(1) by (simp add: w nth_append)
    qed
  qed
  then show ?thesis using x(1,2) unfolding frs_def by blast
qed

lemma block_analysed:
  assumes rel: "an_rel subbands channels h a" and len: "length pcm = subbands * channels"
  defines "h' \<equiv> add_block channels pcm h" and "stride \<equiv> an_ch_stride a" and "offset \<equiv> an_max_shift a - an_shift_counter a"
  assumes x: "length x = length (an_x a)"
    and cell: "\<And>ch k. ch < channels \<Longrightarrow> k < 10 * subbands \<Longrightarrow> x ! (ch * stride + (offset + k)) = window_of (10 * subbands) (h' ch) ! k"
  shows "analyse_channels subbands stride offset [0..<channels] x = Some (spec_block subbands channels h')"
proof -
  note sz = an_rel_sizes(1-7)[OF rel, folded stride_def] and off = an_rel_sizes(8)[OF rel, folded stride_def offset_def]
  have win: "length (window_of n l) = n" for n l by (simp add: window_of_def)
  have in_x: "ch * stride + stride \<le> length x" if "ch < channels" for ch
    using mult_le_mono1[of "Suc ch" channels stride] sz(4) that by (simp add: x)
  have "slice_at (ch * stride + offset) (ch * stride + offset + 10 * subbands) x = Some (window_of (10 * subbands) (h' ch))"
    if "ch < channels" for ch
  proof -
    have "take (10 * subbands) (drop (ch * stride + offset) x) = window_of (10 * subbands) (h' ch)"
      by (rule nth_equalityI) (use cell[OF that] in_x[OF that] off win in \<open>auto simp: add.assoc\<close>)
    then show ?thesis using in_x[OF that] off by (simp add: slice_at_def)
  qed
  then show "analyse_channels subbands stride offset [0..<channels] x = Some (spec_block subbands channels h')"
    using analyse_channels_eq[of "[0..<channels]" stride offset subbands x "\<lambda>ch. window_of (10 * subbands) (h' ch)"]
    by (simp add: spec_block_def)
qed

lemma filter_block_refines:
  assumes rel: "an_rel subbands channels h a" and len: "length pcm = subbands * channels"
  defines "h' \<equiv> add_block channels pcm h" and "stride \<equiv> an_ch_stride a" and "offset \<equiv> an_max_shift a - an_shift_counter a"
  shows "\<exists>a'. filter_block subbands channels a pcm = Some (a', spec_block subbands channels h') \<and> an_rel subbands channels h' a'"
proof -
  note sz = an_rel_sizes(1-7)[OF rel, folded stride_def] and off = an_rel_sizes(8)[OF rel, folded stride_def offset_def]
  obtain x where x: "store_block stride (offset + subbands - 1) 0 (chunks_exact channels pcm) (an_x a) = Some x" "length x = length (an_x a)"
    and cell: "\<And>ch k. ch < channels \<Longrightarrow> k < 10 * subbands \<Longrightarrow> x ! (ch * stride + (offset + k)) = window_of (10 * subbands) (h' ch) ! k"
    using block_stored[OF rel len] unfolding h'_def stride_def offset_def by blast
  have out: "analyse_channels subbands stride offset [0..<channels] x = Some (spec_block subbands channels h')"
    using block_analysed[OF rel len x(2)] cell unfolding h'_def stride_def offset_def by blast
  show ?thesis
  proof (cases "an_max_shift a \<le> an_shift_counter a")
    case True
    then have o0: "offset = 0" "an_max_shift a + subbands - subbands - an_shift_counter a = 0" by (simp_all add: offset_def)
    define dst where "dst = an_max_shift a + subbands"
    obtain x' where x': "shift_up stride 0 dst (9 * subbands) [0..<channels] x = Some x'" "length x' = length x"
      "\<forall>ch\<in>{0..<channels}. \<forall>k<9 * subbands. x' ! (ch * stride + dst + k) = x ! (ch * stride + 0 + k)"
      using shift_up_cells[of 0 "9 * subbands" stride dst "[0..<channels]" channels x] sz x(2) by (auto simp: dst_def)
    let ?a = "a\<lparr> an_x := x', an_shift_counter := 0 \<rparr>"
    have "filter_block subbands channels a pcm = Some (?a, spec_block subbands channels h')"
      using x(1) out x'(1) True o0 by (simp add: filter_block_def Let_def dst_def flip: stride_def offset_def)
    moreover have "an_rel subbands channels h' ?a"
    proof -
      have "x' ! (ch * stride + an_max_shift a + subbands + k) = window_of (9 * subbands) (h' ch) ! k"
        if "ch < channels" "k < 9 * subbands" for ch k
        using x'(3) cell[of ch k] that o0(1) window_of_take[of "9 * subbands" "10 * subbands" "h' ch", symmetric]
        by (simp add: dst_def add.assoc)
      then show ?thesis using sz x(2) x'(2) by (simp add: an_rel_def an_sizes_def stride_def)
    qed
    ultimately show ?thesis by blast
  next
    case False
    let ?a = "a\<lparr> an_x := x, an_shift_counter := an_shift_counter a + subbands \<rparr>"
    have "subbands dvd offset" using sz(5-7) by (simp add: offset_def dvd_diff_nat)
    then have "subbands \<le> offset" using False by (intro dvd_imp_le) (auto simp: offset_def)
    then have o: "an_max_shift a - (an_shift_counter a + subbands) + subbands = offset" "an_shift_counter a + subbands \<le> an_max_shift a"
      using False by (auto simp: offset_def)
    have "filter_block subbands channels a pcm = Some (?a, spec_block subbands channels h')"
      using x(1) out False by (simp add: filter_block_def Let_def flip: stride_def offset_def)
    moreover have "an_rel subbands channels h' ?a"
    proof -
      have "x ! (ch * stride + (an_max_shift a - (an_shift_counter a + subbands)) + subbands + k) = window_of (9 * subbands) (h' ch) ! k"
        if "ch < channels" "k < 9 * subbands" for ch k
        using cell[of ch k] that window_of_take[of "9 * subbands" "10 * subbands" "h' ch", symmetric] o(1)
        by (simp add: add.assoc)
      then show ?thesis using sz x(2) o(2) by (simp add: an_rel_def an_sizes_def stride_def)
    qed
    ultimately show ?thesis by blast
  qed
qed

subsection \<open>Streams\<close>

fun spec_blocks :: "nat \<Rightarrow> nat \<Rightarrow> (nat \<Rightarrow> int list) \<Rightarrow> int list list \<Rightarrow> int list" where
  "spec_blocks subbands channels h [] = []"
| "spec_blocks subbands channels h (b # bs) =
     spec_block subbands channels (add_block channels b h) @ spec_blocks subbands channels (add_block channels b h) bs"

lemma filter_blocks_refines:
  assumes "an_rel subbands channels h a" "\<forall>b\<in>set bs. length b = subbands * channels"
  shows "\<exists>a'. filter_blocks subbands channels a bs = Some (a', spec_blocks subbands channels h bs)
     \<and> an_rel subbands channels (fold (add_block channels) bs h) a'"
  using assms
proof (induction bs arbitrary: h a)
  case (Cons b bs)
  let ?h = "add_block channels b h"
  obtain a1 where a1: "filter_block subbands channels a b = Some (a1, spec_block subbands channels ?h)" "an_rel subbands channels ?h a1"
    using filter_block_refines[OF Cons.prems(1), of b] Cons.prems(2) by auto
  then obtain a' where "filter_blocks subbands channels a1 bs = Some (a', spec_blocks subbands channels ?h bs)"
    "an_rel subbands channels (fold (add_block channels) bs ?h) a'"
    using Cons.IH[OF a1(2)] Cons.prems(2) by auto
  then show ?case using a1(1) by simp
qed simp

lemma spec_blocks_append:
  "spec_blocks subbands channels h (bs @ cs) =
     spec_blocks subbands channels h bs @ spec_blocks subbands channels (fold (add_block channels) bs h) cs"
  by (induction bs arbitrary: h) simp_all

lemma spec_blocks_nth:
  "spec_blocks subbands channels h bs =
     concat (map (\<lambda>i. spec_block subbands channels (fold (add_block channels) (take (i + 1) bs) h)) [0..<length bs])"
proof (induction bs rule: rev_induct)
  case (snoc b bs)
  define g where "g = (\<lambda>bs i. spec_block subbands channels (fold (add_block channels) (take (i + 1) bs) h))"
  have "map (g (bs @ [b])) [0..<length bs] = map (g bs) [0..<length bs]" by (simp add: g_def)
  then have "concat (map (g (bs @ [b])) [0..<length (bs @ [b])]) = concat (map (g bs) [0..<length bs]) @ g (bs @ [b]) (length bs)"
    by (simp del: map_eq_conv)
  moreover have "spec_blocks subbands channels h bs = concat (map (g bs) [0..<length bs])" using snoc by (simp add: g_def)
  moreover have "g (bs @ [b]) (length bs) = spec_block subbands channels (add_block channels b (fold (add_block channels) bs h))"
    by (simp add: g_def)
  ultimately have "spec_blocks subbands channels h (bs @ [b]) = concat (map (g (bs @ [b])) [0..<length (bs @ [b])])"
    by (simp add: spec_blocks_append)
  then show ?case by (simp only: g_def)
qed simp

lemma chunks_exact_append:
  "0 < n \<Longrightarrow> length xs = k * n \<Longrightarrow> chunks_exact n (xs @ ys) = chunks_exact n xs @ chunks_exact n ys"
proof (induction k arbitrary: xs)
  case 0
  then show ?case by (simp add: chunks_exact.simps[of n "[]"])
next
  case (Suc k)
  have "chunks_exact n (xs @ ys) = take n xs # chunks_exact n (drop n xs @ ys)"
    using Suc.prems by (subst chunks_exact.simps) simp
  also have "chunks_exact n (drop n xs @ ys) = chunks_exact n (drop n xs) @ chunks_exact n ys"
    using Suc by simp
  also have "take n xs # chunks_exact n (drop n xs) @ chunks_exact n ys = chunks_exact n xs @ chunks_exact n ys"
    using Suc.prems by (subst (2) chunks_exact.simps) simp
  finally show ?case .
qed

lemma concat_chunks:
  "0 < n \<Longrightarrow> k * n \<le> length xs \<Longrightarrow> concat (take k (chunks_exact n xs)) = take (k * n) xs"
proof (induction k arbitrary: xs)
  case (Suc k)
  have "chunks_exact n xs = take n xs # chunks_exact n (drop n xs)"
    using Suc.prems by (subst chunks_exact.simps) simp
  then have "concat (take (Suc k) (chunks_exact n xs)) = take n xs @ take (k * n) (drop n xs)"
    using Suc.IH[of "drop n xs"] Suc.prems by simp
  also have "\<dots> = take (n + k * n) xs" by (rule take_add[symmetric])
  finally show ?case by simp
qed simp

lemma channel_of_append:
  "0 < channels \<Longrightarrow> length xs = k * channels \<Longrightarrow>
   channel_of channels ch (xs @ ys) = channel_of channels ch xs @ channel_of channels ch ys"
  by (simp add: channel_of_def chunks_exact_append)

lemma fold_add_block:
  assumes "0 < channels" "\<forall>b\<in>set bs. length b = subbands * channels"
  shows "fold (add_block channels) bs (\<lambda>_. []) = (\<lambda>ch. rev (channel_of channels ch (concat bs)))"
  using assms(2)
proof (induction bs rule: rev_induct)
  case Nil
  then show ?case using assms(1) by (simp add: channel_of_def chunks_exact.simps[of channels "[]"])
next
  case (snoc b bs)
  have "length (concat bs) = (length bs * subbands) * channels"
    using snoc.prems by (induction bs) (auto simp: algebra_simps)
  then have "channel_of channels ch (concat bs @ b) = channel_of channels ch (concat bs) @ channel_of channels ch b" for ch
    by (rule channel_of_append[OF assms(1)])
  then show ?case using snoc by (simp add: fun_eq_iff add_block_def)
qed

text \<open>Calls of \<^verbatim>\<open>filter\<close> in a row, as the encoder makes them, with what the buffer holds after each.\<close>

fun filter_calls :: "nat \<Rightarrow> nat \<Rightarrow> nat \<Rightarrow> analysis \<Rightarrow> int list \<Rightarrow> int list list \<Rightarrow> (analysis \<times> int list list) option" where
  "filter_calls subbands channels blocks a sb [] = Some (a, [])"
| "filter_calls subbands channels blocks a sb (pcm # pcms) =
     Option.bind (analysis_filter a pcm subbands channels blocks sb) (\<lambda>(a, sb).
       map_option (\<lambda>(a, outs). (a, sb # outs)) (filter_calls subbands channels blocks a sb pcms))"

lemma length_analyse: "length (analyse subbands x) = (if subbands = 4 then 4 else 8)"
  by (simp add: analyse_def idct4_def idct8_def idct8_even_def idct8_odd_def Let_def)

lemma length_spec_block:
  "subbands = 4 \<or> subbands = 8 \<Longrightarrow> length (spec_block subbands channels h) = subbands * channels"
  by (auto simp: spec_block_def length_concat comp_def length_analyse sum_list_triv)

lemma length_spec_blocks:
  "subbands = 4 \<or> subbands = 8 \<Longrightarrow> length (spec_blocks subbands channels h bs) = length bs * (subbands * channels)"
  by (induction bs arbitrary: h) (simp_all add: length_spec_block)

lemma analysis_filter_refines:
  assumes rel: "an_rel subbands channels h a" and sub: "subbands = 4 \<or> subbands = 8"
    and len: "length pcm = blocks * (subbands * channels)" "length sb = blocks * (subbands * channels)"
  defines "bs \<equiv> chunks_exact (subbands * channels) pcm"
  shows "\<exists>a'. analysis_filter a pcm subbands channels blocks sb = Some (a', spec_blocks subbands channels h bs)
     \<and> an_rel subbands channels (fold (add_block channels) bs h) a'"
proof -
  have "0 < channels" using rel by (simp add: an_rel_def an_sizes_def)
  then have n: "0 < subbands * channels" using sub by auto
  have bs: "length bs = blocks" "\<forall>b\<in>set bs. length b = subbands * channels"
    "length (chunks_exact (subbands * channels) sb) = blocks"
    using chunks_exact_props[OF n, of pcm] chunks_exact_props[OF n, of sb] len n by (simp_all add: bs_def)
  obtain a' where "filter_blocks subbands channels a bs = Some (a', spec_blocks subbands channels h bs)"
    "an_rel subbands channels (fold (add_block channels) bs h) a'"
    using filter_blocks_refines[OF rel bs(2)] by blast
  moreover have "length (spec_blocks subbands channels h bs) = length sb"
    using length_spec_blocks[OF sub] bs(1) len(2) by simp
  ultimately show ?thesis using bs by (simp add: analysis_filter_def Let_def flip: bs_def)
qed

lemma filter_calls_refines:
  assumes "an_rel subbands channels h a" "subbands = 4 \<or> subbands = 8"
    and "\<forall>pcm\<in>set pcms. length pcm = blocks * (subbands * channels)" "length sb = blocks * (subbands * channels)"
  shows "\<exists>a' outs. filter_calls subbands channels blocks a sb pcms = Some (a', outs)
     \<and> concat outs = spec_blocks subbands channels h (chunks_exact (subbands * channels) (concat pcms))"
  using assms(1,3,4)
proof (induction pcms arbitrary: h a sb)
  case Nil
  then have "0 < subbands * channels" by (simp add: an_rel_def an_sizes_def)
  then show ?case by (simp add: chunks_exact.simps[of _ "[]"])
next
  case (Cons pcm pcms)
  let ?n = "subbands * channels" and ?bs = "chunks_exact (subbands * channels) pcm"
  have n: "0 < ?n" using Cons.prems(1) assms(2) by (auto simp: an_rel_def an_sizes_def)
  obtain a1 where a1: "analysis_filter a pcm subbands channels blocks sb = Some (a1, spec_blocks subbands channels h ?bs)"
    "an_rel subbands channels (fold (add_block channels) ?bs h) a1"
    using analysis_filter_refines[OF Cons.prems(1) assms(2) _ Cons.prems(3), of pcm] Cons.prems(2) by auto
  have "length ?bs = blocks" using chunks_exact_props[OF n, of pcm] Cons.prems(2) n by simp
  then obtain a' outs where "filter_calls subbands channels blocks a1 (spec_blocks subbands channels h ?bs) pcms = Some (a', outs)"
    "concat outs = spec_blocks subbands channels (fold (add_block channels) ?bs h) (chunks_exact ?n (concat pcms))"
    using Cons.IH[OF a1(2), of "spec_blocks subbands channels h ?bs"] Cons.prems(2) length_spec_blocks[OF assms(2)] by auto
  moreover have "chunks_exact ?n (pcm @ concat pcms) = ?bs @ chunks_exact ?n (concat pcms)"
    using chunks_exact_append[OF n, of pcm blocks] Cons.prems(2) by simp
  ultimately show ?case using a1(1) by (simp add: spec_blocks_append)
qed

subsection \<open>Ranges\<close>

text \<open>A sample is 16 bits. The rows of a window use different samples, so the sums are bounded one by one;
  the transforms are linear in them up to the rounding of the right shifts.\<close>

definition is_i16 :: "int \<Rightarrow> bool" where
  "is_i16 s \<longleftrightarrow> - (2 ^ 15) \<le> s \<and> s < 2 ^ 15"

definition i16_list :: "int list \<Rightarrow> bool" where
  "i16_list xs \<longleftrightarrow> list_all is_i16 xs"

lemma row_bound:
  assumes "\<And>j. j < 5 \<Longrightarrow> is_i16 (g j)" "length c = 5"
  shows "\<bar>row c g\<bar> \<le> 32768 * sum_list (map abs c)"
proof -
  have p: "\<bar>cj * g j\<bar> \<le> 32768 * \<bar>cj\<bar>" if "j < 5" for cj j
    using mult_left_mono[of "\<bar>g j\<bar>" 32768 "\<bar>cj\<bar>"] assms(1)[OF that] by (auto simp: is_i16_def abs_mult ac_simps)
  have five: "[0..<5] = [0, 1, 2, 3, 4 :: nat]" by (simp add: upt_rec)
  obtain c0 c1 c2 c3 c4 where c: "c = [c0, c1, c2, c3, c4]"
    using assms(2) by (auto simp: numeral_eq_Suc length_Suc_conv)
  show ?thesis
    using p[of 0 c0] p[of 1 c1] p[of 2 c2] p[of 3 c3] p[of 4 c4]
    unfolding row_def c five by (simp add: abs_le_iff)
qed

lemma zero_row_bounds:
  fixes a b c d :: int
  assumes "- 32768 \<le> a" "a \<le> 32767" "- 32768 \<le> b" "b \<le> 32767" "- 32768 \<le> c" "c \<le> 32767"
    "- 32768 \<le> d" "d \<le> 32767"
  shows "\<bar>0x0166 * (a - b) + 0x115B * (c - d)\<bar> \<le> 314638336"
    and "\<bar>0x00B9 * (a - b) + 0x08B4 * (c - d)\<bar> \<le> 158138368"
  using assms by (simp_all add: abs_le_iff)

lemma middle_row_bounds:
  fixes a b c d e :: int
  assumes "- 32768 \<le> a" "a \<le> 32767" "- 32768 \<le> b" "b \<le> 32767" "- 32768 \<le> c" "c \<le> 32767"
    "- 32768 \<le> d" "d \<le> 32767" "- 32768 \<le> e" "e \<le> 32767"
  shows "\<bar>0x007E * (a + b) + 0x0350 * (c + d) + 0x25AC * e\<bar> \<le> 379846656"
    and "\<bar>0x0042 * (a + b) + 0x01A8 * (c + d) + 0x12CF * e\<bar> \<le> 189890560"
  using assms by (simp_all add: abs_le_iff)

definition Y4 :: "int list" where
  "Y4 = [314638336, 318537728, 330334208, 350912512, 379846656, 350912512, 330334208, 318537728]"

definition Y8 :: "int list" where
  "Y8 = [158138368, 158760960, 160071680, 161939456, 165675008, 168394752, 175407104, 186220544, 189890560,
     186220544, 175407104, 168394752, 165675008, 161939456, 160071680, 158760960]"

lemma W8_norms:
  "(k, b) \<in> set [(1, 158760960), (2, 160071680), (3, 161939456), (4, 165675008), (5, 168394752), (6, 175407104), (7, 186220544)] \<Longrightarrow>
   0 < k \<and> k < 8 \<and> length (W8 ! (k - 1)) = 5 \<and> 32768 * sum_list (map abs (W8 ! (k - 1))) = b"
  by (auto simp: W8_def c16_def)

lemma window8_bounds:
  assumes "i16_list x" "length x = 80"
  shows "list_all2 (\<lambda>v b. \<bar>v\<bar> \<le> b) (window8 x) Y8"
proof -
  have s: "is_i16 (x ! i)" if "i < 80" for i using assms that by (simp add: i16_list_def list_all_length)
  then have r: "- 32768 \<le> x ! i \<and> x ! i \<le> 32767" if "i < 80" for i using that by (fastforce simp: is_i16_def)
  have t: "\<bar>row (W8 ! (k - 1)) (\<lambda>j. x ! (16 * j + k))\<bar> \<le> b"
    and t2: "\<bar>row (W8 ! (k - 1)) (\<lambda>j. x ! (16 * (4 - j) + 16 - k))\<bar> \<le> b"
    if kb: "(k, b) \<in> set [(1, 158760960), (2, 160071680), (3, 161939456), (4, 165675008), (5, 168394752), (6, 175407104), (7, 186220544)]" for k b
  proof -
    have "0 < k" "k < 8" "length (W8 ! (k - 1)) = 5" and b: "32768 * sum_list (map abs (W8 ! (k - 1))) = b"
      using W8_norms[OF kb] by blast+
    then show "\<bar>row (W8 ! (k - 1)) (\<lambda>j. x ! (16 * j + k))\<bar> \<le> b"
      "\<bar>row (W8 ! (k - 1)) (\<lambda>j. x ! (16 * (4 - j) + 16 - k))\<bar> \<le> b"
      unfolding b[symmetric] by (auto intro!: row_bound s)
  qed
  have e: "\<bar>0x00B9 * (x ! 16 - x ! 64) + 0x08B4 * (x ! 32 - x ! 48)\<bar> \<le> 158138368"
    "\<bar>0x0042 * (x ! 8 + x ! 72) + 0x01A8 * (x ! 24 + x ! 56) + 0x12CF * x ! 40\<bar> \<le> 189890560"
    by (rule zero_row_bounds; simp add: r) (rule middle_row_bounds; simp add: r)
  show ?thesis
    unfolding window8_def Let_def Y8_def list_all2_Cons by (intro conjI e t t2; simp)
qed

lemma W4_norms:
  "(k, b) \<in> set [(1, 318537728), (2, 330334208), (3, 350912512)] \<Longrightarrow>
   0 < k \<and> k < 4 \<and> length (W4 ! (k - 1)) = 5 \<and> 32768 * sum_list (map abs (W4 ! (k - 1))) = b"
  by (auto simp: W4_def c16_def)

lemma window4_bounds:
  assumes "i16_list x" "length x = 40"
  shows "list_all2 (\<lambda>v b. \<bar>v\<bar> \<le> b) (window4 x) Y4"
proof -
  have s: "is_i16 (x ! i)" if "i < 40" for i using assms that by (simp add: i16_list_def list_all_length)
  then have r: "- 32768 \<le> x ! i \<and> x ! i \<le> 32767" if "i < 40" for i using that by (fastforce simp: is_i16_def)
  have t: "\<bar>row (W4 ! (k - 1)) (\<lambda>j. x ! (8 * j + k))\<bar> \<le> b"
    and t2: "\<bar>row (W4 ! (k - 1)) (\<lambda>j. x ! (8 * (4 - j) + 8 - k))\<bar> \<le> b"
    if kb: "(k, b) \<in> set [(1, 318537728), (2, 330334208), (3, 350912512)]" for k b
  proof -
    have "0 < k" "k < 4" "length (W4 ! (k - 1)) = 5" and b: "32768 * sum_list (map abs (W4 ! (k - 1))) = b"
      using W4_norms[OF kb] by blast+
    then show "\<bar>row (W4 ! (k - 1)) (\<lambda>j. x ! (8 * j + k))\<bar> \<le> b"
      "\<bar>row (W4 ! (k - 1)) (\<lambda>j. x ! (8 * (4 - j) + 8 - k))\<bar> \<le> b"
      unfolding b[symmetric] by (auto intro!: row_bound s)
  qed
  have e: "\<bar>0x0166 * (x ! 8 - x ! 32) + 0x115B * (x ! 16 - x ! 24)\<bar> \<le> 314638336"
    "\<bar>0x007E * (x ! 4 + x ! 36) + 0x0350 * (x ! 12 + x ! 28) + 0x25AC * x ! 20\<bar> \<le> 379846656"
    by (rule zero_row_bounds; simp add: r) (rule middle_row_bounds; simp add: r)
  show ?thesis
    unfolding window4_def Let_def Y4_def list_all2_Cons by (intro conjI e t t2; simp)
qed

lemma wrap32_small: "\<bar>x\<bar> < 2 ^ 31 \<Longrightarrow> wrap32 x = x"
  by (rule wrap32_id) auto

lemma abs_wrap32: "\<bar>wrap32 x\<bar> \<le> 2 ^ 31"
proof -
  have "0 \<le> (x + 2 ^ 31) mod 2 ^ 32" "(x + 2 ^ 31) mod 2 ^ 32 < 2 ^ 32" by simp_all
  then show ?thesis unfolding wrap32_def by simp
qed

lemma half_bound: "\<bar>a\<bar> \<le> 2 * b \<Longrightarrow> \<bar>a div 2\<bar> \<le> b" for a b :: int
  by linarith

lemma floor15: "32768 * (a div 32768) \<le> a" "a < 32768 * (a div 32768) + 32768" for a :: int
  using pos_mod_bound[of 32768 a] pos_mod_sign[of 32768 a] minus_mult_div_eq_mod[of a 32768] by linarith+

lemma mult_eq:
  assumes "\<bar>v\<bar> < 2 ^ 31" "0 \<le> c" "c \<le> 32768"
  shows "mult c v = c * v div 32768"
proof -
  have "\<bar>c * v\<bar> \<le> 32768 * \<bar>v\<bar>" using assms(2,3) by (simp add: abs_mult mult_right_mono)
  then have "\<bar>c * v\<bar> < 32768 * 2 ^ 31" using assms(1) by linarith
  then have "\<bar>c * v div 32768\<bar> \<le> 2 ^ 31" "c * v div 32768 < 2 ^ 31" by auto
  then show ?thesis by (simp add: mult_def wrap32_id)
qed

lemma mult_floor:
  assumes "\<bar>v\<bar> < 2 ^ 31" "0 \<le> c" "c \<le> 32768"
  shows "32768 * mult c v \<le> c * v" "c * v < 32768 * mult c v + 32768"
  using floor15[of "c * v"] by (simp_all add: mult_eq[OF assms])

lemma mult_abs:
  assumes "\<bar>v\<bar> \<le> b" "b \<le> 2 ^ 31" "0 \<le> c" "c \<le> 32768" "c * b < 32768 * d"
  shows "\<bar>mult c v\<bar> \<le> d"
proof -
  have "\<bar>c * v\<bar> \<le> c * b" using assms(1,3) by (simp add: abs_mult mult_left_mono)
  then have "\<bar>c * v\<bar> < 32768 * d" using assms(5) by linarith
  moreover have "c * b \<le> 32768 * 2 ^ 31" using assms(1-4) mult_mono[of c 32768 b "2 ^ 31"] by auto
  ultimately have "\<bar>c * v div 32768\<bar> \<le> d" "- (2 ^ 31) \<le> c * v div 32768" "c * v div 32768 \<le> 2 ^ 31"
    using \<open>\<bar>c * v\<bar> \<le> c * b\<close> by auto
  then show ?thesis unfolding mult_def by (cases "c * v div 32768 = 2 ^ 31") (auto simp: wrap32_def)
qed

lemma wrap_small:
  "\<bar>a + b\<bar> < 2 ^ 31 \<Longrightarrow> wadd a b = a + b" "\<bar>a - b\<bar> < 2 ^ 31 \<Longrightarrow> wsub a b = a - b" "\<bar>a * 2\<bar> < 2 ^ 31 \<Longrightarrow> shl1 a = 2 * a"
  by (simp_all add: wadd_def wsub_def shl1_def wrap32_small)

lemmas cosines = COS_PI_4_def COS_PI_8_def COS_3PI_8_def COS_PI_16_def COS_3PI_16_def COS_5PI_16_def COS_7PI_16_def

lemma odd_core:
  fixes X1 X3 X5 X7 m5 m7 f3 f7 :: int
  assumes "- 165167104 \<le> X1" "X1 \<le> 165167104" "- 172490752 \<le> X3" "X3 \<le> 172490752"
    "- 172490752 \<le> X5" "X5 \<le> 172490752" "- 165167104 \<le> X7" "X7 \<le> 165167104"
    and "32768 * m5 \<le> 46340 * X5 - 46340 * X7" "46340 * X5 - 46340 * X7 < 32768 * m5 + 32768"
    and "32768 * m7 \<le> 92680 * X7" "92680 * X7 < 32768 * m7 + 32768"
    and "32768 * f3 \<le> 60546 * X3 - 60546 * X5 + 30273 * m7" "60546 * X3 - 60546 * X5 + 30273 * m7 < 32768 * f3 + 32768"
    and "32768 * f7 \<le> 25078 * X3 - 25078 * X5 - 12539 * m7" "25078 * X3 - 25078 * X5 - 12539 * m7 < 32768 * f7 + 32768"
  shows "\<bar>X1 - X3 + X5 - X7 + m5\<bar> < 2147483648" "\<bar>X1 - X3 + X5 - X7 - m5\<bar> < 2147483648"
    "\<bar>X1 - X3 + X5 - X7 + m5 + f3\<bar> \<le> 445000000"
    "\<bar>X1 - X3 + X5 - X7 - m5 + f7\<bar> \<le> 522000000"
    "\<bar>X1 - X3 + X5 - X7 - m5 - f7\<bar> \<le> 780000000"
  using assms unfolding abs_le_iff abs_less_iff by - (intro conjI; linarith)+

lemma even_core:
  fixes y4 X2 X4 X6 f0 g0 g4 m6 g2 g6 :: int
  assumes "- 165675008 \<le> y4" "y4 \<le> 165675008" "- 167739392 \<le> X2" "X2 \<le> 167739392"
    "- 174014464 \<le> X4" "X4 \<le> 174014464" "- 167739392 \<le> X6" "X6 \<le> 167739392"
    and "32768 * f0 \<le> 23170 * y4" "23170 * y4 < 32768 * f0 + 32768"
    and "32768 * g0 \<le> 23170 * f0 + 23170 * X4" "23170 * f0 + 23170 * X4 < 32768 * g0 + 32768"
    and "32768 * g4 \<le> 23170 * f0 - 23170 * X4" "23170 * f0 - 23170 * X4 < 32768 * g4 + 32768"
    and "32768 * m6 \<le> 46340 * X6" "46340 * X6 < 32768 * m6 + 32768"
    and "32768 * g2 \<le> 30273 * X2 - 30273 * X6 + 30273 * m6" "30273 * X2 - 30273 * X6 + 30273 * m6 < 32768 * g2 + 32768"
    and "32768 * g6 \<le> 12539 * X2 - 12539 * X6 - 12539 * m6" "12539 * X2 - 12539 * X6 - 12539 * m6 < 32768 * g6 + 32768"
  shows "\<bar>g0 + g2\<bar> \<le> 426000000" "\<bar>g4 + g6\<bar> \<le> 426000000" "\<bar>g4 - g6\<bar> \<le> 426000000" "\<bar>g0 - g2\<bar> \<le> 426000000"
  using assms unfolding abs_le_iff by - (intro conjI; linarith)+

lemma bound_nth: "list_all2 (\<lambda>v b. \<bar>v\<bar> \<le> b) y Y \<Longrightarrow> k < length Y \<Longrightarrow> \<bar>y ! k\<bar> \<le> (Y ! k :: int)"
  by (simp add: list_all2_conv_all_nth)

lemma half_sum: "\<bar>a\<bar> \<le> A \<Longrightarrow> \<bar>b\<bar> \<le> B \<Longrightarrow> A + B < 2 ^ 31 \<Longrightarrow> 2 * c = A + B \<Longrightarrow>
    wadd a b div 2 = (a + b) div 2 \<and> - c \<le> (a + b) div 2 \<and> (a + b) div 2 \<le> c
    \<and> wsub a b div 2 = (a - b) div 2 \<and> - c \<le> (a - b) div 2 \<and> (a - b) div 2 \<le> c"
  unfolding wadd_def wsub_def by (subst wrap32_small, simp)+ auto

lemma idct8_odd_bounds:
  assumes "list_all2 (\<lambda>v b. \<bar>v\<bar> \<le> b) y Y8"
  shows "\<exists>a b c d. idct8_odd y = [a, b, c, d] \<and> \<bar>a\<bar> \<le> 437000000 \<and> \<bar>b\<bar> \<le> 437000000 \<and> \<bar>c\<bar> \<le> 437000000 \<and> \<bar>d\<bar> \<le> 437000000"
proof -
  have y: "\<bar>y ! k\<bar> \<le> Y8 ! k" if "k < 16" for k using bound_nth[OF assms, of k] that by (simp add: Y8_def)
  define X1 where "X1 = (y ! 3 + y ! 5) div 2"
  define X3 where "X3 = (y ! 1 + y ! 7) div 2"
  define X5 where "X5 = (y ! 9 - y ! 15) div 2"
  define X7 where "X7 = (y ! 11 - y ! 13) div 2"
  have X1: "wadd (y ! 3) (y ! 5) div 2 = X1" "- 165167104 \<le> X1" "X1 \<le> 165167104"
    using half_sum[of "y ! 3" 161939456 "y ! 5" 168394752 165167104] y[of 3] y[of 5] by (simp_all add: X1_def Y8_def)
  have X3: "wadd (y ! 1) (y ! 7) div 2 = X3" "- 172490752 \<le> X3" "X3 \<le> 172490752"
    using half_sum[of "y ! 1" 158760960 "y ! 7" 186220544 172490752] y[of 1] y[of 7] by (simp_all add: X3_def Y8_def)
  have X5: "wsub (y ! 9) (y ! 15) div 2 = X5" "- 172490752 \<le> X5" "X5 \<le> 172490752"
    using half_sum[of "y ! 9" 186220544 "y ! 15" 158760960 172490752] y[of 9] y[of 15] by (simp_all add: X5_def Y8_def)
  have X7: "wsub (y ! 11) (y ! 13) div 2 = X7" "- 165167104 \<le> X7" "X7 \<le> 165167104"
    using half_sum[of "y ! 11" 168394752 "y ! 13" 161939456 165167104] y[of 11] y[of 13] by (simp_all add: X7_def Y8_def)
  note B = X1(2,3) X3(2,3) X5(2,3) X7(2,3)
  have w: "shl1 X7 = 2 * X7" "wsub (shl1 X5) (2 * X7) = 2 * X5 - 2 * X7"
    "wsub (shl1 X3) (2 * X5 - 2 * X7) = 2 * X3 - 2 * X5 + 2 * X7"
    "wsub X1 ((2 * X3 - 2 * X5 + 2 * X7) div 2) = X1 - X3 + X5 - X7"
    "wsub (2 * X3 - 2 * X5 + 2 * X7) (2 * X7) = 2 * X3 - 2 * X5" "shl1 (2 * X7) = 4 * X7"
    using B by (simp_all add: shl1_def wsub_def wrap32_small)
  define m5 where "m5 = mult COS_PI_4 (2 * X5 - 2 * X7)"
  define m7 where "m7 = mult COS_PI_4 (4 * X7)"
  have m5: "32768 * m5 \<le> 46340 * X5 - 46340 * X7" "46340 * X5 - 46340 * X7 < 32768 * m5 + 32768"
    using mult_floor[of "2 * X5 - 2 * X7" COS_PI_4] B by (simp_all add: m5_def cosines)
  have m7: "32768 * m7 \<le> 92680 * X7" "92680 * X7 < 32768 * m7 + 32768"
    using mult_floor[of "4 * X7" COS_PI_4] B by (simp_all add: m7_def cosines)
  have v: "\<bar>2 * X3 - 2 * X5 + m7\<bar> < 2147483648" "\<bar>2 * X3 - 2 * X5 - m7\<bar> < 2147483648"
    unfolding abs_less_iff using B m7 by - (intro conjI; linarith)+
  define f3 where "f3 = mult COS_PI_8 (2 * X3 - 2 * X5 + m7)"
  define f7 where "f7 = mult COS_3PI_8 (2 * X3 - 2 * X5 - m7)"
  have f3: "32768 * f3 \<le> 60546 * X3 - 60546 * X5 + 30273 * m7" "60546 * X3 - 60546 * X5 + 30273 * m7 < 32768 * f3 + 32768"
    using mult_floor[of "2 * X3 - 2 * X5 + m7" COS_PI_8] v(1) by (simp_all add: f3_def cosines algebra_simps)
  have f7: "32768 * f7 \<le> 25078 * X3 - 25078 * X5 - 12539 * m7" "25078 * X3 - 25078 * X5 - 12539 * m7 < 32768 * f7 + 32768"
    using mult_floor[of "2 * X3 - 2 * X5 - m7" COS_3PI_8] v(2) by (simp_all add: f7_def cosines algebra_simps)
  note c = odd_core[OF B m5 m7 f3 f7]
  have e: "wadd (2 * X3 - 2 * X5) m7 = 2 * X3 - 2 * X5 + m7" "wsub (2 * X3 - 2 * X5) m7 = 2 * X3 - 2 * X5 - m7"
    using v by (simp_all add: wrap_small)
  have e': "wadd (X1 - X3 + X5 - X7) m5 = X1 - X3 + X5 - X7 + m5" "wsub (X1 - X3 + X5 - X7) m5 = X1 - X3 + X5 - X7 - m5"
    using c(1,2) by (simp_all add: wrap_small)
  have e'': "wadd (X1 - X3 + X5 - X7 + m5) f3 = X1 - X3 + X5 - X7 + m5 + f3"
    "wadd (X1 - X3 + X5 - X7 - m5) f7 = X1 - X3 + X5 - X7 - m5 + f7"
    "wsub (X1 - X3 + X5 - X7 - m5) f7 = X1 - X3 + X5 - X7 - m5 - f7"
    using c(3-5) by (simp_all add: wrap_small)
  have "idct8_odd y = [mult COS_PI_16 (X1 - X3 + X5 - X7 + m5 + f3), mult COS_3PI_16 (X1 - X3 + X5 - X7 - m5 + f7),
      mult COS_5PI_16 (X1 - X3 + X5 - X7 - m5 - f7), mult COS_7PI_16 (wsub (X1 - X3 + X5 - X7 + m5) f3)]"
    unfolding idct8_odd_def Let_def X1(1) X3(1) X5(1) X7(1) w m5_def[symmetric] m7_def[symmetric] e e'
      f3_def[symmetric] f7_def[symmetric] e'' ..
  moreover have "\<bar>mult COS_PI_16 (X1 - X3 + X5 - X7 + m5 + f3)\<bar> \<le> 437000000"
    by (rule mult_abs[OF c(3)]) (simp_all add: cosines)
  moreover have "\<bar>mult COS_3PI_16 (X1 - X3 + X5 - X7 - m5 + f7)\<bar> \<le> 437000000"
    by (rule mult_abs[OF c(4)]) (simp_all add: cosines)
  moreover have "\<bar>mult COS_5PI_16 (X1 - X3 + X5 - X7 - m5 - f7)\<bar> \<le> 437000000"
    by (rule mult_abs[OF c(5)]) (simp_all add: cosines)
  moreover have "\<bar>mult COS_7PI_16 (wsub (X1 - X3 + X5 - X7 + m5) f3)\<bar> \<le> 437000000"
    by (rule mult_abs[of _ "2 ^ 31"]) (simp_all add: wsub_def abs_wrap32[simplified] cosines)
  ultimately show ?thesis by blast
qed

lemma idct8_even_bounds:
  assumes "list_all2 (\<lambda>v b. \<bar>v\<bar> \<le> b) y Y8"
  shows "\<exists>a b c d. idct8_even y = [a, b, c, d] \<and> \<bar>a\<bar> \<le> 426000000 \<and> \<bar>b\<bar> \<le> 426000000 \<and> \<bar>c\<bar> \<le> 426000000 \<and> \<bar>d\<bar> \<le> 426000000"
proof -
  have y: "\<bar>y ! k\<bar> \<le> Y8 ! k" if "k < 16" for k using bound_nth[OF assms, of k] that by (simp add: Y8_def)
  define X2 where "X2 = (y ! 2 + y ! 6) div 2"
  define X4 where "X4 = (y ! 0 + y ! 8) div 2"
  define X6 where "X6 = (y ! 10 - y ! 14) div 2"
  have y4: "- 165675008 \<le> y ! 4" "y ! 4 \<le> 165675008" using y[of 4] by (simp_all add: Y8_def abs_le_iff)
  have X2: "wadd (y ! 2) (y ! 6) div 2 = X2" "- 167739392 \<le> X2" "X2 \<le> 167739392"
    using half_sum[of "y ! 2" 160071680 "y ! 6" 175407104 167739392] y[of 2] y[of 6] by (simp_all add: X2_def Y8_def)
  have X4: "wadd (y ! 0) (y ! 8) div 2 = X4" "- 174014464 \<le> X4" "X4 \<le> 174014464"
    using half_sum[of "y ! 0" 158138368 "y ! 8" 189890560 174014464] y[of 0] y[of 8] by (simp_all add: X4_def Y8_def)
  have X6: "wsub (y ! 10) (y ! 14) div 2 = X6" "- 167739392 \<le> X6" "X6 \<le> 167739392"
    using half_sum[of "y ! 10" 175407104 "y ! 14" 160071680 167739392] y[of 10] y[of 14] by (simp_all add: X6_def Y8_def)
  note B = y4 X2(2,3) X4(2,3) X6(2,3)
  define f0 where "f0 = mult COS_PI_4 (y ! 4)"
  have f0: "32768 * f0 \<le> 23170 * y ! 4" "23170 * y ! 4 < 32768 * f0 + 32768"
    using mult_floor[of "y ! 4" COS_PI_4] y4 by (simp_all add: f0_def cosines)
  have v: "\<bar>f0 + X4\<bar> < 2147483648" "\<bar>f0 - X4\<bar> < 2147483648"
    unfolding abs_less_iff using B f0 by - (intro conjI; linarith)+
  define g0 where "g0 = mult COS_PI_4 (f0 + X4)"
  define g4 where "g4 = mult COS_PI_4 (f0 - X4)"
  define m6 where "m6 = mult COS_PI_4 (2 * X6)"
  have g0: "32768 * g0 \<le> 23170 * f0 + 23170 * X4" "23170 * f0 + 23170 * X4 < 32768 * g0 + 32768"
    using mult_floor[of "f0 + X4" COS_PI_4] v(1) by (simp_all add: g0_def cosines algebra_simps)
  have g4: "32768 * g4 \<le> 23170 * f0 - 23170 * X4" "23170 * f0 - 23170 * X4 < 32768 * g4 + 32768"
    using mult_floor[of "f0 - X4" COS_PI_4] v(2) by (simp_all add: g4_def cosines algebra_simps)
  have m6: "32768 * m6 \<le> 46340 * X6" "46340 * X6 < 32768 * m6 + 32768"
    using mult_floor[of "2 * X6" COS_PI_4] B by (simp_all add: m6_def cosines)
  have u: "\<bar>X2 - X6 + m6\<bar> < 2147483648" "\<bar>X2 - X6 - m6\<bar> < 2147483648"
    unfolding abs_less_iff using B m6 by - (intro conjI; linarith)+
  define g2 where "g2 = mult COS_PI_8 (X2 - X6 + m6)"
  define g6 where "g6 = mult COS_3PI_8 (X2 - X6 - m6)"
  have g2: "32768 * g2 \<le> 30273 * X2 - 30273 * X6 + 30273 * m6" "30273 * X2 - 30273 * X6 + 30273 * m6 < 32768 * g2 + 32768"
    using mult_floor[of "X2 - X6 + m6" COS_PI_8] u(1) by (simp_all add: g2_def cosines algebra_simps)
  have g6: "32768 * g6 \<le> 12539 * X2 - 12539 * X6 - 12539 * m6" "12539 * X2 - 12539 * X6 - 12539 * m6 < 32768 * g6 + 32768"
    using mult_floor[of "X2 - X6 - m6" COS_3PI_8] u(2) by (simp_all add: g6_def cosines algebra_simps)
  note c = even_core[OF B f0 g0 g4 m6 g2 g6]
  have e: "wadd f0 X4 = f0 + X4" "wsub f0 X4 = f0 - X4" using v by (simp_all add: wrap_small)
  have e2: "wsub X2 X6 = X2 - X6" "shl1 X6 = 2 * X6" using X2(2,3) X6(2,3) by (simp_all add: wrap_small)
  have e3: "wadd (X2 - X6) m6 = X2 - X6 + m6" "wsub (X2 - X6) m6 = X2 - X6 - m6" using u by (simp_all add: wrap_small)
  have e4: "wadd g0 g2 = g0 + g2" "wadd g4 g6 = g4 + g6" "wsub g4 g6 = g4 - g6" "wsub g0 g2 = g0 - g2"
    using c by (simp_all add: wrap_small)
  have "idct8_even y = [g0 + g2, g4 + g6, g4 - g6, g0 - g2]"
    unfolding idct8_even_def Let_def X2(1) X4(1) X6(1) f0_def[symmetric] e e2 g0_def[symmetric] g4_def[symmetric]
      m6_def[symmetric] e3 g2_def[symmetric] g6_def[symmetric] e4 ..
  then show ?thesis using c by blast
qed

lemma wrap_sum_small:
  assumes "\<bar>a\<bar> \<le> 426000000" "\<bar>b\<bar> \<le> 437400000"
  shows "\<bar>wadd a b\<bar> \<le> 1073741824 \<and> \<bar>wsub a b\<bar> \<le> 1073741824"
proof -
  have "\<bar>a + b\<bar> \<le> 863400000" "\<bar>a - b\<bar> \<le> 863400000" using assms by linarith+
  then show ?thesis by (simp add: wadd_def wsub_def wrap32_small)
qed

lemma idct4_centre:
  fixes x2 a t0 :: int
  assumes "- 165167104 \<le> x2" "x2 \<le> 165167104" "- 694484992 \<le> a" "a \<le> 694484992"
    and "32768 * t0 \<le> 11585 * a" "11585 * a < 32768 * t0 + 32768"
  shows "\<bar>x2 - t0\<bar> \<le> 426000000" "\<bar>t0 + x2\<bar> \<le> 426000000"
  using assms unfolding abs_le_iff by - (intro conjI; linarith)+

lemma idct4_sides:
  fixes b c t2 t3 t4 t5 :: int
  assumes "- 669450240 \<le> b" "b \<le> 669450240" "- 669450240 \<le> c" "c \<le> 669450240"
    and "32768 * t3 \<le> 6269 * b" "6269 * b < 32768 * t3 + 32768"
    and "32768 * t2 \<le> 15136 * b" "15136 * b < 32768 * t2 + 32768"
    and "32768 * t5 \<le> 6269 * c" "6269 * c < 32768 * t5 + 32768"
    and "32768 * t4 \<le> 15136 * c" "15136 * c < 32768 * t4 + 32768"
  shows "\<bar>t2 + t5\<bar> \<le> 437400000" "\<bar>t3 - t4\<bar> \<le> 437400000"
  using assms unfolding abs_le_iff by - (intro conjI; linarith)+

lemma idct4_bounds:
  assumes "list_all2 (\<lambda>v b. \<bar>v\<bar> \<le> b) y Y4"
  shows "list_all (\<lambda>v. \<bar>v\<bar> \<le> 2 ^ 30) (idct4 y)"
proof -
  have y: "\<bar>y ! k\<bar> \<le> Y4 ! k" if "k < 8" for k using bound_nth[OF assms, of k] that by (simp add: Y4_def)
  define x2 where "x2 = y ! 2 div 2"
  have x2: "- 165167104 \<le> x2" "x2 \<le> 165167104" using half_bound[of "y ! 2" 165167104] y[of 2] by (simp_all add: Y4_def x2_def)
  have a: "- 694484992 \<le> y ! 0 + y ! 4" "y ! 0 + y ! 4 \<le> 694484992"
    using y[of 0] y[of 4] by (simp_all add: Y4_def abs_le_iff)
  have b: "- 669450240 \<le> y ! 1 + y ! 3" "y ! 1 + y ! 3 \<le> 669450240"
    using y[of 1] y[of 3] by (simp_all add: Y4_def abs_le_iff)
  have c: "- 669450240 \<le> y ! 5 - y ! 7" "y ! 5 - y ! 7 \<le> 669450240"
    using y[of 5] y[of 7] by (simp_all add: Y4_def abs_le_iff)
  have w: "wadd (y ! 0) (y ! 4) = y ! 0 + y ! 4" "wadd (y ! 1) (y ! 3) = y ! 1 + y ! 3" "wsub (y ! 5) (y ! 7) = y ! 5 - y ! 7"
    using a b c by (simp_all add: wadd_def wsub_def wrap32_small)
  define t0 where "t0 = mult (COS_PI_4 div 2) (y ! 0 + y ! 4)"
  define t3 where "t3 = mult (COS_3PI_8 div 2) (y ! 1 + y ! 3)"
  define t2 where "t2 = mult (COS_PI_8 div 2) (y ! 1 + y ! 3)"
  define t5 where "t5 = mult (COS_3PI_8 div 2) (y ! 5 - y ! 7)"
  define t4 where "t4 = mult (COS_PI_8 div 2) (y ! 5 - y ! 7)"
  have t0: "32768 * t0 \<le> 11585 * (y ! 0 + y ! 4)" "11585 * (y ! 0 + y ! 4) < 32768 * t0 + 32768"
    unfolding t0_def using mult_floor[of "y ! 0 + y ! 4" 11585] a by (simp_all add: cosines)
  have t3: "32768 * t3 \<le> 6269 * (y ! 1 + y ! 3)" "6269 * (y ! 1 + y ! 3) < 32768 * t3 + 32768"
    unfolding t3_def using mult_floor[of "y ! 1 + y ! 3" 6269] b by (simp_all add: cosines)
  have t2: "32768 * t2 \<le> 15136 * (y ! 1 + y ! 3)" "15136 * (y ! 1 + y ! 3) < 32768 * t2 + 32768"
    unfolding t2_def using mult_floor[of "y ! 1 + y ! 3" 15136] b by (simp_all add: cosines)
  have t5: "32768 * t5 \<le> 6269 * (y ! 5 - y ! 7)" "6269 * (y ! 5 - y ! 7) < 32768 * t5 + 32768"
    unfolding t5_def using mult_floor[of "y ! 5 - y ! 7" 6269] c by (simp_all add: cosines)
  have t4: "32768 * t4 \<le> 15136 * (y ! 5 - y ! 7)" "15136 * (y ! 5 - y ! 7) < 32768 * t4 + 32768"
    unfolding t4_def using mult_floor[of "y ! 5 - y ! 7" 15136] c by (simp_all add: cosines)
  note k = idct4_centre[OF x2 a t0] and m = idct4_sides[OF b c t3 t2 t5 t4]
  have e: "wsub x2 t0 = x2 - t0" "wadd t0 x2 = t0 + x2" "wadd t2 t5 = t2 + t5" "wsub t3 t4 = t3 - t4"
    using k m by (simp_all add: wrap_small)
  have "idct4 y = [wadd (t0 + x2) (t2 + t5), wadd (x2 - t0) (t3 - t4), wsub (x2 - t0) (t3 - t4), wsub (t0 + x2) (t2 + t5)]"
    unfolding idct4_def Let_def x2_def[symmetric] w t0_def[symmetric] t3_def[symmetric] t2_def[symmetric]
      t5_def[symmetric] t4_def[symmetric] e ..
  then show ?thesis using wrap_sum_small[OF k(1) m(2)] wrap_sum_small[OF k(2) m(1)] by simp
qed

lemma idct8_bounds:
  assumes "list_all2 (\<lambda>v b. \<bar>v\<bar> \<le> b) y Y8"
  shows "list_all (\<lambda>v. \<bar>v\<bar> \<le> 2 ^ 30) (idct8 y)"
proof -
  have s: "\<bar>wadd a b\<bar> \<le> 1073741824 \<and> \<bar>wsub a b\<bar> \<le> 1073741824" if "\<bar>a\<bar> \<le> 426000000" "\<bar>b\<bar> \<le> 437000000" for a b
    using that by (intro wrap_sum_small) auto
  show ?thesis using idct8_odd_bounds[OF assms] idct8_even_bounds[OF assms] s by (auto simp: idct8_def Let_def)
qed

lemma analyse_bounds:
  assumes "i16_list x" "length x = 10 * subbands" "subbands = 4 \<or> subbands = 8"
  shows "list_all (\<lambda>v. \<bar>v\<bar> \<le> 2 ^ 30) (analyse subbands x)"
  using assms window4_bounds[of x] window8_bounds[of x] idct4_bounds[of "window4 x"] idct8_bounds[of "window8 x"]
  by (auto simp: analyse_def)

lemma spec_block_bounds:
  assumes "subbands = 4 \<or> subbands = 8" "\<forall>ch<channels. i16_list (h ch)"
  shows "list_all (\<lambda>v. \<bar>v\<bar> \<le> 2 ^ 30) (spec_block subbands channels h)"
proof -
  have "i16_list (window_of (10 * subbands) (h ch))" "length (window_of (10 * subbands) (h ch)) = 10 * subbands" if "ch < channels" for ch
    using assms(2) that by (auto simp: window_of_def i16_list_def list_all_iff is_i16_def dest: in_set_takeD)
  then show ?thesis
    using analyse_bounds[OF _ _ assms(1)] by (fastforce simp: spec_block_def list_all_iff)
qed

subsection \<open>Properties\<close>

text \<open>C3. The analysis filter is a filter over the whole stream: over any number of calls, every access to
  the history array is within it, and block \<open>i\<close> of the output is the transform of, per channel, the
  last ten blocks of samples up to block \<open>i\<close> (silence before the stream), however often the array was
  shifted in between.\<close>

theorem analysis_refines:
  assumes "subbands = 4 \<or> subbands = 8" "channels = 1 \<or> channels = 2"
    and "\<forall>pcm\<in>set pcms. length pcm = blocks * (subbands * channels)" "length sb = blocks * (subbands * channels)"
  shows "\<exists>a' outs. filter_calls subbands channels blocks (analysis_new subbands channels) sb pcms = Some (a', outs)
     \<and> concat outs = concat (map (\<lambda>i. concat (map (\<lambda>ch. analyse subbands
           (window_of (10 * subbands) (rev (channel_of channels ch (take ((i + 1) * (subbands * channels)) (concat pcms))))))
         [0..<channels])) [0..<length (concat pcms) div (subbands * channels)])"
proof -
  let ?n = "subbands * channels" and ?s = "concat pcms"
  have n: "0 < ?n" "0 < channels" using assms(1,2) by auto
  let ?bs = "chunks_exact ?n ?s"
  have bs: "length ?bs = length ?s div ?n" "\<forall>b\<in>set ?bs. length b = ?n" using chunks_exact_props[OF n(1)] by blast+
  have "fold (add_block channels) (take (i + 1) ?bs) (\<lambda>_. []) = (\<lambda>ch. rev (channel_of channels ch (take ((i + 1) * ?n) ?s)))"
    if "i < length ?s div ?n" for i
  proof -
    have "(i + 1) * ?n \<le> length ?s" using that n(1) by (metis Suc_eq_plus1 Suc_leI less_eq_div_iff_mult_less_eq)
    then have "concat (take (i + 1) ?bs) = take ((i + 1) * ?n) ?s" by (rule concat_chunks[OF n(1)])
    then show ?thesis using fold_add_block[OF n(2), of "take (i + 1) ?bs" subbands] bs(2) by (auto dest: in_set_takeD)
  qed
  then have "spec_blocks subbands channels (\<lambda>_. []) ?bs = concat (map (\<lambda>i. spec_block subbands channels
      (\<lambda>ch. rev (channel_of channels ch (take ((i + 1) * ?n) ?s)))) [0..<length ?s div ?n])"
    unfolding spec_blocks_nth bs(1) by (intro arg_cong[of _ _ concat] map_cong) auto
  then show ?thesis
    using filter_calls_refines[OF an_rel_new[OF assms(1,2)] assms(1,3,4)] by (simp add: spec_block_def)
qed

theorem analysis_refines_witness:
  "\<exists>a' outs. filter_calls 4 1 1 (analysis_new 4 1) [0, 0, 0, 0] [[1, 2, 3, 4], [5, 6, 7, 8]] = Some (a', outs)
     \<and> length (concat outs) = 8"
proof -
  obtain a' outs where c: "filter_calls 4 1 1 (analysis_new 4 1) [0, 0, 0, 0] [[1, 2, 3, 4], [5, 6, 7, 8]] = Some (a', outs)"
     "concat outs = concat (map (\<lambda>i. concat (map (\<lambda>ch. analyse 4 (window_of 40 (rev (channel_of 1 ch (take ((i + 1) * 4) [1, 2, 3, 4, 5, 6, 7, 8])))))
         [0..<1])) [0..<2])"
    using analysis_refines[of 4 1 "[[1, 2, 3, 4], [5, 6, 7, 8]]" 1 "[0, 0, 0, 0]"] by auto
  have "length (concat outs) = 8" unfolding c(2) by (simp add: length_analyse upt_rec)
  then show ?thesis using c(1) by blast
qed

text \<open>C21. Subband samples stay in the range the quantizer needs: for any 16-bit samples, also extreme ones for
  which an intermediate value of the eight-band transform wraps around, every subband sample is within
  \<open>2 ^ 30\<close>, the most that scale factor 15 covers.\<close>

theorem subband_samples_range:
  assumes "list_all (\<lambda>s. - 32768 \<le> s \<and> s \<le> 32767) x" "length x = 10 * subbands" "subbands = 4 \<or> subbands = 8"
  shows "list_all (\<lambda>v. \<bar>v\<bar> \<le> 2 ^ 30) (analyse subbands x)"
proof -
  have "is_i16 = (\<lambda>s. - 32768 \<le> s \<and> s \<le> 32767)" by (auto simp: is_i16_def)
  then have "i16_list x" using assms(1) by (simp add: i16_list_def)
  then show ?thesis by (rule analyse_bounds[OF _ assms(2,3)])
qed

theorem subband_samples_range_witness:
  "list_all (\<lambda>v. \<bar>v\<bar> \<le> 2 ^ 30) (analyse 8 (replicate 40 32767 @ replicate 40 (- 32768)))"
  using subband_samples_range[of "replicate 40 32767 @ replicate 40 (- 32768)" 8] by (simp add: list_all_iff)

end
