(* ===== verification/Sbc_Frame.thy ===== *)
theory Sbc_Frame
  imports Sbc_Analysis
begin

text \<open>
  Encoding one SBC frame, \<^verbatim>\<open>SbcFrameEncoder\<close> of \<^verbatim>\<open>app/src/crates/codec/src/sbc/frame.rs\<close>: the analysis filter, the
  scale factors, the joint stereo decision, the bit allocation and the packing, composed as \<^verbatim>\<open>encode\<close> does.
  The fixed arrays of the encoder are lists of the same lengths; the buffers \<^verbatim>\<open>lr_sum\<close>, \<^verbatim>\<open>lr_diff\<close> and
  \<^verbatim>\<open>bitneed\<close> only carry values from one line to the next. A panic or an endless loop of a part is \<open>None\<close>.

  Shown: in every state an encoder reaches, a frame is encoded without a panic, has the length of the A2DP formula
  and the layout of the specification, every sample is within its scale factor and in its field, and the bit
  allocation is the one a receiver computes from the frame itself.
\<close>

subsection \<open>Scale factors\<close>

definition wrapping_abs :: "int \<Rightarrow> int" where
  "wrapping_abs v = wrap32 \<bar>v\<bar>"

function sf_loop :: "int \<Rightarrow> nat \<Rightarrow> nat" where
  "sf_loop peak count = (if count < 15 \<and> 0x8000 * 2 ^ count < peak then sf_loop peak (count + 1) else count)"
  by pat_completeness auto
termination by (relation "measure (\<lambda>(_, c). 15 - c)") auto

declare sf_loop.simps [simp del]

definition scale_factor :: "int \<Rightarrow> nat" where
  "scale_factor peak = sf_loop peak (if 0x800000 < peak then 9 else 0)"

definition peak_of :: "int list \<Rightarrow> int" where
  "peak_of vs = foldl (\<lambda>m v. max m (wrapping_abs v)) 0 vs"

text \<open>\<^verbatim>\<open>iter().step_by(n)\<close>.\<close>

fun step_by :: "nat \<Rightarrow> 'a list \<Rightarrow> 'a list" where
  "step_by n [] = []"
| "step_by n (x # xs) = x # step_by n (drop (n - 1) xs)"

subsection \<open>Joint stereo\<close>

record joint_state =
  js_sb :: "int list"
  js_scf :: "int list"
  js_join :: "bool list"
  js_max_bit :: nat

definition put_columns :: "nat \<Rightarrow> nat \<Rightarrow> nat \<Rightarrow> int list \<Rightarrow> int list \<Rightarrow> nat list \<Rightarrow> int list \<Rightarrow> int list" where
  "put_columns nsc s t sums diffs blks sb =
     foldl (\<lambda>sb blk. sb[blk * nsc + s := sums ! blk, blk * nsc + t := diffs ! blk]) sb blks"

definition joint_step :: "nat \<Rightarrow> nat \<Rightarrow> nat \<Rightarrow> joint_state \<Rightarrow> joint_state" where
  "joint_step n blocks s j =
     (let nsc = 2 * n;
          l = (\<lambda>blk. js_sb j ! (blk * nsc + s)); r = (\<lambda>blk. js_sb j ! (blk * nsc + n + s));
          lr_sum = map (\<lambda>blk. wrap32 (l blk + r blk) div 2) [0..<blocks];
          lr_diff = map (\<lambda>blk. wrap32 (l blk - r blk) div 2) [0..<blocks];
          count_sum = scale_factor (peak_of lr_sum);
          count_diff = scale_factor (peak_of lr_diff)
      in if int (count_sum + count_diff) < js_scf j ! s + js_scf j ! (n + s)
         then \<lparr> js_sb = put_columns nsc s (n + s) lr_sum lr_diff [0..<blocks] (js_sb j),
                js_scf = (js_scf j)[s := int count_sum, n + s := int count_diff],
                js_join = (js_join j)[s := True],
                js_max_bit = max (max (js_max_bit j) count_sum) count_diff \<rparr>
         else j\<lparr> js_join := (js_join j)[s := False] \<rparr>)"

definition joint_stereo :: "nat \<Rightarrow> nat \<Rightarrow> joint_state \<Rightarrow> joint_state" where
  "joint_stereo n blocks j =
     (let j = foldl (\<lambda>j s. joint_step n blocks s j) j [0..<n - 1]
      in j\<lparr> js_join := (js_join j)[n - 1 := False] \<rparr>)"

subsection \<open>The frame encoder\<close>

record frame_state =
  fs_enc :: frame_encoder
  fs_analysis :: analysis
  fs_sb :: "int list"
  fs_scale_factor :: "int list"
  fs_bits :: "int list"
  fs_join :: "bool list"

definition MAX_SUBBANDS :: nat where "MAX_SUBBANDS = 8"
definition MAX_CHANNELS :: nat where "MAX_CHANNELS = 2"
definition MAX_BLOCKS :: nat where "MAX_BLOCKS = 16"

lemmas frame_maxima = MAX_SUBBANDS_def MAX_CHANNELS_def MAX_BLOCKS_def

definition frame_state_new :: "sbc_config \<Rightarrow> encoder_error + frame_state" where
  "frame_state_new c =
     (case frame_encoder_new c of
        Inl e \<Rightarrow> Inl e
      | Inr fe \<Rightarrow> Inr \<lparr> fs_enc = fe, fs_analysis = analysis_new (fe_subbands fe) (fe_channels fe),
          fs_sb = replicate (MAX_CHANNELS * MAX_SUBBANDS * MAX_BLOCKS) 0,
          fs_scale_factor = replicate (MAX_CHANNELS * MAX_SUBBANDS) 0,
          fs_bits = replicate (MAX_CHANNELS * MAX_SUBBANDS) 0, fs_join = replicate MAX_SUBBANDS False \<rparr>)"

definition fs_set_bitpool :: "frame_state \<Rightarrow> u8 \<Rightarrow> frame_state" where
  "fs_set_bitpool st bp = st\<lparr> fs_enc := frame_set_bitpool (fs_enc st) bp \<rparr>"

definition alloc_of :: "frame_encoder \<Rightarrow> alloc_params" where
  "alloc_of fe = \<lparr> al_subbands = fe_subbands fe, al_freq_index = fe_freq_index fe, al_snr = fe_snr fe,
     al_bitpool = uint (fe_alloc_bitpool fe) \<rparr>"

definition allocate :: "frame_encoder \<Rightarrow> nat \<Rightarrow> int list \<Rightarrow> int list \<Rightarrow> int list option" where
  "allocate fe max_bit scf bits =
     (if sc_channel_mode (fe_config fe) = Stereo \<or> sc_channel_mode (fe_config fe) = JointStereo
      then stereo_alloc (alloc_of fe) (int max_bit) scf bits
      else mono_alloc (alloc_of fe) (fe_channels fe) scf bits)"

text \<open>Scale factors per channel and subband, and the largest of them.\<close>

definition scale_factors :: "nat \<Rightarrow> int list \<Rightarrow> nat list" where
  "scale_factors nsc sb = map (\<lambda>i. scale_factor (peak_of (step_by nsc (drop i sb)))) [0..<nsc]"

definition frame_joint :: "frame_state \<Rightarrow> int list \<Rightarrow> joint_state" where
  "frame_joint st sb =
     (let fe = fs_enc st; nsc = fe_channels fe * fe_subbands fe;
          counts = scale_factors nsc (take (fe_blocks fe * nsc) sb);
          j = \<lparr> js_sb = sb, js_scf = map int counts @ drop nsc (fs_scale_factor st), js_join = fs_join st,
                js_max_bit = foldl max 0 counts \<rparr>
      in if sc_channel_mode (fe_config fe) = JointStereo then joint_stereo (fe_subbands fe) (fe_blocks fe) j else j)"

definition frame_of :: "frame_encoder \<Rightarrow> joint_state \<Rightarrow> int list \<Rightarrow> sbc_frame" where
  "frame_of fe j bits =
     \<lparr> fr_header = fe_header fe, fr_bitpool = fe_bitpool fe, fr_joint = (sc_channel_mode (fe_config fe) = JointStereo),
       fr_join = js_join j, fr_channels = fe_channels fe, fr_subbands = fe_subbands fe, fr_blocks = fe_blocks fe,
       fr_scale_factor = js_scf j, fr_bits = bits, fr_sb = js_sb j \<rparr>"

definition frame_encode :: "frame_state \<Rightarrow> int list \<Rightarrow> bytes \<Rightarrow> (encoder_error + frame_state \<times> bytes \<times> nat) option" where
  "frame_encode st pcm out =
     (let fe = fs_enc st; expected = pcm_samples fe; need = max_frame_len fe;
          n = fe_blocks fe * (fe_channels fe * fe_subbands fe)
      in if length pcm \<noteq> expected then Some (Inl (InputLength expected (length pcm)))
         else if length out < need then Some (Inl (OutputTooSmall (length out) need))
         else Option.bind (analysis_filter (fs_analysis st) pcm (fe_subbands fe) (fe_channels fe) (fe_blocks fe)
                (take n (fs_sb st))) (\<lambda>(a, sb).
              let j = frame_joint st (sb @ drop n (fs_sb st))
              in Option.bind (allocate fe (js_max_bit j) (js_scf j) (fs_bits st)) (\<lambda>bits.
                 map_option (\<lambda>(out, len).
                     Inr (st\<lparr> fs_analysis := a, fs_sb := js_sb j, fs_scale_factor := js_scf j, fs_bits := bits,
                             fs_join := js_join j \<rparr>, out, len))
                   (pack (frame_of fe j bits) out))))"

subsection \<open>Scale factors, proved\<close>

lemma sf_loop_props:
  "c \<le> 15 \<Longrightarrow> c \<le> sf_loop p c \<and> sf_loop p c \<le> 15 \<and> (p \<le> 2 ^ 30 \<longrightarrow> p \<le> 2 ^ (15 + sf_loop p c))
     \<and> (c < sf_loop p c \<longrightarrow> 2 ^ (14 + sf_loop p c) < p)"
proof (induction p c rule: sf_loop.induct)
  case (1 p c)
  show ?case
  proof (cases "c < 15 \<and> 0x8000 * 2 ^ c < p")
    case True
    then have e: "sf_loop p c = sf_loop p (c + 1)" by (simp add: sf_loop.simps[of p c])
    have "sf_loop p (c + 1) = c + 1 \<Longrightarrow> 2 ^ (14 + (c + 1)) < p" using True by (simp add: power_add)
    with True 1 show ?thesis unfolding e by fastforce
  next
    case False
    then have e: "sf_loop p c = c" by (subst sf_loop.simps) (simp only: if_False)
    show ?thesis
    proof (cases "c < 15")
      case True
      then show ?thesis using False "1.prems" by (simp add: e power_add)
    next
      case False
      then have "c = 15" using "1.prems" by simp
      then show ?thesis using e by simp
    qed
  qed
qed

text \<open>The scale factor is the smallest that covers the peak (15 at most); the shortcut of the search changes nothing.\<close>

lemma scale_factor_props:
  "scale_factor p \<le> 15" "p \<le> 2 ^ 30 \<Longrightarrow> p \<le> 2 ^ (15 + scale_factor p)" "0 < scale_factor p \<Longrightarrow> 2 ^ (14 + scale_factor p) < p"
proof -
  let ?c = "if 0x800000 < p then 9 else 0 :: nat"
  note s = sf_loop_props[of ?c p, folded scale_factor_def]
  show "scale_factor p \<le> 15" "p \<le> 2 ^ 30 \<Longrightarrow> p \<le> 2 ^ (15 + scale_factor p)" using s by (auto split: if_splits)
  show "2 ^ (14 + scale_factor p) < p" if "0 < scale_factor p"
  proof (cases "?c < scale_factor p")
    case False
    then have "scale_factor p = 9" "0x800000 < p" using s that by (auto split: if_splits)
    then show ?thesis by simp
  qed (use s in \<open>auto split: if_splits\<close>)
qed

lemma foldl_peak: "m \<le> foldl (\<lambda>m v. max m (wrapping_abs v)) m vs \<and> (\<forall>v\<in>set vs. wrapping_abs v \<le> foldl (\<lambda>m v. max m (wrapping_abs v)) m vs)
    \<and> (\<forall>b. m \<le> b \<and> (\<forall>v\<in>set vs. wrapping_abs v \<le> b) \<longrightarrow> foldl (\<lambda>m v. max m (wrapping_abs v)) m vs \<le> b)"
proof (induction vs arbitrary: m)
  case (Cons v vs)
  show ?case using Cons[of "max m (wrapping_abs v)"] by auto
qed simp

lemma wrapping_abs_small: "\<bar>v\<bar> \<le> 2 ^ 30 \<Longrightarrow> wrapping_abs v = \<bar>v\<bar>"
  by (simp add: wrapping_abs_def wrap32_small)

lemma scale_factor_covers:
  assumes "\<forall>v\<in>set vs. \<bar>v\<bar> \<le> 2 ^ 30" "v \<in> set vs"
  shows "\<bar>v\<bar> \<le> 2 ^ (15 + scale_factor (peak_of vs))"
proof -
  have "\<bar>v\<bar> \<le> peak_of vs" "peak_of vs \<le> 2 ^ 30"
    using foldl_peak[of 0 vs] assms wrapping_abs_small by (auto simp: peak_of_def)
  then show ?thesis using scale_factor_props(2)[of "peak_of vs"] by linarith
qed

lemma step_by_nth:
  "0 < n \<Longrightarrow> k * n < length xs \<Longrightarrow> k < length (step_by n xs) \<and> step_by n xs ! k = xs ! (k * n)"
proof (induction n xs arbitrary: k rule: step_by.induct)
  case (2 n x xs)
  show ?case
  proof (cases k)
    case (Suc k')
    then have "k' * n < length (drop (n - 1) xs)" using "2.prems" by auto
    moreover have "(x # xs) ! (Suc k' * n) = drop (n - 1) xs ! (k' * n)"
      using "2.prems" Suc by (simp add: nth_Cons' )
    ultimately show ?thesis using "2.IH"[of k'] "2.prems"(1) Suc by auto
  qed simp
qed simp

lemma set_step_by: "set (step_by n xs) \<subseteq> set xs"
  by (induction n xs rule: step_by.induct) (auto dest: in_set_dropD)

text \<open>Every sample is within its scale factor.\<close>

definition covered :: "nat \<Rightarrow> nat \<Rightarrow> int list \<Rightarrow> int list \<Rightarrow> bool" where
  "covered nsc blocks sb scf \<longleftrightarrow> (\<forall>b<blocks. \<forall>i<nsc. \<bar>sb ! (b * nsc + i)\<bar> \<le> 2 ^ nat (scf ! i + 15))"

definition small :: "int list \<Rightarrow> bool" where
  "small sb \<longleftrightarrow> list_all (\<lambda>v. \<bar>v\<bar> \<le> 2 ^ 30) sb"

lemma scale_factors_cover:
  assumes "small sb" "length sb = blocks * nsc" "b < blocks" "i < nsc"
  shows "\<bar>sb ! (b * nsc + i)\<bar> \<le> 2 ^ (15 + scale_factors nsc sb ! i)"
proof -
  let ?col = "step_by nsc (drop i sb)"
  have l: "b * nsc + i < length sb" using assms(2-4) mult_le_mono1[of "Suc b" blocks nsc] by simp
  then have "b < length ?col \<and> ?col ! b = sb ! (b * nsc + i)"
    using step_by_nth[of nsc b "drop i sb"] assms(4) by (simp add: add.commute)
  then have "sb ! (b * nsc + i) \<in> set ?col" by (metis nth_mem)
  moreover have "\<forall>v\<in>set ?col. \<bar>v\<bar> \<le> 2 ^ 30"
    using assms(1) set_step_by[of nsc "drop i sb"] set_drop_subset[of i sb] by (auto simp: small_def list_all_iff)
  ultimately show ?thesis using scale_factor_covers[of ?col] assms(4) by (simp add: scale_factors_def)
qed

lemma scale_factors_props: "length (scale_factors nsc sb) = nsc" "i < nsc \<Longrightarrow> scale_factors nsc sb ! i \<le> 15"
  by (simp_all add: scale_factors_def scale_factor_props)

subsection \<open>Joint stereo, proved\<close>

lemma put_columns_nth:
  assumes "s < nsc" "t < nsc" "s \<noteq> t" "blocks * nsc \<le> length sb" "k \<le> blocks"
  shows "length (put_columns nsc s t sums diffs [0..<k] sb) = length sb
     \<and> (\<forall>b i. b < blocks \<and> i < nsc \<longrightarrow> put_columns nsc s t sums diffs [0..<k] sb ! (b * nsc + i) =
          (if b < k \<and> i = s then sums ! b else if b < k \<and> i = t then diffs ! b else sb ! (b * nsc + i)))"
  using assms(5)
proof (induction k)
  case 0
  then show ?case by (simp add: put_columns_def)
next
  case (Suc k)
  let ?sb = "put_columns nsc s t sums diffs [0..<k] sb"
  have e: "put_columns nsc s t sums diffs [0..<Suc k] sb = ?sb[k * nsc + s := sums ! k, k * nsc + t := diffs ! k]"
    by (simp add: put_columns_def)
  have ih: "length ?sb = length sb"
    "\<And>b i. b < blocks \<Longrightarrow> i < nsc \<Longrightarrow> ?sb ! (b * nsc + i) =
       (if b < k \<and> i = s then sums ! b else if b < k \<and> i = t then diffs ! b else sb ! (b * nsc + i))"
    using Suc by auto
  have "?sb[k * nsc + s := sums ! k, k * nsc + t := diffs ! k] ! (b * nsc + i) =
      (if b < Suc k \<and> i = s then sums ! b else if b < Suc k \<and> i = t then diffs ! b else sb ! (b * nsc + i))"
    if bi: "b < blocks" "i < nsc" for b i
  proof -
    have l: "b * nsc + i < length sb" using cell_less[OF bi(2,1) assms(4)] .
    have c: "k * nsc + s = b * nsc + i \<longleftrightarrow> k = b \<and> s = i" "k * nsc + t = b * nsc + i \<longleftrightarrow> k = b \<and> t = i"
      using cell_eq[of s nsc i k b] cell_eq[of t nsc i k b] assms(1,2) bi(2) by auto
    show ?thesis using l c ih bi assms(3) by (auto simp: nth_list_update less_Suc_eq)
  qed
  then show ?case unfolding e using ih(1) by simp
qed

definition joint_inv :: "nat \<Rightarrow> nat \<Rightarrow> joint_state \<Rightarrow> bool" where
  "joint_inv nsc blocks j \<longleftrightarrow> length (js_sb j) = 256 \<and> length (js_scf j) = 16 \<and> length (js_join j) = 8
     \<and> (\<forall>b<blocks. \<forall>i<nsc. \<bar>js_sb j ! (b * nsc + i)\<bar> \<le> 2 ^ 30)
     \<and> (\<forall>i<nsc. 0 \<le> js_scf j ! i \<and> js_scf j ! i \<le> 15 \<and> js_scf j ! i \<le> int (js_max_bit j))
     \<and> covered nsc blocks (js_sb j) (js_scf j)"

lemma half_wrap_small: "\<bar>wrap32 x div 2\<bar> \<le> 2 ^ 30"
  using abs_wrap32[of x] by auto

lemma joint_step_inv:
  assumes inv: "joint_inv (2 * n) blocks j" and n: "n \<le> 8" "s < n" "blocks \<le> 16"
  shows "joint_inv (2 * n) blocks (joint_step n blocks s j)"
proof -
  define sums where "sums = map (\<lambda>blk. wrap32 (js_sb j ! (blk * (2 * n) + s) + js_sb j ! (blk * (2 * n) + n + s)) div 2) [0..<blocks]"
  define diffs where "diffs = map (\<lambda>blk. wrap32 (js_sb j ! (blk * (2 * n) + s) - js_sb j ! (blk * (2 * n) + n + s)) div 2) [0..<blocks]"
  define cs where "cs = scale_factor (peak_of sums)"
  define cd where "cd = scale_factor (peak_of diffs)"
  have small: "\<forall>v\<in>set sums. \<bar>v\<bar> \<le> 2 ^ 30" "\<forall>v\<in>set diffs. \<bar>v\<bar> \<le> 2 ^ 30"
    by (auto simp: sums_def diffs_def half_wrap_small[simplified])
  have l: "length sums = blocks" "length diffs = blocks" by (simp_all add: sums_def diffs_def)
  have cover: "b < blocks \<Longrightarrow> \<bar>sums ! b\<bar> \<le> 2 ^ (15 + cs)" "b < blocks \<Longrightarrow> \<bar>diffs ! b\<bar> \<le> 2 ^ (15 + cd)" for b
    using scale_factor_covers[OF small(1)] scale_factor_covers[OF small(2)] l by (auto simp: cs_def cd_def)
  show ?thesis
  proof (cases "int (cs + cd) < js_scf j ! s + js_scf j ! (n + s)")
    case False
    then have "joint_step n blocks s j = j\<lparr> js_join := (js_join j)[s := False] \<rparr>"
      unfolding joint_step_def Let_def sums_def[symmetric] diffs_def[symmetric] cs_def[symmetric] cd_def[symmetric] by simp
    then show ?thesis using inv by (simp add: joint_inv_def)
  next
    case True
    define sb where "sb = put_columns (2 * n) s (n + s) sums diffs [0..<blocks] (js_sb j)"
    have e: "joint_step n blocks s j = \<lparr> js_sb = sb, js_scf = (js_scf j)[s := int cs, n + s := int cd],
        js_join = (js_join j)[s := True], js_max_bit = max (max (js_max_bit j) cs) cd \<rparr>"
      using True unfolding joint_step_def Let_def sums_def[symmetric] diffs_def[symmetric] cs_def[symmetric] cd_def[symmetric] sb_def
      by simp
    have "blocks * (2 * n) \<le> 256" using mult_le_mono[of blocks 16 "2 * n" 16] n by simp
    then have sb: "length sb = 256"
      "\<And>b i. b < blocks \<Longrightarrow> i < 2 * n \<Longrightarrow> sb ! (b * (2 * n) + i) =
         (if i = s then sums ! b else if i = n + s then diffs ! b else js_sb j ! (b * (2 * n) + i))"
      using put_columns_nth[of s "2 * n" "n + s" blocks "js_sb j" blocks sums diffs] n inv
      by (simp_all add: sb_def joint_inv_def)
    have scf: "(js_scf j)[s := int cs, n + s := int cd] ! i = (if i = s then int cs else if i = n + s then int cd else js_scf j ! i)"
      if "i < 2 * n" for i using that inv n by (auto simp: joint_inv_def nth_list_update)
    have "cs \<le> 15" "cd \<le> 15" by (simp_all add: cs_def cd_def scale_factor_props)
    moreover have "nat (int k + 15) = 15 + k" for k by simp
    ultimately show ?thesis
      using inv sb scf cover small l unfolding joint_inv_def covered_def e by (auto simp: max_def le_max_iff_disj)
  qed
qed

lemma joint_stereo_inv:
  assumes "joint_inv (2 * n) blocks j" "n \<le> 8" "blocks \<le> 16"
  shows "joint_inv (2 * n) blocks (joint_stereo n blocks j)"
proof -
  have "joint_inv (2 * n) blocks (foldl (\<lambda>j s. joint_step n blocks s j) j ss)" if "\<forall>s\<in>set ss. s < n" for ss
    using that assms
  proof (induction ss arbitrary: j)
    case (Cons s ss)
    then show ?case using joint_step_inv[of n blocks j s] by simp
  qed simp
  moreover have "\<forall>s\<in>set [0..<n - 1]. s < n" by auto
  ultimately have "joint_inv (2 * n) blocks (foldl (\<lambda>j s. joint_step n blocks s j) j [0..<n - 1])" by blast
  then show ?thesis unfolding joint_stereo_def Let_def by (simp add: joint_inv_def)
qed

lemma foldl_max_nat: "m \<le> foldl max m (xs :: nat list) \<and> (\<forall>x\<in>set xs. x \<le> foldl max m xs)"
proof (induction xs arbitrary: m)
  case (Cons x xs)
  show ?case using Cons[of "max m x"] by auto
qed simp

subsection \<open>Bit allocation in the encoder and in a receiver\<close>

text \<open>Starting the slices above the largest bit need changes nothing: those slices hold no bits.\<close>

lemma slice_loop_above:
  assumes "\<forall>b\<in>set bn. b \<le> m" "0 < bitpool"
  shows "slice_loop bn (m + int k + 1) bitpool 0 = slice_loop bn (m + 1) bitpool 0"
proof (induction k)
  case (Suc k)
  have "slice_count bn (m + int (Suc k)) = 0" using assms(1) by (intro slice_count_top) auto
  then have "slice_loop bn (m + int (Suc k) + 1) bitpool 0 = slice_loop bn (m + int k + 1) bitpool 0"
    using assms(2) by (subst slice_loop.simps) (simp add: Let_def add.commute add.left_commute)
  then show ?case using Suc by simp
qed simp

lemma leftovers_none: "\<forall>b\<in>set bn. b < sl + 2 \<Longrightarrow> leftovers bn sl 0 order = map (\<lambda>_. 0) bn"
proof -
  have f: "first_pass bn sl xs bits 0 = (bits, 0)" and s: "second_pass xs bits 0 = (bits, 0)" for xs bits
    by (cases xs; simp)+
  assume "\<forall>b\<in>set bn. b < sl + 2"
  then show ?thesis by (simp add: leftovers_def f s initial_bits_def)
qed

lemma stereo_alloc_max_bit:
  assumes "\<forall>x\<in>set (take (2 * al_subbands p) scf). x \<le> m \<and> x \<le> m'" "0 \<le> al_bitpool p" "m \<le> m'"
  shows "stereo_alloc p m' scf bits = stereo_alloc p m scf bits"
proof (cases "al_snr p")
  case True
  define bn where "bn = take (2 * al_subbands p) scf"
  have bn: "\<forall>b\<in>set bn. b \<le> m" "\<forall>b\<in>set bn. b \<le> m'" using assms(1) by (simp_all add: bn_def)
  show ?thesis
  proof (cases "al_bitpool p = 0")
    case False
    have "slice_loop bn (m' + 1) (al_bitpool p) 0 = slice_loop bn (m + 1) (al_bitpool p) 0"
      using slice_loop_above[OF bn(1), of "al_bitpool p" "nat (m' - m)"] assms(2,3) False by simp
    then show ?thesis using True by (simp add: stereo_alloc_def Let_def bn_def)
  next
    case z: True
    have "slice_loop bn (k + 1) 0 0 = Some (k, 0, 0)" if "\<forall>b\<in>set bn. b \<le> k" for k
      by (subst slice_loop.simps) (simp add: Let_def slice_count_top[OF that])
    note this[OF bn(1)] this[OF bn(2)]
    moreover have "leftovers bn (k - 1) 0 order = map (\<lambda>_. 0) bn" if "\<forall>b\<in>set bn. b \<le> k" for k order
      by (rule leftovers_none) (use that in auto)
    note this[OF bn(1)] this[OF bn(2)]
    ultimately show ?thesis using True z by (simp add: stereo_alloc_def Let_def flip: bn_def)
  qed
qed (simp add: stereo_alloc_def)

lemma stereo_alloc_bits:
  "stereo_alloc p m scf bits = map_option (\<lambda>l. l @ drop (2 * al_subbands p) bits) (stereo_alloc p m scf [])"
  by (simp add: stereo_alloc_def Let_def split_beta split: option.split)

lemma mono_channels_bits:
  assumes "al_subbands p = 4 \<or> al_subbands p = 8" "al_freq_index p < 4"
    "0 \<le> al_bitpool p" "al_bitpool p \<le> 16 * int (al_subbands p)" "length scf = 16"
  shows "length bits = 16 \<Longrightarrow> length bits' = 16 \<Longrightarrow> a * al_subbands p \<le> 16 \<Longrightarrow>
    \<exists>b b'. mono_channels p [0..<a] scf bits = Some b \<and> mono_channels p [0..<a] scf bits' = Some b' \<and> length b = 16 \<and> length b' = 16
      \<and> take (a * al_subbands p) b = take (a * al_subbands p) b'"
proof (induction a)
  case (Suc a)
  let ?n = "al_subbands p"
  obtain b b' where b: "mono_channels p [0..<a] scf bits = Some b" "mono_channels p [0..<a] scf bits' = Some b'"
    "length b = 16" "length b' = 16" "take (a * ?n) b = take (a * ?n) b'"
    using Suc by auto
  have "length (subslice scf (a * ?n) ((a + 1) * ?n)) = ?n" using Suc.prems(3) assms(5) by simp
  then obtain c where c: "mono_channel p (subslice scf (a * ?n) ((a + 1) * ?n)) = Some c" "length c = ?n"
    using mono_channel_sum[OF _ assms(1-4)] by blast
  show ?case using b c Suc.prems(3) by (simp add: mono_channels_append Let_def add.commute)
qed simp

text \<open>What the allocation of a frame gives, for the frame's own scale factors.\<close>

definition shares :: "frame_encoder \<Rightarrow> nat" where
  "shares fe = (if shared_bitpool (sc_channel_mode (fe_config fe)) then 1 else fe_channels fe)"

definition fe_ok :: "frame_encoder \<Rightarrow> bool" where
  "fe_ok fe \<longleftrightarrow> (let c = fe_config fe in
     (fe_subbands fe = 4 \<or> fe_subbands fe = 8) \<and> fe_subbands fe = unat (sc_subbands c)
     \<and> (fe_blocks fe = 4 \<or> fe_blocks fe = 8 \<or> fe_blocks fe = 12 \<or> fe_blocks fe = 16) \<and> fe_blocks fe = unat (sc_blocks c)
     \<and> fe_channels fe = mode_channels (sc_channel_mode c) \<and> fe_freq_index fe < 4
     \<and> fe_snr fe = (sc_allocation c = Snr) \<and> fe_header fe = frame_header c (fe_freq_index fe)
     \<and> fe_bitpool fe = effective_bitpool c \<and> fe_alloc_bitpool fe = effective_bitpool c)"

lemma fe_bitpool_le:
  assumes "fe_ok fe"
  shows "unat (fe_alloc_bitpool fe) \<le> (if shared_bitpool (sc_channel_mode (fe_config fe)) then 32 else 16) * fe_subbands fe"
proof -
  let ?c = "fe_config fe"
  define mx where "mx = (if shared_bitpool (sc_channel_mode ?c) then (if sc_subbands ?c = 8 then 255 else 128) else 16 * unat (sc_subbands ?c))"
  have "unat (sc_bitpool ?c) < 256" using unsigned_less[of "sc_bitpool ?c", where ?'a = nat] by simp
  then have "min (unat (sc_bitpool ?c)) mx < 256" by simp
  then have "unat (effective_bitpool ?c) = min (unat (sc_bitpool ?c)) mx"
    by (simp add: effective_bitpool_def Let_def mx_def unat_of_nat)
  moreover have "mx \<le> (if shared_bitpool (sc_channel_mode ?c) then 32 else 16) * fe_subbands fe"
    using assms by (auto simp: fe_ok_def Let_def mx_def word_unat_eq_iff)
  ultimately show ?thesis using assms by (simp add: fe_ok_def Let_def)
qed

lemma allocate_props:
  assumes fe: "fe_ok fe" and len: "length scf = 16" "length bits = 16" "length bits' = 16"
  defines "nsc \<equiv> fe_channels fe * fe_subbands fe"
  assumes scf: "\<forall>x\<in>set (take nsc scf). 0 \<le> x \<and> x \<le> int mb \<and> x \<le> int mb'" and mb: "mb' \<le> mb"
  shows "\<exists>b b'. allocate fe mb scf bits = Some b \<and> allocate fe mb' scf bits' = Some b' \<and> take nsc b = take nsc b'
     \<and> length b = 16 \<and> bits_ok (take nsc b) \<and> sum_list (take nsc b) = int (shares fe * unat (fe_bitpool fe))"
proof -
  let ?p = "alloc_of fe" and ?n = "fe_subbands fe"
  have n: "al_subbands ?p = 4 \<or> al_subbands ?p = 8" "al_freq_index ?p < 4" "fe_channels fe = mode_channels (sc_channel_mode (fe_config fe))"
    "al_subbands ?p = ?n"
    using fe by (auto simp: fe_ok_def Let_def alloc_of_def)
  define B where "B = unat (fe_bitpool fe)"
  have bp: "al_bitpool ?p = int B" "0 \<le> al_bitpool ?p"
    using fe by (simp_all add: fe_ok_def Let_def alloc_of_def B_def)
  have ble: "B \<le> (if shared_bitpool (sc_channel_mode (fe_config fe)) then 32 else 16) * ?n"
    using fe_bitpool_le[OF fe] fe by (simp add: fe_ok_def Let_def B_def)
  show ?thesis
  proof (cases "shared_bitpool (sc_channel_mode (fe_config fe))")
    case True
    then have nsc: "nsc = 2 * ?n" "shares fe = 1" and al: "\<And>m scf bits. allocate fe m scf bits = stereo_alloc ?p (int m) scf bits"
      by (auto simp: nsc_def n(3) mode_channels_def shared_bitpool_def shares_def allocate_def)
    have le: "al_bitpool ?p \<le> 32 * int (al_subbands ?p)" using ble True n(4) bp(1) by simp
    have "\<forall>x\<in>set (take (2 * al_subbands ?p) scf). x \<le> int mb' \<and> x \<le> int mb" using scf nsc(1) n(4) by auto
    then have m: "stereo_alloc ?p (int mb) scf bits' = stereo_alloc ?p (int mb') scf bits'"
      using stereo_alloc_max_bit[of ?p scf "int mb'" "int mb" bits'] bp(2) mb by simp
    have s: "\<exists>b. stereo_alloc ?p (int mb) scf bits = Some b \<and> length b = 16 \<and> sum_list (take (2 * ?n) b) = al_bitpool ?p
        \<and> bits_ok (take (2 * ?n) b)" if "length bits = 16" for bits
      using stereo_sum[OF n(1,2) bp(2) le len(1) that, of "int mb"] scf n(4) nsc(1) by auto
    obtain b where b: "stereo_alloc ?p (int mb) scf bits = Some b" "length b = 16" "sum_list (take (2 * ?n) b) = al_bitpool ?p"
      "bits_ok (take (2 * ?n) b)" using s[OF len(2)] by blast
    then obtain l where l: "stereo_alloc ?p (int mb) scf [] = Some l" "b = l @ drop (2 * ?n) bits"
      using stereo_alloc_bits[of ?p "int mb" scf bits] n(4) by (cases "stereo_alloc ?p (int mb) scf []") auto
    have "length l = 2 * ?n" using l(2) b(2) len(2) n(1,4) by auto
    then have "take nsc b = take nsc (l @ drop (2 * ?n) bits')" using l(2) nsc(1) by simp
    moreover have "allocate fe mb' scf bits' = Some (l @ drop (2 * ?n) bits')"
      using l(1) m stereo_alloc_bits[of ?p "int mb" scf bits'] n(4) by (simp add: al)
    moreover have "sum_list (take nsc b) = int (shares fe * B)" "bits_ok (take nsc b)" using b(3,4) nsc bp(1) by simp_all
    ultimately show ?thesis using b(1,2) unfolding al B_def by blast
  next
    case False
    then have al: "\<And>m scf bits. allocate fe m scf bits = mono_channels ?p [0..<fe_channels fe] scf bits" "shares fe = fe_channels fe"
      by (auto simp: shared_bitpool_def shares_def allocate_def mono_alloc_def)
    have le: "al_bitpool ?p \<le> 16 * int (al_subbands ?p)" using ble False n(4) bp(1) by simp
    have ch: "fe_channels fe = 1 \<or> fe_channels fe = 2" using n(3) by (simp add: mode_channels_def)
    then have a: "fe_channels fe * al_subbands ?p \<le> 16" using n(1) by auto
    obtain b b' where b: "mono_channels ?p [0..<fe_channels fe] scf bits = Some b"
      "mono_channels ?p [0..<fe_channels fe] scf bits' = Some b'" "length b = 16" "take nsc b = take nsc b'"
      using mono_channels_bits[OF n(1,2) bp(2) le len(1,2,3) a] n(4) by (auto simp: nsc_def)
    have c: "\<forall>ch<fe_channels fe. sum_list (subslice b (ch * ?n) ((ch + 1) * ?n)) = int B \<and> bits_ok (subslice b (ch * ?n) ((ch + 1) * ?n))"
      using mono_channels_sum[OF n(1,2) bp(2) le len(1,2) a] b(1) n(4) bp(1) by auto
    have "sum_list (take nsc b) = int (fe_channels fe * B) \<and> bits_ok (take nsc b)"
    proof (cases "fe_channels fe = 1")
      case True
      then show ?thesis using c by (simp add: nsc_def subslice_def)
    next
      case False
      then have two: "fe_channels fe = 2" using ch by simp
      then have "take nsc b = subslice b 0 ?n @ subslice b ?n (2 * ?n)"
        using take_add[of ?n ?n b] by (simp add: nsc_def subslice_def mult_2 drop_take)
      moreover have "sum_list (subslice b 0 ?n) = int B" "bits_ok (subslice b 0 ?n)"
        "sum_list (subslice b ?n (2 * ?n)) = int B" "bits_ok (subslice b ?n (2 * ?n))"
        using c[rule_format, of 0] c[rule_format, of 1] two by (simp_all add: mult_2)
      ultimately show ?thesis using two by (auto simp: bits_ok_def)
    qed
    then show ?thesis using b al by (auto simp: B_def)
  qed
qed

subsection \<open>The invariant of the encoder\<close>

definition fs_inv :: "frame_state \<Rightarrow> bool" where
  "fs_inv st \<longleftrightarrow> (let fe = fs_enc st in fe_ok fe
     \<and> length (fs_sb st) = 256 \<and> length (fs_scale_factor st) = 16 \<and> length (fs_bits st) = 16 \<and> length (fs_join st) = 8
     \<and> (\<exists>h. (\<forall>ch<fe_channels fe. i16_list (h ch)) \<and> an_rel (fe_subbands fe) (fe_channels fe) h (fs_analysis st)))"

lemma fe_ok_new: "frame_encoder_new c = Inr fe \<Longrightarrow> fe_ok fe"
  by (auto simp: frame_encoder_new_def validate_def fe_ok_def Let_def split: sum.splits option.splits if_splits)

lemma fe_ok_channels: "fe_ok fe \<Longrightarrow> (fe_subbands fe = 4 \<or> fe_subbands fe = 8) \<and> (fe_channels fe = 1 \<or> fe_channels fe = 2) \<and> fe_blocks fe \<le> 16 \<and> 0 < fe_blocks fe"
  by (auto simp: fe_ok_def Let_def mode_channels_def)

lemma fs_inv_new: "frame_state_new c = Inr st \<Longrightarrow> fs_inv st"
proof -
  assume *: "frame_state_new c = Inr st"
  then obtain fe where fe: "frame_encoder_new c = Inr fe" by (auto simp: frame_state_new_def split: sum.splits)
  have "an_rel (fe_subbands fe) (fe_channels fe) (\<lambda>_. []) (analysis_new (fe_subbands fe) (fe_channels fe))"
    using fe_ok_channels[OF fe_ok_new[OF fe]] by (intro an_rel_new) auto
  then show ?thesis using * fe fe_ok_new[OF fe]
    by (auto simp: frame_state_new_def fs_inv_def frame_maxima i16_list_def intro!: exI[of _ "\<lambda>_. []"])
qed

lemma frame_set_bitpool_sel:
  "fe_subbands (frame_set_bitpool fe bp) = fe_subbands fe" "fe_channels (frame_set_bitpool fe bp) = fe_channels fe"
  by (simp_all add: frame_set_bitpool_def Let_def)

lemma fe_ok_set_bitpool: "fe_ok fe \<Longrightarrow> fe_ok (frame_set_bitpool fe bp)"
proof -
  have "frame_header (c\<lparr> sc_bitpool := bp \<rparr>) i = frame_header c i" for c i by (simp add: frame_header_def)
  moreover assume "fe_ok fe"
  ultimately show ?thesis unfolding fe_ok_def frame_set_bitpool_def Let_def by auto
qed

lemma fs_inv_set_bitpool: "fs_inv st \<Longrightarrow> fs_inv (fs_set_bitpool st bp)"
  unfolding fs_inv_def fs_set_bitpool_def Let_def by (simp add: frame_set_bitpool_sel fe_ok_set_bitpool)

lemma chunks_exact_set: "c \<in> set (chunks_exact n xs) \<Longrightarrow> set c \<subseteq> set xs"
proof (induction n xs rule: chunks_exact.induct)
  case (1 n xs)
  show ?case
  proof (cases "n = 0 \<or> length xs < n")
    case True
    then have "chunks_exact n xs = []" by (subst chunks_exact.simps) (simp only: if_True)
    then show ?thesis using "1.prems" by simp
  next
    case False
    then have "chunks_exact n xs = take n xs # chunks_exact n (drop n xs)" by (subst chunks_exact.simps) (simp only: if_False)
    then consider "c = take n xs" | "c \<in> set (chunks_exact n (drop n xs))" using "1.prems" by auto
    then show ?thesis
    proof cases
      case 2
      then show ?thesis using "1.IH"[OF False] set_drop_subset[of n xs] by blast
    qed (use set_take_subset in fastforce)
  qed
qed

lemma add_block_i16:
  assumes "0 < channels" "i16_list pcm" "\<forall>ch<channels. i16_list (h ch)"
  shows "\<forall>ch<channels. i16_list (add_block channels pcm h ch)"
proof -
  have "is_i16 (fr ! ch)" if "ch < channels" "fr \<in> set (chunks_exact channels pcm)" for ch fr
  proof -
    have "fr ! ch \<in> set fr" using that chunks_exact_props[OF assms(1), of pcm] by simp
    then show ?thesis using assms(2) chunks_exact_set[OF that(2)] by (auto simp: i16_list_def list_all_iff)
  qed
  then show ?thesis using assms(3) by (auto simp: add_block_def channel_of_def i16_list_def list_all_iff)
qed

lemma spec_blocks_small:
  assumes "subbands = 4 \<or> subbands = 8" "0 < channels" "\<forall>b\<in>set bs. i16_list b" "\<forall>ch<channels. i16_list (h ch)"
  shows "small (spec_blocks subbands channels h bs) \<and> (\<forall>ch<channels. i16_list (fold (add_block channels) bs h ch))"
  using assms(3,4)
proof (induction bs arbitrary: h)
  case (Cons b bs)
  have "\<forall>ch<channels. i16_list (add_block channels b h ch)" using add_block_i16[OF assms(2)] Cons.prems by simp
  then show ?case using Cons.IH Cons.prems spec_block_bounds[OF assms(1)] by (simp add: small_def)
qed (simp add: small_def)

lemma fs_filter:
  assumes inv: "fs_inv st" and pcm: "length pcm = pcm_samples (fs_enc st)" "i16_list pcm"
  defines "fe \<equiv> fs_enc st" and "n \<equiv> fe_blocks (fs_enc st) * (fe_channels (fs_enc st) * fe_subbands (fs_enc st))"
  shows "\<exists>a sb h. analysis_filter (fs_analysis st) pcm (fe_subbands fe) (fe_channels fe) (fe_blocks fe) (take n (fs_sb st)) = Some (a, sb)
     \<and> length sb = n \<and> small sb \<and> (\<forall>ch<fe_channels fe. i16_list (h ch)) \<and> an_rel (fe_subbands fe) (fe_channels fe) h a"
proof -
  obtain h where h: "\<forall>ch<fe_channels fe. i16_list (h ch)" "an_rel (fe_subbands fe) (fe_channels fe) h (fs_analysis st)"
    and ok: "fe_ok fe" and l: "length (fs_sb st) = 256"
    using inv by (auto simp: fs_inv_def fe_def Let_def)
  note c = fe_ok_channels[OF ok]
  have ch: "0 < fe_channels fe" "0 < fe_subbands fe * fe_channels fe" using c by auto
  have n: "n = fe_blocks fe * (fe_subbands fe * fe_channels fe)" by (simp add: n_def fe_def)
  have "fe_subbands fe * fe_channels fe \<le> 16" using c by auto
  then have n256: "n \<le> 256" using mult_le_mono[of "fe_blocks fe" 16 "fe_subbands fe * fe_channels fe" 16] c by (simp add: n)
  have len: "length pcm = fe_blocks fe * (fe_subbands fe * fe_channels fe)" "length (take n (fs_sb st)) = fe_blocks fe * (fe_subbands fe * fe_channels fe)"
    using pcm(1) l n256 n by (simp_all add: pcm_samples_def fe_def mult.assoc)
  let ?bs = "chunks_exact (fe_subbands fe * fe_channels fe) pcm"
  obtain a where a: "analysis_filter (fs_analysis st) pcm (fe_subbands fe) (fe_channels fe) (fe_blocks fe) (take n (fs_sb st))
      = Some (a, spec_blocks (fe_subbands fe) (fe_channels fe) h ?bs)"
    "an_rel (fe_subbands fe) (fe_channels fe) (fold (add_block (fe_channels fe)) ?bs h) a"
    using analysis_filter_refines[OF h(2) _ len] c by blast
  have "\<forall>b\<in>set ?bs. i16_list b" using chunks_exact_set pcm(2) by (fastforce simp: i16_list_def list_all_iff)
  then have "small (spec_blocks (fe_subbands fe) (fe_channels fe) h ?bs)"
    "\<forall>ch<fe_channels fe. i16_list (fold (add_block (fe_channels fe)) ?bs h ch)"
    using spec_blocks_small[OF _ ch(1) _ h(1)] c by blast+
  moreover have "length (spec_blocks (fe_subbands fe) (fe_channels fe) h ?bs) = n"
    using length_spec_blocks[of "fe_subbands fe" "fe_channels fe" h ?bs] c chunks_exact_props[OF ch(2), of pcm] len(1) ch(2)
    by (simp add: n)
  ultimately show ?thesis using a by blast
qed

lemma frame_joint_inv:
  assumes inv: "fs_inv st" and sb: "length sb = 256"
  defines "nsc \<equiv> fe_channels (fs_enc st) * fe_subbands (fs_enc st)"
  assumes small: "small (take (fe_blocks (fs_enc st) * nsc) sb)"
  shows "joint_inv nsc (fe_blocks (fs_enc st)) (frame_joint st sb)"
proof -
  define fe where "fe = fs_enc st"
  have ok: "fe_ok fe" and l: "length (fs_scale_factor st) = 16" "length (fs_join st) = 8"
    using inv by (auto simp: fs_inv_def fe_def Let_def)
  note c = fe_ok_channels[OF ok]
  have "nsc \<le> 16" using c by (auto simp: nsc_def fe_def)
  then have n256: "fe_blocks fe * nsc \<le> 256" using mult_le_mono[of "fe_blocks fe" 16 nsc 16] c by simp
  define sb' where "sb' = take (fe_blocks fe * nsc) sb"
  define counts where "counts = scale_factors nsc sb'"
  define j where "j = \<lparr> js_sb = sb, js_scf = map int counts @ drop nsc (fs_scale_factor st), js_join = fs_join st,
                js_max_bit = foldl max 0 counts \<rparr>"
  have l': "length sb' = fe_blocks fe * nsc" using sb n256 by (simp add: sb'_def)
  have cell: "sb ! (b * nsc + i) = sb' ! (b * nsc + i) \<and> b * nsc + i < length sb'" if "b < fe_blocks fe" "i < nsc" for b i
    using cell_less[OF that(2,1), of "fe_blocks fe * nsc"] l' by (simp add: sb'_def)
  have s1: "small sb'" using small by (simp add: sb'_def fe_def)
  have scf: "i < nsc \<Longrightarrow> (map int counts @ drop nsc (fs_scale_factor st)) ! i = int (counts ! i)" for i
    by (simp add: counts_def nth_append scale_factors_props)
  have "joint_inv nsc (fe_blocks fe) j"
  proof -
    have "\<bar>sb ! (b * nsc + i)\<bar> \<le> 2 ^ 30" if "b < fe_blocks fe" "i < nsc" for b i
      using cell[OF that] s1 by (simp add: small_def list_all_length)
    moreover have "covered nsc (fe_blocks fe) sb (map int counts @ drop nsc (fs_scale_factor st))"
      using scale_factors_cover[OF s1 l'] cell scf by (simp add: covered_def counts_def nat_add_distrib add.commute)
    moreover have "counts ! i \<le> 15 \<and> counts ! i \<le> foldl max 0 counts" if "i < nsc" for i
      using that foldl_max_nat[of 0 counts] nth_mem[of i counts] by (auto simp: counts_def scale_factors_props)
    moreover have "length (map int counts @ drop nsc (fs_scale_factor st)) = 16"
      using l(1) \<open>nsc \<le> 16\<close> by (simp add: counts_def scale_factors_props)
    ultimately show ?thesis using sb l(2) scf by (simp add: joint_inv_def j_def)
  qed
  moreover have "frame_joint st sb = (if sc_channel_mode (fe_config fe) = JointStereo then joint_stereo (fe_subbands fe) (fe_blocks fe) j else j)"
    by (simp add: frame_joint_def Let_def j_def counts_def sb'_def nsc_def fe_def)
  moreover have "nsc = 2 * fe_subbands fe" if "sc_channel_mode (fe_config fe) = JointStereo"
    using ok that by (simp add: fe_ok_def Let_def nsc_def mode_channels_def fe_def)
  ultimately show ?thesis using joint_stereo_inv[of "fe_subbands fe" "fe_blocks fe" j] c by (auto simp: fe_def)
qed

subsection \<open>A frame\<close>

text \<open>The quantized value of the specification: the sample's place among the levels of its scale factor.\<close>

definition level :: "int \<Rightarrow> int \<Rightarrow> int \<Rightarrow> int" where
  "level sb scf bits = ((sb div 4 + 2 ^ nat (scf + 13)) * (2 ^ nat bits - 1)) div 2 ^ nat (scf + 14)"

definition level_bits :: "int \<times> int \<times> int \<Rightarrow> bool list" where
  "level_bits = (\<lambda>(sb, scf, bits). bits_of (nat bits) (word_of_int (level sb scf bits) :: u32))"

lemma sum_nat: "\<forall>b\<in>set bs. (0::int) \<le> b \<Longrightarrow> sum_list (map nat bs) = nat (sum_list bs)"
proof (induction bs)
  case (Cons b bs)
  then have "0 \<le> sum_list bs" by (intro sum_list_nonneg) auto
  with Cons show ?case by (simp add: nat_add_distrib)
qed simp

lemma length_q_bits:
  "length xs \<le> length scf \<Longrightarrow> length xs \<le> length bits \<Longrightarrow>
   length (concat (map q_bits (zip xs (zip scf bits)))) = sum_list (map nat (take (length xs) bits))"
proof (induction xs arbitrary: scf bits)
  case (Cons x xs)
  then show ?case by (cases scf; cases bits) (auto simp: q_bits_def)
qed simp

lemma concat_map_concat: "concat (map g (concat xss)) = concat (map (\<lambda>xs. concat (map g xs)) xss)"
  by (induction xss) simp_all

lemma length_concat_upt: "(\<And>b. b < n \<Longrightarrow> length (g b) = k) \<Longrightarrow> length (concat (map g [0..<n])) = n * k"
  by (induction n) simp_all

lemma length_data_bits:
  assumes "frame_wf f"
  shows "length (data_bits f) = fr_blocks f * nat (sum_list (take (fr_nsc f) (fr_bits f)))"
proof -
  let ?b = "\<lambda>b. take (fr_nsc f) (drop (b * fr_nsc f) (fr_sb f))"
  have l: "length (?b b) = fr_nsc f" if "b < fr_blocks f" for b
  proof -
    have "b * fr_nsc f + fr_nsc f \<le> length (fr_sb f)"
      using assms mult_le_mono1[of "Suc b" "fr_blocks f" "fr_nsc f"] that by (simp add: frame_wf_def)
    then show ?thesis by simp
  qed
  have "length (concat (map q_bits (zip (?b b) (zip (fr_scale_factor f) (fr_bits f))))) = nat (sum_list (take (fr_nsc f) (fr_bits f)))"
    if "b < fr_blocks f" for b
    using length_q_bits[of "?b b" "fr_scale_factor f" "fr_bits f"] l[OF that] assms frame_wf_nsc[OF assms]
      sum_nat[of "take (fr_nsc f) (fr_bits f)"] by (simp add: frame_wf_def)
  note l = length_concat_upt[OF this]
  have "data_bits f = concat (map (\<lambda>b. concat (map q_bits (zip (?b b) (zip (fr_scale_factor f) (fr_bits f))))) [0..<fr_blocks f])"
    by (simp only: data_bits_def fr_samples_def concat_map_concat map_map comp_def)
  then show ?thesis using l by simp
qed

lemma fr_samples_nth:
  assumes "frame_wf f" "z \<in> set (fr_samples f)"
  shows "\<exists>b<fr_blocks f. \<exists>i<fr_nsc f. z = (fr_sb f ! (b * fr_nsc f + i), fr_scale_factor f ! i, fr_bits f ! i)"
proof -
  obtain b where b: "b < fr_blocks f" "z \<in> set (zip (take (fr_nsc f) (drop (b * fr_nsc f) (fr_sb f))) (zip (fr_scale_factor f) (fr_bits f)))"
    using assms(2) by (auto simp: fr_samples_def)
  then obtain i where "i < length (zip (take (fr_nsc f) (drop (b * fr_nsc f) (fr_sb f))) (zip (fr_scale_factor f) (fr_bits f)))"
    "z = zip (take (fr_nsc f) (drop (b * fr_nsc f) (fr_sb f))) (zip (fr_scale_factor f) (fr_bits f)) ! i"
    by (metis in_set_conv_nth)
  then show ?thesis using b(1) assms(1) by (intro exI[of _ b] conjI exI[of _ i]) (auto simp: frame_wf_def add.commute)
qed

lemma covered_fits:
  assumes wf: "frame_wf f" and cov: "covered (fr_nsc f) (fr_blocks f) (fr_sb f) (fr_scale_factor f)"
  shows "list_all q_fits (fr_samples f)" "data_bits f = concat (map level_bits (fr_samples f))"
proof -
  have z: "q_fits z \<and> q_bits z = level_bits z" if mem: "z \<in> set (fr_samples f)" for z
  proof -
    obtain b i where bi: "b < fr_blocks f" "i < fr_nsc f" "z = (fr_sb f ! (b * fr_nsc f + i), fr_scale_factor f ! i, fr_bits f ! i)"
      using fr_samples_nth[OF wf mem] by blast
    define v where "v = fr_sb f ! (b * fr_nsc f + i)"
    define s where "s = fr_scale_factor f ! i"
    define k where "k = fr_bits f ! i"
    have r: "0 \<le> s" "s \<le> 15" "0 \<le> k" "k \<le> 16" and "\<bar>v\<bar> \<le> 2 ^ nat (s + 15)"
      using fr_samples_bits[OF wf] mem bi cov by (auto simp: covered_def v_def s_def k_def)
    note q = quantize_range[OF this, folded level_def]
    have "quantize v s k = word_of_int (level v s k)" by (metis q(1) word_of_int_uint)
    then show ?thesis using q(2) bi(3) by (simp add: q_fits_def q_bits_def level_bits_def v_def s_def k_def)
  qed
  then show "list_all q_fits (fr_samples f)" by (simp add: list_all_iff)
  show "data_bits f = concat (map level_bits (fr_samples f))"
    unfolding data_bits_def by (rule arg_cong[of _ _ concat]) (use z in simp)
qed

lemma pack_len_formula:
  assumes wf: "frame_wf f" and fe: "fe_ok fe"
    and f: "fr_channels f = fe_channels fe" "fr_subbands f = fe_subbands fe" "fr_blocks f = fe_blocks fe"
      "fr_joint f = (sc_channel_mode (fe_config fe) = JointStereo)"
    and s: "sum_list (take (fr_nsc f) (fr_bits f)) = int (shares fe * unat (fe_bitpool fe))"
  shows "pack_len f \<le> max_frame_len fe" "fe_bitpool fe \<noteq> 0 \<Longrightarrow> pack_len f = frame_len (fe_config fe)"
proof -
  let ?c = "fe_config fe"
  define B where "B = unat (fe_bitpool fe)"
  define J where "J = (if fr_joint f then fe_subbands fe else 0)"
  have fe': "fe_blocks fe = unat (sc_blocks ?c)" "fe_subbands fe = unat (sc_subbands ?c)" "fe_channels fe = mode_channels (sc_channel_mode ?c)"
    "effective_bitpool ?c = fe_bitpool fe" "fe_subbands fe = 4 \<or> fe_subbands fe = 8" "0 < fe_blocks fe"
    using fe by (auto simp: fe_ok_def Let_def)
  have d: "length (data_bits f) = fe_blocks fe * (shares fe * B)"
    using length_data_bits[OF wf] s f by (simp add: B_def nat_mult_distrib)
  have nsc: "fr_nsc f = fe_channels fe * fe_subbands fe" by (simp add: fr_nsc_def f)
  have p: "length (protected_bits f) = 4 * fr_nsc f + J" using length_protected[OF wf] f by (simp add: J_def)
  have h: "4 * fr_nsc f = 8 * (fr_nsc f div 2)" using frame_wf_nsc[OF wf] by simp
  have "0 < shares fe" using fe'(3) by (simp add: shares_def mode_channels_def)
  then have empty: "data_bits f = [] \<longleftrightarrow> B = 0" using d fe'(6) by auto
  have fl: "frame_len ?c = 4 + fr_nsc f div 2 + (J + length (data_bits f) + 7) div 8"
  proof -
    have "4 * fe_subbands fe * fe_channels fe div 8 = fr_nsc f div 2" using h nsc by (simp add: mult.commute mult.left_commute)
    then show ?thesis
      unfolding frame_len_def Let_def d fe'(4) fe'(1,2,3)[symmetric] B_def[symmetric]
      using fe'(3) f(4) by (cases "sc_channel_mode ?c") (simp_all add: J_def shares_def shared_bitpool_def mode_channels_def ac_simps)
  qed
  have pl: "pack_len f = 4 + fr_nsc f div 2 + (if B = 0 then J div 8 + 1 else (J + length (data_bits f) + 7) div 8)"
  proof -
    have e: "(8 * k + x) div 8 = k + x div 8" for k x :: nat by simp
    show ?thesis unfolding pack_len_def Let_def length_append p h using empty d by (simp add: add.assoc e)
  qed
  have b0: "fe_bitpool fe = 0 \<longleftrightarrow> B = 0" by (simp add: B_def unat_eq_0)
  show "fe_bitpool fe \<noteq> 0 \<Longrightarrow> pack_len f = frame_len ?c" using pl fl b0 by simp
  show "pack_len f \<le> max_frame_len fe" using pl fl b0 fe'(5) by (auto simp: max_frame_len_def J_def)
qed

lemma frame_of_wf:
  assumes fe: "fe_ok fe" and j: "joint_inv (fe_channels fe * fe_subbands fe) (fe_blocks fe) j"
    and b: "length bits = 16" "bits_ok (take (fe_channels fe * fe_subbands fe) bits)"
  shows "frame_wf (frame_of fe j bits)" "covered (fr_nsc (frame_of fe j bits)) (fr_blocks (frame_of fe j bits)) (fr_sb (frame_of fe j bits)) (fr_scale_factor (frame_of fe j bits))"
proof -
  let ?nsc = "fe_channels fe * fe_subbands fe"
  note c = fe_ok_channels[OF fe]
  have n: "?nsc \<le> 16" using c by auto
  then have "fe_blocks fe * ?nsc \<le> 256" using mult_le_mono[of "fe_blocks fe" 16 ?nsc 16] c by simp
  moreover have "\<forall>s\<in>set (take ?nsc (js_scf j)). 0 \<le> s \<and> s \<le> 15"
    using j n by (auto simp: joint_inv_def in_set_conv_nth)
  moreover have "sc_channel_mode (fe_config fe) = JointStereo \<Longrightarrow> fe_channels fe = 2"
    using fe by (simp add: fe_ok_def Let_def mode_channels_def)
  ultimately show "frame_wf (frame_of fe j bits)"
    using c b j by (auto simp: frame_wf_def frame_of_def fr_nsc_def joint_inv_def bits_ok_def)
  show "covered (fr_nsc (frame_of fe j bits)) (fr_blocks (frame_of fe j bits)) (fr_sb (frame_of fe j bits)) (fr_scale_factor (frame_of fe j bits))"
    using j by (simp add: joint_inv_def frame_of_def fr_nsc_def)
qed

subsection \<open>Runs of the encoder\<close>

datatype frame_op = SetBitpool u8 | Encode "int list" bytes

fun frame_op_ok :: "frame_op \<Rightarrow> bool" where
  "frame_op_ok (SetBitpool _) = True"
| "frame_op_ok (Encode pcm _) = i16_list pcm"

definition fs_start :: "sbc_config \<Rightarrow> frame_state option" where
  "fs_start c = (case frame_state_new c of Inl _ \<Rightarrow> None | Inr st \<Rightarrow> Some st)"

fun fs_apply :: "frame_state option \<Rightarrow> frame_op \<Rightarrow> frame_state option" where
  "fs_apply None _ = None"
| "fs_apply (Some st) (SetBitpool bp) = Some (fs_set_bitpool st bp)"
| "fs_apply (Some st) (Encode pcm out) =
     (case frame_encode st pcm out of Some (Inr (st', _)) \<Rightarrow> Some st' | Some (Inl _) \<Rightarrow> Some st | None \<Rightarrow> None)"

text \<open>The maximum a receiver takes for SNR allocation: that of the scale factors of the frame.\<close>

definition receiver_max :: "sbc_frame \<Rightarrow> nat" where
  "receiver_max f = foldl max 0 (map nat (take (fr_nsc f) (fr_scale_factor f)))"

definition encoded_frame :: "frame_encoder \<Rightarrow> sbc_frame \<Rightarrow> bool" where
  "encoded_frame fe f \<longleftrightarrow> frame_wf f \<and> data_bits f = concat (map level_bits (fr_samples f))
     \<and> map_option (take (fr_nsc f)) (allocate fe (receiver_max f) (fr_scale_factor f) (replicate 16 0))
         = Some (take (fr_nsc f) (fr_bits f))"

lemma frame_allocated:
  assumes ok: "fe_ok fe" and l: "length bits = 16"
  defines "nsc \<equiv> fe_channels fe * fe_subbands fe"
  assumes j: "joint_inv nsc (fe_blocks fe) j"
  defines "mb \<equiv> foldl max 0 (map nat (take nsc (js_scf j)))"
  shows "\<exists>b b'. allocate fe (js_max_bit j) (js_scf j) bits = Some b \<and> allocate fe mb (js_scf j) (replicate 16 0) = Some b'
     \<and> take nsc b = take nsc b' \<and> length b = 16 \<and> bits_ok (take nsc b) \<and> sum_list (take nsc b) = int (shares fe * unat (fe_bitpool fe))"
proof -
  have jl: "length (js_scf j) = 16" and jscf: "\<forall>i<nsc. 0 \<le> js_scf j ! i \<and> js_scf j ! i \<le> int (js_max_bit j)"
    using j by (simp_all add: joint_inv_def)
  have scf: "\<forall>x\<in>set (take nsc (js_scf j)). 0 \<le> x \<and> x \<le> int (js_max_bit j) \<and> x \<le> int mb"
  proof
    fix x assume x: "x \<in> set (take nsc (js_scf j))"
    then have "0 \<le> x \<and> x \<le> int (js_max_bit j)" using jscf by (auto simp: in_set_conv_nth)
    moreover have "nat x \<le> mb" using foldl_max_nat[of 0 "map nat (take nsc (js_scf j))"] x by (simp add: mb_def)
    ultimately show "0 \<le> x \<and> x \<le> int (js_max_bit j) \<and> x \<le> int mb" by simp
  qed
  have "mb \<le> js_max_bit j"
  proof -
    have "foldl max m xs \<le> k" if "m \<le> k" "\<forall>x\<in>set xs. x \<le> k" for m k :: nat and xs
      using that by (induction xs arbitrary: m) auto
    then show ?thesis using scf by (auto simp: mb_def nat_le_iff)
  qed
  then show ?thesis
    using allocate_props[OF ok jl l, of "replicate 16 0" "js_max_bit j" mb] scf unfolding nsc_def by auto
qed

lemma frame_encode_ok:
  assumes inv: "fs_inv st" and pcm: "length pcm = pcm_samples (fs_enc st)" "i16_list pcm" and out: "max_frame_len (fs_enc st) \<le> length out"
  defines "fe \<equiv> fs_enc st" and "n \<equiv> fe_blocks (fs_enc st) * (fe_channels (fs_enc st) * fe_subbands (fs_enc st))"
  shows "\<exists>st' out' len a sb f pad. frame_encode st pcm out = Some (Inr (st', out', len)) \<and> fs_inv st' \<and> fs_enc st' = fe
     \<and> analysis_filter (fs_analysis st) pcm (fe_subbands fe) (fe_channels fe) (fe_blocks fe) (take n (fs_sb st)) = Some (a, sb)
     \<and> f = frame_of fe (frame_joint st (sb @ drop n (fs_sb st))) (fs_bits st') \<and> encoded_frame fe f
     \<and> len \<le> max_frame_len fe \<and> (fe_bitpool fe \<noteq> 0 \<longrightarrow> len = frame_len (fe_config fe)) \<and> pad \<le> 8
     \<and> byte_bits (take len out') = frame_layout f pad \<and> drop len out' = drop len out"
proof -
  have ok: "fe_ok fe" and l: "length (fs_sb st) = 256" "length (fs_bits st) = 16" using inv by (auto simp: fs_inv_def fe_def Let_def)
  define nsc where "nsc = fe_channels fe * fe_subbands fe"
  have "nsc \<le> 16" using fe_ok_channels[OF ok] by (auto simp: nsc_def)
  then have n: "n = fe_blocks fe * nsc" "n \<le> 256"
    using mult_le_mono[of "fe_blocks fe" 16 nsc 16] fe_ok_channels[OF ok] by (simp_all add: n_def nsc_def fe_def)
  obtain a sb h where sb: "analysis_filter (fs_analysis st) pcm (fe_subbands fe) (fe_channels fe) (fe_blocks fe) (take n (fs_sb st)) = Some (a, sb)"
    "length sb = n" "small sb" "\<forall>ch<fe_channels fe. i16_list (h ch)" "an_rel (fe_subbands fe) (fe_channels fe) h a"
    using fs_filter[OF inv pcm] unfolding fe_def n_def by blast
  define j where "j = frame_joint st (sb @ drop n (fs_sb st))"
  have j: "joint_inv nsc (fe_blocks fe) j"
    using frame_joint_inv[OF inv, of "sb @ drop n (fs_sb st)"] sb(2,3) l(1) n
    unfolding j_def nsc_def fe_def by simp
  then have jl: "length (js_sb j) = 256" "length (js_scf j) = 16" "length (js_join j) = 8" by (simp_all add: joint_inv_def)
  define mb where "mb = foldl max 0 (map nat (take nsc (js_scf j)))"
  obtain b b' where b: "allocate fe (js_max_bit j) (js_scf j) (fs_bits st) = Some b" "allocate fe mb (js_scf j) (replicate 16 0) = Some b'"
    "take nsc b = take nsc b'" "length b = 16" "bits_ok (take nsc b)" "sum_list (take nsc b) = int (shares fe * unat (fe_bitpool fe))"
    using frame_allocated[OF ok l(2)] j unfolding nsc_def mb_def by blast
  define f where "f = frame_of fe j b"
  have fsel: "fr_channels f = fe_channels fe" "fr_subbands f = fe_subbands fe" "fr_blocks f = fe_blocks fe"
    "fr_joint f = (sc_channel_mode (fe_config fe) = JointStereo)" "fr_scale_factor f = js_scf j" "fr_bits f = b" "fr_nsc f = nsc"
    by (simp_all add: f_def frame_of_def fr_nsc_def nsc_def)
  have wf: "frame_wf f" "covered (fr_nsc f) (fr_blocks f) (fr_sb f) (fr_scale_factor f)"
    using frame_of_wf[OF ok] j b(4,5) unfolding f_def nsc_def by blast+
  have len: "pack_len f \<le> max_frame_len fe" "fe_bitpool fe \<noteq> 0 \<Longrightarrow> pack_len f = frame_len (fe_config fe)"
    using pack_len_formula[OF wf(1) ok fsel(1-4)] b(6) by (simp_all add: fsel)
  obtain out' pad where p: "pack f out = Some (out', pack_len f)" "drop (pack_len f) out' = drop (pack_len f) out" "pad \<le> 8"
    "byte_bits (take (pack_len f) out') = frame_layout f pad"
    using pack_eq[OF wf(1), of out True] len(1) out covered_fits(1)[OF wf] by (auto simp: fe_def)
  define st' where "st' = st\<lparr> fs_analysis := a, fs_sb := js_sb j, fs_scale_factor := js_scf j, fs_bits := b, fs_join := js_join j \<rparr>"
  have "frame_encode st pcm out = Some (Inr (st', out', pack_len f))"
    unfolding frame_encode_def Let_def fe_def[symmetric] nsc_def[symmetric] n(1)[symmetric]
    using pcm(1) out sb(1) b(1) p(1) by (simp add: st'_def flip: j_def fe_def) (simp flip: f_def)
  moreover have "fs_inv st'" using ok jl b(4) sb(4,5) by (auto simp: fs_inv_def st'_def fe_def Let_def)
  moreover have "encoded_frame fe f" using wf(1) covered_fits(2)[OF wf] b(2,3)
    by (simp add: encoded_frame_def receiver_max_def fsel mb_def)
  moreover have "f = frame_of fe (frame_joint st (sb @ drop n (fs_sb st))) (fs_bits st')" by (simp add: f_def st'_def j_def)
  moreover have "fs_enc st' = fe" by (simp add: st'_def fe_def)
  ultimately show ?thesis using sb(1) len p(2-4) by blast
qed

lemma fs_apply_inv:
  assumes "pred_option fs_inv s" "frame_op_ok e"
  shows "pred_option fs_inv (fs_apply s e)"
proof (cases s)
  case (Some st)
  show ?thesis
  proof (cases e)
    case (SetBitpool bp)
    then show ?thesis using assms Some by (simp add: fs_inv_set_bitpool)
  next
    case (Encode pcm out)
    show ?thesis
    proof (cases "length pcm = pcm_samples (fs_enc st) \<and> max_frame_len (fs_enc st) \<le> length out")
      case True
      then obtain st' out' len where "frame_encode st pcm out = Some (Inr (st', out', len))" "fs_inv st'"
        using frame_encode_ok[of st pcm out] assms Some Encode by auto
      then show ?thesis using Some Encode by simp
    next
      case False
      then have "\<exists>e. frame_encode st pcm out = Some (Inl e)" by (auto simp: frame_encode_def Let_def)
      then show ?thesis using assms Some Encode by auto
    qed
  qed
qed simp

interpretation frames: inv_machine "fs_start c" fs_apply frame_op_ok "pred_option fs_inv" for c
proof unfold_locales
  show "pred_option fs_inv (fs_start c)" by (auto simp: fs_start_def dest: fs_inv_new split: sum.splits)
qed (rule fs_apply_inv)

text \<open>C2. The SBC encoder produces the frames of the specification. In every state that a valid
  configuration, bitpool changes and earlier frames lead to, a frame of 16-bit samples is encoded without
  a panic or an endless loop; its length is the A2DP formula's (with bitpool 0 at most one byte more) and
  nothing is written behind it; its bits are the sync word, the header, the bitpool, the CRC-8 of the protected bits, the
  join flags and scale factors, and each subband sample quantized to the bits allocated to it; and a receiver
  that runs the allocation on the frame's own scale factors gets the same bits.\<close>

theorem sbc_frame_encoded:
  assumes "foldl fs_apply (fs_start c) ops = Some st" "list_all frame_op_ok ops"
    and "length pcm = pcm_samples (fs_enc st)" "i16_list pcm" "max_frame_len (fs_enc st) \<le> length out"
  shows "let fe = fs_enc st; n = fe_blocks fe * (fe_channels fe * fe_subbands fe) in
    \<exists>st' out' len a sb f pad. frame_encode st pcm out = Some (Inr (st', out', len))
      \<and> analysis_filter (fs_analysis st) pcm (fe_subbands fe) (fe_channels fe) (fe_blocks fe) (take n (fs_sb st)) = Some (a, sb)
      \<and> f = frame_of fe (frame_joint st (sb @ drop n (fs_sb st))) (fs_bits st') \<and> encoded_frame fe f
      \<and> len \<le> max_frame_len fe \<and> (fe_bitpool fe \<noteq> 0 \<longrightarrow> len = frame_len (fe_config fe)) \<and> pad \<le> 8
      \<and> byte_bits (take len out') = frame_layout f pad \<and> drop len out' = drop len out"
proof -
  have "fs_inv st" using frames.reachable_inv[OF assms(2), of c] assms(1) by simp
  from frame_encode_ok[OF this assms(3,4,5)] show ?thesis unfolding Let_def by blast
qed

theorem sbc_frame_encoded_witness:
  "\<exists>st. fs_start \<lparr> sc_sample_rate = 44100, sc_channel_mode = JointStereo, sc_blocks = 16, sc_subbands = 8,
          sc_allocation = Loudness, sc_bitpool = 53 \<rparr> = Some st
     \<and> (\<exists>st' out' len. frame_encode st (replicate 256 1000) (replicate 200 0) = Some (Inr (st', out', len)) \<and> len = 119)"
proof -
  let ?c = "\<lparr> sc_sample_rate = 44100, sc_channel_mode = JointStereo, sc_blocks = 16, sc_subbands = 8,
      sc_allocation = Loudness, sc_bitpool = 53 \<rparr>"
  obtain st where st: "fs_start ?c = Some st" "fe_config (fs_enc st) = ?c" "pcm_samples (fs_enc st) = 256" "fe_bitpool (fs_enc st) = 53"
    by (simp add: fs_start_def frame_state_new_def frame_encoder_new_def validate_def Let_def pcm_samples_def mode_channels_def
        effective_bitpool_def shared_bitpool_def)
  have fl: "frame_len ?c = 119" by (simp add: frame_len_def Let_def mode_channels_def effective_bitpool_def shared_bitpool_def)
  then have m: "max_frame_len (fs_enc st) = 119" by (simp add: max_frame_len_def st)
  have "i16_list (replicate 256 1000)" by (simp add: i16_list_def is_i16_def list_all_iff)
  then show ?thesis
    using sbc_frame_encoded[of ?c "[]" st "replicate 256 1000" "replicate 200 0"] st m fl by (auto simp: Let_def)
qed

end
