(* ===== verification/Packetizer.thy ===== *)
theory Packetizer
  imports Codec_Kind
begin

text \<open>
  Packing of codec frames into A2DP media payloads, \<^verbatim>\<open>app/src/crates/pipeline/src/packetizer.rs\<close>,
  with the packet of \<^verbatim>\<open>app/src/crates/bt-host/src/media.rs\<close>. The fixed-size array of a packet
  is a byte list of that length written in place; the callback \<^verbatim>\<open>send\<close> is the list of the
  packets sent. An abstract packetizer over the list of pending encoder outputs, and the refinement of
  it by the code's, give the conservation of the audio data and the headers.
\<close>

definition RTP_HEADER_SIZE :: usize where
  "RTP_HEADER_SIZE = 12"

definition MAX_MEDIA_PACKET_SIZE :: usize where
  "MAX_MEDIA_PACKET_SIZE = 1691"

definition MEDIA_PAYLOAD_LIMIT_MIN :: u16 where
  "MEDIA_PAYLOAD_LIMIT_MIN = 679"

definition MEDIA_PAYLOAD_LIMIT_MAX :: u16 where
  "MEDIA_PAYLOAD_LIMIT_MAX = 1679"

definition MEDIA_PAYLOAD_LIMIT_DEFAULT :: u16 where
  "MEDIA_PAYLOAD_LIMIT_DEFAULT = 1023"

definition clamp_media_payload_limit :: "u32 \<Rightarrow> u16" where
  "clamp_media_payload_limit limit =
     ucast (clamp_word limit (ucast MEDIA_PAYLOAD_LIMIT_MIN) (ucast MEDIA_PAYLOAD_LIMIT_MAX))"

record media_packet =
  mp_data :: bytes
  mp_len :: u16
  mp_timestamp :: u32
  mp_rtp :: bool
  mp_marker :: bool
  mp_queued_at :: "nat option"

definition default_packet :: media_packet where
  "default_packet = \<lparr> mp_data = replicate MAX_MEDIA_PACKET_SIZE 0, mp_len = 0, mp_timestamp = 0, mp_rtp = True,
     mp_marker = False, mp_queued_at = None \<rparr>"

definition mp_payload :: "media_packet \<Rightarrow> bytes" where
  "mp_payload p = take (unat (mp_len p)) (mp_data p)"

definition FASTSTREAM_FRAME_BYTES :: usize where
  "FASTSTREAM_FRAME_BYTES = 72"

definition FASTSTREAM_FRAMES_PER_PACKET :: usize where
  "FASTSTREAM_FRAMES_PER_PACKET = 3"

definition FASTSTREAM_MAX_PAYLOAD :: usize where
  "FASTSTREAM_MAX_PAYLOAD = FASTSTREAM_FRAMES_PER_PACKET * FASTSTREAM_FRAME_BYTES"

subsection \<open>The packetizer\<close>

definition one_output_per_packet :: "codec_kind \<Rightarrow> bool" where
  "one_output_per_packet k \<longleftrightarrow> k \<in> {Ldac, Opus, Opus05, Aac, AptxAdaptive}"

record packetizer =
  pk_kind :: codec_kind
  pk_header :: usize
  pk_max_raw :: usize
  pk_packet :: media_packet
  pk_frames :: u32
  pk_first_ts :: u32
  pk_lhdc_seq :: u8

text \<open>The \<^verbatim>\<open>usize\<close> subtractions of \<^verbatim>\<open>max_raw\<close> underflow (a panic) below the header's
  length; that is None.\<close>

definition max_raw :: "codec_kind \<Rightarrow> u16 \<Rightarrow> u32 \<Rightarrow> usize option" where
  "max_raw k mtu sample_rate =
     (let mtu = unat mtu
      in case k of
           LhdcV5 \<Rightarrow> if 2 \<le> mtu then Some (mtu - 2) else None
         | AptxAdaptive \<Rightarrow> Some (min (mtu + RTP_HEADER_SIZE) MAX_MEDIA_PACKET_SIZE)
         | FastStream \<Rightarrow> Some (min (mtu + RTP_HEADER_SIZE) FASTSTREAM_MAX_PAYLOAD)
         | _ \<Rightarrow>
           if k \<in> {Sbc, SbcXq, Ldac, Opus, Opus05} then (if 1 \<le> mtu then Some (mtu - 1) else None)
           else if k = Aptx \<or> k = AptxLl then
             (let mx = min (mtu + RTP_HEADER_SIZE) MAX_MEDIA_PACKET_SIZE;
                  ll = unat sample_rate * 75 div 10000;
                  mx = (if k = AptxLl \<and> sample_rate > 0 \<and> 4 \<le> ll then min mx ll else mx)
              in Some (mx - mx mod 4))
           else Some mtu)"

definition packetizer_new :: "codec_kind \<Rightarrow> u16 \<Rightarrow> u32 \<Rightarrow> packetizer option" where
  "packetizer_new k mtu sample_rate =
     (case max_raw k mtu sample_rate of
        None \<Rightarrow> None
      | Some m \<Rightarrow>
          let header = media_header_len k
          in Some \<lparr> pk_kind = k, pk_header = header, pk_max_raw = min m (MAX_MEDIA_PACKET_SIZE - header),
               pk_packet = default_packet\<lparr> mp_len := of_nat header, mp_rtp := uses_rtp k \<rparr>,
               pk_frames = 0, pk_first_ts = 0, pk_lhdc_seq = 0 \<rparr>)"

definition pk_reset :: "packetizer \<Rightarrow> packetizer" where
  "pk_reset p = p\<lparr> pk_packet := (pk_packet p)\<lparr> mp_len := of_nat (pk_header p) \<rparr>, pk_frames := 0, pk_lhdc_seq := 0 \<rparr>"

definition raw_len :: "packetizer \<Rightarrow> usize" where
  "raw_len p = unat (mp_len (pk_packet p)) - pk_header p"

definition write_header :: "packetizer \<Rightarrow> packetizer" where
  "write_header p =
     (let d = mp_data (pk_packet p)
      in if pk_kind p \<in> {Sbc, SbcXq, Ldac, Opus, Opus05}
         then p\<lparr> pk_packet := (pk_packet p)\<lparr> mp_data := d[0 := ucast (pk_frames p AND 0x0F)] \<rparr> \<rparr>
         else if pk_kind p = LhdcV5
         then p\<lparr> pk_packet := (pk_packet p)\<lparr> mp_data := d[0 := ucast (push_bit 2 (pk_frames p AND 0x3F)), 1 := pk_lhdc_seq p] \<rparr>,
                 pk_lhdc_seq := pk_lhdc_seq p + 1 \<rparr>
         else p)"

definition pk_flush :: "dev_overrides \<Rightarrow> packetizer \<Rightarrow> packetizer \<times> media_packet list" where
  "pk_flush ov p =
     (if pk_frames p = 0 then (p, [])
      else let p = write_header p;
               pkt = (pk_packet p)\<lparr> mp_timestamp := pk_first_ts p, mp_marker := mp_rtp (pk_packet p) \<and> rtp_marker ov \<rparr>
           in (p\<lparr> pk_packet := pkt\<lparr> mp_len := of_nat (pk_header p) \<rparr>, pk_frames := 0 \<rparr>, [pkt]))"

definition pk_append :: "packetizer \<Rightarrow> bytes \<Rightarrow> u32 \<Rightarrow> packetizer" where
  "pk_append p data frames =
     (let at = unat (mp_len (pk_packet p)); d = mp_data (pk_packet p)
      in if at + length data \<le> MAX_MEDIA_PACKET_SIZE
         then p\<lparr> pk_packet := (pk_packet p)\<lparr> mp_data := take at d @ data @ drop (at + length data) d,
                   mp_len := mp_len (pk_packet p) + of_nat (length data) \<rparr>,
                 pk_frames := pk_frames p + frames \<rparr>
         else p)"

definition pk_push :: "dev_overrides \<Rightarrow> packetizer \<Rightarrow> bytes \<Rightarrow> u32 \<Rightarrow> u32 \<Rightarrow> packetizer \<times> media_packet list" where
  "pk_push ov p data frames timestamp =
     (let count_full = (pk_header p = 1 \<and> pk_frames p + frames > 15);
          (p, sent) = (if (raw_len p + length data > pk_max_raw p \<or> count_full) \<and> pk_frames p > 0 then pk_flush ov p else (p, []));
          p = (if pk_frames p = 0 \<and> raw_len p = 0 then p\<lparr> pk_first_ts := timestamp \<rparr> else p);
          p = pk_append p data frames
      in if one_output_per_packet (pk_kind p)
         then let (p, sent') = pk_flush ov p in (p, sent @ sent')
         else (p, sent))"

definition pk_end_round :: "dev_overrides \<Rightarrow> packetizer \<Rightarrow> packetizer \<times> media_packet list" where
  "pk_end_round ov p =
     (if pk_kind p = FastStream \<and> raw_len p < pk_max_raw p then (p, []) else pk_flush ov p)"

datatype pk_event = PkPush bytes u32 u32 | PkEndRound | PkFlush

fun pk_step :: "dev_overrides \<Rightarrow> packetizer \<Rightarrow> pk_event \<Rightarrow> packetizer \<times> media_packet list" where
  "pk_step ov p (PkPush data frames ts) = pk_push ov p data frames ts"
| "pk_step ov p PkEndRound = pk_end_round ov p"
| "pk_step ov p PkFlush = pk_flush ov p"

fun pk_run :: "dev_overrides \<Rightarrow> packetizer \<Rightarrow> pk_event list \<Rightarrow> packetizer \<times> media_packet list" where
  "pk_run ov p [] = (p, [])"
| "pk_run ov p (ev # evs) =
     (let (p', sent) = pk_step ov p ev; (p'', rest) = pk_run ov p' evs in (p'', sent @ rest))"

subsection \<open>The abstract packetizer\<close>

text \<open>Its state is the list of the encoder outputs waiting (data, frames, timestamp) and the LHDC sequence
  number; a packet is the header the codec wants, the data of the outputs in order, and the first
  one's timestamp. Outputs without a frame wait for one that has some; an output that does not fit the
  packet array behind those waiting is dropped.\<close>

type_synonym pk_output = "bytes \<times> u32 \<times> u32"

abbreviation o_data :: "pk_output \<Rightarrow> bytes" where "o_data x \<equiv> fst x"
abbreviation o_frames :: "pk_output \<Rightarrow> nat" where "o_frames x \<equiv> unat (fst (snd x))"
abbreviation o_ts :: "pk_output \<Rightarrow> u32" where "o_ts x \<equiv> snd (snd x)"

definition frame_sum :: "pk_output list \<Rightarrow> nat" where
  "frame_sum xs = sum_list (map o_frames xs)"

definition all_data :: "pk_output list \<Rightarrow> bytes" where
  "all_data xs = concat (map o_data xs)"

definition spec_header :: "codec_kind \<Rightarrow> u8 \<Rightarrow> nat \<Rightarrow> bytes" where
  "spec_header k seq n =
     (if k \<in> {Sbc, SbcXq, Ldac, Opus, Opus05} then [of_nat (n mod 16)]
      else if k = LhdcV5 then [of_nat (4 * (n mod 64)), seq] else [])"

definition spec_emit :: "codec_kind \<Rightarrow> pk_output list \<times> u8 \<Rightarrow> (pk_output list \<times> u8) \<times> (bytes \<times> u32) list" where
  "spec_emit k s =
     (let (xs, seq) = s
      in if frame_sum xs = 0 then (s, [])
         else (([], if k = LhdcV5 then seq + 1 else seq),
               [(spec_header k seq (frame_sum xs) @ all_data xs, o_ts (hd xs))]))"

definition spec_full :: "codec_kind \<Rightarrow> nat \<Rightarrow> pk_output list \<Rightarrow> pk_output \<Rightarrow> bool" where
  "spec_full k mx xs x \<longleftrightarrow> 0 < frame_sum xs \<and>
     (length (all_data xs) + length (o_data x) > mx \<or> (media_header_len k = 1 \<and> frame_sum xs + o_frames x > 15))"

definition spec_push :: "codec_kind \<Rightarrow> nat \<Rightarrow> pk_output list \<times> u8 \<Rightarrow> pk_output \<Rightarrow> (pk_output list \<times> u8) \<times> (bytes \<times> u32) list" where
  "spec_push k mx s x =
     (let (s, sent) = (if spec_full k mx (fst s) x then spec_emit k s else (s, []));
          s = (if media_header_len k + length (all_data (fst s)) + length (o_data x) \<le> MAX_MEDIA_PACKET_SIZE
               then (fst s @ [x], snd s) else s)
      in if one_output_per_packet k then let (s, sent') = spec_emit k s in (s, sent @ sent') else (s, sent))"

fun spec_step :: "codec_kind \<Rightarrow> nat \<Rightarrow> pk_output list \<times> u8 \<Rightarrow> pk_event \<Rightarrow> (pk_output list \<times> u8) \<times> (bytes \<times> u32) list" where
  "spec_step k mx s (PkPush data frames ts) = spec_push k mx s (data, frames, ts)"
| "spec_step k mx s PkEndRound = (if k = FastStream \<and> length (all_data (fst s)) < mx then (s, []) else spec_emit k s)"
| "spec_step k mx s PkFlush = spec_emit k s"

fun spec_run :: "codec_kind \<Rightarrow> nat \<Rightarrow> pk_output list \<times> u8 \<Rightarrow> pk_event list \<Rightarrow> (pk_output list \<times> u8) \<times> (bytes \<times> u32) list" where
  "spec_run k mx s [] = (s, [])"
| "spec_run k mx s (ev # evs) =
     (let (s', sent) = spec_step k mx s ev; (s'', rest) = spec_run k mx s' evs in (s'', sent @ rest))"

subsection \<open>Refinement\<close>

definition real_output :: "pk_output \<Rightarrow> bool" where
  "real_output x \<longleftrightarrow> o_data x \<noteq> [] \<and> o_frames x \<le> 65535"

definition ok_output :: "codec_kind \<Rightarrow> pk_output \<Rightarrow> bool" where
  "ok_output k x \<longleftrightarrow> o_data x \<noteq> [] \<and> 1 \<le> o_frames x \<and> o_frames x \<le> 65535
     \<and> media_header_len k + length (o_data x) \<le> MAX_MEDIA_PACKET_SIZE"

definition pk_rel :: "codec_kind \<Rightarrow> nat \<Rightarrow> packetizer \<Rightarrow> pk_output list \<times> u8 \<Rightarrow> bool" where
  "pk_rel k mx p s \<longleftrightarrow>
     pk_kind p = k \<and> pk_header p = media_header_len k \<and> pk_max_raw p = mx
     \<and> mx \<le> MAX_MEDIA_PACKET_SIZE - media_header_len k
     \<and> length (mp_data (pk_packet p)) = MAX_MEDIA_PACKET_SIZE
     \<and> media_header_len k + length (all_data (fst s)) \<le> MAX_MEDIA_PACKET_SIZE
     \<and> unat (mp_len (pk_packet p)) = media_header_len k + length (all_data (fst s))
     \<and> subslice (mp_data (pk_packet p)) (media_header_len k) (media_header_len k + length (all_data (fst s))) = all_data (fst s)
     \<and> unat (pk_frames p) = frame_sum (fst s) \<and> list_all real_output (fst s)
     \<and> (fst s \<noteq> [] \<longrightarrow> pk_first_ts p = o_ts (hd (fst s))) \<and> pk_lhdc_seq p = snd s"

definition packet_view :: "media_packet \<Rightarrow> bytes \<times> u32" where
  "packet_view p = (mp_payload p, mp_timestamp p)"

lemma frame_sum_simps [simp]: "frame_sum [] = 0" "frame_sum (x # xs) = o_frames x + frame_sum xs"
  "frame_sum (xs @ ys) = frame_sum xs + frame_sum ys"
  by (simp_all add: frame_sum_def)

lemma all_data_simps [simp]: "all_data [] = []" "all_data (x # xs) = o_data x @ all_data xs"
  "all_data (xs @ ys) = all_data xs @ all_data ys"
  by (simp_all add: all_data_def)

lemma frame_sum_bounds: "list_all real_output xs \<Longrightarrow> frame_sum xs \<le> 65535 * length (all_data xs)"
proof (induction xs)
  case (Cons x xs)
  then have x: "1 \<le> length (o_data x)" "o_frames x \<le> 65535" by (auto simp: real_output_def Suc_le_eq)
  have "o_frames x + frame_sum xs \<le> 65535 * 1 + 65535 * length (all_data xs)" using Cons x by simp
  also have "\<dots> \<le> 65535 * length (o_data x) + 65535 * length (all_data xs)" using x by simp
  finally show ?case using Cons x by (simp add: algebra_simps)
qed simp

lemma real_data_empty: "list_all real_output xs \<Longrightarrow> all_data xs = [] \<longleftrightarrow> xs = []"
  by (cases xs) (auto simp: real_output_def)

lemma rel_frames_0: "pk_rel k mx p s \<Longrightarrow> pk_frames p = 0 \<longleftrightarrow> frame_sum (fst s) = 0"
  by (simp add: pk_rel_def flip: unat_eq_zero)

lemma header_len_cases:
  "media_header_len k = (if k \<in> {Sbc, SbcXq, Ldac, Opus, Opus05} then 1 else if k = LhdcV5 then 2 else 0)"
  by (cases k) simp_all

lemma header2: "media_header_len k \<le> 2"
  by (simp add: header_len_cases)

lemma ucast_frames: "(ucast ((w::u32) AND 0x0F) :: u8) = of_nat (unat w mod 16)"
proof -
  have m: "(w AND 0x0F) = take_bit 4 w" by (simp add: take_bit_eq_mask mask_eq_exp_minus_1)
  show ?thesis unfolding m
    by (simp add: word_eq_iff_unsigned[where ?'a = nat] unsigned_ucast_eq unsigned_take_bit_eq unat_of_nat take_bit_eq_mod
        unat_mod_distrib)
qed

lemma ucast_frames2: "(ucast (push_bit 2 ((w::u32) AND 0x3F)) :: u8) = of_nat (4 * (unat w mod 64))"
proof -
  have m: "(w AND 0x3F) = take_bit 6 w" by (simp add: take_bit_eq_mask mask_eq_exp_minus_1)
  have "4 * (unat w mod 64) < 256" using mod_less_divisor[of 64 "unat w"] by linarith
  then show ?thesis unfolding m
    by (simp add: word_eq_iff_unsigned[where ?'a = nat] unsigned_ucast_eq unsigned_take_bit_eq unsigned_push_bit_eq
        unat_of_nat take_bit_eq_mod push_bit_eq_mult mult.commute unat_word_ariths unat_mod_distrib)
qed

lemma take_header:
  assumes "h \<le> n" "n \<le> length d" "subslice d h n = xs" "length hs = h"
  shows "take n (hs @ drop h d) = hs @ xs"
  using assms by (simp add: subslice_def)

lemma update_head1: "0 < length d \<Longrightarrow> d[0 := x] = [x] @ drop 1 d"
  by (cases d) auto

lemma update_head2: "1 < length d \<Longrightarrow> d[0 := x, 1 := y] = [x, y] @ drop 2 d"
  by (cases d; cases "tl d") (auto simp: numeral_2_eq_2)

lemma write_header_spec:
  assumes "length (mp_data (pk_packet p)) = MAX_MEDIA_PACKET_SIZE"
  shows "write_header p = p\<lparr> pk_packet := (pk_packet p)\<lparr> mp_data :=
      spec_header (pk_kind p) (pk_lhdc_seq p) (unat (pk_frames p)) @ drop (media_header_len (pk_kind p)) (mp_data (pk_packet p)) \<rparr>,
      pk_lhdc_seq := (if pk_kind p = LhdcV5 then pk_lhdc_seq p + 1 else pk_lhdc_seq p) \<rparr>"
proof -
  have l: "0 < length (mp_data (pk_packet p))" "1 < length (mp_data (pk_packet p))"
    using assms by (simp_all add: MAX_MEDIA_PACKET_SIZE_def)
  consider "pk_kind p \<in> {Sbc, SbcXq, Ldac, Opus, Opus05}" | "pk_kind p = LhdcV5"
    | "pk_kind p \<notin> {Sbc, SbcXq, Ldac, Opus, Opus05}" "pk_kind p \<noteq> LhdcV5" by blast
  then show ?thesis
  proof cases
    case 1
    then show ?thesis unfolding write_header_def Let_def ucast_frames update_head1[OF l(1)]
      by (auto simp: spec_header_def)
  next
    case 2
    then show ?thesis unfolding write_header_def Let_def ucast_frames2 update_head2[OF l(2)]
      by (simp add: spec_header_def)
  next
    case 3
    then show ?thesis by (simp add: write_header_def spec_header_def header_len_cases)
  qed
qed

lemma length_spec_header: "length (spec_header k seq n) = media_header_len k"
  by (simp add: spec_header_def header_len_cases)

lemma flush_rel:
  assumes R: "pk_rel k mx p s"
  shows "pk_rel k mx (fst (pk_flush ov p)) (fst (spec_emit k s)) \<and> map packet_view (snd (pk_flush ov p)) = snd (spec_emit k s)"
proof (cases "frame_sum (fst s) = 0")
  case True
  then show ?thesis using R rel_frames_0[OF R] by (auto simp: pk_flush_def spec_emit_def split_beta)
next
  case False
  let ?h = "media_header_len k"
  have len: "length (mp_data (pk_packet p)) = MAX_MEDIA_PACKET_SIZE" using R by (simp add: pk_rel_def)
  have f: "pk_frames p \<noteq> 0" using False rel_frames_0[OF R] by simp
  have pay: "take (?h + length (all_data (fst s))) (spec_header k (snd s) (frame_sum (fst s)) @ drop ?h (mp_data (pk_packet p)))
      = spec_header k (snd s) (frame_sum (fst s)) @ all_data (fst s)"
    using R by (intro take_header) (auto simp: pk_rel_def length_spec_header)
  have h: "?h \<le> 2" by (simp add: header_len_cases)
  then have uh: "unat (of_nat ?h :: u16) = ?h" by (simp add: unat_of_nat take_bit_eq_mod)
  show ?thesis using R False f pay
    by (simp add: pk_flush_def spec_emit_def split_beta Let_def write_header_spec[OF len] packet_view_def mp_payload_def)
      (auto simp: pk_rel_def uh length_spec_header subslice_def MAX_MEDIA_PACKET_SIZE_def)
qed

lemma append_rel:
  assumes R: "pk_rel k mx p s" and x: "real_output (data, frames, ts)"
    and fits: "media_header_len k + length (all_data (fst s)) + length data \<le> MAX_MEDIA_PACKET_SIZE"
    and first: "fst s = [] \<Longrightarrow> pk_first_ts p = ts"
  shows "pk_rel k mx (pk_append p data frames) (fst s @ [(data, frames, ts)], snd s)"
proof -
  let ?h = "media_header_len k" and ?d = "mp_data (pk_packet p)"
  let ?n = "?h + length (all_data (fst s))"
  have at: "unat (mp_len (pk_packet p)) = ?n" and dl: "length ?d = MAX_MEDIA_PACKET_SIZE"
    and sl: "subslice ?d ?h ?n = all_data (fst s)" using R by (simp_all add: pk_rel_def)
  have len: "unat (mp_len (pk_packet p) + of_nat (length data)) = ?n + length data"
    using fits at by (simp add: unat_word_ariths unat_of_nat take_bit_eq_mod MAX_MEDIA_PACKET_SIZE_def)
  have "length data \<le> MAX_MEDIA_PACKET_SIZE" "?n \<le> length ?d" using fits dl by simp_all
  then have data: "subslice (take ?n ?d @ data @ drop (?n + length data) ?d) ?h (?n + length data) = all_data (fst s) @ data"
    using sl by (simp add: subslice_def drop_take)
  have "frame_sum (fst s) + unat frames \<le> 65535 * length (all_data (fst s @ [(data, frames, ts)]))"
    using frame_sum_bounds[of "fst s @ [(data, frames, ts)]"] R x by (simp add: pk_rel_def)
  also have "\<dots> \<le> 65535 * 1691" using fits by (simp add: MAX_MEDIA_PACKET_SIZE_def)
  finally have fr: "unat (pk_frames p + frames) = frame_sum (fst s) + unat frames"
    using R by (simp add: pk_rel_def unat_word_ariths)
  have A: "pk_append p data frames = p\<lparr> pk_packet := (pk_packet p)\<lparr> mp_data := take ?n ?d @ data @ drop (?n + length data) ?d,
      mp_len := mp_len (pk_packet p) + of_nat (length data) \<rparr>, pk_frames := pk_frames p + frames \<rparr>"
    using fits by (simp add: pk_append_def Let_def at)
  have ts: "pk_first_ts p = o_ts (hd (fst s @ [(data, frames, ts)]))"
    using first R by (cases "fst s") (simp_all add: pk_rel_def)
  have dl': "length (take ?n ?d @ data @ drop (?n + length data) ?d) = MAX_MEDIA_PACKET_SIZE" using dl fits by simp
  have fixed: "pk_kind p = k" "pk_header p = ?h" "pk_max_raw p = mx" "mx \<le> MAX_MEDIA_PACKET_SIZE - ?h"
    "list_all real_output (fst s)" "pk_lhdc_seq p = snd s" using R by (simp_all add: pk_rel_def)
  show ?thesis unfolding pk_rel_def A
    using fixed x fits ts len fr data dl' by (simp del: length_append add: add.assoc) (simp add: add.assoc)
qed

lemma raw_len_rel: "pk_rel k mx p s \<Longrightarrow> raw_len p = length (all_data (fst s))"
  by (simp add: pk_rel_def raw_len_def)

lemma count_rel:
  assumes "pk_rel k mx p s" "unat frames \<le> 65535"
  shows "pk_frames p + frames > 15 \<longleftrightarrow> frame_sum (fst s) + unat frames > 15"
proof -
  have "frame_sum (fst s) \<le> 65535 * 1691"
    using assms(1) frame_sum_bounds[of "fst s"] by (simp add: pk_rel_def MAX_MEDIA_PACKET_SIZE_def)
  then have "unat (pk_frames p + frames) = frame_sum (fst s) + unat frames"
    using assms by (simp add: pk_rel_def unat_word_ariths)
  then show ?thesis by (simp add: word_less_nat_alt)
qed

lemma spec_emit_empty: "frame_sum (fst (fst (spec_emit k s))) = 0"
  by (auto simp: spec_emit_def split_beta Let_def)

lemma push_rel:
  assumes R: "pk_rel k mx p s" and x: "real_output (data, frames, ts)"
  shows "pk_rel k mx (fst (pk_push ov p data frames ts)) (fst (spec_push k mx s (data, frames, ts)))
    \<and> map packet_view (snd (pk_push ov p data frames ts)) = snd (spec_push k mx s (data, frames, ts))"
proof -
  let ?x = "(data, frames, ts)"
  define r where "r = (if spec_full k mx (fst s) ?x then pk_flush ov p else (p, []))"
  define t where "t = (if spec_full k mx (fst s) ?x then spec_emit k s else (s, []))"
  have full: "((raw_len p + length data > pk_max_raw p \<or> (pk_header p = 1 \<and> pk_frames p + frames > 15)) \<and> pk_frames p > 0)
      = spec_full k mx (fst s) ?x"
    using R x rel_frames_0[OF R] count_rel[OF R, of frames] raw_len_rel[OF R]
    by (auto simp: spec_full_def pk_rel_def real_output_def word_gt_0)
  have r: "pk_rel k mx (fst r) (fst t)" "map packet_view (snd r) = snd t"
    using R flush_rel[OF R, of ov] by (auto simp: r_def t_def)
  let ?p1 = "if pk_frames (fst r) = 0 \<and> raw_len (fst r) = 0 then (fst r)\<lparr> pk_first_ts := ts \<rparr> else fst r"
  have e: "raw_len (fst r) = 0 \<longleftrightarrow> fst (fst t) = []"
    using raw_len_rel[OF r(1)] real_data_empty[of "fst (fst t)"] r(1) by (simp add: pk_rel_def)
  have e2: "fst (fst t) = [] \<Longrightarrow> pk_frames (fst r) = 0" using rel_frames_0[OF r(1)] by simp
  have p1: "pk_rel k mx ?p1 (fst t)" using r(1) e by (auto simp: pk_rel_def)
  let ?fits = "media_header_len k + length (all_data (fst (fst t))) + length data \<le> MAX_MEDIA_PACKET_SIZE"
  define t1 where "t1 = (if ?fits then (fst (fst t) @ [?x], snd (fst t)) else fst t)"
  have a: "pk_rel k mx (pk_append ?p1 data frames) t1"
  proof (cases ?fits)
    case True
    have "fst (fst t) = [] \<Longrightarrow> pk_first_ts ?p1 = ts" using e e2 by simp
    then show ?thesis using append_rel[OF p1 x True] True by (simp add: t1_def)
  next
    case False
    then have "pk_append ?p1 data frames = ?p1" using p1 by (simp add: pk_append_def Let_def pk_rel_def)
    then show ?thesis using p1 False by (simp add: t1_def)
  qed
  have k: "pk_kind (pk_append ?p1 data frames) = k" using a by (simp add: pk_rel_def)
  have P: "pk_push ov p data frames ts = (if one_output_per_packet k then
      (fst (pk_flush ov (pk_append ?p1 data frames)), snd r @ snd (pk_flush ov (pk_append ?p1 data frames)))
      else (pk_append ?p1 data frames, snd r))"
    unfolding pk_push_def full Let_def r_def[symmetric] split_beta by (simp add: k split_beta)
  have S: "spec_push k mx s ?x = (if one_output_per_packet k then
      (fst (spec_emit k t1), snd t @ snd (spec_emit k t1)) else (t1, snd t))"
    unfolding spec_push_def t_def[symmetric] Let_def split_beta t1_def by (simp add: add.assoc)
  show ?thesis unfolding P S using a r(2) flush_rel[OF a, of ov] by simp
qed

fun real_event :: "pk_event \<Rightarrow> bool" where
  "real_event (PkPush data frames ts) = real_output (data, frames, ts)"
| "real_event _ = True"

fun ok_event :: "codec_kind \<Rightarrow> pk_event \<Rightarrow> bool" where
  "ok_event k (PkPush data frames ts) = ok_output k (data, frames, ts)"
| "ok_event k _ = True"

lemma step_rel:
  assumes R: "pk_rel k mx p s" and "real_event ev"
  shows "pk_rel k mx (fst (pk_step ov p ev)) (fst (spec_step k mx s ev))
    \<and> map packet_view (snd (pk_step ov p ev)) = snd (spec_step k mx s ev)"
proof (cases ev)
  case PkEndRound
  have "pk_kind p = k" "pk_max_raw p = mx" using R by (simp_all add: pk_rel_def)
  then show ?thesis using PkEndRound R flush_rel[OF R, of ov] raw_len_rel[OF R] by (auto simp: pk_end_round_def)
qed (use assms push_rel[OF R] flush_rel[OF R] in auto)

lemma run_rel:
  "pk_rel k mx p s \<Longrightarrow> list_all real_event evs \<Longrightarrow>
     pk_rel k mx (fst (pk_run ov p evs)) (fst (spec_run k mx s evs))
     \<and> map packet_view (snd (pk_run ov p evs)) = snd (spec_run k mx s evs)"
proof (induction evs arbitrary: p s)
  case (Cons ev evs)
  have st: "pk_rel k mx (fst (pk_step ov p ev)) (fst (spec_step k mx s ev))"
    "map packet_view (snd (pk_step ov p ev)) = snd (spec_step k mx s ev)" using step_rel Cons.prems by auto
  show ?case using Cons.IH[OF st(1)] Cons.prems st(2) by (simp add: split_beta Let_def)
qed simp

lemma ok_real: "list_all (ok_event k) evs \<Longrightarrow> list_all real_event evs"
proof -
  have "ok_event k ev \<Longrightarrow> real_event ev" for ev by (cases ev) (simp_all add: ok_output_def real_output_def)
  then show "list_all (ok_event k) evs \<Longrightarrow> list_all real_event evs" by (auto simp: list_all_iff)
qed

lemma new_rel: "packetizer_new k mtu rate = Some p \<Longrightarrow> pk_rel k (pk_max_raw p) p ([], 0)"
  by (auto simp: packetizer_new_def pk_rel_def default_packet_def header_len_cases subslice_def
      MAX_MEDIA_PACKET_SIZE_def split: option.splits)

subsection \<open>The abstract packetizer keeps the data and its bounds\<close>

fun pushed :: "pk_event list \<Rightarrow> bytes" where
  "pushed [] = []"
| "pushed (PkPush data frames ts # evs) = data @ pushed evs"
| "pushed (_ # evs) = pushed evs"

definition strip :: "codec_kind \<Rightarrow> (bytes \<times> u32) list \<Rightarrow> bytes" where
  "strip k ps = concat (map (\<lambda>p. drop (media_header_len k) (fst p)) ps)"

lemma strip_simps [simp]: "strip k [] = []" "strip k (ps @ qs) = strip k ps @ strip k qs"
  by (simp_all add: strip_def)

lemma ok_frames: "list_all (ok_output k) xs \<Longrightarrow> frame_sum xs = 0 \<longleftrightarrow> xs = []"
  by (cases xs) (auto simp: ok_output_def)

lemma emit_strip:
  assumes "list_all (ok_output k) (fst s)"
  shows "strip k (snd (spec_emit k s)) = all_data (fst s) \<and> fst (fst (spec_emit k s)) = []"
  using ok_frames[OF assms] by (auto simp: spec_emit_def split_beta Let_def strip_def length_spec_header)

lemma push_conserves:
  assumes s: "list_all (ok_output k) (fst s)" and x: "ok_output k x" and mx: "mx \<le> MAX_MEDIA_PACKET_SIZE - media_header_len k"
  shows "strip k (snd (spec_push k mx s x)) @ all_data (fst (fst (spec_push k mx s x))) = all_data (fst s) @ o_data x
    \<and> list_all (ok_output k) (fst (fst (spec_push k mx s x)))"
proof -
  define t where "t = (if spec_full k mx (fst s) x then spec_emit k s else (s, []))"
  have t: "strip k (snd t) @ all_data (fst (fst t)) = all_data (fst s)" "list_all (ok_output k) (fst (fst t))"
    using s emit_strip[OF s] by (auto simp: t_def)
  have "media_header_len k + length (all_data (fst (fst t))) + length (o_data x) \<le> MAX_MEDIA_PACKET_SIZE"
  proof (cases "fst (fst t) = []")
    case True
    then show ?thesis using x by (simp add: ok_output_def)
  next
    case False
    then have "\<not> spec_full k mx (fst s) x" "0 < frame_sum (fst s)"
      using emit_strip[OF s] ok_frames[OF s] by (auto simp: t_def split: if_splits)
    then show ?thesis using mx header2[of k] by (auto simp: t_def spec_full_def MAX_MEDIA_PACKET_SIZE_def)
  qed
  then have S: "spec_push k mx s x = (let t1 = (fst (fst t) @ [x], snd (fst t)) in if one_output_per_packet k then
      (fst (spec_emit k t1), snd t @ snd (spec_emit k t1)) else (t1, snd t))"
    unfolding spec_push_def t_def[symmetric] Let_def split_beta by simp
  have "list_all (ok_output k) (fst (fst (fst t) @ [x], snd (fst t)))" using t(2) x by simp
  from emit_strip[OF this] show ?thesis unfolding S Let_def using t x by (auto simp flip: append.assoc)
qed

lemma step_conserves:
  assumes "list_all (ok_output k) (fst s)" "ok_event k ev" "mx \<le> MAX_MEDIA_PACKET_SIZE - media_header_len k"
  shows "strip k (snd (spec_step k mx s ev)) @ all_data (fst (fst (spec_step k mx s ev))) = all_data (fst s) @ pushed [ev]
    \<and> list_all (ok_output k) (fst (fst (spec_step k mx s ev)))"
  using assms push_conserves[of k s _ mx] emit_strip[of k s] by (cases ev) auto

lemma pushed_Cons: "pushed (ev # evs) = pushed [ev] @ pushed evs"
  by (cases ev) auto

lemma run_conserves:
  assumes "mx \<le> MAX_MEDIA_PACKET_SIZE - media_header_len k"
  shows "list_all (ok_output k) (fst s) \<Longrightarrow> list_all (ok_event k) evs \<Longrightarrow>
    strip k (snd (spec_run k mx s evs)) @ all_data (fst (fst (spec_run k mx s evs))) = all_data (fst s) @ pushed evs
    \<and> list_all (ok_output k) (fst (fst (spec_run k mx s evs)))"
proof (induction evs arbitrary: s)
  case (Cons ev evs)
  let ?r = "spec_step k mx s ev"
  have st: "strip k (snd ?r) @ all_data (fst (fst ?r)) = all_data (fst s) @ pushed [ev]" "list_all (ok_output k) (fst (fst ?r))"
    using step_conserves[OF Cons.prems(1) _ assms, of ev] Cons.prems(2) by auto
  have "strip k (snd (spec_run k mx (fst ?r) evs)) @ all_data (fst (fst (spec_run k mx (fst ?r) evs))) = all_data (fst (fst ?r)) @ pushed evs
    \<and> list_all (ok_output k) (fst (fst (spec_run k mx (fst ?r) evs)))" using Cons st(2) by simp
  with st(1) have "strip k (snd ?r) @ strip k (snd (spec_run k mx (fst ?r) evs)) @ all_data (fst (fst (spec_run k mx (fst ?r) evs)))
      = all_data (fst s) @ pushed [ev] @ pushed evs" "list_all (ok_output k) (fst (fst (spec_run k mx (fst ?r) evs)))"
    by (metis append.assoc)+
  then show ?case by (simp add: Let_def split_beta pushed_Cons[of ev evs])
qed simp

lemma spec_run_append: "spec_run k mx s (xs @ ys) =
    (fst (spec_run k mx (fst (spec_run k mx s xs)) ys), snd (spec_run k mx s xs) @ snd (spec_run k mx (fst (spec_run k mx s xs)) ys))"
  by (induction xs arbitrary: s) (simp_all add: Let_def split_beta)

text \<open>Bounds of the packets: the pending outputs never exceed one packet.\<close>

definition small :: "codec_kind \<Rightarrow> nat \<Rightarrow> pk_event \<Rightarrow> bool" where
  "small k mx ev = (case ev of PkPush data frames ts \<Rightarrow> data \<noteq> [] \<and> length data \<le> mx \<and> 1 \<le> unat frames \<and> unat frames \<le> 15 | _ \<Rightarrow> True)"

definition pend_ok :: "codec_kind \<Rightarrow> nat \<Rightarrow> pk_output list \<Rightarrow> bool" where
  "pend_ok k mx xs \<longleftrightarrow> length (all_data xs) \<le> mx \<and> (media_header_len k = 1 \<longrightarrow> frame_sum xs \<le> 15) \<and> (xs \<noteq> [] \<longrightarrow> 0 < frame_sum xs)"

definition packet_ok :: "codec_kind \<Rightarrow> nat \<Rightarrow> bytes \<times> u32 \<Rightarrow> bool" where
  "packet_ok k mx p \<longleftrightarrow> length (fst p) \<le> media_header_len k + mx
     \<and> (media_header_len k = 1 \<longrightarrow> 1 \<le> unat (fst p ! 0) \<and> unat (fst p ! 0) \<le> 15)"

lemma emit_ok: "pend_ok k mx (fst s) \<Longrightarrow> pend_ok k mx (fst (fst (spec_emit k s))) \<and> list_all (packet_ok k mx) (snd (spec_emit k s))"
proof -
  assume p: "pend_ok k mx (fst s)"
  have "media_header_len k = 1 \<Longrightarrow> spec_header k q n = [of_nat (n mod 16)]" for q n
    by (auto simp: spec_header_def header_len_cases split: if_splits)
  with p show ?thesis
    by (auto simp: spec_emit_def split_beta Let_def pend_ok_def packet_ok_def length_spec_header unat_of_nat take_bit_eq_mod)
qed

lemma step_ok:
  assumes mx: "mx \<le> MAX_MEDIA_PACKET_SIZE - media_header_len k" and p: "pend_ok k mx (fst s)" and ev: "small k mx ev"
  shows "pend_ok k mx (fst (fst (spec_step k mx s ev))) \<and> list_all (packet_ok k mx) (snd (spec_step k mx s ev))"
proof (cases ev)
  case (PkPush data frames ts)
  let ?x = "(data, frames, ts)"
  define t where "t = (if spec_full k mx (fst s) ?x then spec_emit k s else (s, []))"
  have t: "pend_ok k mx (fst (fst t))" "list_all (packet_ok k mx) (snd t)"
    using p emit_ok[OF p] by (auto simp: t_def)
  have "fst (fst t) \<noteq> [] \<Longrightarrow> \<not> spec_full k mx (fst (fst t)) ?x"
    using spec_emit_empty[of k s] by (auto simp: t_def spec_full_def)
  then have a: "pend_ok k mx (fst (fst t) @ [?x])"
    using ev PkPush t(1) by (cases "fst (fst t) = []") (auto simp: pend_ok_def small_def spec_full_def)
  then have fits: "media_header_len k + length (all_data (fst (fst t))) + length data \<le> MAX_MEDIA_PACKET_SIZE"
    using mx header2[of k] by (auto simp: pend_ok_def MAX_MEDIA_PACKET_SIZE_def)
  have S: "spec_push k mx s ?x = (if one_output_per_packet k then
      (fst (spec_emit k (fst (fst t) @ [?x], snd (fst t))), snd t @ snd (spec_emit k (fst (fst t) @ [?x], snd (fst t))))
      else ((fst (fst t) @ [?x], snd (fst t)), snd t))"
    unfolding spec_push_def t_def[symmetric] Let_def using fits by (simp add: split_beta)
  show ?thesis using a t(2) emit_ok[of k mx "(fst (fst t) @ [?x], snd (fst t))"] by (simp add: PkPush S)
qed (use p emit_ok[OF p] in auto)

lemma run_ok:
  "mx \<le> MAX_MEDIA_PACKET_SIZE - media_header_len k \<Longrightarrow> pend_ok k mx (fst s) \<Longrightarrow> list_all (small k mx) evs \<Longrightarrow> list_all (packet_ok k mx) (snd (spec_run k mx s evs))"
proof (induction evs arbitrary: s)
  case (Cons ev evs)
  then show ?case using step_ok[of mx k s ev] by (auto simp: Let_def split_beta)
qed simp

subsection \<open>Properties\<close>

text \<open>C23. The packetizer refines the abstract one: over any sequence of pushes of non-empty encoder
  outputs (the encode loop pushes no other) of at most 65535 frames each, round ends and flushes, the
  packets sent are those of the abstract packetizer: the codec's header (the frame count in four bits,
  or LHDC's count and sequence number) in front of the data of the outputs collected, in order, stamped
  with the first output's timestamp. An output larger than a packet is dropped, after what was waiting
  has been sent; outputs without a frame wait for the next that has one.\<close>

theorem packetizer_refines:
  assumes "packetizer_new k mtu rate = Some p"
    and "list_all (\<lambda>ev. case ev of PkPush data frames _ \<Rightarrow> data \<noteq> [] \<and> unat frames \<le> 65535 | _ \<Rightarrow> True) evs"
  shows "map packet_view (snd (pk_run ov p evs)) = snd (spec_run k (pk_max_raw p) ([], 0) evs)"
proof -
  have "list_all real_event evs"
    using assms(2) by (rule list.pred_mono_strong) (auto simp: real_output_def split: pk_event.splits)
  then show ?thesis using run_rel[OF new_rel[OF assms(1)]] by blast
qed

theorem packetizer_refines_witness:
  "case packetizer_new LhdcV5 100 48000 of None \<Rightarrow> False
   | Some p \<Rightarrow> map packet_view (snd (pk_run default_overrides p
         [PkPush [7, 8] 2 480, PkPush (replicate 1690 1) 1 720, PkPush [3] 0 720, PkPush [9] 1 960, PkEndRound]))
       = [([8, 0, 7, 8], 480), ([4, 1, 3, 9], 720)]"
proof -
  obtain p where p: "packetizer_new LhdcV5 100 48000 = Some p" "pk_max_raw p = 98"
    by (simp add: packetizer_new_def max_raw_def Let_def MAX_MEDIA_PACKET_SIZE_def)
  then show ?thesis
    using packetizer_refines[OF p(1), of "[PkPush [7, 8] 2 480, PkPush (replicate 1690 1) 1 720, PkPush [3] 0 720, PkPush [9] 1 960, PkEndRound]"
        default_overrides]
    by (simp add: MAX_MEDIA_PACKET_SIZE_def spec_push_def spec_full_def one_output_per_packet_def
        spec_emit_def spec_header_def)
qed

text \<open>C24. No audio is lost, repeated or reordered by packing: after a final flush, the payloads of the
  packets sent, without their headers and joined, are exactly the encoder outputs joined, for outputs
  that fit a packet.\<close>

theorem packetizer_conserves_data:
  assumes "packetizer_new k mtu rate = Some p" and "list_all (ok_event k) evs"
  shows "concat (map (\<lambda>q. drop (media_header_len k) (mp_payload q)) (snd (pk_run ov p (evs @ [PkFlush])))) = pushed evs"
proof -
  let ?s = "spec_run k (pk_max_raw p) ([], 0) evs"
  have "map packet_view (snd (pk_run ov p (evs @ [PkFlush]))) = snd (spec_run k (pk_max_raw p) ([], 0) (evs @ [PkFlush]))"
    using run_rel[OF new_rel[OF assms(1)], of "evs @ [PkFlush]"] ok_real[OF assms(2)] by simp
  moreover have "pk_max_raw p \<le> MAX_MEDIA_PACKET_SIZE - media_header_len k"
    using new_rel[OF assms(1)] by (simp add: pk_rel_def)
  then have "strip k (snd ?s) @ all_data (fst (fst ?s)) = pushed evs \<and> list_all (ok_output k) (fst (fst ?s))"
    using run_conserves[of "pk_max_raw p" k "([], 0)" evs] assms(2) by simp
  then have "strip k (snd (spec_run k (pk_max_raw p) ([], 0) (evs @ [PkFlush]))) = pushed evs"
    using emit_strip[of k "fst ?s"] by (simp add: spec_run_append)
  ultimately have "strip k (map packet_view (snd (pk_run ov p (evs @ [PkFlush])))) = pushed evs" by simp
  then show ?thesis by (simp add: strip_def packet_view_def comp_def)
qed

theorem packetizer_conserves_data_witness:
  "case packetizer_new Sbc 8 44100 of None \<Rightarrow> False
   | Some p \<Rightarrow> concat (map (\<lambda>q. drop (media_header_len Sbc) (mp_payload q))
       (snd (pk_run default_overrides p ([PkPush [1, 2, 3, 4, 5] 1 0, PkPush [6, 7, 8] 1 128] @ [PkFlush])))) = [1, 2, 3, 4, 5, 6, 7, 8]"
proof -
  obtain p where p: "packetizer_new Sbc 8 44100 = Some p"
    by (simp add: packetizer_new_def max_raw_def Let_def MAX_MEDIA_PACKET_SIZE_def)
  then show ?thesis
    using packetizer_conserves_data[OF p, of "[PkPush [1, 2, 3, 4, 5] 1 0, PkPush [6, 7, 8] 1 128]" default_overrides]
    by (simp add: ok_output_def MAX_MEDIA_PACKET_SIZE_def)
qed

text \<open>C25. Packet bounds: with encoder outputs of 1 to 15 frames that fit the packet, no packet is longer
  than the media header and the codec data limit, and for the codecs whose header is a frame count
  that count is between 1 and 15, never truncated to four bits.\<close>

theorem packet_bounds:
  assumes new: "packetizer_new k mtu rate = Some p" and small: "list_all (small k (pk_max_raw p)) evs"
  shows "list_all (\<lambda>q. length (mp_payload q) \<le> media_header_len k + pk_max_raw p
     \<and> (media_header_len k = 1 \<longrightarrow> 1 \<le> unat (mp_payload q ! 0) \<and> unat (mp_payload q ! 0) \<le> 15)) (snd (pk_run ov p evs))"
proof -
  have R: "pk_rel k (pk_max_raw p) p ([], 0)" using new by (rule new_rel)
  then have mx: "pk_max_raw p \<le> MAX_MEDIA_PACKET_SIZE - media_header_len k" by (simp add: pk_rel_def)
  have h: "media_header_len k \<le> 2" by (simp add: header_len_cases)
  have "small k (pk_max_raw p) ev \<Longrightarrow> ok_event k ev" for ev
    using mx h by (cases ev) (auto simp: small_def ok_output_def MAX_MEDIA_PACKET_SIZE_def)
  then have "list_all (ok_event k) evs" using small by (auto simp: list_all_iff)
  then have "map packet_view (snd (pk_run ov p evs)) = snd (spec_run k (pk_max_raw p) ([], 0) evs)"
    using run_rel[OF R ok_real] by blast
  moreover have "list_all (packet_ok k (pk_max_raw p)) (snd (spec_run k (pk_max_raw p) ([], 0) evs))"
    using small mx by (intro run_ok) (simp_all add: pend_ok_def)
  ultimately have "list_all (packet_ok k (pk_max_raw p)) (map packet_view (snd (pk_run ov p evs)))" by simp
  then show ?thesis by (simp add: list.pred_map comp_def packet_ok_def packet_view_def)
qed

theorem packet_bounds_witness:
  "case packetizer_new Sbc 8 44100 of None \<Rightarrow> False
   | Some p \<Rightarrow> list_all (\<lambda>q. length (mp_payload q) \<le> 8 \<and> 1 \<le> unat (mp_payload q ! 0) \<and> unat (mp_payload q ! 0) \<le> 15)
       (snd (pk_run default_overrides p [PkPush [1, 2, 3, 4, 5] 15 0, PkPush [6] 2 128, PkEndRound]))"
proof -
  obtain p where p: "packetizer_new Sbc 8 44100 = Some p" "pk_max_raw p = 7"
    by (simp add: packetizer_new_def max_raw_def Let_def MAX_MEDIA_PACKET_SIZE_def)
  then show ?thesis
    using packet_bounds[OF p(1), of "[PkPush [1, 2, 3, 4, 5] 15 0, PkPush [6] 2 128, PkEndRound]" default_overrides]
    by (simp add: small_def)
qed

end
