(* ===== verification/Sbc_Encoders.thy ===== *)
theory Sbc_Encoders
  imports Sbc_Frame Sbc_Abr Packetizer
begin

text \<open>
  The encoders of a stream that are built on SBC frames: \<^verbatim>\<open>SbcEncoder\<close> (SBC and SBC XQ) of
  \<^verbatim>\<open>app/src/crates/codec/src/sbc/mod.rs\<close> with its signal path, and \<^verbatim>\<open>FastStreamEncoder\<close> of \<^verbatim>\<open>faststream.rs\<close>.
  The setup and the adaptive bitpool of the former are in \<open>Sbc_Setup\<close> and \<open>Sbc_Abr\<close>; the state here joins them with
  the buffers of the frame encoder (\<open>Sbc_Frame\<close>) and of the downmix.

  Shown: whatever the adaptive bitpool does between frames, no call panics and every \<^verbatim>\<open>encode\<close> of a
  frame's samples writes exactly the announced number of bytes, never more than announced at the start.
\<close>

subsection \<open>Samples in, bytes out\<close>

datatype pcm = I16 "int list" | I32 "int list"

record encoded =
  en_bytes :: nat
  en_frames :: nat

definition wrap16 :: "int \<Rightarrow> int" where
  "wrap16 x = (x + 2 ^ 15) mod 2 ^ 16 - 2 ^ 15"

subsection \<open>SBC and SBC XQ\<close>

record sbc_stream =
  ss_enc :: sbc_encoder
  ss_frame :: frame_state
  ss_mono :: "int list"

definition sbc_stream_new :: "codec_kind \<Rightarrow> encoder_config \<Rightarrow> encoder_error + sbc_stream" where
  "sbc_stream_new k cfg =
     (case create_sbc k cfg of
        Inl e \<Rightarrow> Inl e
      | Inr e \<Rightarrow> map_sum id (\<lambda>st. \<lparr> ss_enc = e, ss_frame = st, ss_mono = replicate (case se_downmix e of None \<Rightarrow> 0 | Some n \<Rightarrow> n) 0 \<rparr>)
                    (frame_state_new (fe_config (se_frame e))))"

definition ss_max_output_bytes :: "sbc_stream \<Rightarrow> nat" where
  "ss_max_output_bytes s = se_max_frame_len (ss_enc s)"

definition ss_pcm_frames :: "sbc_stream \<Rightarrow> nat" where
  "ss_pcm_frames s = pcm_frames_per_frame (fe_config (se_frame (ss_enc s)))"

definition mix_down :: "int list \<Rightarrow> int list \<Rightarrow> int list" where
  "mix_down mono_buf xs =
     (let mixed = take (length mono_buf) (map (\<lambda>p. wrap16 ((p ! 0 + p ! 1) div 2)) (chunks_exact 2 xs))
      in mixed @ drop (length mixed) mono_buf)"

definition ss_finish :: "sbc_stream \<Rightarrow> (encoder_error + frame_state \<times> bytes \<times> nat) option \<Rightarrow>
    (sbc_stream \<times> (encoder_error + bytes \<times> encoded)) option" where
  "ss_finish s = map_option (\<lambda>r. case r of
       Inl err \<Rightarrow> (s, Inl err)
     | Inr (st, out, n) \<Rightarrow> (s\<lparr> ss_frame := st \<rparr>, Inr (out, \<lparr> en_bytes = n, en_frames = 1 \<rparr>)))"

definition ss_encode :: "sbc_stream \<Rightarrow> pcm \<Rightarrow> bytes \<Rightarrow> (sbc_stream \<times> (encoder_error + bytes \<times> encoded)) option" where
  "ss_encode s p out =
     (case p of
        I32 _ \<Rightarrow> Some (s, Inl (EncodeFailed (se_kind (ss_enc s)) ''SBC takes 16-bit PCM''))
      | I16 xs \<Rightarrow>
          (case se_downmix (ss_enc s) of
             Some _ \<Rightarrow>
               if length xs \<noteq> 2 * length (ss_mono s)
               then Some (s, Inl (InputLength (2 * length (ss_mono s)) (length xs)))
               else let m = mix_down (ss_mono s) xs
                    in ss_finish (s\<lparr> ss_mono := m \<rparr>) (frame_encode (ss_frame s) m out)
           | None \<Rightarrow> ss_finish s (frame_encode (ss_frame s) xs out)))"

definition ss_with :: "sbc_stream \<Rightarrow> sbc_encoder \<Rightarrow> sbc_stream" where
  "ss_with s e = s\<lparr> ss_enc := e, ss_frame := (ss_frame s)\<lparr> fs_enc := se_frame e \<rparr> \<rparr>"

definition ss_abr_adjust :: "sbc_stream \<Rightarrow> u32 \<Rightarrow> sbc_stream" where
  "ss_abr_adjust s depth = ss_with s (se_abr_adjust (ss_enc s) depth)"

definition ss_abr_reset :: "sbc_stream \<Rightarrow> sbc_stream" where
  "ss_abr_reset s = ss_with s (se_abr_reset (ss_enc s))"

text \<open>What the encode thread calls: bitpool steps, resets, frames (whether they succeed or not).\<close>

datatype enc_event = AbrAdjust u32 | AbrReset | EncodePcm pcm bytes

fun enc_event_ok :: "enc_event \<Rightarrow> bool" where
  "enc_event_ok (EncodePcm (I16 xs) _) = i16_list xs"
| "enc_event_ok _ = True"

fun ss_step :: "sbc_stream option \<Rightarrow> enc_event \<Rightarrow> sbc_stream option" where
  "ss_step None _ = None"
| "ss_step (Some s) (AbrAdjust d) = Some (ss_abr_adjust s d)"
| "ss_step (Some s) AbrReset = Some (ss_abr_reset s)"
| "ss_step (Some s) (EncodePcm p out) =
     map_option fst (ss_encode s p out)"

subsection \<open>FastStream\<close>

definition FS_BLOCKS :: u8 where "FS_BLOCKS = 16"
definition FS_SUBBANDS :: u8 where "FS_SUBBANDS = 8"
definition FS_PCM_FRAMES :: nat where "FS_PCM_FRAMES = unat FS_BLOCKS * unat FS_SUBBANDS"
definition FASTSTREAM_BITPOOL :: u8 where "FASTSTREAM_BITPOOL = 29"

lemmas faststream_consts = FS_BLOCKS_def FS_SUBBANDS_def FS_PCM_FRAMES_def FASTSTREAM_BITPOOL_def FASTSTREAM_FRAME_BYTES_def

record faststream_encoder =
  fa_frame :: frame_state
  fa_sample_rate :: u32
  fa_mono :: bool
  fa_stereo :: "int list"

definition faststream_config :: "u32 \<Rightarrow> sbc_config" where
  "faststream_config rate = \<lparr> sc_sample_rate = rate, sc_channel_mode = JointStereo, sc_blocks = FS_BLOCKS,
     sc_subbands = FS_SUBBANDS, sc_allocation = Loudness, sc_bitpool = FASTSTREAM_BITPOOL \<rparr>"

definition faststream_new :: "encoder_config \<Rightarrow> encoder_error + faststream_encoder" where
  "faststream_new cfg =
     (if ec_sample_rate cfg \<noteq> 44100 \<and> ec_sample_rate cfg \<noteq> 48000
      then Inl (Unsupported FastStream (''sample rate '' @ show_nat (unat (ec_sample_rate cfg)) @ '' Hz (44100 or 48000)''))
      else if \<not> (ec_channels cfg = 1 \<or> ec_channels cfg = 2)
      then Inl (Unsupported FastStream (show_nat (unat (ec_channels cfg)) @ '' channels''))
      else case frame_state_new (faststream_config (ec_sample_rate cfg)) of
             Inl e \<Rightarrow> Inl e
           | Inr st \<Rightarrow> Inr \<lparr> fa_frame = st, fa_sample_rate = ec_sample_rate cfg, fa_mono = (ec_channels cfg = 1),
               fa_stereo = replicate (2 * FS_PCM_FRAMES) 0 \<rparr>)"

definition fa_double :: "int list \<Rightarrow> int list \<Rightarrow> int list" where
  "fa_double stereo xs =
     (let n = min (length stereo div 2) (length xs)
      in concat (map (\<lambda>s. [s, s]) (take n xs)) @ drop (2 * n) stereo)"

function fa_pad :: "bytes \<Rightarrow> nat \<Rightarrow> (bytes \<times> nat) option" where
  "fa_pad out n =
     (if n < FASTSTREAM_FRAME_BYTES
      then (case set_at n 0 out of None \<Rightarrow> None | Some out' \<Rightarrow> fa_pad out' (n + 1))
      else Some (out, n))"
  by pat_completeness auto
termination by (relation "measure (\<lambda>(_, n). FASTSTREAM_FRAME_BYTES - n)") auto

declare fa_pad.simps [simp del]

definition fa_finish :: "faststream_encoder \<Rightarrow> (encoder_error + frame_state \<times> bytes \<times> nat) option \<Rightarrow>
    (faststream_encoder \<times> (encoder_error + bytes \<times> encoded)) option" where
  "fa_finish e r =
     (case r of
        None \<Rightarrow> None
      | Some (Inl err) \<Rightarrow> Some (e, Inl err)
      | Some (Inr (st, out, n)) \<Rightarrow>
          map_option (\<lambda>(out, n). (e\<lparr> fa_frame := st \<rparr>, Inr (out, \<lparr> en_bytes = n, en_frames = 1 \<rparr>))) (fa_pad out n))"

definition fa_encode :: "faststream_encoder \<Rightarrow> pcm \<Rightarrow> bytes \<Rightarrow> (faststream_encoder \<times> (encoder_error + bytes \<times> encoded)) option" where
  "fa_encode e p out =
     (case p of
        I32 _ \<Rightarrow> Some (e, Inl (EncodeFailed FastStream ''FastStream takes 16-bit PCM''))
      | I16 xs \<Rightarrow>
          if length out < FASTSTREAM_FRAME_BYTES
          then Some (e, Inl (OutputTooSmall (length out) FASTSTREAM_FRAME_BYTES))
          else if fa_mono e then
            if length xs \<noteq> FS_PCM_FRAMES then Some (e, Inl (InputLength FS_PCM_FRAMES (length xs)))
            else let s = fa_double (fa_stereo e) xs
                 in fa_finish (e\<lparr> fa_stereo := s \<rparr>) (frame_encode (fa_frame e) s out)
          else fa_finish e (frame_encode (fa_frame e) xs out))"

definition fa_bitrate_kbps :: "faststream_encoder \<Rightarrow> u32" where
  "fa_bitrate_kbps e = (8 * of_nat FASTSTREAM_FRAME_BYTES * fa_sample_rate e) div of_nat FS_PCM_FRAMES div 1000"

subsection \<open>The state of a stream\<close>

definition ss_inv :: "sbc_stream \<Rightarrow> bool" where
  "ss_inv s \<longleftrightarrow> se_wf (ss_enc s) \<and> fs_inv (ss_frame s) \<and> fs_enc (ss_frame s) = se_frame (ss_enc s)
     \<and> fe_bitpool (se_frame (ss_enc s)) \<noteq> 0
     \<and> (\<forall>n. se_downmix (ss_enc s) = Some n \<longrightarrow> n = length (ss_mono s) \<and> n = pcm_samples (se_frame (ss_enc s)))"

lemma se_step_kept:
  "se_downmix (se_step e ev) = se_downmix e \<and> pcm_samples (se_frame (se_step e ev)) = pcm_samples (se_frame e)
     \<and> pcm_frames_per_frame (fe_config (se_frame (se_step e ev))) = pcm_frames_per_frame (fe_config (se_frame e))
     \<and> (se_frame (se_step e ev) = se_frame e \<or> (\<exists>bp. se_frame (se_step e ev) = frame_set_bitpool (se_frame e) bp))"
  by (cases ev) (auto simp: se_abr_adjust_def se_abr_reset_def se_set_bitpool_def Let_def split_beta
      frame_set_bitpool_def pcm_samples_def pcm_frames_per_frame_def split: option.splits)

lemma se_step_fixed: "se_abr e = None \<Longrightarrow> se_step e ev = e"
  by (cases ev) (simp_all add: se_abr_adjust_def se_abr_reset_def)

lemma se_step_abr: "se_abr e = Some a \<Longrightarrow> \<exists>a'. se_abr (se_step e ev) = Some a'"
  by (cases ev) (auto simp: se_abr_adjust_def se_abr_reset_def se_set_bitpool_def Let_def split_beta)

lemma se_step_bitpool_pos:
  assumes wf: "se_wf e" and pos: "fe_bitpool (se_frame e) \<noteq> 0"
  shows "fe_bitpool (se_frame (se_step e ev)) \<noteq> 0"
proof (cases "se_abr e")
  case None
  then show ?thesis using pos se_step_fixed by simp
next
  case (Some a)
  then obtain a' where a': "se_abr (se_step e ev) = Some a'" using se_step_abr by blast
  let ?c = "fe_config (se_frame (se_step e ev))"
  have "0 < sc_bitpool ?c" "sc_subbands ?c = 4 \<or> sc_subbands ?c = 8" "fe_bitpool (se_frame (se_step e ev)) = effective_bitpool ?c"
    using se_step_wf[OF wf, of ev] a' by (auto simp: se_wf_def Let_def)
  then show ?thesis using effective_pos[of ?c] by simp
qed

lemma ss_inv_step:
  assumes "ss_inv s"
  shows "ss_inv (ss_with s (se_step (ss_enc s) ev))"
proof -
  let ?e = "se_step (ss_enc s) ev"
  have s: "se_wf (ss_enc s)" "fs_inv (ss_frame s)" "fs_enc (ss_frame s) = se_frame (ss_enc s)" "fe_bitpool (se_frame (ss_enc s)) \<noteq> 0"
    using assms by (auto simp: ss_inv_def)
  have "fs_inv ((ss_frame s)\<lparr> fs_enc := se_frame ?e \<rparr>)"
  proof (cases "se_frame ?e = se_frame (ss_enc s)")
    case True
    then show ?thesis using s(2,3) by (metis frame_state.surjective frame_state.update_convs(1) frame_state.select_convs(1))
  next
    case False
    then obtain bp where "se_frame ?e = frame_set_bitpool (se_frame (ss_enc s)) bp" using se_step_kept by blast
    then show ?thesis using fs_inv_set_bitpool[OF s(2), of bp] s(3) by (simp add: fs_set_bitpool_def)
  qed
  then show ?thesis
    using assms se_step_wf[OF s(1)] se_step_bitpool_pos[OF s(1,4)] se_step_kept[of "ss_enc s" ev] by (simp add: ss_inv_def ss_with_def)
qed

lemma length_mix_down: "length (mix_down m xs) = length m"
  by (simp add: mix_down_def Let_def)

lemma wrap16_mean: "is_i16 l \<Longrightarrow> is_i16 r \<Longrightarrow> wrap16 ((l + r) div 2) = (l + r) div 2 \<and> is_i16 ((l + r) div 2)"
  by (auto simp: is_i16_def wrap16_def)

lemma i16_mix_down:
  assumes "i16_list xs" "length xs = 2 * length m"
  shows "i16_list (mix_down m xs)" "mix_down m xs = map (\<lambda>p. (p ! 0 + p ! 1) div 2) (chunks_exact 2 xs)"
proof -
  have l: "length (chunks_exact 2 xs) = length m" "\<forall>c\<in>set (chunks_exact 2 xs). length c = 2"
    using chunks_exact_props[of 2 xs] assms(2) by auto
  have i: "is_i16 (p ! 0) \<and> is_i16 (p ! 1)" if "p \<in> set (chunks_exact 2 xs)" for p
  proof -
    have "length p = 2" using l(2) that by blast
    then have "p ! 0 \<in> set p" "p ! 1 \<in> set p" by (simp_all add: nth_mem)
    then show ?thesis using chunks_exact_set[OF that] assms(1) by (auto simp: i16_list_def list_all_iff)
  qed
  have e: "mix_down m xs = map (\<lambda>p. wrap16 ((p ! 0 + p ! 1) div 2)) (chunks_exact 2 xs)"
    using l(1) by (simp add: mix_down_def Let_def)
  show "mix_down m xs = map (\<lambda>p. (p ! 0 + p ! 1) div 2) (chunks_exact 2 xs)"
    unfolding e using i wrap16_mean by (auto intro!: map_cong)
  show "i16_list (mix_down m xs)"
    unfolding e using i wrap16_mean by (auto simp: i16_list_def list_all_iff)
qed

text \<open>The samples the frame encoder gets from a call.\<close>

definition ss_samples :: "sbc_stream \<Rightarrow> int list \<Rightarrow> int list" where
  "ss_samples s xs = (if se_downmix (ss_enc s) = None then xs else map (\<lambda>p. (p ! 0 + p ! 1) div 2) (chunks_exact 2 xs))"

lemma ss_encode_eq:
  assumes "ss_inv s" "i16_list xs" "length xs = pcm_samples (se_frame (ss_enc s)) * (if se_downmix (ss_enc s) = None then 1 else 2)"
  obtains m where "ss_encode s (I16 xs) out = ss_finish (s\<lparr> ss_mono := m \<rparr>) (frame_encode (ss_frame s) (ss_samples s xs) out)"
    "length m = length (ss_mono s)" "length (ss_samples s xs) = pcm_samples (se_frame (ss_enc s))" "i16_list (ss_samples s xs)"
proof (cases "se_downmix (ss_enc s)")
  case None
  then show ?thesis using that[of "ss_mono s"] assms by (simp add: ss_encode_def ss_samples_def)
next
  case (Some n)
  then have n: "n = length (ss_mono s)" "n = pcm_samples (se_frame (ss_enc s))" using assms(1) by (auto simp: ss_inv_def)
  then have l: "length xs = 2 * length (ss_mono s)" using assms(3) Some by simp
  note m = i16_mix_down[OF assms(2) l]
  show ?thesis using that[of "mix_down (ss_mono s) xs"] m Some n l length_mix_down[of "ss_mono s" xs]
    by (simp add: ss_encode_def ss_samples_def Let_def)
qed

lemma frame_encode_error:
  "\<not> (length pcm = pcm_samples (fs_enc st) \<and> max_frame_len (fs_enc st) \<le> length out) \<Longrightarrow> \<exists>e. frame_encode st pcm out = Some (Inl e)"
  by (auto simp: frame_encode_def Let_def)

lemma frame_encode_kept:
  assumes "fs_inv st" "i16_list pcm"
  obtains (err) e where "frame_encode st pcm out = Some (Inl e)"
  | (ok) st' out' n where "frame_encode st pcm out = Some (Inr (st', out', n))" "fs_inv st'" "fs_enc st' = fs_enc st"
proof (cases "length pcm = pcm_samples (fs_enc st) \<and> max_frame_len (fs_enc st) \<le> length out")
  case True
  then show ?thesis using ok frame_encode_ok[OF assms(1) _ assms(2), of out] by blast
next
  case False
  then show ?thesis using err frame_encode_error by blast
qed

lemma ss_inv_mono: "ss_inv s \<Longrightarrow> length m = length (ss_mono s) \<Longrightarrow> ss_inv (s\<lparr> ss_mono := m \<rparr>)"
  by (simp add: ss_inv_def)

lemma ss_finish_inv:
  assumes "ss_inv s" "i16_list xs"
  shows "\<exists>s' r. ss_finish s (frame_encode (ss_frame s) xs out) = Some (s', r) \<and> ss_inv s' \<and> ss_enc s' = ss_enc s"
proof -
  have "fs_inv (ss_frame s)" using assms(1) by (simp add: ss_inv_def)
  from frame_encode_kept[OF this assms(2), of out] show ?thesis
    using assms(1) by cases (auto simp: ss_finish_def ss_inv_def)
qed

lemma ss_inv_encode:
  assumes "ss_inv s" "enc_event_ok (EncodePcm p out)"
  shows "\<exists>s' r. ss_encode s p out = Some (s', r) \<and> ss_inv s' \<and> ss_enc s' = ss_enc s"
proof (cases p)
  case (I16 xs)
  then have i: "i16_list xs" using assms(2) by simp
  show ?thesis
  proof (cases "se_downmix (ss_enc s) = None \<or> length xs \<noteq> 2 * length (ss_mono s)")
    case True
    then show ?thesis using I16 ss_finish_inv[OF assms(1) i] assms(1) by (auto simp: ss_encode_def split: option.splits)
  next
    case False
    let ?m = "mix_down (ss_mono s) xs"
    have "ss_inv (s\<lparr> ss_mono := ?m \<rparr>)" using assms(1) by (simp add: ss_inv_mono length_mix_down)
    from ss_finish_inv[OF this] show ?thesis using False I16 i16_mix_down(1)[OF i] by (auto simp: ss_encode_def Let_def)
  qed
qed (use assms(1) in \<open>simp add: ss_encode_def\<close>)

lemma ss_step_eq:
  "ss_step (Some s) (AbrAdjust d) = Some (ss_with s (se_step (ss_enc s) (Adjust d)))"
  "ss_step (Some s) AbrReset = Some (ss_with s (se_step (ss_enc s) Reconnect))"
  by (simp_all add: ss_abr_adjust_def ss_abr_reset_def)

text \<open>A stream never panics, and what it announced at its start stays true.\<close>

definition ss_like :: "sbc_stream \<Rightarrow> sbc_stream \<Rightarrow> bool" where
  "ss_like s0 s \<longleftrightarrow> se_max_frame_len (ss_enc s) = se_max_frame_len (ss_enc s0) \<and> se_downmix (ss_enc s) = se_downmix (ss_enc s0)
     \<and> pcm_samples (se_frame (ss_enc s)) = pcm_samples (se_frame (ss_enc s0))"

definition ss_good :: "sbc_stream \<Rightarrow> sbc_stream option \<Rightarrow> bool" where
  "ss_good s0 x \<longleftrightarrow> (\<exists>s. x = Some s \<and> ss_inv s \<and> ss_like s0 s)"

lemma ss_good_step:
  assumes "ss_good s0 x" "enc_event_ok ev"
  shows "ss_good s0 (ss_step x ev)"
proof -
  obtain s where s: "x = Some s" "ss_inv s" "ss_like s0 s" using assms(1) by (auto simp: ss_good_def)
  have w: "ss_good s0 (Some (ss_with s (se_step (ss_enc s) e)))" for e
    using ss_inv_step[OF s(2), of e] s(3) se_step_max[of "ss_enc s" e] se_step_kept[of "ss_enc s" e]
    by (simp add: ss_good_def ss_like_def ss_with_def)
  show ?thesis
  proof (cases ev)
    case (EncodePcm p out)
    then show ?thesis using ss_inv_encode[OF s(2), of p out] assms(2) s(1,3) by (auto simp: ss_good_def ss_like_def)
  qed (use w s(1) ss_step_eq in metis)+
qed

interpretation streams: inv_machine "Some s0" ss_step enc_event_ok "\<lambda>x. ss_inv s0 \<longrightarrow> ss_good s0 x" for s0
  by unfold_locales (auto simp: ss_good_step, simp add: ss_good_def ss_like_def)

lemma sink_bitpool_pos: "0 < wanted \<Longrightarrow> 0 < sink_bitpool wanted cfg"
  by (simp add: sink_bitpool_def Let_def less_max_iff_disj)

lemma xq_bitpool_pos: "0 < xq_bitpool q rate"
  by (cases q) (simp_all add: xq_bitpool_def)

lemma auto_bitpool_pos: "0 < auto_bitpool q m"
  by (cases q) (simp_all add: auto_bitpool_def Let_def)

lemma new_bitpool_pos: "0 < sbc_new_bitpool cfg" "0 < sbc_new_xq_bitpool cfg"
  using xq_bitpool_pos[of High "ec_sample_rate cfg"] xq_bitpool_pos[of "ec_quality cfg" "ec_sample_rate cfg"] auto_bitpool_pos
  unfolding sbc_new_bitpool_def sbc_new_xq_bitpool_def Let_def SBC_MAX_BITPOOL_def xq_max_bitpool_def
  by (auto intro!: sink_bitpool_pos simp: less_max_iff_disj simp del: word_gt_0) (simp_all add: word_gt_0)

lemma sbc_with_mode_frame:
  assumes "sbc_with_mode k cfg bp = Inr e"
  shows "sc_bitpool (fe_config (se_frame e)) = bp" "frame_encoder_new (fe_config (se_frame e)) = Inr (se_frame e)"
    "\<forall>n. se_downmix e = Some n \<longrightarrow> n = pcm_samples (se_frame e)"
    "fe_channels (se_frame e) * (if se_downmix e = None then 1 else 2) = unat (ec_channels cfg)"
proof -
  obtain c fe where c: "frame_encoder_new c = Inr fe" "se_frame e = fe" "sc_bitpool c = bp"
    "sc_channel_mode c = params_channel_mode (pp_sbc (ec_peer cfg)) k (ec_channels cfg)"
    "se_downmix e = (if ec_channels cfg = 2 \<and> sc_channel_mode c = Mono then Some (pcm_samples fe) else None)"
    "ec_channels cfg = 1 \<or> ec_channels cfg = 2"
    using assms unfolding sbc_with_mode_def Let_def by (auto split: if_splits sum.splits)
  have "fe_config fe = c" "fe_channels fe = mode_channels (sc_channel_mode c)"
    using c(1) by (auto simp: frame_encoder_new_def split: sum.splits)
  then show "sc_bitpool (fe_config (se_frame e)) = bp" "frame_encoder_new (fe_config (se_frame e)) = Inr (se_frame e)"
    "\<forall>n. se_downmix e = Some n \<longrightarrow> n = pcm_samples (se_frame e)"
    "fe_channels (se_frame e) * (if se_downmix e = None then 1 else 2) = unat (ec_channels cfg)"
    using c by (auto simp: mode_channels_def params_channel_mode_def split: if_splits)
qed

lemma sbc_stream_new_inv:
  assumes "sbc_stream_new k cfg = Inr s"
  shows "ss_inv s"
    "pcm_samples (se_frame (ss_enc s)) * (if se_downmix (ss_enc s) = None then 1 else 2) = ss_pcm_frames s * unat (ec_channels cfg)"
proof -
  obtain e st where e: "create_sbc k cfg = Inr e" "frame_state_new (fe_config (se_frame e)) = Inr st"
    "s = \<lparr> ss_enc = e, ss_frame = st, ss_mono = replicate (case se_downmix e of None \<Rightarrow> 0 | Some n \<Rightarrow> n) 0 \<rparr>"
    using assms by (cases "create_sbc k cfg"; cases "frame_state_new (fe_config (se_frame (projr (create_sbc k cfg))))")
      (auto simp: sbc_stream_new_def)
  obtain k' bp where m: "sbc_with_mode k' cfg bp = Inr e" "0 < bp"
    using e(1) new_bitpool_pos by (auto simp: create_sbc_def sbc_new_def sbc_new_xq_def split: if_splits)
  note f = sbc_with_mode_frame[OF m(1)]
  have w: "se_wf e" by (rule sbc_with_mode_wf[OF m(1)])
  have "fs_enc st = se_frame e" using e(2) f(2) by (auto simp: frame_state_new_def split: sum.splits)
  moreover have "fe_bitpool (se_frame e) \<noteq> 0"
    using w f(1) m(2) effective_pos[of "fe_config (se_frame e)"] by (simp add: se_wf_def Let_def)
  ultimately show "ss_inv s" using w fs_inv_new[OF e(2)] f(3) by (simp add: ss_inv_def e(3))
  have "fe_ok (se_frame e)" by (rule fe_ok_new[OF f(2)])
  then show "pcm_samples (se_frame (ss_enc s)) * (if se_downmix (ss_enc s) = None then 1 else 2) = ss_pcm_frames s * unat (ec_channels cfg)"
    using f(4) by (simp add: e(3) ss_pcm_frames_def pcm_samples_def pcm_frames_per_frame_def fe_ok_def Let_def mult.assoc)
qed

lemma ss_encode_ok:
  assumes inv: "ss_inv s" and xs: "i16_list xs"
    "length xs = pcm_samples (se_frame (ss_enc s)) * (if se_downmix (ss_enc s) = None then 1 else 2)"
    and out: "se_frame_len (ss_enc s) \<le> length out"
  shows "\<exists>s' out' f pad. ss_encode s (I16 xs) out = Some (s', Inr (out', \<lparr> en_bytes = se_frame_len (ss_enc s), en_frames = 1 \<rparr>))
     \<and> encoded_frame (se_frame (ss_enc s)) f \<and> fr_bitpool f = fe_bitpool (se_frame (ss_enc s)) \<and> pad \<le> 8
     \<and> byte_bits (take (se_frame_len (ss_enc s)) out') = frame_layout f pad
     \<and> drop (se_frame_len (ss_enc s)) out' = drop (se_frame_len (ss_enc s)) out"
proof -
  let ?fe = "se_frame (ss_enc s)"
  obtain m where m: "ss_encode s (I16 xs) out = ss_finish (s\<lparr> ss_mono := m \<rparr>) (frame_encode (ss_frame s) (ss_samples s xs) out)"
    "length (ss_samples s xs) = pcm_samples ?fe" "i16_list (ss_samples s xs)"
    using ss_encode_eq[OF inv xs] by metis
  have i: "fs_inv (ss_frame s)" "fs_enc (ss_frame s) = ?fe" "fe_bitpool ?fe \<noteq> 0" "se_frame_len (ss_enc s) = max_frame_len ?fe"
    using inv by (auto simp: ss_inv_def se_wf_def Let_def)
  then have len: "frame_len (fe_config ?fe) = se_frame_len (ss_enc s)" by (simp add: max_frame_len_def)
  obtain st' out' n f pad j b where r: "frame_encode (ss_frame s) (ss_samples s xs) out = Some (Inr (st', out', n))"
    "f = frame_of ?fe j b" "encoded_frame ?fe f" "n = se_frame_len (ss_enc s)" "pad \<le> 8"
    "byte_bits (take n out') = frame_layout f pad" "drop n out' = drop n out"
    using frame_encode_ok[OF i(1) _ m(3), of out] m(2) i(2-4) len out by (auto simp: Let_def)
  have "fr_bitpool f = fe_bitpool ?fe" by (simp add: r(2) frame_of_def)
  then show ?thesis using m(1) r by (auto simp: ss_finish_def)
qed

text \<open>C1. An SBC stream always produces its frames. Take a stream the SBC or SBC XQ encoder accepts and any sequence of
  bitpool steps, resets and encode calls (with 16-bit samples, whatever their number or the output's size). Nothing of it
  panics or hangs; and then the samples of one frame in an output of at least the size announced at the
  start give one frame that fills exactly the current frame length, which is not above the announced
  size, with the layout of the specification, the bitpool of the moment in its header, and nothing
  written behind it.\<close>

theorem sbc_stream_encodes:
  assumes "sbc_stream_new k cfg = Inr s0" "list_all enc_event_ok evs"
    and "i16_list xs" "length xs = ss_pcm_frames s0 * unat (ec_channels cfg)" "ss_max_output_bytes s0 \<le> length out"
  shows "\<exists>s s' out' f pad. foldl ss_step (Some s0) evs = Some s
    \<and> (let n = se_frame_len (ss_enc s); fe = se_frame (ss_enc s) in
        ss_encode s (I16 xs) out = Some (s', Inr (out', \<lparr> en_bytes = n, en_frames = 1 \<rparr>))
        \<and> n \<le> ss_max_output_bytes s0 \<and> encoded_frame fe f \<and> fr_bitpool f = effective_bitpool (fe_config fe) \<and> pad \<le> 8
        \<and> byte_bits (take n out') = frame_layout f pad \<and> drop n out' = drop n out)"
proof -
  note new = sbc_stream_new_inv[OF assms(1)]
  obtain s where s: "foldl ss_step (Some s0) evs = Some s" "ss_inv s" "ss_like s0 s"
    using streams.reachable_inv[OF assms(2), of s0] new(1) by (auto simp: ss_good_def)
  have n: "se_frame_len (ss_enc s) \<le> ss_max_output_bytes s0"
    using se_wf_bound[of "ss_enc s"] s(2,3) by (simp add: ss_inv_def ss_like_def ss_max_output_bytes_def)
  have len: "length xs = pcm_samples (se_frame (ss_enc s)) * (if se_downmix (ss_enc s) = None then 1 else 2)"
    using new(2) assms(4) s(3) by (simp add: ss_like_def)
  have "fe_bitpool (se_frame (ss_enc s)) = effective_bitpool (fe_config (se_frame (ss_enc s)))"
    using s(2) by (simp add: ss_inv_def se_wf_def Let_def)
  then show ?thesis using ss_encode_ok[OF s(2) assms(3) len, of out] s(1) n assms(5) unfolding Let_def by auto
qed

theorem sbc_stream_encodes_witness:
  "\<exists>s0 s s' out'. sbc_stream_new Sbc example_encoder_config = Inr s0 \<and> ss_pcm_frames s0 = 128 \<and> ss_max_output_bytes s0 = 119
     \<and> foldl ss_step (Some s0) [AbrAdjust 9, EncodePcm (I32 []) [], EncodePcm (I16 [1, 2]) []] = Some s
     \<and> ss_encode s (I16 (replicate 256 1000)) (replicate 119 0)
         = Some (s', Inr (out', \<lparr> en_bytes = se_frame_len (ss_enc s), en_frames = 1 \<rparr>))"
proof -
  have e: "case sbc_new example_encoder_config of Inl _ \<Rightarrow> False | Inr e \<Rightarrow> se_max_frame_len e = 119 \<and>
      (case frame_state_new (fe_config (se_frame e)) of Inl _ \<Rightarrow> False | Inr _ \<Rightarrow> pcm_frames_per_frame (fe_config (se_frame e)) = 128)"
    by (simp add: encoder_eval example_encoder_config_def frame_state_new_def pcm_frames_per_frame_def)
  then obtain s0 where s0: "sbc_stream_new Sbc example_encoder_config = Inr s0" "ss_pcm_frames s0 = 128" "ss_max_output_bytes s0 = 119"
    by (auto simp: sbc_stream_new_def create_sbc_def ss_pcm_frames_def ss_max_output_bytes_def split: sum.splits)
  have "i16_list (replicate 256 1000)" "i16_list [1, 2]" by (simp_all add: i16_list_def is_i16_def list_all_iff)
  then show ?thesis
    using sbc_stream_encodes[OF s0(1), of "[AbrAdjust 9, EncodePcm (I32 []) [], EncodePcm (I16 [1, 2]) []]" "replicate 256 1000" "replicate 119 0"]
      s0 by (auto simp: Let_def example_encoder_config_def)
qed

subsection \<open>FastStream, proved\<close>

definition fa_inv :: "encoder_config \<Rightarrow> faststream_encoder \<Rightarrow> bool" where
  "fa_inv cfg e \<longleftrightarrow> fs_inv (fa_frame e) \<and> fe_config (fs_enc (fa_frame e)) = faststream_config (ec_sample_rate cfg)
     \<and> frame_encoder_new (faststream_config (ec_sample_rate cfg)) = Inr (fs_enc (fa_frame e))
     \<and> length (fa_stereo e) = 256 \<and> fa_mono e = (ec_channels cfg = 1) \<and> fa_sample_rate e = ec_sample_rate cfg"

lemma frame_state_new_config:
  "frame_state_new c = Inr st \<Longrightarrow> fs_inv st \<and> fe_config (fs_enc st) = c \<and> frame_encoder_new c = Inr (fs_enc st)"
  using fs_inv_new[of c st] by (auto simp: frame_state_new_def frame_encoder_new_def split: sum.splits)

lemma faststream_new_inv: "faststream_new cfg = Inr e \<Longrightarrow> fa_inv cfg e"
  by (auto simp: faststream_new_def fa_inv_def faststream_consts split: if_splits sum.splits dest!: frame_state_new_config)

lemma fa_frame_sizes:
  assumes "fa_inv cfg e"
  shows "pcm_samples (fs_enc (fa_frame e)) = 256" "max_frame_len (fs_enc (fa_frame e)) = 71" "frame_len (fe_config (fs_enc (fa_frame e))) = 71"
    "fe_bitpool (fs_enc (fa_frame e)) = 29"
proof -
  let ?fe = "fs_enc (fa_frame e)"
  have ok: "fe_ok ?fe" and c: "fe_config ?fe = faststream_config (ec_sample_rate cfg)"
    using assms by (auto simp: fa_inv_def fs_inv_def Let_def)
  show "pcm_samples ?fe = 256"
    using ok by (auto simp: fe_ok_def Let_def c faststream_config_def faststream_consts pcm_samples_def mode_channels_def)
  show b: "fe_bitpool ?fe = 29"
    using ok by (simp add: fe_ok_def Let_def c faststream_config_def faststream_consts effective_bitpool_def shared_bitpool_def)
  show l: "frame_len (fe_config ?fe) = 71"
    by (simp add: c faststream_config_def faststream_consts frame_len_def Let_def effective_bitpool_def shared_bitpool_def mode_channels_def)
  show "max_frame_len ?fe = 71" using b l by (simp add: max_frame_len_def)
qed

lemma fa_header:
  assumes "fa_inv cfg e" "ec_sample_rate cfg = 44100 \<or> ec_sample_rate cfg = 48000"
  shows "fe_header (fs_enc (fa_frame e)) = (if ec_sample_rate cfg = 44100 then 0xBD else 0xFD)"
    "fe_channels (fs_enc (fa_frame e)) = 2" "fe_subbands (fs_enc (fa_frame e)) = 8" "fe_blocks (fs_enc (fa_frame e)) = 16"
proof -
  have n: "frame_encoder_new (faststream_config (ec_sample_rate cfg)) = Inr (fs_enc (fa_frame e))"
    using assms(1) by (simp add: fa_inv_def)
  have "case frame_encoder_new (faststream_config (ec_sample_rate cfg)) of Inl _ \<Rightarrow> False
      | Inr fe \<Rightarrow> fe_header fe = (if ec_sample_rate cfg = 44100 then 0xBD else 0xFD) \<and> fe_channels fe = 2
          \<and> fe_subbands fe = 8 \<and> fe_blocks fe = 16"
    using assms(2) by (auto simp: frame_encoder_new_def validate_def Let_def faststream_config_def faststream_consts
        frame_header_def mode_channels_def)
  then show "fe_header (fs_enc (fa_frame e)) = (if ec_sample_rate cfg = 44100 then 0xBD else 0xFD)"
    "fe_channels (fs_enc (fa_frame e)) = 2" "fe_subbands (fs_enc (fa_frame e)) = 8" "fe_blocks (fs_enc (fa_frame e)) = 16"
    unfolding n by simp_all
qed

lemma fa_double_eq:
  assumes "length st = 256" "length xs = FS_PCM_FRAMES"
  shows "fa_double st xs = concat (map (\<lambda>s. [s, s]) xs)" "length (fa_double st xs) = 256"
proof -
  have "length (concat (map (\<lambda>s. [s, s]) ys)) = 2 * length ys" for ys :: "int list" by (induction ys) auto
  then show "fa_double st xs = concat (map (\<lambda>s. [s, s]) xs)" "length (fa_double st xs) = 256"
    using assms by (simp_all add: fa_double_def Let_def faststream_consts)
qed

lemma fa_pad_71: "72 \<le> length out \<Longrightarrow> fa_pad out 71 = Some (out[71 := 0], 72)"
  by (subst fa_pad.simps, subst fa_pad.simps) (simp add: set_at_def FASTSTREAM_FRAME_BYTES_def)

text \<open>The samples of both channels.\<close>

definition fa_samples :: "faststream_encoder \<Rightarrow> int list \<Rightarrow> int list" where
  "fa_samples e xs = (if fa_mono e then concat (map (\<lambda>s. [s, s]) xs) else xs)"

lemma i16_fa_samples: "i16_list xs \<Longrightarrow> i16_list (fa_samples e xs)"
  by (auto simp: i16_list_def fa_samples_def list_all_iff)

lemma fa_finish_inv:
  assumes "fa_inv cfg e" "i16_list xs" "72 \<le> length out"
  shows "\<exists>e' r. fa_finish e (frame_encode (fa_frame e) xs out) = Some (e', r) \<and> fa_inv cfg e'"
proof (cases "length xs = 256")
  case True
  have i: "fs_inv (fa_frame e)" using assms(1) by (simp add: fa_inv_def)
  obtain st' out' n where r: "frame_encode (fa_frame e) xs out = Some (Inr (st', out', n))" "fs_inv st'" "fs_enc st' = fs_enc (fa_frame e)"
    "n = 71" "drop 71 out' = drop 71 out"
    using frame_encode_ok[OF i _ assms(2), of out] True fa_frame_sizes[OF assms(1)] assms(3) by (auto simp: Let_def)
  have "length out' - 71 = length out - 71" using r(5) by (metis length_drop)
  then have "72 \<le> length out'" using assms(3) by simp
  then show ?thesis using r assms(1) by (auto simp: fa_finish_def fa_inv_def fa_pad_71)
next
  case False
  then obtain err where "frame_encode (fa_frame e) xs out = Some (Inl err)"
    using frame_encode_error[of xs "fa_frame e" out] fa_frame_sizes(1)[OF assms(1)] by auto
  then show ?thesis using assms(1) by (simp add: fa_finish_def)
qed

fun fa_step :: "faststream_encoder option \<Rightarrow> pcm \<times> bytes \<Rightarrow> faststream_encoder option" where
  "fa_step x (p, out) = Option.bind x (\<lambda>e. map_option fst (fa_encode e p out))"

fun fa_call_ok :: "pcm \<times> bytes \<Rightarrow> bool" where
  "fa_call_ok (I16 xs, _) = i16_list xs"
| "fa_call_ok (I32 _, _) = True"

lemma fa_encode_inv:
  assumes "fa_inv cfg e" "fa_call_ok (p, out)"
  shows "\<exists>e' r. fa_encode e p out = Some (e', r) \<and> fa_inv cfg e'"
proof (cases p)
  case (I16 xs)
  then have i: "i16_list xs" using assms(2) by simp
  show ?thesis
  proof (cases "length out < 72 \<or> (fa_mono e \<and> length xs \<noteq> FS_PCM_FRAMES)")
    case True
    then show ?thesis using assms(1) I16 by (auto simp: fa_encode_def FASTSTREAM_FRAME_BYTES_def)
  next
    case False
    have d: "fa_mono e \<Longrightarrow> fa_inv cfg (e\<lparr> fa_stereo := fa_double (fa_stereo e) xs \<rparr>) \<and> i16_list (fa_double (fa_stereo e) xs)"
      using assms(1) False fa_double_eq[of "fa_stereo e" xs] i16_fa_samples[OF i, of e] by (simp add: fa_inv_def fa_samples_def)
    show ?thesis
    proof (cases "fa_mono e")
      case True
      then show ?thesis using fa_finish_inv[OF d[THEN conjunct1] d[THEN conjunct2], of out] False I16
        by (simp add: fa_encode_def FASTSTREAM_FRAME_BYTES_def Let_def)
    next
      case st: False
      then show ?thesis using fa_finish_inv[OF assms(1) i, of out] False I16 by (simp add: fa_encode_def FASTSTREAM_FRAME_BYTES_def)
    qed
  qed
qed (use assms(1) in \<open>simp add: fa_encode_def\<close>)

interpretation faststreams: inv_machine "case faststream_new cfg of Inl _ \<Rightarrow> None | Inr e \<Rightarrow> Some e" fa_step fa_call_ok
    "\<lambda>x. is_Inr (faststream_new cfg) \<longrightarrow> (\<exists>e. x = Some e \<and> fa_inv cfg e)" for cfg
proof unfold_locales
  show "is_Inr (faststream_new cfg) \<longrightarrow> (\<exists>e. (case faststream_new cfg of Inl _ \<Rightarrow> None | Inr e \<Rightarrow> Some e) = Some e \<and> fa_inv cfg e)"
    by (auto simp: faststream_new_inv split: sum.splits)
next
  fix x c
  assume "is_Inr (faststream_new cfg) \<longrightarrow> (\<exists>e. x = Some e \<and> fa_inv cfg e)" "fa_call_ok c"
  then show "is_Inr (faststream_new cfg) \<longrightarrow> (\<exists>e. fa_step x c = Some e \<and> fa_inv cfg e)"
    using fa_encode_inv[of cfg _ "fst c" "snd c"] by (cases c) fastforce
qed

text \<open>C22. FastStream has fixed frames: for both rates and one or two channels the encoder exists, and
  after any sequence of calls 128 samples per channel give exactly 72 bytes: the 71-byte SBC frame the
  frame encoder makes of the samples, for one channel of every sample on both channels (the subband
  samples are those of the analysis of these samples), with the header of the rate (16 blocks, joint
  stereo, loudness, 8 subbands) and bitpool 29, and a zero byte. Nothing is written behind it, the frame
  encoder goes on in the state that frame left, and three of them fill a packet to the byte.\<close>

theorem faststream_frames:
  assumes "ec_sample_rate cfg = 44100 \<or> ec_sample_rate cfg = 48000" "ec_channels cfg = 1 \<or> ec_channels cfg = 2"
    and "list_all fa_call_ok calls" "i16_list xs" "length xs = FS_PCM_FRAMES * unat (ec_channels cfg)"
    and "FASTSTREAM_FRAME_BYTES \<le> length out"
  defines "ys \<equiv> if ec_channels cfg = 1 then concat (map (\<lambda>s. [s, s]) xs) else xs"
  shows "\<exists>e0 e e' f pad raw a sb. faststream_new cfg = Inr e0 \<and> foldl fa_step (Some e0) calls = Some e
     \<and> fa_encode e (I16 xs) out = Some (e', Inr (raw[71 := 0], \<lparr> en_bytes = FASTSTREAM_FRAME_BYTES, en_frames = 1 \<rparr>))
     \<and> frame_encode (fa_frame e) ys out = Some (Inr (fa_frame e', raw, 71))
     \<and> analysis_filter (fs_analysis (fa_frame e)) ys 8 2 16 (fs_sb (fa_frame e)) = Some (a, sb)
     \<and> f = frame_of (fs_enc (fa_frame e)) (frame_joint (fa_frame e) sb) (fs_bits (fa_frame e'))
     \<and> encoded_frame (fs_enc (fa_frame e)) f
     \<and> fr_header f = (if ec_sample_rate cfg = 44100 then 0xBD else 0xFD) \<and> fr_bitpool f = 29
     \<and> byte_bits (take 71 (raw[71 := 0])) = frame_layout f pad \<and> pad \<le> 8
     \<and> raw[71 := 0] ! 71 = 0 \<and> drop 72 (raw[71 := 0]) = drop 72 out \<and> length raw = length out
     \<and> FASTSTREAM_FRAMES_PER_PACKET * FASTSTREAM_FRAME_BYTES = FASTSTREAM_MAX_PAYLOAD"
proof -
  have "is_Inr (faststream_new cfg)"
    using assms(1,2) by (auto simp: faststream_new_def frame_state_new_def frame_encoder_new_def validate_def Let_def
        faststream_config_def faststream_consts)
  then obtain e0 where e0: "faststream_new cfg = Inr e0" by (auto simp: is_Inr_def split: sum.splits)
  then obtain e where e: "foldl fa_step (Some e0) calls = Some e" "fa_inv cfg e"
    using faststreams.reachable_inv[OF assms(3), of cfg] by auto
  note sz = fa_frame_sizes[OF e(2)] and hd = fa_header[OF e(2) assms(1)]
  have mono: "fa_mono e = (ec_channels cfg = 1)" and st: "length (fa_stereo e) = 256" and inv: "fs_inv (fa_frame e)"
    using e(2) by (auto simp: fa_inv_def)
  have ys: "ys = fa_samples e xs" by (simp add: ys_def fa_samples_def mono)
  have len: "length ys = 256" "length (fs_sb (fa_frame e)) = 256"
    using assms(2,5) mono fa_double_eq[of "fa_stereo e" xs] st inv by (auto simp: ys fa_samples_def faststream_consts fs_inv_def Let_def)
  have out: "72 \<le> length out" using assms(6) by (simp add: FASTSTREAM_FRAME_BYTES_def)
  obtain st' raw a sb f pad where r: "frame_encode (fa_frame e) ys out = Some (Inr (st', raw, 71))"
    "analysis_filter (fs_analysis (fa_frame e)) ys 8 2 16 (fs_sb (fa_frame e)) = Some (a, sb)"
    "f = frame_of (fs_enc (fa_frame e)) (frame_joint (fa_frame e) sb) (fs_bits st')" "encoded_frame (fs_enc (fa_frame e)) f"
    "byte_bits (take 71 raw) = frame_layout f pad" "pad \<le> 8" "drop 71 raw = drop 71 out"
    using frame_encode_ok[OF inv _ i16_fa_samples[OF assms(4), of e], of out] len sz hd out by (auto simp: Let_def ys)
  have f: "fr_header f = (if ec_sample_rate cfg = 44100 then 0xBD else 0xFD)" "fr_bitpool f = 29"
    using hd(1) sz(4) by (simp_all add: r(3) frame_of_def)
  have "length raw - 71 = length out - 71" using r(7) by (metis length_drop)
  then have lr: "length raw = length out" using out by simp
  have "drop 72 raw = drop 72 out" using arg_cong[OF r(7), of "drop 1"] by simp
  then have d: "drop 72 (raw[71 := 0]) = drop 72 out" by simp
  have fin: "fa_finish x (frame_encode (fa_frame e) ys out)
      = Some (x\<lparr> fa_frame := st' \<rparr>, Inr (raw[71 := 0], \<lparr> en_bytes = FASTSTREAM_FRAME_BYTES, en_frames = 1 \<rparr>))" for x
    using r(1) lr out by (simp add: fa_finish_def fa_pad_71 FASTSTREAM_FRAME_BYTES_def)
  have "\<exists>x. fa_encode e (I16 xs) out = fa_finish x (frame_encode (fa_frame e) ys out)"
  proof (cases "fa_mono e")
    case True
    then have l: "length xs = FS_PCM_FRAMES" using mono assms(5) by simp
    then show ?thesis using True out fa_double_eq(1)[OF st l]
      by (auto simp: fa_encode_def Let_def ys fa_samples_def FASTSTREAM_FRAME_BYTES_def)
  qed (use out in \<open>auto simp: fa_encode_def ys fa_samples_def FASTSTREAM_FRAME_BYTES_def\<close>)
  then obtain e' where e': "fa_encode e (I16 xs) out = Some (e', Inr (raw[71 := 0], \<lparr> en_bytes = FASTSTREAM_FRAME_BYTES, en_frames = 1 \<rparr>))"
    "fa_frame e' = st'" using fin by auto
  show ?thesis
    by (rule exI[of _ e0], rule exI[of _ e], rule exI[of _ e'], rule exI[of _ f], rule exI[of _ pad],
        rule exI[of _ raw], rule exI[of _ a], rule exI[of _ sb])
      (use e0 e(1) e' r lr d f out in \<open>simp add: FASTSTREAM_MAX_PAYLOAD_def\<close>)
qed

theorem faststream_frames_witness:
  "\<exists>e0 e e' out'. faststream_new (example_encoder_config\<lparr> ec_channels := 1 \<rparr>) = Inr e0
     \<and> foldl fa_step (Some e0) [(I32 [1], []), (I16 [5], replicate 72 0)] = Some e
     \<and> fa_encode e (I16 (replicate 128 7)) (replicate 80 1) = Some (e', Inr (out', \<lparr> en_bytes = 72, en_frames = 1 \<rparr>))"
proof -
  have "i16_list (replicate 128 7)" "i16_list [5]" by (simp_all add: i16_list_def is_i16_def list_all_iff)
  then show ?thesis
    using faststream_frames[of "example_encoder_config\<lparr> ec_channels := 1 \<rparr>" "[(I32 [1], []), (I16 [5], replicate 72 0)]" "replicate 128 7" "replicate 80 1"]
    by (auto simp: example_encoder_config_def faststream_consts)
qed

end
