(* ===== verification/Hci_Reassembly.thy ===== *)
theory Hci_Reassembly
  imports BC_Prelude
begin

text \<open>
  Splitting a byte stream of HCI packets into packets,
  \<^verbatim>\<open>app/src/crates/hci-transport/src/reassembly.rs\<close>. The interface of a framed stream (a length
  known from a prefix of the packet, and at least one byte) is the locale \<open>framing\<close>; its client lemmas,
  that the packets do not depend on how the stream is cut and that a stream of whole packets is split
  back into them, are used for the four HCI packet types.
\<close>

subsection \<open>Framed streams\<close>

locale framing =
  fixes plen :: "bytes \<Rightarrow> nat option"
    and deframe :: "bytes \<Rightarrow> bytes list \<times> bytes"
  assumes plen_pos: "plen xs = Some n \<Longrightarrow> 0 < n"
    and plen_prefix: "plen xs = Some n \<Longrightarrow> plen (xs @ ys) = Some n"
    and deframe_rec: "deframe xs =
      (case plen xs of
         None \<Rightarrow> ([], xs)
       | Some n \<Rightarrow> if length xs < n then ([], xs)
                  else (take n xs # fst (deframe (drop n xs)), snd (deframe (drop n xs))))"
begin

lemma deframe_append:
  "deframe (xs @ ys) = (fst (deframe xs) @ fst (deframe (snd (deframe xs) @ ys)), snd (deframe (snd (deframe xs) @ ys)))"
proof (induction xs rule: length_induct)
  case (1 xs)
  show ?case
  proof (cases "plen xs")
    case None
    then have "deframe xs = ([], xs)" using deframe_rec[of xs] by simp
    then show ?thesis by simp
  next
    case (Some n)
    note n = plen_pos[OF Some]
    show ?thesis
    proof (cases "length xs < n")
      case True
      then have "deframe xs = ([], xs)" using deframe_rec[of xs] Some by simp
      then show ?thesis by simp
    next
      case False
      have l: "length (drop n xs) < length xs" using False n by simp
      have xs: "deframe xs = (take n xs # fst (deframe (drop n xs)), snd (deframe (drop n xs)))"
        using deframe_rec[of xs] Some False by simp
      have "deframe (xs @ ys) = (take n xs # fst (deframe (drop n xs @ ys)), snd (deframe (drop n xs @ ys)))"
        using deframe_rec[of "xs @ ys"] plen_prefix[OF Some, of ys] False by simp
      with 1[rule_format, OF l] show ?thesis by (simp add: xs)
    qed
  qed
qed

lemma deframe_whole: "list_all (\<lambda>p. plen p = Some (length p)) ps \<Longrightarrow> deframe (concat ps @ ys) = (ps @ fst (deframe ys), snd (deframe ys))"
proof (induction ps)
  case (Cons p ps)
  then have "plen (p @ concat ps @ ys) = Some (length p)" using plen_prefix by simp
  then show ?case using Cons deframe_rec[of "p @ concat ps @ ys"] by simp
qed simp

lemma deframe_bytes: "concat (fst (deframe xs)) @ snd (deframe xs) = xs"
proof (induction xs rule: length_induct)
  case (1 xs)
  show ?case
  proof (cases "\<exists>n. plen xs = Some n \<and> \<not> length xs < n")
    case False
    then have "deframe xs = ([], xs)" using deframe_rec[of xs] by (auto split: option.splits)
    then show ?thesis by simp
  next
    case True
    then obtain n where n: "plen xs = Some n" "\<not> length xs < n" by blast
    have "length (drop n xs) < length xs" using n plen_pos[OF n(1)] by simp
    with 1 have "concat (fst (deframe (drop n xs))) @ snd (deframe (drop n xs)) = drop n xs" by blast
    then show ?thesis using deframe_rec[of xs] n by simp
  qed
qed

end

subsection \<open>The reassembler\<close>

definition HCI_ACL_DATA_PACKET :: u8 where
  "HCI_ACL_DATA_PACKET = 2"

definition HCI_SCO_DATA_PACKET :: u8 where
  "HCI_SCO_DATA_PACKET = 3"

definition HCI_EVENT_PACKET :: u8 where
  "HCI_EVENT_PACKET = 4"

definition HCI_ISO_DATA_PACKET :: u8 where
  "HCI_ISO_DATA_PACKET = 5"

definition packet_length :: "u8 \<Rightarrow> bytes \<Rightarrow> nat option" where
  "packet_length packet_type data =
     (if packet_type = HCI_EVENT_PACKET \<and> 2 \<le> length data then Some (2 + unat (data ! 1))
      else if packet_type = HCI_ACL_DATA_PACKET \<and> 4 \<le> length data
      then Some (4 + unat (of_le16 (data ! 2) (data ! 3)))
      else if packet_type = HCI_SCO_DATA_PACKET \<and> 3 \<le> length data then Some (3 + unat (data ! 2))
      else if packet_type = HCI_ISO_DATA_PACKET \<and> 4 \<le> length data
      then Some (4 + unat (of_le16 (data ! 2) (data ! 3) AND 0x3FFF))
      else None)"

record reassembler =
  ra_packet_type :: u8
  ra_buffer :: bytes

definition reassembler_new :: "u8 \<Rightarrow> reassembler" where
  "reassembler_new packet_type = \<lparr> ra_packet_type = packet_type, ra_buffer = [] \<rparr>"

lemma packet_length_pos: "packet_length t data = Some n \<Longrightarrow> 2 \<le> n \<and> 2 \<le> length data"
  by (auto simp: packet_length_def split: if_splits)

text \<open>The loop of \<^verbatim>\<open>push\<close>: \<open>start\<close> is the offset of the next packet in the buffer; the packets
  delivered and the final offset are returned.\<close>

function deliver_loop :: "u8 \<Rightarrow> bytes \<Rightarrow> nat \<Rightarrow> bytes list \<times> nat" where
  "deliver_loop t buffer start =
     (case packet_length t (drop start buffer) of
        None \<Rightarrow> ([], start)
      | Some len \<Rightarrow>
          if length buffer - start < len then ([], start)
          else let (ps, e) = deliver_loop t buffer (start + len) in (subslice buffer start (start + len) # ps, e))"
  by pat_completeness auto
termination
  by (relation "measure (\<lambda>(t, buffer, start). length buffer - start)") (auto dest!: packet_length_pos)

declare deliver_loop.simps [simp del]

definition ra_push :: "reassembler \<Rightarrow> bytes \<Rightarrow> reassembler \<times> bytes list" where
  "ra_push r data =
     (let buffer = ra_buffer r @ data; (ps, start) = deliver_loop (ra_packet_type r) buffer 0
      in (r\<lparr> ra_buffer := drop start buffer \<rparr>, ps))"

definition ra_reset :: "reassembler \<Rightarrow> reassembler" where
  "ra_reset r = r\<lparr> ra_buffer := [] \<rparr>"

definition ra_pending :: "reassembler \<Rightarrow> nat" where
  "ra_pending r = length (ra_buffer r)"

fun ra_feed :: "reassembler \<Rightarrow> bytes list \<Rightarrow> reassembler \<times> bytes list" where
  "ra_feed r [] = (r, [])"
| "ra_feed r (chunk # chunks) =
     (let (r', ps) = ra_push r chunk; (r'', qs) = ra_feed r' chunks in (r'', ps @ qs))"

definition hci_deframe :: "u8 \<Rightarrow> bytes \<Rightarrow> bytes list \<times> bytes" where
  "hci_deframe t xs = (let (ps, start) = deliver_loop t xs 0 in (ps, drop start xs))"

lemma deliver_loop_shift:
  "start \<le> length buffer \<Longrightarrow> fst (deliver_loop t buffer start) = fst (deliver_loop t (drop start buffer) 0)
     \<and> drop (snd (deliver_loop t buffer start)) buffer = drop (snd (deliver_loop t (drop start buffer) 0)) (drop start buffer)"
proof (induction "length buffer - start" arbitrary: start buffer rule: less_induct)
  case less
  show ?case
  proof (cases "\<exists>n. packet_length t (drop start buffer) = Some n \<and> \<not> length buffer - start < n")
    case False
    then have "deliver_loop t buffer start = ([], start)" "deliver_loop t (drop start buffer) 0 = ([], 0)"
      by (auto simp: deliver_loop.simps[of t buffer] deliver_loop.simps[of t "drop start buffer"] split: option.splits)
    then show ?thesis by simp
  next
    case True
    then obtain n where n: "packet_length t (drop start buffer) = Some n" "\<not> length buffer - start < n" by blast
    have n2: "2 \<le> n" using packet_length_pos[OF n(1)] by simp
    have a: "deliver_loop t buffer start = (subslice buffer start (start + n) # fst (deliver_loop t buffer (start + n)),
        snd (deliver_loop t buffer (start + n)))"
      using n by (simp add: deliver_loop.simps[of t buffer start] split_beta)
    have b: "deliver_loop t (drop start buffer) 0 = (subslice (drop start buffer) 0 n # fst (deliver_loop t (drop start buffer) n),
        snd (deliver_loop t (drop start buffer) n))"
      using n by (simp add: deliver_loop.simps[of t "drop start buffer" 0] split_beta)
    have le: "start + n \<le> length buffer" using n(2) n2 less.prems by simp
    have dd: "drop n (drop start buffer) = drop (start + n) buffer" by (simp add: add.commute)
    have IH1: "fst (deliver_loop t buffer (start + n)) = fst (deliver_loop t (drop (start + n) buffer) 0)"
      "drop (snd (deliver_loop t buffer (start + n))) buffer
        = drop (snd (deliver_loop t (drop (start + n) buffer) 0)) (drop (start + n) buffer)"
      using less.hyps[of buffer "start + n"] le n2 by auto
    have IH2: "fst (deliver_loop t (drop start buffer) n) = fst (deliver_loop t (drop (start + n) buffer) 0)"
      "drop (snd (deliver_loop t (drop start buffer) n)) (drop start buffer)
        = drop (snd (deliver_loop t (drop (start + n) buffer) 0)) (drop (start + n) buffer)"
      using less.hyps[of "drop start buffer" n] le n2 unfolding dd by auto
    show ?thesis unfolding a b using IH1 IH2 by (simp add: subslice_def)
  qed
qed

lemma hci_deframe_rec:
  "hci_deframe t xs =
      (case packet_length t xs of
         None \<Rightarrow> ([], xs)
       | Some n \<Rightarrow> if length xs < n then ([], xs)
                  else (take n xs # fst (hci_deframe t (drop n xs)), snd (hci_deframe t (drop n xs))))"
proof (cases "\<exists>n. packet_length t xs = Some n \<and> \<not> length xs < n")
  case False
  then have "deliver_loop t xs 0 = ([], 0)" by (auto simp: deliver_loop.simps[of t xs 0] split: option.splits)
  then show ?thesis using False by (auto simp: hci_deframe_def split: option.splits)
next
  case True
  then obtain n where n: "packet_length t xs = Some n" "\<not> length xs < n" by blast
  then have "deliver_loop t xs 0 = (subslice xs 0 n # fst (deliver_loop t xs n), snd (deliver_loop t xs n))"
    by (simp add: deliver_loop.simps[of t xs 0] split_beta)
  then show ?thesis using n deliver_loop_shift[of n xs t] by (simp add: hci_deframe_def split_beta subslice_def)
qed

interpretation hci: framing "packet_length t" "hci_deframe t" for t
proof unfold_locales
  show "packet_length t xs = Some n \<Longrightarrow> 0 < n" for xs n using packet_length_pos[of t xs n] by simp
  show "packet_length t xs = Some n \<Longrightarrow> packet_length t (xs @ ys) = Some n" for xs ys n
    by (auto simp: packet_length_def nth_append HCI_ACL_DATA_PACKET_def HCI_EVENT_PACKET_def HCI_SCO_DATA_PACKET_def
        HCI_ISO_DATA_PACKET_def split: if_splits)
qed (rule hci_deframe_rec)

lemma ra_push_eq: "ra_push r data =
    (r\<lparr> ra_buffer := snd (hci_deframe (ra_packet_type r) (ra_buffer r @ data)) \<rparr>, fst (hci_deframe (ra_packet_type r) (ra_buffer r @ data)))"
  by (simp add: ra_push_def hci_deframe_def Let_def split_beta)

lemma ra_feed_eq:
  "snd (hci_deframe (ra_packet_type r) (ra_buffer r)) = ra_buffer r \<Longrightarrow> fst (hci_deframe (ra_packet_type r) (ra_buffer r)) = [] \<Longrightarrow>
   ra_feed r chunks = (r\<lparr> ra_buffer := snd (hci_deframe (ra_packet_type r) (ra_buffer r @ concat chunks)) \<rparr>,
     fst (hci_deframe (ra_packet_type r) (ra_buffer r @ concat chunks)))"
proof (induction chunks arbitrary: r)
  case (Cons c cs)
  let ?t = "ra_packet_type r"
  let ?d = "hci_deframe ?t (ra_buffer r @ c)"
  have rest: "hci_deframe ?t (snd ?d) = ([], snd ?d)"
    using hci.deframe_append[of ?t "ra_buffer r @ c" "[]"] by (simp add: prod_eq_iff)
  have "hci_deframe ?t ((ra_buffer r @ c) @ concat cs) =
      (fst ?d @ fst (hci_deframe ?t (snd ?d @ concat cs)), snd (hci_deframe ?t (snd ?d @ concat cs)))"
    by (rule hci.deframe_append)
  then show ?case using Cons.IH[of "r\<lparr> ra_buffer := snd ?d \<rparr>"] rest by (simp add: ra_push_eq Let_def)
qed (simp add: prod_eq_iff)

subsection \<open>The packet formats\<close>

text \<open>The four packet types as the Bluetooth specification lays them out (reference for the lengths the code
  reads): the bytes before the length field, the length field, the payload. The two bits above the length of
  an ISO packet are reserved.\<close>

datatype hci_packet =
    HciEvent u8 bytes
  | HciAcl u8 u8 bytes
  | HciSco u8 u8 bytes
  | HciIso u8 u8 u16 bytes

fun hci_type :: "hci_packet \<Rightarrow> u8" where
  "hci_type (HciEvent _ _) = HCI_EVENT_PACKET"
| "hci_type (HciAcl _ _ _) = HCI_ACL_DATA_PACKET"
| "hci_type (HciSco _ _ _) = HCI_SCO_DATA_PACKET"
| "hci_type (HciIso _ _ _ _) = HCI_ISO_DATA_PACKET"

fun hci_fits :: "hci_packet \<Rightarrow> bool" where
  "hci_fits (HciEvent _ d) = (length d < 256)"
| "hci_fits (HciAcl _ _ d) = (length d < 65536)"
| "hci_fits (HciSco _ _ d) = (length d < 256)"
| "hci_fits (HciIso _ _ _ d) = (length d < 16384)"

fun hci_bytes :: "hci_packet \<Rightarrow> bytes" where
  "hci_bytes (HciEvent c d) = [c, of_nat (length d)] @ d"
| "hci_bytes (HciAcl a b d) = [a, b] @ le16_bytes (of_nat (length d)) @ d"
| "hci_bytes (HciSco a b d) = [a, b, of_nat (length d)] @ d"
| "hci_bytes (HciIso a b r d) = [a, b] @ le16_bytes (of_nat (length d) OR (r AND 0xC000)) @ d"

lemmas hci_types = HCI_ACL_DATA_PACKET_def HCI_EVENT_PACKET_def HCI_SCO_DATA_PACKET_def HCI_ISO_DATA_PACKET_def

lemma iso_length_field:
  assumes "n < 16384"
  shows "(of_nat n OR (r AND 0xC000)) AND 0x3FFF = (of_nat n :: u16)"
proof -
  have "(r AND 0xC000) AND 0x3FFF = (0 :: u16)" by (simp add: and.assoc)
  moreover have "of_nat n AND mask 14 = (of_nat n :: u16)"
    using assms by (simp add: take_bit_of_nat take_bit_nat_eq_self flip: take_bit_eq_mask)
  then have "of_nat n AND 0x3FFF = (of_nat n :: u16)" by (simp add: mask_eq_exp_minus_1)
  ultimately show ?thesis by (simp add: bit.conj_disj_distrib2)
qed

lemma le16_field: "of_le16 ((le16_bytes w @ d) ! 0) ((le16_bytes w @ d) ! Suc 0) = w"
  by (simp add: le16_bytes_def)

lemma packet_length_hci_bytes: "hci_fits p \<Longrightarrow> packet_length (hci_type p) (hci_bytes p) = Some (length (hci_bytes p))"
  by (cases p) (simp_all add: packet_length_def hci_types le16_field unat_of_nat iso_length_field)

subsection \<open>Properties\<close>

text \<open>Reassembly does not depend on the transfers: two ways of cutting the same byte stream into
  transfers deliver the same packets and leave the same partial packet.\<close>

lemma reassembly_chunking:
  assumes "concat chunks = concat chunks'"
  shows "ra_feed (reassembler_new t) chunks = ra_feed (reassembler_new t) chunks'"
proof -
  have "hci_deframe t [] = ([], [])" using hci_deframe_rec[of t "[]"] by (simp add: packet_length_def)
  then show ?thesis using assms by (simp add: ra_feed_eq reassembler_new_def)
qed

lemma reassembly_chunking_instance:
  "ra_feed (reassembler_new HCI_EVENT_PACKET) [[0x0E, 2, 1], [9, 0x0F]] = ra_feed (reassembler_new HCI_EVENT_PACKET) [[0x0E], [2, 1, 9, 0x0F]]"
  by (rule reassembly_chunking) simp

text \<open>C26. Reassembly returns the packets sent, with the formats of the Bluetooth specification: for a
  stream of events (one length byte), ACL data (16-bit length), SCO data (one length byte) or ISO data
  (14-bit length under two reserved bits), followed by a proper part of one more packet, and however it
  is cut into transfers, exactly those packets are delivered, in order, and the part is kept.\<close>

theorem reassembly_delivers:
  assumes whole: "list_all (\<lambda>p. hci_type p = t \<and> hci_fits p) (ps @ [q])"
    and partial: "hci_bytes q = rest @ missing" "missing \<noteq> []"
    and cut: "concat chunks = concat (map hci_bytes ps) @ rest"
  shows "ra_feed (reassembler_new t) chunks =
    (\<lparr> ra_packet_type = t, ra_buffer = rest \<rparr>, map hci_bytes ps)"
proof -
  have nil: "hci_deframe t [] = ([], [])" using hci_deframe_rec[of t "[]"] by (simp add: packet_length_def)
  have ps: "list_all (\<lambda>b. packet_length t b = Some (length b)) (map hci_bytes ps)"
    unfolding list.pred_map comp_def
    by (rule list.pred_mono_strong [of "\<lambda>p. hci_type p = t \<and> hci_fits p"])
      (use whole packet_length_hci_bytes in auto)
  have q: "packet_length t (rest @ missing) = Some (length (rest @ missing))"
    using whole packet_length_hci_bytes[of q] partial(1) by simp
  have "hci_deframe t rest = ([], rest)"
    using hci_deframe_rec[of t rest] hci.plen_prefix[of t rest _ missing] q partial(2)
    by (cases "packet_length t rest") auto
  then show ?thesis using nil hci.deframe_whole[OF ps, of rest] cut
    by (simp add: ra_feed_eq reassembler_new_def)
qed

theorem reassembly_delivers_witness:
  "ra_feed (reassembler_new HCI_ACL_DATA_PACKET) [[1, 0x20, 2], [0, 7, 8, 2, 0x20], [1, 0, 5, 3]]
     = (\<lparr> ra_packet_type = HCI_ACL_DATA_PACKET, ra_buffer = [3] \<rparr>, [[1, 0x20, 2, 0, 7, 8], [2, 0x20, 1, 0, 5]])"
  using reassembly_delivers[of HCI_ACL_DATA_PACKET "[HciAcl 1 0x20 [7, 8], HciAcl 2 0x20 [5]]" "HciAcl 3 0 []" "[3]"
      "[0, 0, 0]" "[[1, 0x20, 2], [0, 7, 8, 2, 0x20], [1, 0, 5, 3]]"]
  by (simp add: le16_bytes_def)

end
