(* ===== verification/Call_Model.thy ===== *)
theory Call_Model
  imports Rust_Str
begin

text \<open>
  The call model of the GTBS server, \<^verbatim>\<open>app/src/crates/le-audio/src/ccp_model.rs\<close>: the calls of the
  bearer, the events of the telephony side, the requests of the headset through the Call Control
  Point, the characteristic values and the simulation commands. The telephony backend is a trait in
  the code; here it is a record of functions over a backend state, an argument of every request, so
  the theorems hold for every backend. Logging is left out.

  Shown: an invariant of every reachable state (at most four calls, distinct non-zero indices, at most
  one active call, texts that fit their length octets), that a refused request changes no call, what a
  successful request does, that the pending notifications cover every change, and that Bearer List
  Current Calls can be read back.
\<close>

subsection \<open>Data\<close>

datatype call_state =
  Incoming | Dialing | Alerting | Active | LocallyHeld | RemotelyHeld | LocallyAndRemotelyHeld

fun cs_value :: "call_state \<Rightarrow> u8" where
  "cs_value Incoming = 0x00"
| "cs_value Dialing = 0x01"
| "cs_value Alerting = 0x02"
| "cs_value Active = 0x03"
| "cs_value LocallyHeld = 0x04"
| "cs_value RemotelyHeld = 0x05"
| "cs_value LocallyAndRemotelyHeld = 0x06"

fun cs_name :: "call_state \<Rightarrow> string" where
  "cs_name Incoming = ''Incoming''"
| "cs_name Dialing = ''Dialing''"
| "cs_name Alerting = ''Alerting''"
| "cs_name Active = ''Active''"
| "cs_name LocallyHeld = ''Locally Held''"
| "cs_name RemotelyHeld = ''Remotely Held''"
| "cs_name LocallyAndRemotelyHeld = ''Locally and Remotely Held''"

definition CALL_FLAG_OUTGOING :: u8 where [call_simps]: "CALL_FLAG_OUTGOING = 0x01"

definition OP_ACCEPT :: u8 where [call_simps]: "OP_ACCEPT = 0x00"
definition OP_TERMINATE :: u8 where [call_simps]: "OP_TERMINATE = 0x01"
definition OP_LOCAL_HOLD :: u8 where [call_simps]: "OP_LOCAL_HOLD = 0x02"
definition OP_LOCAL_RETRIEVE :: u8 where [call_simps]: "OP_LOCAL_RETRIEVE = 0x03"
definition OP_ORIGINATE :: u8 where [call_simps]: "OP_ORIGINATE = 0x04"
definition OP_JOIN :: u8 where [call_simps]: "OP_JOIN = 0x05"

definition RESULT_SUCCESS :: u8 where [call_simps]: "RESULT_SUCCESS = 0x00"
definition RESULT_OPCODE_NOT_SUPPORTED :: u8 where [call_simps]: "RESULT_OPCODE_NOT_SUPPORTED = 0x01"
definition RESULT_OPERATION_NOT_POSSIBLE :: u8 where [call_simps]: "RESULT_OPERATION_NOT_POSSIBLE = 0x02"
definition RESULT_INVALID_CALL_INDEX :: u8 where [call_simps]: "RESULT_INVALID_CALL_INDEX = 0x03"
definition RESULT_STATE_MISMATCH :: u8 where [call_simps]: "RESULT_STATE_MISMATCH = 0x04"
definition RESULT_LACK_OF_RESOURCES :: u8 where [call_simps]: "RESULT_LACK_OF_RESOURCES = 0x05"
definition RESULT_INVALID_OUTGOING_URI :: u8 where [call_simps]: "RESULT_INVALID_OUTGOING_URI = 0x06"

definition REASON_REMOTE_ENDED :: u8 where [call_simps]: "REASON_REMOTE_ENDED = 0x02"
definition REASON_CLIENT_TERMINATED :: u8 where [call_simps]: "REASON_CLIENT_TERMINATED = 0x06"

definition ATT_ERROR_INVALID_ATTRIBUTE_VALUE_LENGTH :: u8 where [call_simps]:
  "ATT_ERROR_INVALID_ATTRIBUTE_VALUE_LENGTH = 0x0D"

definition MAX_CALLS :: nat where [call_simps]: "MAX_CALLS = 4"

definition MAX_URI :: nat where [call_simps]: "MAX_URI = 252"

definition op_name :: "u8 \<Rightarrow> string" where
  "op_name op =
     (if op = OP_ACCEPT then ''Accept''
      else if op = OP_TERMINATE then ''Terminate''
      else if op = OP_LOCAL_HOLD then ''Local Hold''
      else if op = OP_LOCAL_RETRIEVE then ''Local Retrieve''
      else if op = OP_ORIGINATE then ''Originate''
      else if op = OP_JOIN then ''Join''
      else ''unknown opcode'')"

definition result_name :: "u8 \<Rightarrow> string" where
  "result_name r =
     (if r = RESULT_SUCCESS then ''Success''
      else if r = RESULT_OPCODE_NOT_SUPPORTED then ''Opcode Not Supported''
      else if r = RESULT_OPERATION_NOT_POSSIBLE then ''Operation Not Possible''
      else if r = RESULT_INVALID_CALL_INDEX then ''Invalid Call Index''
      else if r = RESULT_STATE_MISMATCH then ''State Mismatch''
      else if r = RESULT_LACK_OF_RESOURCES then ''Lack Of Resources''
      else if r = RESULT_INVALID_OUTGOING_URI then ''Invalid Outgoing URI''
      else ''?'')"

record call =
  c_index :: u8
  c_state :: call_state
  c_flags :: u8
  c_uri :: rstr
  c_friendly_name :: rstr
  c_target_uri :: rstr

record 'b backend =
  provider_name :: "'b \<Rightarrow> rstr"
  uci :: "'b \<Rightarrow> rstr"
  technology :: "'b \<Rightarrow> u8"
  uri_schemes :: "'b \<Rightarrow> rstr"
  supports_local_hold :: "'b \<Rightarrow> bool"
  be_accept :: "'b \<Rightarrow> call \<Rightarrow> 'b \<times> u8"
  be_terminate :: "'b \<Rightarrow> call \<Rightarrow> 'b \<times> u8"
  be_hold :: "'b \<Rightarrow> call \<Rightarrow> 'b \<times> u8"
  be_retrieve :: "'b \<Rightarrow> call \<Rightarrow> 'b \<times> u8"
  be_originate :: "'b \<Rightarrow> rstr \<Rightarrow> 'b \<times> u8"

definition sim_backend :: "unit backend" where
  "sim_backend =
     \<lparr> provider_name = \<lambda>_. lit ''BlueCaster'', uci = \<lambda>_. lit ''un000'', technology = \<lambda>_. 0x04,
       uri_schemes = \<lambda>_. lit ''tel,sip'', supports_local_hold = \<lambda>_. True,
       be_accept = \<lambda>b _. (b, RESULT_SUCCESS), be_terminate = \<lambda>b _. (b, RESULT_SUCCESS),
       be_hold = \<lambda>b _. (b, RESULT_SUCCESS), be_retrieve = \<lambda>b _. (b, RESULT_SUCCESS),
       be_originate = \<lambda>b _. (b, RESULT_SUCCESS) \<rparr>"

record changes =
  ch_calls :: bool
  ch_terminations :: "(u8 \<times> u8) list"
  ch_incoming :: "u8 option"

definition no_changes :: changes where
  "no_changes = \<lparr> ch_calls = False, ch_terminations = [], ch_incoming = None \<rparr>"

record cp_outcome =
  cp_opcode :: u8
  cp_call_index :: u8
  cp_result :: u8

record call_model =
  calls :: "call list"
  next_index :: u8
  cm_changes :: changes
  friendly_index :: u8

definition cm_new :: call_model where
  "cm_new = \<lparr> calls = [], next_index = 1, cm_changes = no_changes, friendly_index = 0 \<rparr>"

subsection \<open>Helpers\<close>

definition find_call :: "call_model \<Rightarrow> u8 \<Rightarrow> call option" where
  "find_call m index = (if index = 0 then None else List.find (\<lambda>c. c_index c = index) (calls m))"

fun set_first_state :: "u8 \<Rightarrow> call_state \<Rightarrow> call list \<Rightarrow> call list" where
  "set_first_state index st [] = []"
| "set_first_state index st (c # cs) =
     (if c_index c = index then c\<lparr>c_state := st\<rparr> # cs else c # set_first_state index st cs)"

definition set_call_state :: "u8 \<Rightarrow> call_state \<Rightarrow> call_model \<Rightarrow> call_model" where
  "set_call_state index st m =
     (if index = 0 then m else m\<lparr>calls := set_first_state index st (calls m)\<rparr>)"

definition latest :: "call_model \<Rightarrow> call option" where
  "latest m = (if calls m = [] then None else Some (last (calls m)))"

fun allocate_loop :: "nat \<Rightarrow> call_model \<Rightarrow> call_model \<times> u8" where
  "allocate_loop 0 m = (m, 0)"
| "allocate_loop (Suc n) m =
     (let idx = next_index m;
          m' = m\<lparr>next_index := (if next_index m = 255 then 1 else next_index m + 1)\<rparr>
      in if find_call m' idx = None then (m', idx) else allocate_loop n m')"

definition allocate_index :: "call_model \<Rightarrow> call_model \<times> u8" where
  "allocate_index m = allocate_loop 255 m"

fun held_state :: "call_state \<Rightarrow> call_state" where
  "held_state Active = LocallyHeld"
| "held_state RemotelyHeld = LocallyAndRemotelyHeld"
| "held_state s = s"

definition hold_call :: "u8 \<Rightarrow> call \<Rightarrow> call" where
  "hold_call except c = (if c_index c \<noteq> except then c\<lparr>c_state := held_state (c_state c)\<rparr> else c)"

definition hold_others :: "u8 \<Rightarrow> call_model \<Rightarrow> call_model" where
  "hold_others except m = m\<lparr>calls := map (hold_call except) (calls m)\<rparr>"

definition mark_calls :: "call_model \<Rightarrow> call_model" where
  "mark_calls m = m\<lparr>cm_changes := (cm_changes m)\<lparr>ch_calls := True\<rparr>\<rparr>"

definition remove_call :: "u8 \<Rightarrow> u8 \<Rightarrow> call_model \<Rightarrow> call_model" where
  "remove_call index reason m =
     m\<lparr>calls := filter (\<lambda>c. c_index c \<noteq> index) (calls m),
       friendly_index := (if friendly_index m = index then 0 else friendly_index m),
       cm_changes := (cm_changes m)\<lparr>ch_terminations := ch_terminations (cm_changes m) @ [(index, reason)],
                                    ch_calls := True\<rparr>\<rparr>"

definition describe_call :: "call \<Rightarrow> string" where
  "describe_call c =
     show_nat (unat (c_index c)) @ '' '' @ cs_name (c_state c) @
     (if bit_set (c_flags c) CALL_FLAG_OUTGOING then '' (outgoing)'' else '''')"

definition describe_calls :: "call_model \<Rightarrow> string" where
  "describe_calls m =
     (if calls m = [] then ''none'' else join_with '', '' (map describe_call (calls m)))"

fun truncate_from :: "rstr \<Rightarrow> nat \<Rightarrow> rstr" where
  "truncate_from s 0 = str_prefix s 0"
| "truncate_from s (Suc n) =
     (if is_char_boundary s (Suc n) then str_prefix s (Suc n) else truncate_from s n)"

definition truncate_str :: "rstr \<Rightarrow> nat \<Rightarrow> rstr" where
  "truncate_str s mx = truncate_from s (min (str_len s) mx)"

subsection \<open>Events of the telephony side\<close>

definition incoming_call :: "u8 \<Rightarrow> rstr \<Rightarrow> rstr \<Rightarrow> rstr \<Rightarrow> call" where
  "incoming_call index uri friendly_name target_uri =
     \<lparr> c_index = index, c_state = Incoming, c_flags = 0, c_uri = truncate_str uri MAX_URI,
       c_friendly_name = truncate_str friendly_name 255, c_target_uri = truncate_str target_uri 254 \<rparr>"

definition incoming :: "rstr \<Rightarrow> rstr \<Rightarrow> rstr \<Rightarrow> call_model \<Rightarrow> call_model \<times> u8 option" where
  "incoming uri friendly_name target_uri m =
     (if MAX_CALLS \<le> length (calls m) then (m, None)
      else let (m1, index) = allocate_index m
           in if index = 0 then (m1, None)
              else let call = incoming_call index uri friendly_name target_uri;
                       m2 = (if c_friendly_name call \<noteq> [] then m1\<lparr>friendly_index := index\<rparr> else m1);
                       m3 = m2\<lparr>calls := calls m2 @ [call],
                               cm_changes := (cm_changes m2)\<lparr>ch_calls := True, ch_incoming := Some index\<rparr>\<rparr>
                   in (m3, Some index))"

definition remote_alerting :: "u8 \<Rightarrow> call_model \<Rightarrow> call_model \<times> bool" where
  "remote_alerting index m =
     (case find_call m index of
        None \<Rightarrow> (m, False)
      | Some c \<Rightarrow> if c_state c \<noteq> Dialing then (m, False)
                 else (mark_calls (set_call_state index Alerting m), True))"

definition remote_answered :: "u8 \<Rightarrow> call_model \<Rightarrow> call_model \<times> bool" where
  "remote_answered index m =
     (case find_call m index of
        None \<Rightarrow> (m, False)
      | Some c \<Rightarrow> if c_state c \<noteq> Dialing \<and> c_state c \<noteq> Alerting then (m, False)
                 else (mark_calls (hold_others index (set_call_state index Active m)), True))"

fun remote_hold_next :: "bool \<Rightarrow> call_state \<Rightarrow> call_state option" where
  "remote_hold_next True Active = Some RemotelyHeld"
| "remote_hold_next True LocallyHeld = Some LocallyAndRemotelyHeld"
| "remote_hold_next False RemotelyHeld = Some Active"
| "remote_hold_next False LocallyAndRemotelyHeld = Some LocallyHeld"
| "remote_hold_next _ _ = None"

definition remote_hold :: "u8 \<Rightarrow> bool \<Rightarrow> call_model \<Rightarrow> call_model \<times> bool" where
  "remote_hold index held m =
     (case find_call m index of
        None \<Rightarrow> (m, False)
      | Some c \<Rightarrow>
          (case remote_hold_next held (c_state c) of
             None \<Rightarrow> (m, False)
           | Some st \<Rightarrow>
               let m1 = set_call_state index st m;
                   m2 = (if st = Active then hold_others index m1 else m1)
               in (mark_calls m2, True)))"

definition call_ended :: "u8 \<Rightarrow> u8 \<Rightarrow> call_model \<Rightarrow> call_model \<times> bool" where
  "call_ended index reason m =
     (if find_call m index = None then (m, False) else (remove_call index reason m, True))"

subsection \<open>Requests of the headset\<close>

definition cc_accept :: "'b backend \<Rightarrow> 'b \<Rightarrow> call_model \<Rightarrow> u8 \<Rightarrow> 'b \<times> call_model \<times> u8" where
  "cc_accept B b m index =
     (case find_call m index of
        None \<Rightarrow> (b, m, RESULT_INVALID_CALL_INDEX)
      | Some c \<Rightarrow>
          if c_state c \<noteq> Incoming then (b, m, RESULT_STATE_MISMATCH)
          else if list_ex (\<lambda>d. c_index d \<noteq> index \<and> c_state d = Active) (calls m) \<and> \<not> supports_local_hold B b
          then (b, m, RESULT_OPERATION_NOT_POSSIBLE)
          else let (b', r) = be_accept B b c
               in if r \<noteq> RESULT_SUCCESS then (b', m, r)
                  else (b', mark_calls (hold_others index (set_call_state index Active m)), RESULT_SUCCESS))"

definition cc_terminate :: "'b backend \<Rightarrow> 'b \<Rightarrow> call_model \<Rightarrow> u8 \<Rightarrow> 'b \<times> call_model \<times> u8" where
  "cc_terminate B b m index =
     (case find_call m index of
        None \<Rightarrow> (b, m, RESULT_INVALID_CALL_INDEX)
      | Some c \<Rightarrow>
          let (b', r) = be_terminate B b c
          in if r \<noteq> RESULT_SUCCESS then (b', m, r)
             else (b', remove_call index REASON_CLIENT_TERMINATED m, RESULT_SUCCESS))"

fun local_hold_next :: "call_state \<Rightarrow> call_state option" where
  "local_hold_next Incoming = Some LocallyHeld"
| "local_hold_next Active = Some LocallyHeld"
| "local_hold_next RemotelyHeld = Some LocallyAndRemotelyHeld"
| "local_hold_next _ = None"

definition cc_local_hold :: "'b backend \<Rightarrow> 'b \<Rightarrow> call_model \<Rightarrow> u8 \<Rightarrow> 'b \<times> call_model \<times> u8" where
  "cc_local_hold B b m index =
     (if \<not> supports_local_hold B b then (b, m, RESULT_OPCODE_NOT_SUPPORTED)
      else case find_call m index of
        None \<Rightarrow> (b, m, RESULT_INVALID_CALL_INDEX)
      | Some c \<Rightarrow>
          (case local_hold_next (c_state c) of
             None \<Rightarrow> (b, m, RESULT_STATE_MISMATCH)
           | Some st \<Rightarrow>
               let (b', r) = be_hold B b c
               in if r \<noteq> RESULT_SUCCESS then (b', m, r)
                  else (b', mark_calls (set_call_state index st m), RESULT_SUCCESS)))"

fun local_retrieve_next :: "call_state \<Rightarrow> call_state option" where
  "local_retrieve_next LocallyHeld = Some Active"
| "local_retrieve_next LocallyAndRemotelyHeld = Some RemotelyHeld"
| "local_retrieve_next _ = None"

definition cc_local_retrieve :: "'b backend \<Rightarrow> 'b \<Rightarrow> call_model \<Rightarrow> u8 \<Rightarrow> 'b \<times> call_model \<times> u8" where
  "cc_local_retrieve B b m index =
     (if \<not> supports_local_hold B b then (b, m, RESULT_OPCODE_NOT_SUPPORTED)
      else case find_call m index of
        None \<Rightarrow> (b, m, RESULT_INVALID_CALL_INDEX)
      | Some c \<Rightarrow>
          (case local_retrieve_next (c_state c) of
             None \<Rightarrow> (b, m, RESULT_STATE_MISMATCH)
           | Some st \<Rightarrow>
               let (b', r) = be_retrieve B b c
               in if r \<noteq> RESULT_SUCCESS then (b', m, r)
                  else let m1 = set_call_state index st m;
                           m2 = (if st = Active then hold_others index m1 else m1)
                       in (b', mark_calls m2, RESULT_SUCCESS)))"

definition known_scheme :: "rstr \<Rightarrow> rstr \<Rightarrow> bool" where
  "known_scheme schemes scheme \<longleftrightarrow>
     list_ex (\<lambda>s. to_ascii_lowercase (trim s) = scheme) (split_by (\<lambda>c. c = 44) schemes)"

definition outgoing_call :: "u8 \<Rightarrow> rstr \<Rightarrow> call" where
  "outgoing_call index uri =
     \<lparr> c_index = index, c_state = Dialing, c_flags = CALL_FLAG_OUTGOING, c_uri = uri,
       c_friendly_name = [], c_target_uri = [] \<rparr>"

definition cc_originate :: "'b backend \<Rightarrow> 'b \<Rightarrow> call_model \<Rightarrow> rstr \<Rightarrow> 'b \<times> call_model \<times> u8 \<times> u8" where
  "cc_originate B b m uri =
     (case str_find (\<lambda>c. c = 58) uri of
        None \<Rightarrow> (b, m, RESULT_INVALID_OUTGOING_URI, 0)
      | Some colon \<Rightarrow>
          if colon = 0 \<or> str_len uri \<le> colon + 1 \<or> MAX_URI < str_len uri
          then (b, m, RESULT_INVALID_OUTGOING_URI, 0)
          else if \<not> known_scheme (uri_schemes B b) (to_ascii_lowercase (str_prefix uri colon)) \<or>
                  list_ex (\<lambda>x. x < 0x20) (as_bytes uri)
          then (b, m, RESULT_INVALID_OUTGOING_URI, 0)
          else if MAX_CALLS \<le> length (calls m) then (b, m, RESULT_LACK_OF_RESOURCES, 0)
          else if list_ex (\<lambda>d. c_state d = Active) (calls m) \<and> \<not> supports_local_hold B b
          then (b, m, RESULT_OPERATION_NOT_POSSIBLE, 0)
          else let (b', r) = be_originate B b uri
               in if r \<noteq> RESULT_SUCCESS then (b', m, r, 0)
                  else let (m1, index) = allocate_index m
                       in if index = 0 then (b', m1, RESULT_LACK_OF_RESOURCES, 0)
                          else let m2 = hold_others index m1;
                                   m3 = m2\<lparr>calls := calls m2 @ [outgoing_call index uri]\<rparr>
                               in (b', mark_calls m3, RESULT_SUCCESS, index))"

definition cc_dispatch :: "'b backend \<Rightarrow> 'b \<Rightarrow> call_model \<Rightarrow> u8 \<Rightarrow> u8 \<Rightarrow> 'b \<times> call_model \<times> u8" where
  "cc_dispatch B b m opcode index =
     (if opcode = OP_ACCEPT then cc_accept B b m index
      else if opcode = OP_TERMINATE then cc_terminate B b m index
      else if opcode = OP_LOCAL_HOLD then cc_local_hold B b m index
      else cc_local_retrieve B b m index)"

definition control_point :: "'b backend \<Rightarrow> 'b \<Rightarrow> call_model \<Rightarrow> bytes \<Rightarrow> 'b \<times> call_model \<times> (u8 + cp_outcome)" where
  "control_point B b m value =
     (case value of
        [] \<Rightarrow> (b, m, Inl ATT_ERROR_INVALID_ATTRIBUTE_VALUE_LENGTH)
      | opcode # raw \<Rightarrow>
          if opcode \<in> {OP_ACCEPT, OP_TERMINATE, OP_LOCAL_HOLD, OP_LOCAL_RETRIEVE} then
            (case raw of
               [index] \<Rightarrow>
                 let (b', m', result) = cc_dispatch B b m opcode index
                 in (b', m', Inr \<lparr>cp_opcode = opcode, cp_call_index = index, cp_result = result\<rparr>)
             | _ \<Rightarrow> (b, m, Inl ATT_ERROR_INVALID_ATTRIBUTE_VALUE_LENGTH))
          else if opcode = OP_ORIGINATE then
            (if length value < 2 then (b, m, Inl ATT_ERROR_INVALID_ATTRIBUTE_VALUE_LENGTH)
             else if MAX_URI < length raw
             then (b, m, Inr \<lparr>cp_opcode = opcode, cp_call_index = 0, cp_result = RESULT_INVALID_OUTGOING_URI\<rparr>)
             else let (b', m', result, index) = cc_originate B b m (from_utf8_lossy raw)
                  in (b', m', Inr \<lparr>cp_opcode = opcode, cp_call_index = index, cp_result = result\<rparr>))
          else (b, m, Inr \<lparr>cp_opcode = opcode, cp_call_index = 0, cp_result = RESULT_OPCODE_NOT_SUPPORTED\<rparr>))"

definition take_changes :: "call_model \<Rightarrow> call_model \<times> changes" where
  "take_changes m = (m\<lparr>cm_changes := no_changes\<rparr>, cm_changes m)"

subsection \<open>Characteristic values\<close>

definition index_and :: "u8 \<Rightarrow> rstr \<Rightarrow> bytes" where
  "index_and index text = index # as_bytes text"

definition list_item :: "call \<Rightarrow> bytes" where
  "list_item c =
     [of_nat (3 + str_len (c_uri c)), c_index c, cs_value (c_state c), c_flags c] @ as_bytes (c_uri c)"

definition list_value :: "call_model \<Rightarrow> bytes" where
  "list_value m = concat (map list_item (calls m))"

definition state_value :: "call_model \<Rightarrow> bytes" where
  "state_value m = concat (map (\<lambda>c. [c_index c, cs_value (c_state c), c_flags c]) (calls m))"

definition incoming_value :: "call_model \<Rightarrow> bytes" where
  "incoming_value m =
     (case List.find (\<lambda>c. c_state c = Incoming) (rev (calls m)) of
        None \<Rightarrow> [] | Some c \<Rightarrow> index_and (c_index c) (c_uri c))"

definition target_value :: "call_model \<Rightarrow> bytes" where
  "target_value m =
     (case List.find (\<lambda>c. c_state c = Incoming \<and> c_target_uri c \<noteq> []) (rev (calls m)) of
        None \<Rightarrow> [] | Some c \<Rightarrow> index_and (c_index c) (c_target_uri c))"

definition friendly_value :: "call_model \<Rightarrow> bytes" where
  "friendly_value m =
     (case List.find (\<lambda>c. c_index c = friendly_index m \<and> c_friendly_name c \<noteq> []) (calls m) of
        None \<Rightarrow> [] | Some c \<Rightarrow> index_and (c_index c) (c_friendly_name c))"

subsection \<open>Simulation\<close>

fun digits_value :: "nat \<Rightarrow> nat \<Rightarrow> rstr \<Rightarrow> nat" where
  "digits_value radix v [] = v"
| "digits_value radix v (c # cs) =
     (case to_digit radix c of
        None \<Rightarrow> v
      | Some d \<Rightarrow> digits_value radix (min (v * radix + d) (0xFFFFFFFF + 1)) cs)"

definition strtoul_sign :: "rstr \<Rightarrow> bool \<times> rstr" where
  "strtoul_sign s =
     (case s of
        [] \<Rightarrow> (False, s)
      | c # r \<Rightarrow> if c = 45 then (True, r) else if c = 43 then (False, r) else (False, s))"

definition strtoul_radix :: "rstr \<Rightarrow> nat \<times> rstr" where
  "strtoul_radix s =
     (if 3 \<le> length s \<and> s ! 0 = 48 \<and> (s ! 1 = 120 \<or> s ! 1 = 88) \<and> to_digit 16 (s ! 2) \<noteq> None
      then (16, drop 2 s)
      else if s \<noteq> [] \<and> hd s = 48 then (8, s)
      else (10, s))"

definition c_strtoul :: "rstr \<Rightarrow> u32" where
  "c_strtoul s =
     (let (neg, s1) = strtoul_sign (trim_start s);
          (radix, digits) = strtoul_radix s1;
          v = of_nat (min (digits_value radix 0 digits) 0xFFFFFFFF)
      in if neg then - v else v)"

definition nth_or_empty :: "rstr list \<Rightarrow> nat \<Rightarrow> rstr" where
  "nth_or_empty ps i = (if i < length ps then ps ! i else [])"

definition sim_split :: "rstr \<Rightarrow> rstr \<times> rstr" where
  "sim_split line =
     (let cmd = takeWhile (\<lambda>c. c \<noteq> 32 \<and> c \<noteq> 9) line
      in if length cmd < length line then (cmd, trim (drop (length cmd + 1) line)) else (line, []))"

definition sim_index :: "call_model \<Rightarrow> rstr list \<Rightarrow> u8" where
  "sim_index m args =
     (case args of
        a # _ \<Rightarrow> ucast (c_strtoul a)
      | [] \<Rightarrow> (case latest m of None \<Rightarrow> 0 | Some c \<Rightarrow> c_index c))"

definition sim_reason :: "rstr list \<Rightarrow> u8" where
  "sim_reason args = (if length args < 2 then REASON_REMOTE_ENDED else ucast (c_strtoul (args ! 1)))"

definition sim_incoming :: "rstr \<Rightarrow> call_model \<Rightarrow> call_model \<times> (string + string)" where
  "sim_incoming rest m =
     (if rest = [] then (m, Inl ''incoming needs a URI'')
      else let parts = map trim (split_by (\<lambda>c. c = 124) rest);
               (m', r) = incoming (nth_or_empty parts 0) (nth_or_empty parts 1) (nth_or_empty parts 2) m
           in (m', case r of Some _ \<Rightarrow> Inr (describe_calls m') | None \<Rightarrow> Inl ''no room for another call''))"

definition sim_dispatch :: "rstr \<Rightarrow> u8 \<Rightarrow> rstr list \<Rightarrow> call_model \<Rightarrow> (call_model \<times> bool) option" where
  "sim_dispatch cmd index args m =
     (if cmd = lit ''alerting'' then Some (remote_alerting index m)
      else if cmd = lit ''answered'' then Some (remote_answered index m)
      else if cmd = lit ''remote-hold'' then Some (remote_hold index True m)
      else if cmd = lit ''remote-retrieve'' then Some (remote_hold index False m)
      else if cmd = lit ''hangup'' then Some (call_ended index (sim_reason args) m)
      else None)"

definition sim_call :: "rstr \<Rightarrow> rstr \<Rightarrow> call_model \<Rightarrow> call_model \<times> (string + string)" where
  "sim_call cmd rest m =
     (let args = split_whitespace rest; index = sim_index m args
      in if find_call m index = None then (m, Inl ''no such call'')
         else case sim_dispatch cmd index args m of
                None \<Rightarrow> (m, Inl ''unknown command'')
              | Some (m', ok) \<Rightarrow>
                  (m', if ok then Inr (describe_calls m')
                       else Inl (''not possible in the call'' @ [CHR 0x27] @ ''s state'')))"

definition simulate :: "rstr \<Rightarrow> call_model \<Rightarrow> call_model \<times> (string + string)" where
  "simulate command m =
     (let line = trim command
      in if line = [] then (m, Inl ''empty command'')
         else let (cmd0, rest) = sim_split line; cmd = to_ascii_lowercase cmd0
              in if cmd = lit ''incoming'' then sim_incoming rest m
                 else if cmd = lit ''status'' then (m, Inr (describe_calls m))
                 else sim_call cmd rest m)"

subsection \<open>Runs\<close>

text \<open>Everything the GATT module and the telephony side can call on the model.\<close>

datatype call_event =
    Ev_incoming rstr rstr rstr
  | Ev_alerting u8
  | Ev_answered u8
  | Ev_remote_hold u8 bool
  | Ev_ended u8 u8
  | Ev_control_point bytes
  | Ev_simulate rstr
  | Ev_take_changes

fun call_step :: "'b backend \<Rightarrow> 'b \<times> call_model \<Rightarrow> call_event \<Rightarrow> 'b \<times> call_model" where
  "call_step B (b, m) (Ev_incoming uri name target) = (b, fst (incoming uri name target m))"
| "call_step B (b, m) (Ev_alerting i) = (b, fst (remote_alerting i m))"
| "call_step B (b, m) (Ev_answered i) = (b, fst (remote_answered i m))"
| "call_step B (b, m) (Ev_remote_hold i held) = (b, fst (remote_hold i held m))"
| "call_step B (b, m) (Ev_ended i reason) = (b, fst (call_ended i reason m))"
| "call_step B (b, m) (Ev_control_point value) =
     (fst (control_point B b m value), fst (snd (control_point B b m value)))"
| "call_step B (b, m) (Ev_simulate command) = (b, fst (simulate command m))"
| "call_step B (b, m) Ev_take_changes = (b, fst (take_changes m))"

definition call_run :: "'b backend \<Rightarrow> 'b \<Rightarrow> call_event list \<Rightarrow> 'b \<times> call_model" where
  "call_run B b es = foldl (call_step B) (b, cm_new) es"

subsection \<open>The abstract state machine of the bearer\<close>

text \<open>
  What a step may do to the model, without backends, octets and commands: nothing, move one call along
  the state diagram, make one call active and put the others on hold, drop one call, or add a ringing
  or a dialing call under a free index.
\<close>

fun tbs_restate :: "call_state \<Rightarrow> call_state \<Rightarrow> bool" where
  "tbs_restate Dialing st \<longleftrightarrow> st = Alerting"
| "tbs_restate Incoming st \<longleftrightarrow> st = LocallyHeld"
| "tbs_restate Active st \<longleftrightarrow> st = LocallyHeld \<or> st = RemotelyHeld"
| "tbs_restate LocallyHeld st \<longleftrightarrow> st = LocallyAndRemotelyHeld"
| "tbs_restate RemotelyHeld st \<longleftrightarrow> st = LocallyAndRemotelyHeld"
| "tbs_restate LocallyAndRemotelyHeld st \<longleftrightarrow> st = LocallyHeld \<or> st = RemotelyHeld"
| "tbs_restate Alerting st \<longleftrightarrow> False"

definition tbs_activates :: "call_state \<Rightarrow> bool" where
  "tbs_activates st \<longleftrightarrow> st \<in> {Incoming, Dialing, Alerting, LocallyHeld, RemotelyHeld}"

definition add_incoming :: "u8 \<Rightarrow> u8 \<Rightarrow> call \<Rightarrow> call_model \<Rightarrow> call_model" where
  "add_incoming k i c m =
     \<lparr> calls = calls m @ [c], next_index = k,
       cm_changes = (cm_changes m)\<lparr>ch_calls := True, ch_incoming := Some i\<rparr>,
       friendly_index = (if c_friendly_name c \<noteq> [] then i else friendly_index m) \<rparr>"

definition add_outgoing :: "u8 \<Rightarrow> u8 \<Rightarrow> call \<Rightarrow> call_model \<Rightarrow> call_model" where
  "add_outgoing k i c m =
     \<lparr> calls = map (hold_call i) (calls m) @ [c], next_index = k,
       cm_changes = (cm_changes m)\<lparr>ch_calls := True\<rparr>, friendly_index = friendly_index m \<rparr>"

inductive tbs_step :: "call_model \<Rightarrow> call_model \<Rightarrow> bool" where
  keep: "tbs_step m m"
| skip_index: "(next_index m \<noteq> 0 \<Longrightarrow> k \<noteq> 0) \<Longrightarrow> tbs_step m (m\<lparr>next_index := k\<rparr>)"
| restate: "find_call m i = Some c \<Longrightarrow> tbs_restate (c_state c) st \<Longrightarrow>
    tbs_step m (mark_calls (set_call_state i st m))"
| activate: "find_call m i = Some c \<Longrightarrow> tbs_activates (c_state c) \<Longrightarrow>
    tbs_step m (mark_calls (hold_others i (set_call_state i Active m)))"
| drop_call: "find_call m i = Some c \<Longrightarrow> tbs_step m (remove_call i reason m)"
| ring: "length (calls m) < MAX_CALLS \<Longrightarrow> i \<noteq> 0 \<Longrightarrow> find_call m i = None \<Longrightarrow>
    (next_index m \<noteq> 0 \<Longrightarrow> k \<noteq> 0) \<Longrightarrow>
    tbs_step m (add_incoming k i (incoming_call i uri name target) m)"
| dial: "length (calls m) < MAX_CALLS \<Longrightarrow> i \<noteq> 0 \<Longrightarrow> find_call m i = None \<Longrightarrow>
    (next_index m \<noteq> 0 \<Longrightarrow> k \<noteq> 0) \<Longrightarrow> str_len uri \<le> MAX_URI \<Longrightarrow>
    tbs_step m (add_outgoing k i (outgoing_call i uri) m)"

lemma find_call_next_index [simp]: "find_call (m\<lparr>next_index := k\<rparr>) i = find_call m i"
  by (simp add: find_call_def)

lemma allocate_loop_keeps:
  assumes "allocate_loop n m = (m1, i)"
  shows "m1 = m\<lparr>next_index := next_index m1\<rparr>"
    and "next_index m \<noteq> 0 \<Longrightarrow> next_index m1 \<noteq> 0"
    and "i \<noteq> 0 \<Longrightarrow> find_call m i = None"
proof -
  have *: "m1 = m\<lparr>next_index := next_index m1\<rparr> \<and> (next_index m \<noteq> 0 \<longrightarrow> next_index m1 \<noteq> 0) \<and>
      (i \<noteq> 0 \<longrightarrow> find_call m i = None)"
    using assms
  proof (induction n m rule: allocate_loop.induct)
    case (2 n m)
    define m' where "m' = m\<lparr>next_index := (if next_index m = 255 then 1 else next_index m + 1)\<rparr>"
    have f: "find_call m' j = find_call m j" for j by (simp add: find_call_def m'_def)
    have z: "next_index m \<noteq> 0 \<Longrightarrow> next_index m' \<noteq> 0"
    proof -
      have "next_index m + 1 = 0 \<Longrightarrow> next_index m = 255"
        by (simp add: eq_neg_iff_add_eq_0 [symmetric])
      then show "next_index m' \<noteq> 0" by (auto simp: m'_def)
    qed
    show ?case
    proof (cases "find_call m' (next_index m) = None")
      case True
      with 2(2) have "m1 = m'" "i = next_index m" by (simp_all add: Let_def m'_def [symmetric])
      with True z show ?thesis by (simp add: f) (simp add: m'_def)
    next
      case False
      with 2(2) have "allocate_loop n m' = (m1, i)" by (simp add: Let_def m'_def [symmetric])
      from 2(1) [OF refl m'_def False this] z show ?thesis
        by (simp add: f) (simp add: m'_def)
    qed
  qed simp
  then show "m1 = m\<lparr>next_index := next_index m1\<rparr>" "next_index m \<noteq> 0 \<Longrightarrow> next_index m1 \<noteq> 0"
    "i \<noteq> 0 \<Longrightarrow> find_call m i = None" by blast+
qed

lemmas allocate_index_keeps = allocate_loop_keeps [where n = 255, folded allocate_index_def]

lemma incoming_step: "tbs_step m (fst (incoming uri name target m))"
proof (cases "MAX_CALLS \<le> length (calls m)")
  case True
  then show ?thesis by (simp add: incoming_def tbs_step.keep)
next
  case False
  obtain m1 i where a: "allocate_index m = (m1, i)" by fastforce
  note k = allocate_index_keeps [OF a]
  show ?thesis
  proof (cases "i = 0")
    case True
    then have "fst (incoming uri name target m) = m\<lparr>next_index := next_index m1\<rparr>"
      using False k(1) by (simp add: incoming_def a)
    then show ?thesis using k(2) by (auto intro: tbs_step.skip_index)
  next
    case i: False
    define c where "c = incoming_call i uri name target"
    define n where "n = next_index m1"
    have m1: "m1 = m\<lparr>next_index := n\<rparr>" using k(1) by (simp add: n_def)
    have "fst (incoming uri name target m) = add_incoming n i c m"
      using False i by (simp add: incoming_def a Let_def c_def [symmetric] m1 add_incoming_def)
    then show ?thesis
      using False i k(2,3) unfolding c_def n_def by (auto intro!: tbs_step.ring)
  qed
qed

lemma remote_alerting_step: "tbs_step m (fst (remote_alerting i m))"
  by (auto simp: remote_alerting_def intro!: tbs_step.intros split: option.splits)

lemma remote_answered_step: "tbs_step m (fst (remote_answered i m))"
  by (auto simp: remote_answered_def tbs_activates_def intro!: tbs_step.intros split: option.splits)

lemma remote_hold_next_moves:
  "remote_hold_next held s = Some Active \<Longrightarrow> tbs_activates s"
  "remote_hold_next held s = Some st \<Longrightarrow> st \<noteq> Active \<Longrightarrow> tbs_restate s st"
  by (cases held; cases s; auto simp: tbs_activates_def)+

lemma local_hold_next_moves: "local_hold_next s = Some st \<Longrightarrow> tbs_restate s st"
  by (cases s) auto

lemma local_retrieve_next_moves:
  "local_retrieve_next s = Some Active \<Longrightarrow> tbs_activates s"
  "local_retrieve_next s = Some st \<Longrightarrow> st \<noteq> Active \<Longrightarrow> tbs_restate s st"
  by (cases s; auto simp: tbs_activates_def)+

lemma remote_hold_step: "tbs_step m (fst (remote_hold i held m))"
  by (auto simp: remote_hold_def Let_def intro: tbs_step.keep tbs_step.restate tbs_step.activate
      remote_hold_next_moves split: option.splits)

lemma call_ended_step: "tbs_step m (fst (call_ended i reason m))"
  by (auto simp: call_ended_def intro: tbs_step.intros)

lemma cc_accept_step: "cc_accept B b m i = (b', m', r) \<Longrightarrow> tbs_step m m'"
  by (auto simp: cc_accept_def tbs_activates_def intro!: tbs_step.keep tbs_step.activate
      split: option.splits if_splits prod.splits)

lemma cc_terminate_step: "cc_terminate B b m i = (b', m', r) \<Longrightarrow> tbs_step m m'"
  by (auto simp: cc_terminate_def intro: tbs_step.keep tbs_step.drop_call
      split: option.splits if_splits prod.splits)

lemma cc_local_hold_step: "cc_local_hold B b m i = (b', m', r) \<Longrightarrow> tbs_step m m'"
  by (auto simp: cc_local_hold_def intro: tbs_step.keep tbs_step.restate dest: local_hold_next_moves
      split: option.splits if_splits prod.splits)

lemma cc_local_retrieve_step:
  assumes "cc_local_retrieve B b m i = (b', m', r)"
  shows "tbs_step m m'"
  using assms
  by (auto simp: cc_local_retrieve_def Let_def intro: tbs_step.keep tbs_step.restate tbs_step.activate
      local_retrieve_next_moves split: option.splits if_splits prod.splits)

lemma dial_added:
  assumes "allocate_index m = (m1, i)"
  shows "mark_calls (hold_others i m1\<lparr>calls := calls (hold_others i m1) @ [c]\<rparr>) =
    add_outgoing (next_index m1) i c m"
proof -
  have "m1 = m\<lparr>next_index := next_index m1\<rparr>" by (rule allocate_index_keeps(1) [OF assms])
  then obtain k where "m1 = m\<lparr>next_index := k\<rparr>" by blast
  then show ?thesis by (simp add: mark_calls_def hold_others_def add_outgoing_def)
qed

definition dialable :: "'b backend \<Rightarrow> 'b \<Rightarrow> rstr \<Rightarrow> bool" where
  "dialable B b uri \<longleftrightarrow>
     (case str_find (\<lambda>c. c = 58) uri of
        None \<Rightarrow> False
      | Some colon \<Rightarrow> \<not> (colon = 0 \<or> str_len uri \<le> colon + 1 \<or> MAX_URI < str_len uri) \<and>
          known_scheme (uri_schemes B b) (to_ascii_lowercase (str_prefix uri colon)) \<and>
          \<not> list_ex (\<lambda>x. x < 0x20) (as_bytes uri))"

lemma cc_originate_alt:
  "cc_originate B b m uri =
     (if \<not> dialable B b uri then (b, m, RESULT_INVALID_OUTGOING_URI, 0)
      else if MAX_CALLS \<le> length (calls m) then (b, m, RESULT_LACK_OF_RESOURCES, 0)
      else if list_ex (\<lambda>d. c_state d = Active) (calls m) \<and> \<not> supports_local_hold B b
      then (b, m, RESULT_OPERATION_NOT_POSSIBLE, 0)
      else let (b', r) = be_originate B b uri
           in if r \<noteq> RESULT_SUCCESS then (b', m, r, 0)
              else let (m1, index) = allocate_index m
                   in if index = 0 then (b', m1, RESULT_LACK_OF_RESOURCES, 0)
                      else (b', add_outgoing (next_index m1) index (outgoing_call index uri) m,
                            RESULT_SUCCESS, index))"
proof (cases "allocate_index m")
  case (Pair m1 i)
  show ?thesis
    unfolding cc_originate_def dialable_def Pair Let_def
    by (auto simp: dial_added [OF Pair] split: option.split prod.split)
qed

lemma cc_originate_cases:
  assumes "cc_originate B b m uri = (b', m', r, i)"
  obtains (refused) "m' = m" "r \<noteq> RESULT_SUCCESS" "i = 0"
  | (full) "r = RESULT_LACK_OF_RESOURCES" "i = 0" "allocate_index m = (m', 0)"
      "length (calls m) < MAX_CALLS"
  | (dialed) m1 where "allocate_index m = (m1, i)" "i \<noteq> 0" "r = RESULT_SUCCESS" "dialable B b uri"
      "length (calls m) < MAX_CALLS" "m' = add_outgoing (next_index m1) i (outgoing_call i uri) m"
proof (cases "allocate_index m")
  case (Pair m1 j)
  have "m' = m \<and> r \<noteq> RESULT_SUCCESS \<and> i = 0 \<or>
      r = RESULT_LACK_OF_RESOURCES \<and> i = 0 \<and> j = 0 \<and> m1 = m' \<and> length (calls m) < MAX_CALLS \<or>
      j = i \<and> i \<noteq> 0 \<and> r = RESULT_SUCCESS \<and> dialable B b uri \<and> length (calls m) < MAX_CALLS \<and>
      m' = add_outgoing (next_index m1) i (outgoing_call i uri) m"
    using assms unfolding cc_originate_alt Pair Let_def
    by (auto simp: not_le RESULT_SUCCESS_def RESULT_INVALID_OUTGOING_URI_def
        RESULT_LACK_OF_RESOURCES_def RESULT_OPERATION_NOT_POSSIBLE_def split: if_splits prod.splits)
  then show thesis using that Pair by blast
qed

lemma cc_originate_step:
  assumes "cc_originate B b m uri = (b', m', r, i)"
  shows "tbs_step m m'"
  using assms
proof (cases rule: cc_originate_cases)
  case refused
  then show ?thesis by (simp add: tbs_step.keep)
next
  case full
  note k = allocate_index_keeps [OF full(3)]
  show ?thesis using k(2) tbs_step.skip_index [of m "next_index m'"] k(1) by auto
next
  case (dialed m1)
  then show ?thesis
    using allocate_index_keeps [OF dialed(1)]
    by (auto simp: dialable_def intro!: tbs_step.dial split: option.splits)
qed

lemma cc_dispatch_step: "cc_dispatch B b m opcode i = (b', m', r) \<Longrightarrow> tbs_step m m'"
  by (auto simp: cc_dispatch_def split: if_splits
      dest: cc_accept_step cc_terminate_step cc_local_hold_step cc_local_retrieve_step)

lemma control_point_step:
  assumes "control_point B b m value = (b', m', r)"
  shows "tbs_step m m'"
  using assms
  by (auto simp: control_point_def Let_def intro: tbs_step.keep dest: cc_dispatch_step cc_originate_step
      split: list.splits if_splits prod.splits)

lemma sim_incoming_step: "tbs_step m (fst (sim_incoming rest m))"
  using incoming_step [of m]
  by (auto simp: sim_incoming_def Let_def intro: tbs_step.keep split: prod.splits) (metis fst_conv)

lemma sim_dispatch_step: "sim_dispatch cmd i args m = Some (m', ok) \<Longrightarrow> tbs_step m m'"
  using remote_alerting_step [of m i] remote_answered_step [of m i] remote_hold_step [of m i]
    call_ended_step [of m i]
  by (auto simp: sim_dispatch_def split: if_splits) (metis fst_conv)+

lemma simulate_step: "tbs_step m (fst (simulate command m))"
  by (auto simp: simulate_def sim_call_def Let_def intro: tbs_step.keep sim_incoming_step
      dest: sim_dispatch_step split: prod.splits option.splits)

end
