(* ===== verification/Call_Invariant.thy ===== *)
theory Call_Invariant
  imports Call_Model
begin

text \<open>
  The theorems on the call model of \<^verbatim>\<open>ccp_model.rs\<close>: the invariant of every reachable state (through
  the interface of a state machine with an invariant), the allocation of call indices, what a step does
  to one call, the pending notifications, the outcome of Call Control Point writes, and reading back
  Bearer List Current Calls.
\<close>

lemma call_step_tbs:
  assumes "e \<noteq> Ev_take_changes"
  shows "tbs_step (snd s) (snd (call_step B s e))"
proof (cases s)
  case (Pair b m)
  show ?thesis
  proof (cases e)
    case (Ev_control_point v)
    then show ?thesis
      using control_point_step [of B b m v]
      by (metis Pair call_step.simps(6) prod.collapse snd_conv)
  qed (use assms in \<open>simp_all add: Pair incoming_step remote_alerting_step remote_answered_step
      remote_hold_step call_ended_step simulate_step\<close>)
qed

lemma call_step_taken: "snd (call_step B s Ev_take_changes) = (snd s)\<lparr>cm_changes := no_changes\<rparr>"
  by (cases s) (simp add: take_changes_def)

subsection \<open>The invariant\<close>

definition one_active :: "call list \<Rightarrow> bool" where
  "one_active cs \<longleftrightarrow>
     list_all (\<lambda>c. list_all (\<lambda>d. c_state c = Active \<and> c_state d = Active \<longrightarrow> c_index c = c_index d) cs) cs"

lemma one_activeI:
  "(\<And>c d. c \<in> set cs \<Longrightarrow> d \<in> set cs \<Longrightarrow> c_state c = Active \<Longrightarrow> c_state d = Active \<Longrightarrow> c_index c = c_index d) \<Longrightarrow>
   one_active cs"
  unfolding one_active_def list_all_iff by blast

lemma one_activeD:
  "one_active cs \<Longrightarrow> c \<in> set cs \<Longrightarrow> d \<in> set cs \<Longrightarrow> c_state c = Active \<Longrightarrow> c_state d = Active \<Longrightarrow>
   c_index c = c_index d"
  unfolding one_active_def list_all_iff by blast

definition call_fits :: "call \<Rightarrow> bool" where
  "call_fits c \<longleftrightarrow>
     c_index c \<noteq> 0 \<and> str_len (c_uri c) \<le> MAX_URI \<and> str_len (c_friendly_name c) \<le> 255 \<and>
     str_len (c_target_uri c) \<le> 254"

definition friendly_ok :: "call_model \<Rightarrow> bool" where
  "friendly_ok m \<longleftrightarrow>
     friendly_index m = 0 \<or> list_ex (\<lambda>c. c_index c = friendly_index m \<and> c_friendly_name c \<noteq> []) (calls m)"

definition call_inv :: "call_model \<Rightarrow> bool" where
  "call_inv m \<longleftrightarrow>
     length (calls m) \<le> MAX_CALLS \<and> distinct (map c_index (calls m)) \<and> one_active (calls m) \<and>
     list_all call_fits (calls m) \<and> friendly_ok m \<and> next_index m \<noteq> 0"

text \<open>The part of a call that no state change touches.\<close>

definition call_id :: "call \<Rightarrow> u8 \<times> u8 \<times> rstr \<times> rstr \<times> rstr" where
  "call_id c = (c_index c, c_flags c, c_uri c, c_friendly_name c, c_target_uri c)"

lemma call_id_state [simp]: "call_id (c\<lparr>c_state := st\<rparr>) = call_id c"
  by (simp add: call_id_def)

lemma call_id_hold [simp]: "call_id (hold_call i c) = call_id c"
  by (simp add: hold_call_def)

lemma call_id_set_first [simp]: "map call_id (set_first_state i st cs) = map call_id cs"
  by (induction cs) auto

lemma same_ids:
  assumes "map call_id cs = map call_id ds"
  shows "map c_index cs = map c_index ds" "list_all call_fits cs = list_all call_fits ds"
    "list_ex (\<lambda>c. c_index c = i \<and> c_friendly_name c \<noteq> []) cs =
     list_ex (\<lambda>c. c_index c = i \<and> c_friendly_name c \<noteq> []) ds"
    "length cs = length ds"
proof -
  have "list_all2 (=) (map call_id cs) (map call_id ds)"
    by (simp add: assms list.rel_refl)
  then have "list_all2 (\<lambda>c d. call_id c = call_id d) cs ds"
    by (simp only: list.rel_map)
  then show "map c_index cs = map c_index ds" "list_all call_fits cs = list_all call_fits ds"
    "list_ex (\<lambda>c. c_index c = i \<and> c_friendly_name c \<noteq> []) cs =
     list_ex (\<lambda>c. c_index c = i \<and> c_friendly_name c \<noteq> []) ds"
    "length cs = length ds"
    by (induction rule: list_all2_induct) (auto simp: call_id_def call_fits_def)
qed

lemma index_set_first [simp]: "map c_index (set_first_state i st cs) = map c_index cs"
  by (rule same_ids) simp

lemma index_set_first_image [simp]: "c_index ` set (set_first_state i st cs) = c_index ` set cs"
  by (metis index_set_first list.set_map)

lemma index_hold [simp]: "c_index (hold_call i c) = c_index c"
  by (simp add: hold_call_def)

lemma mark_calls_simps [simp]:
  "calls (mark_calls m) = calls m" "next_index (mark_calls m) = next_index m"
  "friendly_index (mark_calls m) = friendly_index m" "ch_calls (cm_changes (mark_calls m))"
  "ch_terminations (cm_changes (mark_calls m)) = ch_terminations (cm_changes m)"
  "ch_incoming (cm_changes (mark_calls m)) = ch_incoming (cm_changes m)"
  by (simp_all add: mark_calls_def)

lemma set_call_state_simps [simp]:
  "calls (set_call_state i st m) = (if i = 0 then calls m else set_first_state i st (calls m))"
  "next_index (set_call_state i st m) = next_index m"
  "friendly_index (set_call_state i st m) = friendly_index m"
  "cm_changes (set_call_state i st m) = cm_changes m"
  by (simp_all add: set_call_state_def)

lemma hold_others_simps [simp]:
  "calls (hold_others i m) = map (hold_call i) (calls m)"
  "next_index (hold_others i m) = next_index m" "friendly_index (hold_others i m) = friendly_index m"
  "cm_changes (hold_others i m) = cm_changes m"
  by (simp_all add: hold_others_def)

lemma set_first_mem:
  "c \<in> set (set_first_state i st cs) \<Longrightarrow> c \<in> set cs \<or> (\<exists>d \<in> set cs. c_index d = i \<and> c = d\<lparr>c_state := st\<rparr>)"
  by (induction cs) (auto split: if_splits)

lemma held_not_active: "held_state s \<noteq> Active"
  by (cases s) auto

lemma one_active_hold: "one_active (map (hold_call i) cs)"
  by (auto simp: one_active_def list_all_iff hold_call_def held_not_active)

lemma one_active_set_first:
  assumes "one_active cs" "st \<noteq> Active"
  shows "one_active (set_first_state i st cs)"
proof -
  have "c \<in> set cs" if "c \<in> set (set_first_state i st cs)" "c_state c = Active" for c
    using set_first_mem [OF that(1)] that(2) assms(2) by auto
  then show ?thesis by (blast intro: one_activeI one_activeD [OF assms(1)])
qed

lemma one_active_snoc: "one_active cs \<Longrightarrow> c_state c \<noteq> Active \<Longrightarrow> one_active (cs @ [c])"
  by (rule one_activeI) (auto dest: one_activeD)

lemma one_active_filter: "one_active cs \<Longrightarrow> one_active (filter P cs)"
  by (rule one_activeI) (auto dest: one_activeD)

lemma find_call_Some:
  "find_call m i = Some c \<Longrightarrow> i \<noteq> 0 \<and> c \<in> set (calls m) \<and> c_index c = i"
  by (auto simp: find_call_def split: if_splits dest: find_mem)

lemma find_call_None: "i \<noteq> 0 \<Longrightarrow> find_call m i = None \<longleftrightarrow> i \<notin> c_index ` set (calls m)"
  by (auto simp: find_call_def find_None_iff)

lemma find_call_unique:
  assumes "distinct (map c_index (calls m))" "c \<in> set (calls m)" "c_index c \<noteq> 0"
  shows "find_call m (c_index c) = Some c"
proof (cases "find_call m (c_index c)")
  case None
  then show ?thesis using assms find_call_None by blast
next
  case (Some d)
  from find_call_Some [OF this] have "d \<in> set (calls m)" "c_index d = c_index c" by auto
  with assms have "d = c" by (auto simp: distinct_map inj_on_def)
  with Some show ?thesis by simp
qed

lemma truncate_len: "str_len (truncate_str s n) \<le> n"
proof -
  have "str_len (truncate_from s k) \<le> k" for k
    by (induction k) (auto simp: char_boundary_prefix)
  from order.trans [OF this] show ?thesis by (simp add: truncate_str_def)
qed

lemma new_call_fits:
  "i \<noteq> 0 \<Longrightarrow> call_fits (incoming_call i uri name target)"
  "i \<noteq> 0 \<Longrightarrow> str_len uri \<le> MAX_URI \<Longrightarrow> call_fits (outgoing_call i uri)"
  by (simp_all add: call_fits_def incoming_call_def outgoing_call_def truncate_len)

lemma tbs_restate_not_active: "tbs_restate s st \<Longrightarrow> st \<noteq> Active"
  by (cases s) auto

text \<open>Operations that only change call states keep everything but the one-active clause.\<close>

lemma call_inv_restated:
  assumes "call_inv m" "map call_id (calls m') = map call_id (calls m)" "one_active (calls m')"
    and "friendly_index m' = friendly_index m" "next_index m' = next_index m"
  shows "call_inv m'"
  using assms(1,3-5) same_ids [OF assms(2)] by (simp add: call_inv_def friendly_ok_def)

lemma call_inv_added:
  assumes "call_inv m" "length (calls m) < MAX_CALLS" "find_call m (c_index c) = None" "call_fits c"
    and "map call_id cs = map call_id (calls m)" "one_active cs" "c_state c \<noteq> Active"
    and "calls m' = cs @ [c]" "next_index m' \<noteq> 0"
    and "friendly_index m' = friendly_index m \<or> c_friendly_name c \<noteq> [] \<and> friendly_index m' = c_index c"
  shows "call_inv m'"
proof -
  note ids = same_ids [OF assms(5)]
  have "c_index c \<noteq> 0" using assms(4) by (simp add: call_fits_def)
  then have "c_index c \<notin> set (map c_index cs)"
    using assms(3) find_call_None [of "c_index c" m] ids(1) by simp
  then show ?thesis
    using assms(1,2,4,6-10) ids
    by (auto simp: call_inv_def friendly_ok_def one_active_snoc)
qed

lemma tbs_step_inv: "tbs_step m m' \<Longrightarrow> call_inv m \<Longrightarrow> call_inv m'"
proof (induction rule: tbs_step.induct)
  case (restate m i c st)
  have "one_active (set_first_state i st (calls m))"
    by (rule one_active_set_first [OF _ tbs_restate_not_active [OF restate(2)]])
      (use restate.prems in \<open>simp add: call_inv_def\<close>)
  moreover have "i \<noteq> 0" using find_call_Some [OF restate(1)] by blast
  ultimately show ?case by (intro call_inv_restated [OF restate.prems]) simp_all
next
  case (activate m i c)
  then show ?case
    by (intro call_inv_restated [OF activate.prems]) (simp_all add: one_active_hold comp_def)
next
  case (drop_call m i c reason)
  have "friendly_ok (remove_call i reason m)"
    using drop_call.prems by (auto simp: call_inv_def friendly_ok_def remove_call_def list_ex_iff)
  then show ?case
    using drop_call.prems
    by (auto simp: call_inv_def remove_call_def one_active_filter distinct_map_filter list_all_iff
        intro: order.trans [OF length_filter_le])
next
  case (ring m i k uri name target)
  from ring.prems have "next_index m \<noteq> 0" "one_active (calls m)" by (simp_all add: call_inv_def)
  with ring(1-4) new_call_fits(1) [OF ring(2)] show ?case
    by (intro call_inv_added [OF ring.prems, where c = "incoming_call i uri name target" and cs = "calls m"])
      (simp_all add: add_incoming_def incoming_call_def)
next
  case (dial m i k uri)
  from dial.prems have "next_index m \<noteq> 0" by (simp add: call_inv_def)
  with dial(1-5) new_call_fits(2) [OF dial(2,5)] show ?case
    by (intro call_inv_added [OF dial.prems, where c = "outgoing_call i uri" and cs = "map (hold_call i) (calls m)"])
      (simp_all add: add_outgoing_def outgoing_call_def one_active_hold comp_def)
qed (auto simp: call_inv_def friendly_ok_def)

lemma call_step_inv:
  assumes "call_inv (snd s)"
  shows "call_inv (snd (call_step B s e))"
proof (cases "e = Ev_take_changes")
  case True
  then show ?thesis using assms by (simp add: call_step_taken call_inv_def friendly_ok_def)
next
  case False
  then show ?thesis using tbs_step_inv [OF call_step_tbs assms] by blast
qed

lemma call_inv_new: "call_inv cm_new"
  by (simp add: call_inv_def cm_new_def friendly_ok_def one_active_def)

interpretation bearer: inv_machine "(b, cm_new)" "call_step B" "\<lambda>_. True" "\<lambda>s. call_inv (snd s)" for B b
  by unfold_locales (simp_all add: call_inv_new call_step_inv)

lemma call_run_inv: "call_inv (snd (call_run B b es))"
  unfolding call_run_def by (rule bearer.reachable_inv) (simp add: list_all_iff)

lemma one_active_count:
  assumes "one_active cs" "distinct (map c_index cs)"
  shows "length (filter (\<lambda>c. c_state c = Active) cs) \<le> 1"
proof (rule ccontr)
  assume "\<not> ?thesis"
  then obtain c d rest where f: "filter (\<lambda>c. c_state c = Active) cs = c # d # rest"
    by (cases "filter (\<lambda>c. c_state c = Active) cs" rule: remdups_adj.cases) auto
  have eq_set: "{x \<in> set cs. c_state x = Active} = set (c # d # rest)"
    by (simp only: f [symmetric] set_filter)
  have "distinct (map c_index (c # d # rest))" using distinct_map_filter [OF assms(2)] f by metis
  then have "c_index c \<noteq> c_index d" by simp
  moreover have "c \<in> set cs" "d \<in> set cs" "c_state c = Active" "d \<in> set cs" "c_state d = Active"
    using eq_set [THEN equalityD2] by auto
  ultimately show False using one_activeD [OF assms(1)] by blast
qed

subsection \<open>Index allocation\<close>

definition nth_index :: "u8 \<Rightarrow> nat \<Rightarrow> nat" where
  "nth_index k j = (unat k - 1 + j) mod 255 + 1"

lemma succ_index:
  assumes "k \<noteq> (0::u8)"
  shows "nth_index (if k = 255 then 1 else k + 1) j = nth_index k (Suc j)"
proof -
  have b: "unat k < 256" "0 < unat k" using unsigned_less [of k] assms by (simp_all add: unat_gt_0)
  show ?thesis
  proof (cases "k = 255")
    case True
    then show ?thesis by (simp add: nth_index_def)
  next
    case False
    then have "unat k \<noteq> 255" by (auto simp: word_unat_eq_iff)
    with b have "unat (k + 1) = unat k + 1" by (simp add: unat_word_ariths(1))
    with False b show ?thesis by (simp add: nth_index_def)
  qed
qed

lemma allocate_loop_zero:
  assumes "allocate_loop n m = (m1, 0)" "next_index m \<noteq> 0" "j < n"
  shows "nth_index (next_index m) j \<in> unat ` c_index ` set (calls m)"
  using assms
proof (induction n arbitrary: m j)
  case (Suc n)
  define m' where "m' = m\<lparr>next_index := (if next_index m = 255 then 1 else next_index m + 1)\<rparr>"
  have f: "find_call m' i = find_call m i" for i by (simp add: find_call_def m'_def)
  have used: "find_call m (next_index m) \<noteq> None"
    using Suc.prems(1,2) by (auto simp: Let_def m'_def [symmetric] f split: if_splits)
  then have rec: "allocate_loop n m' = (m1, 0)"
    using Suc.prems(1) by (auto simp: Let_def m'_def [symmetric] f split: if_splits)
  show ?case
  proof (cases j)
    case 0
    have "0 < unat (next_index m)" "unat (next_index m) < 256"
      using Suc.prems(2) unsigned_less [of "next_index m"] by (simp_all add: unat_gt_0)
    then have "nth_index (next_index m) j = unat (next_index m)" by (simp add: nth_index_def 0)
    then show ?thesis using used find_call_None [OF Suc.prems(2), of m] by simp
  next
    case (Suc i)
    have nz: "next_index m' \<noteq> 0"
    proof -
      have "next_index m + 1 = 0 \<Longrightarrow> next_index m = 255" by (simp add: eq_neg_iff_add_eq_0 [symmetric])
      then show ?thesis using Suc.prems by (auto simp: m'_def)
    qed
    have "nth_index (next_index m') i \<in> unat ` c_index ` set (calls m')"
      using Suc.IH [OF rec nz] Suc.prems(3) Suc by simp
    then show ?thesis using succ_index [OF Suc.prems(2)] by (simp add: m'_def Suc)
  qed
qed simp

lemma mod_shift_inj: "(a + i) mod n = (a + j) mod n \<Longrightarrow> i \<le> j \<Longrightarrow> j < n \<Longrightarrow> i = (j::nat)"
proof -
  assume *: "(a + i) mod n = (a + j) mod n" "i \<le> j" "j < n"
  then have "n dvd (a + j) - (a + i)" using mod_eq_dvd_iff_nat [of "a + i" "a + j" n] by simp
  then have "n dvd j - i" by simp
  with * show "i = j" using nat_dvd_not_less [of "j - i" n] by linarith
qed

lemma nth_index_inj: "inj_on (nth_index k) {..<255}"
proof (rule inj_onI)
  fix i j assume *: "i \<in> {..<255}" "j \<in> {..<255}" "nth_index k i = nth_index k j"
  then have "(unat k - 1 + i) mod 255 = (unat k - 1 + j) mod 255" by (simp add: nth_index_def)
  with * show "i = j" using mod_shift_inj [of "unat k - 1" i 255 j] mod_shift_inj [of "unat k - 1" j 255 i]
    by (cases "i \<le> j") simp_all
qed

lemma allocate_index_nonzero:
  assumes "allocate_index m = (m1, i)" "next_index m \<noteq> 0" "length (calls m) < 255"
  shows "i \<noteq> 0"
proof
  assume "i = 0"
  then have "nth_index (next_index m) ` {..<255} \<subseteq> unat ` c_index ` set (calls m)"
    using allocate_loop_zero assms(1,2) by (auto simp: allocate_index_def)
  then have "card (nth_index (next_index m) ` {..<255}) \<le> length (calls m)"
    by (metis (no_types, lifting) List.finite_set card_mono card_length finite_imageI image_set length_map order.trans)
  then show False using assms(3) by (simp add: card_image [OF nth_index_inj])
qed

subsection \<open>What a step does to one call\<close>

definition tbs_move :: "call_state \<Rightarrow> call_state \<Rightarrow> bool" where
  "tbs_move s t \<longleftrightarrow> t = s \<or> tbs_restate s t \<or> tbs_activates s \<and> t = Active"

lemma held_move: "tbs_move s (held_state s)"
  by (cases s) (auto simp: tbs_move_def)

lemma hold_call_move: "call_id (hold_call i c) = call_id c \<and> tbs_move (c_state c) (c_state (hold_call i c))"
  using held_move by (simp add: hold_call_def) (simp add: tbs_move_def)

text \<open>Two call lists with the same calls in the same order, each moved along the diagram.\<close>

abbreviation moved :: "call list \<Rightarrow> call list \<Rightarrow> bool" where
  "moved \<equiv> list_all2 (\<lambda>c d. call_id d = call_id c \<and> tbs_move (c_state c) (c_state d))"

lemma moved_refl: "moved cs cs"
  by (rule list.rel_refl) (simp add: tbs_move_def)

lemma moved_hold: "moved cs (map (hold_call i) cs)"
  by (simp only: list.rel_map) (rule list.rel_refl, rule hold_call_move)

lemma moved_set_first:
  "distinct (map c_index cs) \<Longrightarrow> c \<in> set cs \<Longrightarrow> c_index c = i \<Longrightarrow> tbs_move (c_state c) st \<Longrightarrow>
   moved cs (set_first_state i st cs)"
proof (induction cs)
  case (Cons d cs)
  show ?case
  proof (cases "c_index d = i")
    case True
    with Cons.prems have "d = c" by auto
    with True Cons.prems(4) show ?thesis by (simp add: moved_refl)
  next
    case False
    with Cons show ?thesis by (auto simp: tbs_move_def)
  qed
qed simp

lemma moved_activate:
  "distinct (map c_index cs) \<Longrightarrow> c \<in> set cs \<Longrightarrow> c_index c = i \<Longrightarrow> tbs_activates (c_state c) \<Longrightarrow>
   moved cs (map (hold_call i) (set_first_state i Active cs))"
proof (induction cs)
  case (Cons d cs)
  show ?case
  proof (cases "c_index d = i")
    case True
    with Cons.prems have d: "d = c" by auto
    have "hold_call i (c\<lparr>c_state := Active\<rparr>) = c\<lparr>c_state := Active\<rparr>"
      using True d by (simp add: hold_call_def)
    moreover have "tbs_move (c_state c) Active" using Cons.prems(4) by (simp add: tbs_move_def)
    ultimately show ?thesis using True d by (simp add: moved_hold)
  next
    case False
    with Cons hold_call_move [of i d] show ?thesis by auto
  qed
qed simp

lemma tbs_step_calls:
  "tbs_step m m' \<Longrightarrow> call_inv m \<Longrightarrow>
     moved (calls m) (calls m') \<or>
     (\<exists>i. calls m' = filter (\<lambda>c. c_index c \<noteq> i) (calls m)) \<or>
     (\<exists>cs c. calls m' = cs @ [c] \<and> moved (calls m) cs \<and> c_index c \<notin> c_index ` set (calls m))"
proof (induction rule: tbs_step.induct)
  case (restate m i c st)
  note f = find_call_Some [OF restate(1)]
  have "moved (calls m) (set_first_state i st (calls m))"
    using restate f by (intro moved_set_first [of _ c]) (simp_all add: call_inv_def tbs_move_def)
  then show ?case using f by simp
next
  case (activate m i c)
  note f = find_call_Some [OF activate(1)]
  have "moved (calls m) (map (hold_call i) (set_first_state i Active (calls m)))"
    using activate f by (intro moved_activate [of _ c]) (simp_all add: call_inv_def)
  then show ?case using f by simp
next
  case (drop_call m i c reason)
  then show ?case by (auto simp: remove_call_def)
next
  case (ring m i k uri name target)
  then show ?case
    using find_call_None [OF ring(2), of m] moved_refl
    by (simp add: add_incoming_def incoming_call_def)
next
  case (dial m i k uri)
  then show ?case
    using find_call_None [OF dial(2), of m] moved_hold
    by (simp add: add_outgoing_def outgoing_call_def)
qed (simp_all add: moved_refl)

lemma moved_call:
  assumes "moved cs ds" "distinct (map c_index cs)" "c \<in> set cs" "d \<in> set ds" "c_index c = c_index d"
  shows "call_id d = call_id c \<and> tbs_move (c_state c) (c_state d)"
proof -
  obtain j where j: "j < length ds" "d = ds ! j" using assms(4) by (metis in_set_conv_nth)
  with assms(1) have *: "j < length cs" "call_id d = call_id (cs ! j)" "tbs_move (c_state (cs ! j)) (c_state d)"
    by (auto simp: list_all2_conv_all_nth)
  then have "c_index (cs ! j) = c_index c" using assms(5) by (simp add: call_id_def)
  with * assms(2,3) have "cs ! j = c" by (auto simp: distinct_map inj_on_def)
  with * show ?thesis by simp
qed

lemma moved_indices: "moved cs ds \<Longrightarrow> map c_index ds = map c_index cs"
  by (induction rule: list_all2_induct) (auto simp: call_id_def)

lemma tbs_step_call:
  assumes "tbs_step m m'" "call_inv m" "c \<in> set (calls m)" "d \<in> set (calls m')" "c_index c = c_index d"
  shows "call_id d = call_id c \<and> tbs_move (c_state c) (c_state d)"
proof -
  have dist: "distinct (map c_index (calls m))" using assms(2) by (simp add: call_inv_def)
  consider "moved (calls m) (calls m')" | i where "calls m' = filter (\<lambda>c. c_index c \<noteq> i) (calls m)"
    | cs e where "calls m' = cs @ [e]" "moved (calls m) cs" "c_index e \<notin> c_index ` set (calls m)"
    using tbs_step_calls [OF assms(1,2)] by blast
  then show ?thesis
  proof cases
    case 1
    then show ?thesis using moved_call [OF _ dist assms(3-5)] by blast
  next
    case 2
    then have "d \<in> set (calls m)" using assms(4) by simp
    then show ?thesis by (rule moved_call [OF moved_refl dist assms(3) _ assms(5)])
  next
    case 3
    have "c_index d \<in> c_index ` set (calls m)" using assms(3,5) by (metis imageI)
    then have "d \<noteq> e" using 3(3) by blast
    then have "d \<in> set cs" using 3 assms(4) by simp
    then show ?thesis by (rule moved_call [OF 3(2) dist assms(3) _ assms(5)])
  qed
qed

subsection \<open>Pending notifications\<close>

text \<open>
  What is pending in a model after steps from a model with nothing pending: the calls flag if the list
  differs, and a termination for each index that is gone.
\<close>

definition covers :: "call_model \<Rightarrow> call_model \<Rightarrow> bool" where
  "covers m m' \<longleftrightarrow>
     (calls m' \<noteq> calls m \<longrightarrow> ch_calls (cm_changes m')) \<and>
     (\<forall>c\<in>set (calls m). c_index c \<notin> c_index ` set (calls m') \<longrightarrow>
        c_index c \<in> fst ` set (ch_terminations (cm_changes m')))"

lemma tbs_step_pending:
  "tbs_step m m' \<Longrightarrow>
     (ch_calls (cm_changes m) \<or> calls m' \<noteq> calls m \<longrightarrow> ch_calls (cm_changes m')) \<and>
     set (ch_terminations (cm_changes m)) \<subseteq> set (ch_terminations (cm_changes m')) \<and>
     (\<forall>c\<in>set (calls m). c_index c \<notin> c_index ` set (calls m') \<longrightarrow>
        c_index c \<in> fst ` set (ch_terminations (cm_changes m')))"
proof (induction rule: tbs_step.induct)
  case (drop_call m i c reason)
  then show ?case by (auto simp: remove_call_def)
next
  case (ring m i k uri name target)
  then show ?case by (auto simp: add_incoming_def)
next
  case (dial m i k uri)
  then show ?case by (auto simp: add_outgoing_def image_image image_Un)
qed (auto simp: image_image)

lemma covers_step:
  assumes "covers m0 m" "tbs_step m m'"
  shows "covers m0 m'"
proof -
  note p = tbs_step_pending [OF assms(2)]
  have "c_index c \<in> fst ` set (ch_terminations (cm_changes m'))"
    if c: "c \<in> set (calls m0)" "c_index c \<notin> c_index ` set (calls m')" for c
  proof (cases "c_index c \<in> c_index ` set (calls m)")
    case True
    then obtain d where "d \<in> set (calls m)" "c_index c = c_index d" by auto
    then show ?thesis using p c(2) by auto
  next
    case False
    then have "c_index c \<in> fst ` set (ch_terminations (cm_changes m))"
      using assms(1) c(1) by (simp add: covers_def)
    then show ?thesis using p by (meson image_mono subsetD)
  qed
  moreover have "calls m' \<noteq> calls m0 \<Longrightarrow> ch_calls (cm_changes m')"
    using assms(1) p by (auto simp: covers_def)
  ultimately show ?thesis by (simp add: covers_def)
qed

lemma covers_run:
  "covers m0 (snd s) \<Longrightarrow> Ev_take_changes \<notin> set es \<Longrightarrow> covers m0 (snd (foldl (call_step B) s es))"
proof (induction es arbitrary: s)
  case (Cons e es)
  have "covers m0 (snd (call_step B s e))"
    using Cons.prems by (intro covers_step [OF Cons.prems(1) call_step_tbs]) auto
  then show ?case using Cons.IH Cons.prems(2) by simp
qed simp

subsection \<open>Requests in a reachable state\<close>

lemma cc_originate_refused:
  assumes "call_inv m" "cc_originate B b m uri = (b', m', r, i)" "r \<noteq> RESULT_SUCCESS"
  shows "m' = m"
  using assms(2)
proof (cases rule: cc_originate_cases)
  case full
  have "(0::u8) \<noteq> 0"
    by (rule allocate_index_nonzero [OF full(3)])
      (use assms(1) full(4) in \<open>simp_all add: call_inv_def MAX_CALLS_def\<close>)
  then show ?thesis by simp
qed (use assms(3) in auto)

lemma cc_dispatch_refused: "cc_dispatch B b m opcode i = (b', m', r) \<Longrightarrow> r \<noteq> RESULT_SUCCESS \<Longrightarrow> m' = m"
  by (auto simp: cc_dispatch_def cc_accept_def cc_terminate_def cc_local_hold_def cc_local_retrieve_def Let_def
      split: if_splits option.splits prod.splits)

lemma control_point_refused:
  assumes "call_inv m" "control_point B b m v = (b', m', r)"
  shows "(\<forall>e. r = Inl e \<longrightarrow> b' = b \<and> m' = m \<and> e = ATT_ERROR_INVALID_ATTRIBUTE_VALUE_LENGTH) \<and>
    (\<forall>out. r = Inr out \<longrightarrow> cp_result out \<noteq> RESULT_SUCCESS \<longrightarrow> m' = m)"
  using assms(2)
  by (auto simp: control_point_def Let_def dest: cc_dispatch_refused cc_originate_refused [OF assms(1)]
      split: list.splits if_splits prod.splits)

lemma set_first_find:
  "List.find (\<lambda>c. c_index c = i) cs = Some c \<Longrightarrow>
   List.find (\<lambda>c. c_index c = i) (set_first_state i st cs) = Some (c\<lparr>c_state := st\<rparr>)"
  by (induction cs) (auto split: if_splits)

lemma find_set_call_state:
  "find_call m i = Some c \<Longrightarrow> find_call (set_call_state i st m) i = Some (c\<lparr>c_state := st\<rparr>)"
  by (auto simp: find_call_def set_first_find split: if_splits)

lemma find_mark_calls [simp]: "find_call (mark_calls m) i = find_call m i"
  by (simp add: find_call_def)

lemma find_hold_others: "find_call (hold_others i m) i = find_call m i"
proof -
  have "List.find (\<lambda>c. c_index c = i) (map (hold_call i) cs) = List.find (\<lambda>c. c_index c = i) cs" for cs
    by (induction cs) (auto simp: hold_call_def)
  then show ?thesis by (simp add: find_call_def)
qed

lemma activated:
  assumes "find_call m i = Some c"
  shows "find_call (mark_calls (hold_others i (set_call_state i Active m))) i = Some (c\<lparr>c_state := Active\<rparr>)"
    and "d \<in> set (calls (mark_calls (hold_others i (set_call_state i Active m)))) \<Longrightarrow> c_state d = Active \<Longrightarrow>
      c_index d = i"
proof -
  show "find_call (mark_calls (hold_others i (set_call_state i Active m))) i = Some (c\<lparr>c_state := Active\<rparr>)"
    using find_set_call_state [OF assms] by (simp add: find_hold_others)
  show "c_index d = i"
    if "d \<in> set (calls (mark_calls (hold_others i (set_call_state i Active m))))" "c_state d = Active"
    using that by (auto simp: hold_call_def held_not_active split: if_splits)
qed

definition state_of :: "call_model \<Rightarrow> u8 \<Rightarrow> call_state option" where
  "state_of m i = map_option c_state (find_call m i)"

definition only_active :: "call_model \<Rightarrow> u8 \<Rightarrow> bool" where
  "only_active m i \<longleftrightarrow> state_of m i = Some Active \<and> (\<forall>d\<in>set (calls m). c_state d = Active \<longrightarrow> c_index d = i)"

lemma activated_only:
  assumes "find_call m i = Some c"
  shows "only_active (mark_calls (hold_others i (set_call_state i Active m))) i"
  unfolding only_active_def state_of_def activated(1) [OF assms]
  by (intro conjI ballI impI) (simp, erule (1) activated(2) [OF assms])

text \<open>The call list after a request: one call in a new state, the others as they were (\<open>moved_call\<close>) or on
  hold (\<open>made_active\<close>).\<close>

definition moved_call :: "u8 \<Rightarrow> call_state \<Rightarrow> call \<Rightarrow> call" where
  "moved_call i st d = (if c_index d = i then d\<lparr>c_state := st\<rparr> else d)"

definition made_active :: "u8 \<Rightarrow> call \<Rightarrow> call" where
  "made_active i d =
     (if c_index d = i then d\<lparr>c_state := Active\<rparr>
      else if c_state d = Active then d\<lparr>c_state := LocallyHeld\<rparr>
      else if c_state d = RemotelyHeld then d\<lparr>c_state := LocallyAndRemotelyHeld\<rparr> else d)"

lemma set_first_distinct:
  "distinct (map c_index cs) \<Longrightarrow> set_first_state i st cs = map (moved_call i st) cs"
proof (induction cs)
  case (Cons c cs)
  show ?case
  proof (cases "c_index c = i")
    case True
    then have "c_index x \<noteq> i" if "x \<in> set cs" for x
    proof -
      have "c_index c \<notin> c_index ` set cs" using Cons.prems by simp
      then show ?thesis using that True by (metis imageI)
    qed
    then have "map (moved_call i st) cs = map id cs" by (intro map_cong) (auto simp: moved_call_def)
    moreover have "moved_call i st c = c\<lparr>c_state := st\<rparr>" using True by (simp add: moved_call_def)
    ultimately show ?thesis using True by simp
  next
    case False
    then have "moved_call i st c = c" by (simp add: moved_call_def)
    then show ?thesis using False Cons by simp
  qed
qed simp

lemma hold_call_moved: "hold_call i (moved_call i Active c) = made_active i c"
  by (cases c; cases "c_state c") (simp_all add: hold_call_def moved_call_def made_active_def)

lemma hold_call_free: "c_index c \<noteq> i \<Longrightarrow> hold_call i c = made_active i c"
  by (cases c; cases "c_state c") (simp_all add: hold_call_def made_active_def)

lemma set_call_moved:
  "call_inv m \<Longrightarrow> find_call m i = Some c \<Longrightarrow> calls (set_call_state i st m) = map (moved_call i st) (calls m)"
  using find_call_Some[of m i c] by (simp add: call_inv_def set_first_distinct)

lemma activate_moved:
  "call_inv m \<Longrightarrow> find_call m i = Some c \<Longrightarrow> calls (hold_others i (set_call_state i Active m)) = map (made_active i) (calls m)"
  by (simp add: set_call_moved hold_call_moved comp_def del: set_call_state_simps)

lemmas result_codes = RESULT_SUCCESS_def RESULT_INVALID_CALL_INDEX_def RESULT_STATE_MISMATCH_def
  RESULT_OPERATION_NOT_POSSIBLE_def RESULT_OPCODE_NOT_SUPPORTED_def

lemma cc_accept_success:
  assumes "cc_accept B b m i = (b', m', RESULT_SUCCESS)" "call_inv m"
  obtains c where "find_call m i = Some c" "c_state c = Incoming" "be_accept B b c = (b', RESULT_SUCCESS)"
    "supports_local_hold B b \<or> list_all (\<lambda>d. c_state d \<noteq> Active) (calls m)"
    "calls m' = map (made_active i) (calls m)" "only_active m' i" "ch_calls (cm_changes m')"
proof -
  from assms(1) obtain c where c: "find_call m i = Some c" "c_state c = Incoming" "be_accept B b c = (b', RESULT_SUCCESS)"
    "\<not> list_ex (\<lambda>d. c_index d \<noteq> i \<and> c_state d = Active) (calls m) \<or> supports_local_hold B b"
    "m' = mark_calls (hold_others i (set_call_state i Active m))"
    by (auto simp: cc_accept_def result_codes split: option.splits if_splits prod.splits)
  have "d = c" if "d \<in> set (calls m)" "c_index d = i" for d
    using that find_call_Some[OF c(1)] assms(2) by (auto simp: call_inv_def distinct_map inj_on_def)
  then have "supports_local_hold B b \<or> list_all (\<lambda>d. c_state d \<noteq> Active) (calls m)"
    using c(2,4) by (auto simp: list_ex_iff list_all_iff)
  then show thesis using that c activate_moved[OF assms(2) c(1)] activated_only[OF c(1)] by simp
qed

lemma cc_terminate_success:
  assumes "cc_terminate B b m i = (b', m', RESULT_SUCCESS)"
  obtains c where "find_call m i = Some c" "be_terminate B b c = (b', RESULT_SUCCESS)"
    "m' = remove_call i REASON_CLIENT_TERMINATED m"
  using assms by (auto simp: cc_terminate_def result_codes split: option.splits if_splits prod.splits)

lemma cc_local_hold_success:
  assumes "cc_local_hold B b m i = (b', m', RESULT_SUCCESS)" "call_inv m"
  obtains c st where "find_call m i = Some c" "be_hold B b c = (b', RESULT_SUCCESS)" "supports_local_hold B b"
    "(c_state c, st) \<in> {(Incoming, LocallyHeld), (Active, LocallyHeld), (RemotelyHeld, LocallyAndRemotelyHeld)}"
    "calls m' = map (moved_call i st) (calls m)" "ch_calls (cm_changes m')"
proof -
  from assms(1) obtain c st where c: "find_call m i = Some c" "be_hold B b c = (b', RESULT_SUCCESS)" "supports_local_hold B b"
    "local_hold_next (c_state c) = Some st" "m' = mark_calls (set_call_state i st m)"
    by (auto simp: cc_local_hold_def result_codes split: option.splits if_splits prod.splits)
  have "(c_state c, st) \<in> {(Incoming, LocallyHeld), (Active, LocallyHeld), (RemotelyHeld, LocallyAndRemotelyHeld)}"
    using c(4) by (cases "c_state c") simp_all
  then show thesis using that c set_call_moved[OF assms(2) c(1)] by (simp del: set_call_state_simps)
qed

lemma cc_local_retrieve_success:
  assumes "cc_local_retrieve B b m i = (b', m', RESULT_SUCCESS)" "call_inv m"
  obtains c where "find_call m i = Some c" "be_retrieve B b c = (b', RESULT_SUCCESS)" "supports_local_hold B b"
    "(c_state c = LocallyHeld \<and> calls m' = map (made_active i) (calls m) \<and> only_active m' i)
     \<or> (c_state c = LocallyAndRemotelyHeld \<and> calls m' = map (moved_call i RemotelyHeld) (calls m))"
    "ch_calls (cm_changes m')"
proof -
  from assms(1) obtain c st where c: "find_call m i = Some c" "be_retrieve B b c = (b', RESULT_SUCCESS)" "supports_local_hold B b"
    "local_retrieve_next (c_state c) = Some st"
    "m' = mark_calls (if st = Active then hold_others i (set_call_state i st m) else set_call_state i st m)"
    by (auto simp: cc_local_retrieve_def Let_def result_codes split: option.splits if_splits prod.splits)
  have "(c_state c = LocallyHeld \<and> calls m' = map (made_active i) (calls m) \<and> only_active m' i)
     \<or> (c_state c = LocallyAndRemotelyHeld \<and> calls m' = map (moved_call i RemotelyHeld) (calls m))"
    using c(4,5) activate_moved[OF assms(2) c(1)] activated_only[OF c(1)] set_call_moved[OF assms(2) c(1)]
    by (cases "c_state c") (auto simp del: set_call_state_simps hold_others_simps)
  then show thesis using that c by simp
qed

lemma control_point_Inr_cases:
  assumes "control_point B b m v = (b', m', Inr out)" "cp_result out = RESULT_SUCCESS"
  obtains (dispatch) opcode index where "v = [opcode, index]" "opcode \<in> {OP_ACCEPT, OP_TERMINATE, OP_LOCAL_HOLD, OP_LOCAL_RETRIEVE}"
      "cc_dispatch B b m opcode index = (b', m', RESULT_SUCCESS)" "cp_opcode out = opcode" "cp_call_index out = index"
  | (originate) raw where "v = OP_ORIGINATE # raw" "raw \<noteq> []" "length raw \<le> MAX_URI" "cp_opcode out = OP_ORIGINATE"
      "cc_originate B b m (from_utf8_lossy raw) = (b', m', RESULT_SUCCESS, cp_call_index out)"
proof -
  have "(\<exists>opcode index. v = [opcode, index] \<and> opcode \<in> {OP_ACCEPT, OP_TERMINATE, OP_LOCAL_HOLD, OP_LOCAL_RETRIEVE} \<and>
        cc_dispatch B b m opcode index = (b', m', cp_result out) \<and> cp_opcode out = opcode \<and> cp_call_index out = index) \<or>
      (\<exists>raw. v = OP_ORIGINATE # raw \<and> raw \<noteq> [] \<and> length raw \<le> MAX_URI \<and> cp_opcode out = OP_ORIGINATE \<and>
        cc_originate B b m (from_utf8_lossy raw) = (b', m', cp_result out, cp_call_index out)) \<or>
      cp_result out \<noteq> RESULT_SUCCESS"
    using assms(1)
    by (auto simp: control_point_def Let_def RESULT_SUCCESS_def RESULT_INVALID_OUTGOING_URI_def Suc_le_eq
        RESULT_OPCODE_NOT_SUPPORTED_def split: list.splits if_splits prod.splits)
  then show thesis using that assms(2) by auto
qed

lemma originate_backend:
  "cc_originate B b m uri = (b', m', RESULT_SUCCESS, i) \<Longrightarrow> be_originate B b uri = (b', RESULT_SUCCESS) \<and>
     (supports_local_hold B b \<or> list_all (\<lambda>d. c_state d \<noteq> Active) (calls m)) \<and> ch_calls (cm_changes m')"
  by (auto simp: cc_originate_def Let_def result_codes RESULT_INVALID_OUTGOING_URI_def RESULT_LACK_OF_RESOURCES_def
      list_ex_iff list_all_iff split: option.splits if_splits prod.splits)

lemma cc_originate_success:
  assumes "cc_originate B b m uri = (b', m', RESULT_SUCCESS, i)"
  shows "i \<noteq> 0 \<and> i \<notin> c_index ` set (calls m) \<and> dialable B b uri \<and>
    calls m' = map (made_active i) (calls m) @ [outgoing_call i uri] \<and>
    list_all (\<lambda>c. c_state c \<noteq> Active) (calls m')"
  using assms
proof (cases rule: cc_originate_cases)
  case (dialed m1)
  have free: "i \<notin> c_index ` set (calls m)"
    using allocate_index_keeps(3) [OF dialed(1,2)] find_call_None [OF dialed(2)] by blast
  then have h: "map (hold_call i) (calls m) = map (made_active i) (calls m)"
    by (intro map_cong) (auto intro!: hold_call_free)
  have "c_state (hold_call i c) \<noteq> Active" if "c \<in> set (calls m)" for c
    using that free by (auto simp: hold_call_def held_not_active)
  with dialed free show ?thesis unfolding h[symmetric]
    by (simp add: add_outgoing_def list_all_iff) (simp add: outgoing_call_def)
qed (simp_all add: RESULT_LACK_OF_RESOURCES_def RESULT_SUCCESS_def)

subsection \<open>Reading Bearer List Current Calls\<close>

function parse_calls :: "bytes \<Rightarrow> (u8 \<times> u8 \<times> u8 \<times> bytes) list option" where
  "parse_calls [] = Some []"
| "parse_calls (n # xs) =
     (if length xs < unat n \<or> unat n < 3 then None
      else map_option (\<lambda>r. (xs ! 0, xs ! 1, xs ! 2, take (unat n - 3) (drop 3 xs)) # r)
             (parse_calls (drop (unat n) xs)))"
  by pat_completeness auto
termination by (relation "measure length") auto

definition call_item :: "call \<Rightarrow> u8 \<times> u8 \<times> u8 \<times> bytes" where
  "call_item c = (c_index c, cs_value (c_state c), c_flags c, as_bytes (c_uri c))"

lemma parse_list_item:
  assumes "str_len (c_uri c) \<le> MAX_URI"
  shows "parse_calls (list_item c @ xs) = map_option (\<lambda>r. call_item c # r) (parse_calls xs)"
proof -
  have "unat (of_nat (3 + str_len (c_uri c)) :: u8) = 3 + str_len (c_uri c)"
    using assms by (simp add: unat_of_nat MAX_URI_def del: of_nat_add of_nat_numeral)
  moreover have "drop (3 + n) (x # y # z # ys) = drop n ys" for n and x y z :: u8 and ys
    by (simp add: numeral_3_eq_3)
  ultimately show ?thesis
    by (simp add: list_item_def call_item_def del: of_nat_add of_nat_numeral)
qed

lemma parse_list_items:
  "list_all call_fits cs \<Longrightarrow> parse_calls (concat (map list_item cs)) = Some (map call_item cs)"
  by (induction cs) (auto simp: parse_list_item call_fits_def)

lemma cs_value_inject: "cs_value s = cs_value t \<longleftrightarrow> s = t"
  by (cases s; cases t) auto

subsection \<open>Properties\<close>

text \<open>C27. In every state the call model can reach, whatever the backend answers and whatever the headset,
  the telephony side and the simulation do: at most four calls, distinct indices between 1 and 255, at
  most one active call, URIs and names that fit their characteristics' one-octet lengths, a friendly name
  index that is 0 or names a call that has a friendly name, and a next index that is not 0.\<close>

theorem call_model_invariant:
  "let m = snd (call_run B b es) in
     length (calls m) \<le> 4 \<and> distinct (map c_index (calls m)) \<and> 0 \<notin> c_index ` set (calls m) \<and>
     length (filter (\<lambda>c. c_state c = Active) (calls m)) \<le> 1 \<and>
     list_all (\<lambda>c. str_len (c_uri c) \<le> 252 \<and> str_len (c_friendly_name c) \<le> 255 \<and>
                   str_len (c_target_uri c) \<le> 254) (calls m) \<and>
     (friendly_index m = 0 \<or>
      list_ex (\<lambda>c. c_index c = friendly_index m \<and> c_friendly_name c \<noteq> []) (calls m)) \<and>
     next_index m \<noteq> 0"
proof -
  define m where "m = snd (call_run B b es)"
  have inv: "call_inv m" unfolding m_def by (rule call_run_inv)
  then have *: "length (calls m) \<le> 4" "distinct (map c_index (calls m))" "one_active (calls m)"
    "list_all call_fits (calls m)" "friendly_ok m" "next_index m \<noteq> 0"
    by (simp_all add: call_inv_def MAX_CALLS_def)
  moreover have "0 \<notin> c_index ` set (calls m)"
    "list_all (\<lambda>c. str_len (c_uri c) \<le> 252 \<and> str_len (c_friendly_name c) \<le> 255 \<and>
       str_len (c_target_uri c) \<le> 254) (calls m)"
    using *(4) by (auto simp: call_fits_def MAX_URI_def list_all_iff)
  ultimately show ?thesis
    using one_active_count [OF *(3,2)] by (simp add: m_def [symmetric] Let_def friendly_ok_def)
qed

text \<open>C28. A step keeps the identity of every call that stays (index, flags, URI, names) and moves its
  state only along the call state diagram: Incoming to Active or Locally Held, Dialing to Alerting or
  Active, Alerting to Active, and between the held states by one hold or retrieve at a time.\<close>

theorem calls_follow_diagram:
  assumes "c \<in> set (calls (snd (call_run B b es)))"
    and "d \<in> set (calls (snd (call_run B b (es @ [e]))))" and "c_index d = c_index c"
  shows "(c_index d, c_flags d, c_uri d, c_friendly_name d, c_target_uri d) =
      (c_index c, c_flags c, c_uri c, c_friendly_name c, c_target_uri c) \<and>
    (c_state d = c_state c \<or> tbs_restate (c_state c) (c_state d) \<or>
     c_state c \<in> {Incoming, Dialing, Alerting, LocallyHeld, RemotelyHeld} \<and> c_state d = Active)"
proof -
  define m where "m = snd (call_run B b es)"
  define m' where "m' = snd (call_run B b (es @ [e]))"
  have inv: "call_inv m" unfolding m_def by (rule call_run_inv)
  have step: "m' = snd (call_step B (call_run B b es) e)" by (simp add: m'_def call_run_def)
  have "call_id d = call_id c \<and> tbs_move (c_state c) (c_state d)"
  proof (cases "e = Ev_take_changes")
    case True
    then have "calls m' = calls m" by (simp add: step m_def call_step_taken)
    then have "d \<in> set (calls m)" using assms(2) by (simp add: m'_def)
    then show ?thesis
      using assms(1,3) inv moved_call [OF moved_refl, of "calls m" c d] by (simp add: m_def call_inv_def)
  next
    case False
    have "tbs_step m m'" unfolding step m_def by (rule call_step_tbs [OF False])
    then show ?thesis using assms inv by (intro tbs_step_call) (simp_all add: m_def m'_def)
  qed
  then show ?thesis by (simp add: call_id_def tbs_move_def tbs_activates_def)
qed

text \<open>C29. A Call Control Point write that fails leaves no trace in the calls: an ATT error (always the
  wrong-length error) changes neither the model nor the backend, and a result other than Success leaves
  the model exactly as it was.\<close>

theorem control_point_failure_atomic:
  assumes "control_point B b (snd (call_run B b0 es)) v = (b', m', r)"
  shows "(\<forall>e. r = Inl e \<longrightarrow> b' = b \<and> m' = snd (call_run B b0 es) \<and> e = 0x0D) \<and>
    (\<forall>out. r = Inr out \<longrightarrow> cp_result out \<noteq> RESULT_SUCCESS \<longrightarrow> m' = snd (call_run B b0 es))"
  using control_point_refused [OF call_run_inv assms]
  by (simp add: ATT_ERROR_INVALID_ATTRIBUTE_VALUE_LENGTH_def)

text \<open>C30. A Call Control Point write that succeeds does what its bytes say, to the call they name: Accept
  (0, index) takes a ringing call and makes it the only active one, the others going on hold; Terminate
  (1, index) removes the call and queues its Termination Reason (client terminated); Local Hold (2, index)
  puts a ringing or active call on local hold, a remotely held one on both; Local Retrieve (3, index) makes
  a locally held call the only active one and takes the local hold off one held on both sides; Originate
  (4, URI) appends a dialing call with the decoded URI (of a scheme the backend knows) under a fresh
  non-zero index and holds the others, no call left active. The backend was asked with exactly that call or
  URI and agreed; with another call active, or for a hold step, it supports local hold. No other bytes
  succeed.\<close>

theorem control_point_success:
  assumes "control_point B b (snd (call_run B b0 es)) v = (b', m', Inr out)"
    and "cp_result out = RESULT_SUCCESS"
  defines "m \<equiv> snd (call_run B b0 es)" and "i \<equiv> cp_call_index out"
    and "may_hold \<equiv> supports_local_hold B b \<or> list_all (\<lambda>d. c_state d \<noteq> Active) (calls (snd (call_run B b0 es)))"
  shows "cp_opcode out = hd v \<and> ch_calls (cm_changes m') \<and>
   ((\<exists>c\<in>set (calls m). v = [0, i] \<and> c_index c = i \<and> c_state c = Incoming \<and> may_hold \<and> be_accept B b c = (b', 0) \<and>
       calls m' = map (made_active i) (calls m) \<and> only_active m' i) \<or>
    (\<exists>c\<in>set (calls m). v = [1, i] \<and> c_index c = i \<and> be_terminate B b c = (b', 0) \<and>
       calls m' = filter (\<lambda>d. c_index d \<noteq> i) (calls m) \<and>
       ch_terminations (cm_changes m') = ch_terminations (cm_changes m) @ [(i, REASON_CLIENT_TERMINATED)]) \<or>
    (\<exists>c\<in>set (calls m). v = [2, i] \<and> c_index c = i \<and> supports_local_hold B b \<and> be_hold B b c = (b', 0) \<and>
       (c_state c \<in> {Incoming, Active} \<and> calls m' = map (moved_call i LocallyHeld) (calls m) \<or>
        c_state c = RemotelyHeld \<and> calls m' = map (moved_call i LocallyAndRemotelyHeld) (calls m))) \<or>
    (\<exists>c\<in>set (calls m). v = [3, i] \<and> c_index c = i \<and> supports_local_hold B b \<and> be_retrieve B b c = (b', 0) \<and>
       (c_state c = LocallyHeld \<and> calls m' = map (made_active i) (calls m) \<and> only_active m' i \<or>
        c_state c = LocallyAndRemotelyHeld \<and> calls m' = map (moved_call i RemotelyHeld) (calls m))) \<or>
    (\<exists>raw uri. v = 4 # raw \<and> raw \<noteq> [] \<and> length raw \<le> MAX_URI \<and> uri = from_utf8_lossy raw \<and> dialable B b uri \<and> may_hold \<and>
       be_originate B b uri = (b', 0) \<and> i \<noteq> 0 \<and> i \<notin> c_index ` set (calls m) \<and>
       calls m' = map (made_active i) (calls m) @ [\<lparr> c_index = i, c_state = Dialing, c_flags = CALL_FLAG_OUTGOING, c_uri = uri,
         c_friendly_name = [], c_target_uri = [] \<rparr>] \<and>
       list_all (\<lambda>d. c_state d \<noteq> Active) (calls m')))"
  using assms(1,2)
proof (cases rule: control_point_Inr_cases)
  case (dispatch opcode index)
  have idx: "index = i" using dispatch(5) by (simp add: i_def)
  have inv: "call_inv m" unfolding m_def by (rule call_run_inv)
  note ops = OP_ACCEPT_def OP_TERMINATE_def OP_LOCAL_HOLD_def OP_LOCAL_RETRIEVE_def
  note d = dispatch(3) [folded m_def, unfolded cc_dispatch_def idx] and hd = dispatch(1,4) [unfolded idx]
  from dispatch(2) consider (a) "opcode = OP_ACCEPT" | (t) "opcode = OP_TERMINATE"
    | (h) "opcode = OP_LOCAL_HOLD" | (r) "opcode = OP_LOCAL_RETRIEVE" by blast
  then show ?thesis
  proof cases
    case a
    then have "cc_accept B b m i = (b', m', RESULT_SUCCESS)" using d by simp
    from this inv show ?thesis
      by (rule cc_accept_success)
        (use a hd in \<open>auto simp: may_hold_def m_def [symmetric] ops RESULT_SUCCESS_def dest: find_call_Some\<close>)
  next
    case t
    then have "cc_terminate B b m i = (b', m', RESULT_SUCCESS)" using d by (simp add: ops)
    then show ?thesis
      by (rule cc_terminate_success)
        (use t hd in \<open>auto simp: remove_call_def ops RESULT_SUCCESS_def dest: find_call_Some\<close>)
  next
    case h
    then have "cc_local_hold B b m i = (b', m', RESULT_SUCCESS)" using d by (simp add: ops)
    from this inv show ?thesis
      by (rule cc_local_hold_success) (use h hd in \<open>auto simp: ops RESULT_SUCCESS_def dest: find_call_Some\<close>)
  next
    case r
    then have "cc_local_retrieve B b m i = (b', m', RESULT_SUCCESS)" using d by (simp add: ops)
    from this inv show ?thesis
      by (rule cc_local_retrieve_success) (use r hd in \<open>auto simp: ops RESULT_SUCCESS_def dest: find_call_Some\<close>)
  qed
next
  case (originate raw)
  then show ?thesis
    using cc_originate_success [OF originate(5)] originate_backend [OF originate(5)]
    unfolding i_def m_def may_hold_def OP_ORIGINATE_def RESULT_SUCCESS_def outgoing_call_def by auto
qed

text \<open>C31. Between two reads of the pending changes nothing is lost: if the call list differs from what it
  was at the last read the calls flag is pending, and every call that was there and is gone has a pending
  Termination Reason.\<close>

theorem notifications_complete:
  assumes "Ev_take_changes \<notin> set es'"
  shows "let m0 = snd (call_run B b (es @ [Ev_take_changes]));
             m = snd (call_run B b (es @ Ev_take_changes # es')) in
    (calls m \<noteq> calls m0 \<longrightarrow> ch_calls (cm_changes m)) \<and>
    (\<forall>c\<in>set (calls m0). c_index c \<notin> c_index ` set (calls m) \<longrightarrow>
       c_index c \<in> fst ` set (ch_terminations (cm_changes m)))"
proof -
  define s0 where "s0 = call_run B b (es @ [Ev_take_changes])"
  have "call_run B b (es @ Ev_take_changes # es') = foldl (call_step B) s0 es'"
    by (simp add: s0_def call_run_def)
  moreover have "covers (snd s0) (snd (foldl (call_step B) s0 es'))"
    by (rule covers_run [OF _ assms]) (auto simp: covers_def)
  ultimately show ?thesis by (simp add: covers_def Let_def s0_def)
qed

text \<open>C32. Bearer List Current Calls of a reachable model reads back, item by item, as the index, state,
  flags and URI octets of its calls: no item's length octet wraps.\<close>

theorem list_value_roundtrip:
  "parse_calls (list_value (snd (call_run B b es))) =
     Some (map (\<lambda>c. (c_index c, cs_value (c_state c), c_flags c, as_bytes (c_uri c)))
             (calls (snd (call_run B b es))))"
proof -
  have "list_all call_fits (calls (snd (call_run B b es)))"
    using call_run_inv [of B b es] by (simp add: call_inv_def)
  from parse_list_items [OF this] show ?thesis by (simp add: list_value_def call_item_def [abs_def])
qed

subsection \<open>Witnesses\<close>

lemma allocate_index_free:
  "find_call m (next_index m) = None \<Longrightarrow>
     allocate_index m = (m\<lparr>next_index := (if next_index m = 255 then 1 else next_index m + 1)\<rparr>, next_index m)"
proof -
  assume a: "find_call m (next_index m) = None"
  then show ?thesis
    using allocate_loop.simps(2) [of 254 m] by (simp add: allocate_index_def Let_def)
qed

lemmas call_eval = call_run_def cm_new_def incoming_def incoming_call_def allocate_index_free find_call_def
  truncate_str_def call_ended_def remove_call_def take_changes_def no_changes_def control_point_def
  cc_dispatch_def cc_accept_def sim_backend_def hold_others_def hold_call_def set_call_state_def mark_calls_def
  lit_def utf8_len_def call_simps

theorem calls_follow_diagram_witness:
  "let es = [Ev_incoming (lit ''tel:1'') [] []];
       c = \<lparr>c_index = 1, c_state = Incoming, c_flags = 0, c_uri = lit ''tel:1'', c_friendly_name = [], c_target_uri = []\<rparr>;
       d = c\<lparr>c_state := Active\<rparr>
   in c \<in> set (calls (snd (call_run sim_backend () es))) \<and>
      d \<in> set (calls (snd (call_run sim_backend () (es @ [Ev_control_point [0, 1]])))) \<and>
      (c_state d = c_state c \<or> tbs_restate (c_state c) (c_state d) \<or> c_state d = Active)"
proof -
  let ?es = "[Ev_incoming (lit ''tel:1'') [] []]"
  let ?c = "\<lparr>c_index = 1, c_state = Incoming, c_flags = 0, c_uri = lit ''tel:1'', c_friendly_name = [], c_target_uri = []\<rparr>"
  let ?d = "?c\<lparr>c_state := Active\<rparr>"
  have c: "?c \<in> set (calls (snd (call_run sim_backend () ?es)))"
    by (simp add: call_eval)
  have d: "?d \<in> set (calls (snd (call_run sim_backend () (?es @ [Ev_control_point [0, 1]]))))"
    by (simp add: call_eval)
  show ?thesis
    using c d calls_follow_diagram [OF c d] by (simp only: Let_def) auto
qed

theorem control_point_failure_atomic_witness:
  "control_point sim_backend () (snd (call_run sim_backend () [])) [0] = ((), cm_new, Inl 0x0D)"
proof -
  obtain b' m' r where e: "control_point sim_backend () (snd (call_run sim_backend () [])) [0] = (b', m', r)"
    by (metis prod_cases3)
  then have "r = Inl 0x0D" by (simp add: call_eval)
  with control_point_failure_atomic [OF e] have "m' = cm_new" by (simp add: call_run_def)
  with \<open>r = Inl 0x0D\<close> e show ?thesis by simp
qed

theorem control_point_success_witness:
  "\<exists>m'. control_point sim_backend () (snd (call_run sim_backend () [Ev_incoming (lit ''tel:1'') [] [], Ev_incoming (lit ''tel:2'') [] []])) [0, 2] =
      ((), m', Inr \<lparr>cp_opcode = 0, cp_call_index = 2, cp_result = 0\<rparr>) \<and> only_active m' 2
    \<and> map c_state (calls m') = [Incoming, Active]"
proof -
  let ?m = "snd (call_run sim_backend () [Ev_incoming (lit ''tel:1'') [] [], Ev_incoming (lit ''tel:2'') [] []])"
  obtain m' where e: "control_point sim_backend () ?m [0, 2] =
      ((), m', Inr \<lparr>cp_opcode = 0, cp_call_index = 2, cp_result = 0\<rparr>)"
    by (simp add: call_eval)
  have c: "map c_state (map (made_active 2) (calls ?m)) = [Incoming, Active]"
    by (simp add: call_eval made_active_def)
  from control_point_success [OF e] have "only_active m' 2 \<and> calls m' = map (made_active 2) (calls ?m)"
    by (auto simp: RESULT_SUCCESS_def)
  with e c show ?thesis by metis
qed

theorem notifications_complete_witness:
  "Ev_take_changes \<notin> set [Ev_ended 1 2] \<and>
   1 \<in> fst ` set (ch_terminations (cm_changes (snd (call_run sim_backend ()
     [Ev_incoming (lit ''tel:1'') [] [], Ev_take_changes, Ev_ended 1 2]))))"
proof -
  let ?c = "\<lparr>c_index = 1, c_state = Incoming, c_flags = 0, c_uri = lit ''tel:1'', c_friendly_name = [], c_target_uri = []\<rparr>"
  have n: "Ev_take_changes \<notin> set [Ev_ended 1 2]" by simp
  have c: "?c \<in> set (calls (snd (call_run sim_backend () ([Ev_incoming (lit ''tel:1'') [] []] @ [Ev_take_changes]))))"
    by (simp add: call_eval)
  have g: "calls (snd (call_run sim_backend () ([Ev_incoming (lit ''tel:1'') [] []] @ Ev_take_changes # [Ev_ended 1 2]))) = []"
    by (simp add: call_eval)
  have "c_index ?c \<in> fst ` set (ch_terminations (cm_changes (snd (call_run sim_backend ()
      ([Ev_incoming (lit ''tel:1'') [] []] @ Ev_take_changes # [Ev_ended 1 2])))))"
    using notifications_complete [OF n, of sim_backend "()" "[Ev_incoming (lit ''tel:1'') [] []]"] c g
    unfolding Let_def by (metis empty_iff image_empty list.set(1))
  then show ?thesis by simp
qed

end
