(* ===== verification/Le_Pacs.thy ===== *)
theory Le_Pacs
  imports BC_Prelude
begin

text \<open>
  LE Audio values on the wire: length-type-value structures
  (\<^verbatim>\<open>app/src/crates/le-audio/src/ltv.rs\<close>), the assigned numbers the client uses (\<^verbatim>\<open>defs.rs\<close>), and PAC
  records, ASE values and ASE Control Point PDUs (\<^verbatim>\<open>pacs_ascs.rs\<close>). Parsers that can run past the end
  of the data return an option, as in the code; logging is left out.

  Shown: reading LTVs inverts writing them whatever follows, every well-formed PAC characteristic value
  is parsed back into its records, and a malformed one is refused rather than read past its end.
\<close>

subsection \<open>Length-type-value structures\<close>

function ltv_iter :: "bytes \<Rightarrow> (u8 \<times> bytes) list" where
  "ltv_iter [] = []"
| "ltv_iter (len # tail) =
     (if len = 0 then ltv_iter tail
      else if length tail < unat len then []
      else (tail ! 0, take (unat len - 1) (drop 1 tail)) # ltv_iter (drop (unat len) tail))"
  by pat_completeness auto
termination by (relation "measure length") auto

definition ltv_find :: "bytes \<Rightarrow> u8 \<Rightarrow> bytes option" where
  "ltv_find data ty = map_option snd (List.find (\<lambda>(t, _). t = ty) (ltv_iter data))"

definition ltv_put :: "u8 \<Rightarrow> bytes \<Rightarrow> bytes" where
  "ltv_put ty v = (let v' = take 254 v in [of_nat (length v') + 1, ty] @ v')"

subsection \<open>Assigned numbers\<close>

named_theorems le_consts "assigned numbers of LE Audio"

definition LOCATION_MONO :: u32 where [le_consts]: "LOCATION_MONO = 0"
definition LOCATION_FRONT_LEFT :: u32 where [le_consts]: "LOCATION_FRONT_LEFT = 1"
definition LOCATION_FRONT_RIGHT :: u32 where [le_consts]: "LOCATION_FRONT_RIGHT = 2"
definition CONTEXT_UNSPECIFIED :: u16 where [le_consts]: "CONTEXT_UNSPECIFIED = 0x0001"
definition CONTEXT_MEDIA :: u16 where [le_consts]: "CONTEXT_MEDIA = 0x0004"
definition CODING_FORMAT_LC3 :: u8 where [le_consts]: "CODING_FORMAT_LC3 = 0x06"
definition CAP_SAMPLING_FREQUENCIES :: u8 where [le_consts]: "CAP_SAMPLING_FREQUENCIES = 0x01"
definition CAP_FRAME_DURATIONS :: u8 where [le_consts]: "CAP_FRAME_DURATIONS = 0x02"
definition CAP_CHANNEL_COUNTS :: u8 where [le_consts]: "CAP_CHANNEL_COUNTS = 0x03"
definition CAP_OCTETS_PER_FRAME :: u8 where [le_consts]: "CAP_OCTETS_PER_FRAME = 0x04"
definition CAP_MAX_FRAMES_PER_SDU :: u8 where [le_consts]: "CAP_MAX_FRAMES_PER_SDU = 0x05"
definition FD_BIT_7500US :: u8 where [le_consts]: "FD_BIT_7500US = 1"
definition FD_BIT_10000US :: u8 where [le_consts]: "FD_BIT_10000US = 2"
definition CFG_SAMPLING_FREQUENCY :: u8 where [le_consts]: "CFG_SAMPLING_FREQUENCY = 0x01"
definition CFG_FRAME_DURATION :: u8 where [le_consts]: "CFG_FRAME_DURATION = 0x02"
definition CFG_CHANNEL_ALLOCATION :: u8 where [le_consts]: "CFG_CHANNEL_ALLOCATION = 0x03"
definition CFG_OCTETS_PER_FRAME :: u8 where [le_consts]: "CFG_OCTETS_PER_FRAME = 0x04"
definition CFG_FRAME_BLOCKS_PER_SDU :: u8 where [le_consts]: "CFG_FRAME_BLOCKS_PER_SDU = 0x05"
definition META_PREFERRED_CONTEXTS :: u8 where [le_consts]: "META_PREFERRED_CONTEXTS = 0x01"
definition META_STREAMING_CONTEXTS :: u8 where [le_consts]: "META_STREAMING_CONTEXTS = 0x02"
definition META_CCID_LIST :: u8 where [le_consts]: "META_CCID_LIST = 0x05"
definition ASE_OP_CONFIG_CODEC :: u8 where [le_consts]: "ASE_OP_CONFIG_CODEC = 0x01"
definition ASE_OP_CONFIG_QOS :: u8 where [le_consts]: "ASE_OP_CONFIG_QOS = 0x02"
definition TARGET_LATENCY_LOW :: u8 where [le_consts]: "TARGET_LATENCY_LOW = 0x01"
definition TARGET_LATENCY_HIGH_RELIABILITY :: u8 where [le_consts]: "TARGET_LATENCY_HIGH_RELIABILITY = 0x03"
definition PHY_2M :: u8 where [le_consts]: "PHY_2M = 0x02"

datatype ase_state =
  Idle | CodecConfigured | QosConfigured | Enabling | Streaming | Disabling | Releasing | UnknownState

definition ase_state_from_u8 :: "u8 \<Rightarrow> ase_state" where
  "ase_state_from_u8 v =
     (if v = 0x00 then Idle else if v = 0x01 then CodecConfigured else if v = 0x02 then QosConfigured
      else if v = 0x03 then Enabling else if v = 0x04 then Streaming else if v = 0x05 then Disabling
      else if v = 0x06 then Releasing else UnknownState)"

fun ase_state_name :: "ase_state \<Rightarrow> string" where
  "ase_state_name Idle = ''Idle''"
| "ase_state_name CodecConfigured = ''Codec Configured''"
| "ase_state_name QosConfigured = ''QoS Configured''"
| "ase_state_name Enabling = ''Enabling''"
| "ase_state_name Streaming = ''Streaming''"
| "ase_state_name Disabling = ''Disabling''"
| "ase_state_name Releasing = ''Releasing''"
| "ase_state_name UnknownState = ''unknown''"

definition sf_code_to_hz :: "u8 \<Rightarrow> u32" where
  "sf_code_to_hz code =
     (if code = 0x01 then 8000 else if code = 0x02 then 11025 else if code = 0x03 then 16000
      else if code = 0x04 then 22050 else if code = 0x05 then 24000 else if code = 0x06 then 32000
      else if code = 0x07 then 44100 else if code = 0x08 then 48000 else 0)"

definition sf_hz_to_code :: "u32 \<Rightarrow> u8" where
  "sf_hz_to_code hz =
     (if hz = 8000 then 0x01 else if hz = 16000 then 0x03 else if hz = 24000 then 0x05
      else if hz = 32000 then 0x06 else if hz = 44100 then 0x07 else if hz = 48000 then 0x08 else 0)"

definition sf_hz_to_cap_bit :: "u32 \<Rightarrow> u16" where
  "sf_hz_to_cap_bit hz =
     (if hz = 8000 then 0x01 else if hz = 16000 then 0x04 else if hz = 24000 then 0x10
      else if hz = 32000 then 0x20 else if hz = 44100 then 0x40 else if hz = 48000 then 0x80 else 0)"

subsection \<open>PAC records\<close>

record lc3_capabilities =
  sampling_frequencies :: u16
  frame_durations :: u8
  channel_counts :: u8
  min_octets :: u16
  max_octets :: u16
  max_frames_per_sdu :: u8

definition default_lc3_caps :: lc3_capabilities where
  "default_lc3_caps = \<lparr> sampling_frequencies = 0, frame_durations = 0, channel_counts = 0x01, min_octets = 0,
     max_octets = 0, max_frames_per_sdu = 1 \<rparr>"

record pac_record =
  pr_codec_id :: bytes
  pr_lc3 :: bool
  pr_caps :: lc3_capabilities
  pr_capabilities :: bytes
  pr_metadata :: bytes
  pr_preferred_contexts :: u16

definition rd16 :: "bytes \<Rightarrow> u16" where
  "rd16 p = of_le16 (p ! 0) (p ! 1)"

definition rd24 :: "bytes \<Rightarrow> u32" where
  "rd24 p = of_le32 (p ! 0) (p ! 1) (p ! 2) 0"

definition put24 :: "u32 \<Rightarrow> bytes" where
  "put24 x = take 3 (le32_bytes x)"

text \<open>\<^verbatim>\<open>ltv::find(..).filter(|v| v.len() >= n)\<close>\<close>

definition ltv_min :: "bytes \<Rightarrow> u8 \<Rightarrow> nat \<Rightarrow> bytes option" where
  "ltv_min data ty n = (case ltv_find data ty of Some v \<Rightarrow> if n \<le> length v then Some v else None | None \<Rightarrow> None)"

definition read_lc3_caps :: "bytes \<Rightarrow> lc3_capabilities" where
  "read_lc3_caps caps =
     (let c = default_lc3_caps;
          c = (case ltv_min caps CAP_SAMPLING_FREQUENCIES 2 of Some v \<Rightarrow> c\<lparr>sampling_frequencies := rd16 v\<rparr> | None \<Rightarrow> c);
          c = (case ltv_min caps CAP_FRAME_DURATIONS 1 of Some v \<Rightarrow> c\<lparr>frame_durations := v ! 0\<rparr> | None \<Rightarrow> c);
          c = (case ltv_min caps CAP_CHANNEL_COUNTS 1 of Some v \<Rightarrow> c\<lparr>channel_counts := v ! 0\<rparr> | None \<Rightarrow> c);
          c = (case ltv_min caps CAP_OCTETS_PER_FRAME 4 of
                 Some v \<Rightarrow> c\<lparr>min_octets := rd16 v, max_octets := rd16 (drop 2 v)\<rparr> | None \<Rightarrow> c);
          c = (case ltv_min caps CAP_MAX_FRAMES_PER_SDU 1 of Some v \<Rightarrow> c\<lparr>max_frames_per_sdu := v ! 0\<rparr> | None \<Rightarrow> c)
      in c)"

definition make_pac :: "bytes \<Rightarrow> bytes \<Rightarrow> bytes \<Rightarrow> pac_record" where
  "make_pac codec_id caps meta =
     (let lc3 = (codec_id ! 0 = CODING_FORMAT_LC3)
      in \<lparr> pr_codec_id = codec_id, pr_lc3 = lc3, pr_caps = (if lc3 then read_lc3_caps caps else default_lc3_caps),
           pr_capabilities = caps, pr_metadata = meta,
           pr_preferred_contexts = (case ltv_min meta META_PREFERRED_CONTEXTS 2 of Some v \<Rightarrow> rd16 v | None \<Rightarrow> 0) \<rparr>)"

fun parse_pac_loop :: "bytes \<Rightarrow> nat \<Rightarrow> nat \<Rightarrow> pac_record list \<Rightarrow> pac_record list option" where
  "parse_pac_loop data 0 pos out = Some out"
| "parse_pac_loop data (Suc n) pos out =
     (if length data < pos + 6 then None
      else let codec_id = subslice data pos (pos + 5);
               cap_len = unat (data ! (pos + 5));
               pos1 = pos + 6
           in if length data < pos1 + cap_len + 1 then None
              else let caps = subslice data pos1 (pos1 + cap_len);
                       meta_len = unat (data ! (pos1 + cap_len));
                       pos2 = pos1 + cap_len + 1
                   in if length data < pos2 + meta_len then None
                      else parse_pac_loop data n (pos2 + meta_len)
                             (out @ [make_pac codec_id caps (subslice data pos2 (pos2 + meta_len))]))"

definition parse_pac_records :: "bytes \<Rightarrow> pac_record list option" where
  "parse_pac_records data = (case data of [] \<Rightarrow> None | count # _ \<Rightarrow> parse_pac_loop data (unat count) 1 [])"

subsection \<open>ASE values\<close>

record ase =
  ase_id :: u8
  ase_sink :: bool
  value_handle :: u16
  ase_st :: ase_state
  pref_framing :: u8
  pref_phy :: u8
  pref_rtn :: u8
  pref_max_latency_ms :: u16
  pd_min_us :: u32
  pd_max_us :: u32
  pref_pd_min_us :: u32
  pref_pd_max_us :: u32
  ase_cig_id :: u8
  ase_cis_id :: u8
  codec_config :: bytes

definition default_ase :: ase where
  "default_ase = \<lparr> ase_id = 0, ase_sink = True, value_handle = 0, ase_st = UnknownState, pref_framing = 0,
     pref_phy = 0, pref_rtn = 0, pref_max_latency_ms = 0, pd_min_us = 0, pd_max_us = 0, pref_pd_min_us = 0,
     pref_pd_max_us = 0, ase_cig_id = 0, ase_cis_id = 0, codec_config = [] \<rparr>"

definition read_codec_configured :: "bytes \<Rightarrow> ase \<Rightarrow> ase" where
  "read_codec_configured p a =
     a\<lparr> pref_framing := p ! 0, pref_phy := p ! 1, pref_rtn := p ! 2, pref_max_latency_ms := rd16 (drop 3 p),
        pd_min_us := rd24 (drop 5 p), pd_max_us := rd24 (drop 8 p), pref_pd_min_us := rd24 (drop 11 p),
        pref_pd_max_us := rd24 (drop 14 p) \<rparr>"

definition parse_ase_value :: "bytes \<Rightarrow> ase \<Rightarrow> ase \<times> bool" where
  "parse_ase_value data a =
     (if length data < 2 then (a, False)
      else let a = a\<lparr>ase_id := data ! 0, ase_st := ase_state_from_u8 (data ! 1)\<rparr>;
               p = drop 2 data; n = length p
           in case ase_st a of
                CodecConfigured \<Rightarrow>
                  if n < 23 then (a, False)
                  else let a = read_codec_configured p a; cfg_len = unat (p ! 22)
                       in if n < 23 + cfg_len then (a, False)
                          else (a\<lparr>codec_config := subslice p 23 (23 + cfg_len)\<rparr>, True)
              | QosConfigured \<Rightarrow>
                  if n < 15 then (a, False) else (a\<lparr>ase_cig_id := p ! 0, ase_cis_id := p ! 1\<rparr>, True)
              | Idle \<Rightarrow> (a, True)
              | Releasing \<Rightarrow> (a, True)
              | UnknownState \<Rightarrow> (a, False)
              | _ \<Rightarrow> if n < 3 then (a, False) else (a\<lparr>ase_cig_id := p ! 0, ase_cis_id := p ! 1\<rparr>, True))"

subsection \<open>ASE Control Point PDUs\<close>

record config_codec =
  cc_ase_id :: u8
  cc_target_latency :: u8
  cc_target_phy :: u8
  cc_codec_id :: bytes
  cc_config :: bytes

record config_qos =
  cq_ase_id :: u8
  cq_cig_id :: u8
  cq_cis_id :: u8
  cq_sdu_interval_us :: u32
  cq_framing :: u8
  cq_phy :: u8
  cq_max_sdu :: u16
  cq_rtn :: u8
  cq_max_transport_latency_ms :: u16
  cq_presentation_delay_us :: u32

definition cp_config_codec :: "config_codec list \<Rightarrow> bytes" where
  "cp_config_codec ases =
     [ASE_OP_CONFIG_CODEC, of_nat (length ases)] @
     concat (map (\<lambda>a. [cc_ase_id a, cc_target_latency a, cc_target_phy a] @ cc_codec_id a @
                      [of_nat (length (cc_config a))] @ cc_config a) ases)"

definition cp_config_qos :: "config_qos list \<Rightarrow> bytes" where
  "cp_config_qos ases =
     [ASE_OP_CONFIG_QOS, of_nat (length ases)] @
     concat (map (\<lambda>a. [cq_ase_id a, cq_cig_id a, cq_cis_id a] @ put24 (cq_sdu_interval_us a) @
                      [cq_framing a, cq_phy a] @ le16_bytes (cq_max_sdu a) @ [cq_rtn a] @
                      le16_bytes (cq_max_transport_latency_ms a) @ put24 (cq_presentation_delay_us a)) ases)"

definition cp_with_metadata :: "u8 \<Rightarrow> (u8 \<times> bytes) list \<Rightarrow> bytes" where
  "cp_with_metadata opcode ases =
     [opcode, of_nat (length ases)] @ concat (map (\<lambda>(i, m). [i, of_nat (length m)] @ m) ases)"

definition cp_ase_ids :: "u8 \<Rightarrow> bytes \<Rightarrow> bytes" where
  "cp_ase_ids opcode ids = [opcode, of_nat (length ids)] @ ids"

definition enable_metadata :: "u16 \<Rightarrow> bytes \<Rightarrow> bytes" where
  "enable_metadata contexts ccids =
     (let ids = remdups_adj (sort ccids)
      in ltv_put META_STREAMING_CONTEXTS (le16_bytes contexts) @
         (if ids \<noteq> [] then ltv_put META_CCID_LIST ids else []))"

record cp_response_entry =
  re_ase_id :: u8
  re_code :: u8
  re_reason :: u8

record cp_response =
  rs_opcode :: u8
  rs_entries :: "cp_response_entry list"

fun chunks3 :: "bytes \<Rightarrow> cp_response_entry list" where
  "chunks3 (a # b # c # r) = \<lparr> re_ase_id = a, re_code = b, re_reason = c \<rparr> # chunks3 r"
| "chunks3 _ = []"

definition parse_cp_response :: "bytes \<Rightarrow> cp_response option" where
  "parse_cp_response data =
     (if length data < 2 then None
      else let count = data ! 1
           in Some \<lparr> rs_opcode = data ! 0,
                     rs_entries =
                       (if count = 0xFF
                        then (if 5 \<le> length data
                              then [\<lparr> re_ase_id = data ! 2, re_code = data ! 3, re_reason = data ! 4 \<rparr>] else [])
                        else take (unat count) (chunks3 (drop 2 data))) \<rparr>)"

subsection \<open>LTV lemmas\<close>

lemma unat_of_nat_Suc_u8: "n < 255 \<Longrightarrow> unat (of_nat n + 1 :: u8) = n + 1"
  by (simp add: unat_word_ariths unat_of_nat)

lemma unat_of_nat_u8: "n < 256 \<Longrightarrow> unat (of_nat n :: u8) = n"
  by (simp add: unat_of_nat)

lemma ltv_iter_put: "length v \<le> 254 \<Longrightarrow> ltv_iter (ltv_put ty v @ rest) = (ty, v) # ltv_iter rest"
proof -
  assume v: "length v \<le> 254"
  have u: "unat (of_nat (length v) + 1 :: u8) = length v + 1" using v by (simp add: unat_of_nat_Suc_u8)
  then have "of_nat (length v) + 1 \<noteq> (0::u8)" by (metis add_is_0 one_neq_zero unat_0)
  then show ?thesis using v by (simp add: ltv_put_def Let_def u)
qed

lemma ltv_find_put:
  "length v \<le> 254 \<Longrightarrow> ltv_find (ltv_put ty v @ rest) t = (if t = ty then Some v else ltv_find rest t)"
  by (simp add: ltv_find_def ltv_iter_put)

lemma ltv_find_Nil [simp]: "ltv_find [] t = None"
  by (simp add: ltv_find_def)

lemma ltv_iter_concat:
  "list_all (\<lambda>(_, v). length v \<le> 254) es \<Longrightarrow>
   ltv_iter (concat (map (\<lambda>(t, v). ltv_put t v) es) @ rest) = es @ ltv_iter rest"
  by (induction es) (auto simp: ltv_iter_put)

subsection \<open>PAC records\<close>

text \<open>The wire format of a PAC characteristic value (PACS 1.0), as a specification.\<close>

definition pac_entry :: "bytes \<times> bytes \<times> bytes \<Rightarrow> bytes" where
  "pac_entry e = (case e of (cid, caps, meta) \<Rightarrow>
     cid @ [of_nat (length caps)] @ caps @ [of_nat (length meta)] @ meta)"

definition pac_ok :: "bytes \<times> bytes \<times> bytes \<Rightarrow> bool" where
  "pac_ok e = (case e of (cid, caps, meta) \<Rightarrow> length cid = 5 \<and> length caps < 256 \<and> length meta < 256)"

definition pac_of :: "bytes \<times> bytes \<times> bytes \<Rightarrow> pac_record" where
  "pac_of e = (case e of (cid, caps, meta) \<Rightarrow> make_pac cid caps meta)"

definition pac_value :: "(bytes \<times> bytes \<times> bytes) list \<Rightarrow> bytes" where
  "pac_value es = of_nat (length es) # concat (map pac_entry es)"

definition split_pac :: "bytes \<Rightarrow> ((bytes \<times> bytes \<times> bytes) \<times> bytes) option" where
  "split_pac xs =
     (if length xs < 6 then None
      else let cl = unat (xs ! 5) in if length xs < 7 + cl then None
      else let ml = unat (xs ! (6 + cl)) in if length xs < 7 + cl + ml then None
      else Some ((take 5 xs, take cl (drop 6 xs), take ml (drop (7 + cl) xs)), drop (7 + cl + ml) xs))"

lemma split_pac_entry: "pac_ok e \<Longrightarrow> split_pac (pac_entry e @ rest) = Some (e, rest)"
proof -
  assume "pac_ok e"
  then obtain cid caps meta where e: "e = (cid, caps, meta)" "length cid = 5" "length caps < 256" "length meta < 256"
    by (auto simp: pac_ok_def split: prod.splits)
  then show ?thesis
    by (simp add: split_pac_def pac_entry_def nth_append unat_of_nat_u8 Let_def)
qed

lemma split_pac_Some:
  assumes "split_pac xs = Some (e, rest)"
  shows "xs = pac_entry e @ rest \<and> pac_ok e"
proof -
  define cl where "cl = unat (xs ! 5)"
  define ml where "ml = unat (xs ! (6 + cl))"
  have l: "7 + cl + ml \<le> length xs" and e: "e = (take 5 xs, take cl (drop 6 xs), take ml (drop (7 + cl) xs))"
    and r: "rest = drop (7 + cl + ml) xs"
    using assms by (auto simp: split_pac_def Let_def cl_def ml_def split: if_splits)
  have cl: "cl < 256" "ml < 256" using unsigned_less [of "xs ! 5"] unsigned_less [of "xs ! (6 + cl)"]
    by (simp_all add: cl_def ml_def)
  have "xs = take 5 xs @ xs ! 5 # drop 6 xs" using l id_take_nth_drop [of 5 xs] by simp
  moreover have "drop 6 xs = take cl (drop 6 xs) @ drop 6 xs ! cl # drop (Suc cl) (drop 6 xs)"
    using l by (intro id_take_nth_drop) simp
  moreover have "drop (Suc cl) (drop 6 xs) = take ml (drop (7 + cl) xs) @ drop (7 + cl + ml) xs"
    using append_take_drop_id [of ml "drop (7 + cl) xs"] by (simp add: add.commute add.left_commute)
  ultimately have "xs = take 5 xs @ xs ! 5 # take cl (drop 6 xs) @ xs ! (6 + cl) # take ml (drop (7 + cl) xs) @ drop (7 + cl + ml) xs"
    using l by simp
  moreover have "of_nat cl = xs ! 5" "of_nat ml = xs ! (6 + cl)" by (simp_all add: cl_def ml_def)
  moreover have "length (take cl (drop 6 xs)) = cl" "length (take ml (drop (7 + cl) xs)) = ml" "length (take 5 xs) = 5"
    using l by simp_all
  ultimately show ?thesis using cl unfolding e r pac_entry_def pac_ok_def prod.case by (metis append.assoc append_Cons append_Nil)
qed

lemma parse_pac_split:
  assumes "pos \<le> length data"
  shows "parse_pac_loop data (Suc n) pos out =
    (case split_pac (drop pos data) of
       None \<Rightarrow> None
     | Some (e, rest) \<Rightarrow> parse_pac_loop data n (length data - length rest) (out @ [pac_of e]))"
  using assms
  by (auto simp: split_pac_def Let_def pac_of_def subslice_def add.assoc add.commute add.left_commute
      split: if_splits)

lemma parse_pac_loop_iff:
  "pos \<le> length data \<Longrightarrow>
   parse_pac_loop data n pos out = Some rs \<longleftrightarrow>
   (\<exists>es rest. drop pos data = concat (map pac_entry es) @ rest \<and> list_all pac_ok es \<and> length es = n \<and>
      rs = out @ map pac_of es)"
proof (induction n arbitrary: pos out)
  case (Suc n)
  show ?case
  proof (cases "split_pac (drop pos data)")
    case None
    have "\<not> (\<exists>es rest. drop pos data = concat (map pac_entry es) @ rest \<and> list_all pac_ok es \<and> length es = Suc n)"
    proof safe
      fix es rest assume *: "drop pos data = concat (map pac_entry es) @ rest" "list_all pac_ok es" "length es = Suc n"
      then obtain e es' where "es = e # es'" by (cases es) auto
      with * None split_pac_entry [of e] show False by simp
    qed
    then show ?thesis by (auto simp only: parse_pac_split [OF Suc.prems] None option.case)
  next
    case (Some er)
    obtain e rest where er: "er = (e, rest)" by fastforce
    note sp = split_pac_Some [OF Some [unfolded er]]
    have rest: "drop (length data - length rest) data = rest"
    proof -
      have "data = (take pos data @ pac_entry e) @ rest" using sp append_take_drop_id [of pos data] by simp
      then show ?thesis by (metis add_diff_cancel_right' append_eq_conv_conj length_append)
    qed
    have "parse_pac_loop data (Suc n) pos out = Some rs \<longleftrightarrow>
      parse_pac_loop data n (length data - length rest) (out @ [pac_of e]) = Some rs"
      by (simp only: parse_pac_split [OF Suc.prems] Some er option.case prod.case)
    also have "\<dots> \<longleftrightarrow> (\<exists>es r. rest = concat (map pac_entry es) @ r \<and> list_all pac_ok es \<and> length es = n \<and>
        rs = (out @ [pac_of e]) @ map pac_of es)"
      using Suc.IH [of "length data - length rest" "out @ [pac_of e]"] rest by simp
    also have "\<dots> \<longleftrightarrow> (\<exists>es r. drop pos data = concat (map pac_entry es) @ r \<and> list_all pac_ok es \<and>
        length es = Suc n \<and> rs = out @ map pac_of es)" (is "?L = ?R")
    proof
      assume ?L
      then obtain es r where "rest = concat (map pac_entry es) @ r" "list_all pac_ok es" "length es = n"
        "rs = (out @ [pac_of e]) @ map pac_of es" by blast
      with sp show ?R by (intro exI [of _ "e # es"] exI [of _ r]) simp
    next
      assume ?R
      then obtain es r where *: "drop pos data = concat (map pac_entry es) @ r" "list_all pac_ok es"
        "length es = Suc n" "rs = out @ map pac_of es" by blast
      then obtain e' es' where es: "es = e' # es'" by (cases es) auto
      with * split_pac_entry [of e' "concat (map pac_entry es') @ r"] Some er have "e' = e" "rest = concat (map pac_entry es') @ r"
        by auto
      with * es show ?L by auto
    qed
    finally show ?thesis .
  qed
qed auto

subsection \<open>Properties\<close>

text \<open>The PAC parser accepts exactly the well-formed PAC characteristic values: it returns records if and
  only if the data is a count followed by that many records (five codec id octets, a length-prefixed
  capabilities field and a length-prefixed metadata field) and possibly more octets, and the records it
  returns are those, in order.\<close>

lemma parse_pac_records_iff:
  "parse_pac_records data = Some rs \<longleftrightarrow>
     (\<exists>es rest. length es < 256 \<and> list_all pac_ok es \<and> data = pac_value es @ rest \<and> rs = map pac_of es)"
proof (cases data)
  case Nil
  then show ?thesis by (simp add: parse_pac_records_def pac_value_def)
next
  case (Cons c xs)
  have "parse_pac_records data = Some rs \<longleftrightarrow>
    (\<exists>es rest. xs = concat (map pac_entry es) @ rest \<and> list_all pac_ok es \<and> length es = unat c \<and> rs = map pac_of es)"
    using parse_pac_loop_iff [of 1 data "unat c" "[]" rs] by (simp add: parse_pac_records_def Cons)
  moreover have "length es = unat c \<longleftrightarrow> length es < 256 \<and> of_nat (length es) = c" for es :: "(bytes \<times> bytes \<times> bytes) list"
    using unsigned_less [of c] by (auto simp: unat_of_nat_u8)
  ultimately show ?thesis by (auto simp: Cons pac_value_def)
qed

end
