(* ===== verification/Le_Plan.thy ===== *)
theory Le_Plan
  imports Le_Pacs
begin

text \<open>
  Stream planning of LE Audio: the LC3 / QoS presets (\<^verbatim>\<open>app/src/crates/le-audio/src/presets.rs\<close>) and the
  choice of a preset and of the ASEs and channels of every device (\<^verbatim>\<open>plan.rs\<close>). The closure
  \<^verbatim>\<open>layout\<close> of the code sets a captured flag (\<^verbatim>\<open>too_long\<close>) and leaves early; here it returns the flag
  and an option. Logging is left out.

  Shown: a plan only asks of each device what its PAC records and ASEs allow and what one ISO packet
  holds, and planning succeeds whenever a preset of the order suits every device.
\<close>

subsection \<open>Presets\<close>

record stream_preset =
  sp_name :: string
  sp_sampling_hz :: u32
  sp_frame_us :: u16
  sp_octets :: u16
  sp_target_latency :: u8
  sp_framing :: u8
  sp_rtn :: u8
  sp_max_transport_latency_ms :: u16
  sp_presentation_delay_us :: u32

definition sdu_interval_us :: "stream_preset \<Rightarrow> u32" where
  "sdu_interval_us p = ucast (sp_frame_us p)"

definition kbps_per_channel :: "stream_preset \<Rightarrow> u32" where
  "kbps_per_channel p = ucast (sp_octets p) * 8 * 1000 div ucast (sp_frame_us p)"

definition make_preset :: "string \<Rightarrow> u32 \<Rightarrow> u16 \<Rightarrow> u16 \<Rightarrow> u8 \<Rightarrow> u16 \<Rightarrow> u8 \<Rightarrow> stream_preset" where
  "make_preset name hz frame_us octets rtn latency_ms target_latency =
     \<lparr> sp_name = name, sp_sampling_hz = hz, sp_frame_us = frame_us, sp_octets = octets,
       sp_target_latency = target_latency, sp_framing = 0, sp_rtn = rtn,
       sp_max_transport_latency_ms = latency_ms, sp_presentation_delay_us = 40000 \<rparr>"

definition make_gr :: "string \<Rightarrow> u32 \<Rightarrow> u16 \<Rightarrow> u16 \<Rightarrow> u16 \<Rightarrow> stream_preset" where
  "make_gr name hz frame_us octets latency_ms =
     (make_preset name hz frame_us octets 1 latency_ms TARGET_LATENCY_LOW)\<lparr>sp_presentation_delay_us := 10000\<rparr>"

type_synonym preset_table = "stream_preset list"

definition builtin_presets :: preset_table where
  "builtin_presets =
     (let LL = TARGET_LATENCY_LOW; HR = TARGET_LATENCY_HIGH_RELIABILITY in
     [make_preset ''16_1_1'' 16000 7500 30 2 8 LL,
      make_preset ''16_2_1'' 16000 10000 40 2 10 LL,
      make_preset ''24_1_1'' 24000 7500 45 2 8 LL,
      make_preset ''24_2_1'' 24000 10000 60 2 10 LL,
      make_preset ''32_1_1'' 32000 7500 60 2 8 LL,
      make_preset ''32_2_1'' 32000 10000 80 2 10 LL,
      make_preset ''48_1_1'' 48000 7500 75 5 15 LL,
      make_preset ''48_2_1'' 48000 10000 100 5 20 LL,
      make_preset ''48_3_1'' 48000 7500 90 5 15 LL,
      make_preset ''48_4_1'' 48000 10000 120 5 20 LL,
      make_preset ''48_5_1'' 48000 7500 117 5 15 LL,
      make_preset ''48_6_1'' 48000 10000 155 5 20 LL,
      make_preset ''16_2_2'' 16000 10000 40 13 95 HR,
      make_preset ''24_2_2'' 24000 10000 60 13 95 HR,
      make_preset ''32_2_2'' 32000 10000 80 13 95 HR,
      make_preset ''48_2_2'' 48000 10000 100 13 95 HR,
      make_preset ''48_4_2'' 48000 10000 120 13 100 HR,
      make_preset ''48_6_2'' 48000 10000 155 13 100 HR,
      make_gr ''32_1_gr'' 32000 7500 60 15,
      make_gr ''32_2_gr'' 32000 10000 80 20,
      make_gr ''48_1_gr'' 48000 7500 75 15,
      make_gr ''48_2_gr'' 48000 10000 100 20,
      make_gr ''48_3_gr'' 48000 7500 90 15,
      make_gr ''48_4_gr'' 48000 10000 120 20])"

fun preset_add :: "stream_preset \<Rightarrow> preset_table \<Rightarrow> preset_table" where
  "preset_add p [] = [p]"
| "preset_add p (q # qs) = (if sp_name q = sp_name p then p # qs else q # preset_add p qs)"

definition preset_find :: "preset_table \<Rightarrow> string \<Rightarrow> stream_preset option" where
  "preset_find t name = List.find (\<lambda>p. sp_name p = name) t"

definition DEFAULT_PRESET_ORDER :: "string list" where
  "DEFAULT_PRESET_ORDER = [''48_6_2'', ''48_4_2'', ''48_2_2'', ''32_2_2'', ''24_2_2'', ''16_2_2'']"

subsection \<open>Plans\<close>

definition MAX_CIS :: nat where "MAX_CIS = 4"
definition CIS_HANDLE_INVALID :: u16 where "CIS_HANDLE_INVALID = 0xFFFF"

record le_request =
  preset_order :: "string list"
  rq_contexts :: u16
  target_phy :: u8
  prefer_two_channel_ase :: bool

definition default_request :: le_request where
  "default_request = \<lparr> preset_order = DEFAULT_PRESET_ORDER, rq_contexts = CONTEXT_MEDIA, target_phy = PHY_2M,
     prefer_two_channel_ase = True \<rparr>"

datatype channel_source = SrcLeft | SrcRight | SrcMono

record channel_plan =
  cp_allocation :: u32
  cp_source :: channel_source

record cis_plan =
  pl_device_id :: u32
  pl_ase_id :: u8
  pl_cis_id :: u8
  pl_acl :: u16
  pl_cis_handle :: u16
  pl_channels :: "channel_plan list"

definition cis_allocation :: "cis_plan \<Rightarrow> u32" where
  "cis_allocation c = fold (\<lambda>ch a. a OR cp_allocation ch) (pl_channels c) 0"

definition sdu_len :: "cis_plan \<Rightarrow> u16 \<Rightarrow> u16" where
  "sdu_len c octets = octets * of_nat (length (pl_channels c))"

record stream_plan =
  sn_preset :: stream_preset
  sn_cig_id :: u8
  sn_phy :: u8
  sn_requested_contexts :: u16
  sn_contexts :: u16
  sn_presentation_delay_us :: u32
  sn_cis :: "cis_plan list"

definition channel_count :: "stream_plan \<Rightarrow> nat" where
  "channel_count s = sum_list (map (\<lambda>c. length (pl_channels c)) (sn_cis s))"

definition plan_describe :: "stream_plan \<Rightarrow> string" where
  "plan_describe s =
     (let p = sn_preset s in
      ''LC3 '' @ show_nat (unat (sp_sampling_hz p div 1000)) @ '' kHz '' @
      (if sp_frame_us p = 7500 then ''7.5'' else ''10'') @ '' ms '' @ show_nat (unat (sp_octets p)) @ '' octets ('' @
      show_nat (unat (kbps_per_channel p)) @ '' kbps/ch), '' @ show_nat (channel_count s) @ '' ch over '' @
      show_nat (length (sn_cis s)) @ '' CIS, '' @ sp_name p)"

record plan_device =
  pd_id :: u32
  pd_name :: string
  pd_acl :: u16
  sink_pacs :: "pac_record list"
  sink_locations :: u32
  available_sink_contexts :: u16
  pd_ases :: "ase list"

record iso_limits =
  iso_packet_length :: u16
  iso_packet_count :: u8

definition pac_supports :: "stream_preset \<Rightarrow> nat \<Rightarrow> pac_record \<Rightarrow> bool" where
  "pac_supports p channels_per_ase r \<longleftrightarrow>
     (let c = pr_caps r; fd_bit = (if sp_frame_us p = 7500 then FD_BIT_7500US else FD_BIT_10000US) in
      pr_lc3 r \<and> bit_set (sampling_frequencies c) (sf_hz_to_cap_bit (sp_sampling_hz p)) \<and>
      bit_set (frame_durations c) fd_bit \<and>
      (max_octets c = 0 \<or> min_octets c \<le> sp_octets p \<and> sp_octets p \<le> max_octets c) \<and>
      bit_set (ucast (channel_counts c) :: u32) (push_bit (channels_per_ase - 1) 1))"

definition device_supports :: "plan_device \<Rightarrow> stream_preset \<Rightarrow> nat \<Rightarrow> bool" where
  "device_supports d p channels_per_ase = list_ex (pac_supports p channels_per_ase) (sink_pacs d)"

definition choose_streaming_contexts :: "u16 list \<Rightarrow> u16 \<Rightarrow> u16" where
  "choose_streaming_contexts available requested =
     (let (common, unspecified) = fold (\<lambda>a (c, u). (c AND a, u AND a)) available (requested, CONTEXT_UNSPECIFIED)
      in if common \<noteq> 0 then common else unspecified)"

definition count_ones :: "'a::len word \<Rightarrow> nat" where
  "count_ones w = length (filter (bit w) [0..<LENGTH('a)])"

definition sdu_fits :: "iso_limits \<Rightarrow> nat \<Rightarrow> bool" where
  "sdu_fits lim n \<longleftrightarrow> n + 4 \<le> unat (iso_packet_length lim)"

definition add_cis :: "plan_device \<Rightarrow> u8 \<Rightarrow> u32 list \<Rightarrow> cis_plan" where
  "add_cis d a locs =
     \<lparr> pl_device_id = pd_id d, pl_ase_id = a, pl_cis_id = 0, pl_acl = pd_acl d, pl_cis_handle = CIS_HANDLE_INVALID,
       pl_channels = map (\<lambda>l. \<lparr> cp_allocation = l, cp_source = SrcMono \<rparr>) locs \<rparr>"

definition device_layout :: "bool \<Rightarrow> iso_limits \<Rightarrow> stream_preset \<Rightarrow> plan_device \<times> u8 list \<Rightarrow> bool \<times> cis_plan list option" where
  "device_layout prefer lim p di =
     (let (d, ids) = di;
          one = device_supports d p 1;
          one_fits = sdu_fits lim (unat (sp_octets p));
          long1 = (one \<and> \<not> one_fits);
          lr = sink_locations d AND (LOCATION_FRONT_LEFT OR LOCATION_FRONT_RIGHT)
      in if count_ones lr = 2 then
           let two_ok = device_supports d p 2;
               two = (two_ok \<and> sdu_fits lim (2 * unat (sp_octets p)));
               split = (one \<and> one_fits \<and> 2 \<le> length ids);
               long2 = (long1 \<or> two_ok \<and> \<not> two)
           in (long2,
               if two \<and> (prefer \<or> \<not> split) then Some [add_cis d (ids ! 0) [LOCATION_FRONT_LEFT, LOCATION_FRONT_RIGHT]]
               else if split then Some [add_cis d (ids ! 0) [LOCATION_FRONT_LEFT], add_cis d (ids ! 1) [LOCATION_FRONT_RIGHT]]
               else if one \<and> one_fits then Some [add_cis d (ids ! 0) [LOCATION_MONO]]
               else None)
         else (long1,
               if one \<and> one_fits then Some [add_cis d (ids ! 0) [if count_ones lr = 1 then lr else LOCATION_MONO]]
               else None))"

fun layout :: "bool \<Rightarrow> iso_limits \<Rightarrow> stream_preset \<Rightarrow> (plan_device \<times> u8 list) list \<Rightarrow> bool \<Rightarrow> cis_plan list \<Rightarrow> bool \<times> cis_plan list option" where
  "layout prefer lim p [] too_long cis = (too_long, Some cis)"
| "layout prefer lim p (di # dis) too_long cis =
     (case device_layout prefer lim p di of
        (long, None) \<Rightarrow> (too_long \<or> long, None)
      | (long, Some cs) \<Rightarrow> layout prefer lim p dis (too_long \<or> long) (cis @ cs))"

fun choose_preset :: "bool \<Rightarrow> iso_limits \<Rightarrow> preset_table \<Rightarrow> (plan_device \<times> u8 list) list \<Rightarrow> nat \<Rightarrow> string list \<Rightarrow> bool \<Rightarrow> bool
    \<Rightarrow> bool \<times> bool \<times> (stream_preset \<times> cis_plan list) option" where
  "choose_preset prefer lim t dis max_cis [] too_long too_many = (too_long, too_many, None)"
| "choose_preset prefer lim t dis max_cis (name # names) too_long too_many =
     (case preset_find t name of
        None \<Rightarrow> choose_preset prefer lim t dis max_cis names too_long too_many
      | Some p \<Rightarrow>
          (case layout prefer lim p dis too_long [] of
             (long, None) \<Rightarrow> choose_preset prefer lim t dis max_cis names long too_many
           | (long, Some cis) \<Rightarrow>
               if max_cis < length cis then choose_preset prefer lim t dis max_cis names long True
               else (long, too_many, Some (p, cis))))"

fun find_sink_ases :: "plan_device list \<Rightarrow> string + (plan_device \<times> u8 list) list" where
  "find_sink_ases [] = Inr []"
| "find_sink_ases (d # ds) =
     (let ids = sort (map ase_id (filter ase_sink (pd_ases d)))
      in if ids = [] then Inl (pd_name d @ '': no sink ASE (not an LE Audio sink?)'')
         else case find_sink_ases ds of Inl e \<Rightarrow> Inl e | Inr r \<Rightarrow> Inr ((d, ids) # r))"

definition has_location :: "cis_plan list \<Rightarrow> u32 \<Rightarrow> bool" where
  "has_location cis loc = list_ex (\<lambda>c. list_ex (\<lambda>ch. cp_allocation ch = loc) (pl_channels c)) cis"

definition channel_source_of :: "bool \<Rightarrow> u32 \<Rightarrow> channel_source" where
  "channel_source_of stereo loc =
     (if loc = LOCATION_FRONT_LEFT \<and> stereo then SrcLeft
      else if loc = LOCATION_FRONT_RIGHT \<and> stereo then SrcRight else SrcMono)"

definition assign_sources :: "cis_plan list \<Rightarrow> cis_plan list" where
  "assign_sources cis =
     (let stereo = (has_location cis LOCATION_FRONT_LEFT \<and> has_location cis LOCATION_FRONT_RIGHT)
      in map (\<lambda>(i, c). c\<lparr> pl_cis_id := of_nat i,
                pl_channels := map (\<lambda>ch. ch\<lparr>cp_source := channel_source_of stereo (cp_allocation ch)\<rparr>) (pl_channels c) \<rparr>)
           (zip [0..<length cis] cis))"

definition plan_stream :: "plan_device list \<Rightarrow> le_request \<Rightarrow> preset_table \<Rightarrow> iso_limits \<Rightarrow> string + stream_plan" where
  "plan_stream devices request presets lim =
     (if devices = [] then Inl ''no device''
      else if iso_packet_length lim = 0 \<or> iso_packet_count lim = 0
      then Inl ''the Bluetooth adapter reports no ISO data buffers (no LE Audio / CIS support)''
      else let max_cis = min MAX_CIS (unat (iso_packet_count lim))
      in case find_sink_ases devices of
           Inl e \<Rightarrow> Inl e
         | Inr dis \<Rightarrow>
             (case choose_preset (prefer_two_channel_ase request) lim presets dis max_cis (preset_order request) False False of
                (too_long, too_many, None) \<Rightarrow>
                  Inl (if too_many
                       then ''the group needs more CIS than the adapter can take ('' @ show_nat max_cis @ '')''
                       else if too_long
                       then ''no LC3 configuration of the devices fits the adapter'' @ [CHR 0x27] @ ''s ISO packets ('' @
                            show_nat (unat (iso_packet_length lim)) @ '' bytes)''
                       else ''no LC3 configuration supported by all devices (sink PAC records)'')
              | (_, _, Some (p, cis)) \<Rightarrow>
                  Inr \<lparr> sn_preset = p, sn_cig_id = 1, sn_phy = target_phy request,
                        sn_requested_contexts = rq_contexts request,
                        sn_contexts = choose_streaming_contexts (map available_sink_contexts devices) (rq_contexts request),
                        sn_presentation_delay_us = sp_presentation_delay_us p, sn_cis = assign_sources cis \<rparr>))"

definition codec_config_ltvs :: "stream_plan \<Rightarrow> cis_plan \<Rightarrow> bytes" where
  "codec_config_ltvs plan c =
     (let p = sn_preset plan; alloc = cis_allocation c in
      ltv_put CFG_SAMPLING_FREQUENCY [sf_hz_to_code (sp_sampling_hz p)] @
      ltv_put CFG_FRAME_DURATION [if sp_frame_us p = 7500 then 0x00 else 0x01] @
      (if alloc \<noteq> 0 then ltv_put CFG_CHANNEL_ALLOCATION (le32_bytes alloc) else []) @
      ltv_put CFG_OCTETS_PER_FRAME (le16_bytes (sp_octets p)) @
      ltv_put CFG_FRAME_BLOCKS_PER_SDU [1])"

subsection \<open>The layout of a preset\<close>

definition cis_ok :: "stream_preset \<Rightarrow> iso_limits \<Rightarrow> plan_device \<times> u8 list \<Rightarrow> cis_plan \<Rightarrow> bool" where
  "cis_ok p lim di c \<longleftrightarrow>
     (case di of (d, ids) \<Rightarrow>
        pl_device_id c = pd_id d \<and> pl_acl c = pd_acl d \<and> pl_ase_id c \<in> set ids \<and>
        device_supports d p (length (pl_channels c)) \<and> sdu_fits lim (length (pl_channels c) * unat (sp_octets p)))"

lemma device_layout_ok:
  assumes "device_layout prefer lim p di = (long, Some cs)" "snd di \<noteq> []"
  shows "cs \<noteq> [] \<and> length cs \<le> 2 \<and> list_all (cis_ok p lim di) cs"
proof (cases di)
  case (Pair d ids)
  then obtain i0 where i0: "ids ! 0 \<in> set ids" using assms(2) by (cases ids) auto
  have i1: "2 \<le> length ids \<Longrightarrow> ids ! Suc 0 \<in> set ids" by simp
  show ?thesis
    using assms i0 i1
    by (auto simp: device_layout_def Pair Let_def cis_ok_def add_cis_def numeral_2_eq_2 split: if_splits)
qed

lemma device_layout_exists:
  assumes "device_supports (fst di) p 1" "sdu_fits lim (unat (sp_octets p))"
  shows "\<exists>cs. snd (device_layout prefer lim p di) = Some cs"
  using assms by (cases di) (simp add: device_layout_def Let_def)

definition layout_of :: "bool \<Rightarrow> iso_limits \<Rightarrow> stream_preset \<Rightarrow> (plan_device \<times> u8 list) list \<Rightarrow> cis_plan list option" where
  "layout_of prefer lim p dis =
     (if list_all (\<lambda>di. snd (device_layout prefer lim p di) \<noteq> None) dis
      then Some (concat (map (\<lambda>di. the (snd (device_layout prefer lim p di))) dis)) else None)"

lemma layout_snd:
  "snd (layout prefer lim p dis long cis) = map_option (\<lambda>x. cis @ x) (layout_of prefer lim p dis)"
proof (induction dis arbitrary: long cis)
  case (Cons di dis)
  obtain l r where d: "device_layout prefer lim p di = (l, r)" by fastforce
  show ?case
  proof (cases r)
    case None
    then show ?thesis by (simp add: d layout_of_def)
  next
    case (Some cs)
    then show ?thesis using Cons.IH [of "long \<or> l" "cis @ cs"] by (simp add: d layout_of_def)
  qed
qed (simp add: layout_of_def)

definition suits :: "bool \<Rightarrow> iso_limits \<Rightarrow> preset_table \<Rightarrow> (plan_device \<times> u8 list) list \<Rightarrow> nat \<Rightarrow> string
    \<Rightarrow> (stream_preset \<times> cis_plan list) option" where
  "suits prefer lim t dis mx name =
     (case preset_find t name of
        None \<Rightarrow> None
      | Some p \<Rightarrow> (case layout_of prefer lim p dis of
                    None \<Rightarrow> None | Some cis \<Rightarrow> if length cis \<le> mx then Some (p, cis) else None))"

lemma choose_preset_suits:
  "snd (snd (choose_preset prefer lim t dis mx names long many)) =
     (case List.find (\<lambda>n. suits prefer lim t dis mx n \<noteq> None) names of
        None \<Rightarrow> None | Some n \<Rightarrow> suits prefer lim t dis mx n)"
proof (induction names arbitrary: long many)
  case (Cons name names)
  show ?case
  proof (cases "preset_find t name")
    case None
    then show ?thesis using Cons.IH by (simp add: suits_def)
  next
    case (Some p)
    obtain l r where lay: "layout prefer lim p dis long [] = (l, r)" by fastforce
    then have r: "r = layout_of prefer lim p dis" using layout_snd [where cis = "[]" and long = long]
      by (cases "layout_of prefer lim p dis") (auto simp: prod_eq_iff)
    show ?thesis
    proof (cases r)
      case None
      then show ?thesis using Cons.IH r Some lay by (simp add: suits_def)
    next
      case (Some cis)
      then show ?thesis
        using Cons.IH r \<open>preset_find t name = Some p\<close> lay by (simp add: suits_def not_less)
    qed
  qed
qed simp

lemma layout_of_Some:
  assumes "layout_of prefer lim p dis = Some cis" "list_all (\<lambda>di. snd di \<noteq> []) dis"
  shows "length cis \<le> 2 * length dis" and "dis \<noteq> [] \<Longrightarrow> cis \<noteq> []"
    and "\<forall>c\<in>set cis. \<exists>di\<in>set dis. cis_ok p lim di c"
    and "\<forall>di\<in>set dis. \<exists>c\<in>set cis. cis_ok p lim di c"
proof -
  define f where "f di = the (snd (device_layout prefer lim p di))" for di
  have cis: "cis = concat (map f dis)" and all: "\<forall>di\<in>set dis. snd (device_layout prefer lim p di) \<noteq> None"
    using assms(1) by (simp_all add: layout_of_def f_def [abs_def] list_all_iff split: if_splits)
  have ex: "\<exists>l. device_layout prefer lim p di = (l, Some (f di))" if "di \<in> set dis" for di
    using all that by (cases "device_layout prefer lim p di") (auto simp: f_def)
  have ok: "f di \<noteq> [] \<and> length (f di) \<le> 2 \<and> list_all (cis_ok p lim di) (f di)" if di: "di \<in> set dis" for di
  proof -
    obtain l where "device_layout prefer lim p di = (l, Some (f di))" using ex [OF di] by blast
    moreover have "snd di \<noteq> []" using assms(2) di by (simp add: list_all_iff)
    ultimately show ?thesis by (rule device_layout_ok)
  qed
  show "length cis \<le> 2 * length dis"
    using ok unfolding cis by (induction dis) fastforce+
  show "cis \<noteq> []" if "dis \<noteq> []"
    using that ok unfolding cis by (cases dis) auto
  show "\<forall>c\<in>set cis. \<exists>di\<in>set dis. cis_ok p lim di c"
    using ok unfolding cis by (fastforce simp: list_all_iff)
  show "\<forall>di\<in>set dis. \<exists>c\<in>set cis. cis_ok p lim di c"
    using ok unfolding cis by (auto simp: list_all_iff) (metis hd_in_set UN_I)
qed

lemma find_sink_ases_Inr:
  "find_sink_ases ds = Inr dis \<Longrightarrow>
   map fst dis = ds \<and> list_all (\<lambda>(d, ids). ids \<noteq> [] \<and> set ids = ase_id ` {a \<in> set (pd_ases d). ase_sink a}) dis"
  by (induction ds arbitrary: dis) (auto simp: Let_def split: if_splits sum.splits)

lemma find_sink_ases_ok: "list_all (\<lambda>d. list_ex ase_sink (pd_ases d)) ds \<Longrightarrow> \<exists>dis. find_sink_ases ds = Inr dis"
proof (induction ds)
  case (Cons d ds)
  then have "sort (map ase_id (filter ase_sink (pd_ases d))) \<noteq> []"
    by (auto simp: list_ex_iff filter_empty_conv simp flip: set_empty)
  moreover obtain dis where "find_sink_ases ds = Inr dis" using Cons by auto
  ultimately show ?case by (simp add: Let_def)
qed simp

subsection \<open>Sources and ids\<close>

lemma assign_sources_length [simp]: "length (assign_sources cis) = length cis"
  by (simp add: assign_sources_def Let_def)

lemma assign_sources_nth:
  assumes "i < length cis"
  shows "assign_sources cis ! i =
    (cis ! i)\<lparr> pl_cis_id := of_nat i,
       pl_channels := map (\<lambda>ch. ch\<lparr>cp_source := channel_source_of
         (has_location cis LOCATION_FRONT_LEFT \<and> has_location cis LOCATION_FRONT_RIGHT) (cp_allocation ch)\<rparr>)
         (pl_channels (cis ! i)) \<rparr>"
  using assms by (simp add: assign_sources_def Let_def)

lemma assign_sources_mem:
  "c \<in> set (assign_sources cis) \<Longrightarrow> \<exists>d \<in> set cis. pl_device_id c = pl_device_id d \<and> pl_acl c = pl_acl d \<and>
     pl_ase_id c = pl_ase_id d \<and> length (pl_channels c) = length (pl_channels d)"
proof -
  assume "c \<in> set (assign_sources cis)"
  then obtain i where "i < length cis" "c = assign_sources cis ! i" by (metis assign_sources_length in_set_conv_nth)
  then show ?thesis by (intro bexI [of _ "cis ! i"]) (simp_all add: assign_sources_nth)
qed

lemma assign_sources_mem_rev:
  "d \<in> set cis \<Longrightarrow> \<exists>c \<in> set (assign_sources cis). pl_device_id c = pl_device_id d"
proof -
  assume "d \<in> set cis"
  then obtain i where "i < length cis" "d = cis ! i" by (metis in_set_conv_nth)
  then have "assign_sources cis ! i \<in> set (assign_sources cis)"
    "pl_device_id (assign_sources cis ! i) = pl_device_id d" by (simp, simp add: assign_sources_nth)
  then show ?thesis by blast
qed

lemma assign_sources_ids: "map pl_cis_id (assign_sources cis) = map of_nat [0..<length cis]"
  by (rule nth_equalityI) (simp_all add: assign_sources_nth)

lemma assign_sources_location: "has_location (assign_sources cis) loc = has_location cis loc"
proof -
  have "(\<exists>ch\<in>set (pl_channels (assign_sources cis ! i)). cp_allocation ch = loc) =
      (\<exists>ch\<in>set (pl_channels (cis ! i)). cp_allocation ch = loc)" if "i < length cis" for i
    using that by (simp add: assign_sources_nth)
  then show ?thesis
    by (auto simp: has_location_def list_ex_iff in_set_conv_nth Bex_def) blast+
qed

lemma assign_sources_source:
  assumes "c \<in> set (assign_sources cis)" "ch \<in> set (pl_channels c)"
  shows "cp_source ch = channel_source_of
    (has_location cis LOCATION_FRONT_LEFT \<and> has_location cis LOCATION_FRONT_RIGHT) (cp_allocation ch)"
  using assms by (auto simp: in_set_conv_nth [of c] assign_sources_nth)

lemma sdu_len_unat:
  assumes "sdu_fits lim (length (pl_channels c) * unat o')"
  shows "unat (sdu_len c o') = length (pl_channels c) * unat o'"
proof -
  have lt: "length (pl_channels c) * unat o' < 65536"
    using assms unsigned_less [of "iso_packet_length lim", where ?'a = nat] by (simp add: sdu_fits_def)
  have "unat (sdu_len c o') = unat o' * (length (pl_channels c) mod 65536) mod 65536"
    by (simp add: sdu_len_def unat_word_ariths unat_of_nat)
  also have "\<dots> = length (pl_channels c) * unat o'" using lt by (simp add: mod_mult_right_eq mult.commute)
  finally show ?thesis .
qed

subsection \<open>Planning\<close>

lemma plan_stream_Inr:
  assumes "plan_stream devices request presets lim = Inr plan"
  obtains dis p cis n where "find_sink_ases devices = Inr dis"
    "List.find (\<lambda>n. suits (prefer_two_channel_ase request) lim presets dis (min MAX_CIS (unat (iso_packet_count lim))) n \<noteq> None)
       (preset_order request) = Some n"
    "suits (prefer_two_channel_ase request) lim presets dis (min MAX_CIS (unat (iso_packet_count lim))) n = Some (p, cis)"
    "sn_preset plan = p" "sn_cis plan = assign_sources cis" "devices \<noteq> []"
proof -
  from assms obtain dis where d: "find_sink_ases devices = Inr dis" and ne: "devices \<noteq> []"
    by (auto simp: plan_stream_def Let_def split: if_splits sum.splits)
  let ?s = "suits (prefer_two_channel_ase request) lim presets dis (min MAX_CIS (unat (iso_packet_count lim)))"
  obtain a b r where ch: "choose_preset (prefer_two_channel_ase request) lim presets dis
      (min MAX_CIS (unat (iso_packet_count lim))) (preset_order request) False False = (a, b, r)"
    by (metis prod_cases3)
  have r: "r = (case List.find (\<lambda>n. ?s n \<noteq> None) (preset_order request) of None \<Rightarrow> None | Some n \<Rightarrow> ?s n)"
    using choose_preset_suits [where long = False and many = False] by (metis ch snd_conv)
  from assms d ch obtain p cis where pc: "r = Some (p, cis)" and pl: "sn_preset plan = p" "sn_cis plan = assign_sources cis"
    by (auto simp: plan_stream_def Let_def split: if_splits option.splits)
  from r pc obtain n where "List.find (\<lambda>n. ?s n \<noteq> None) (preset_order request) = Some n" "?s n = Some (p, cis)"
    by (auto split: option.splits)
  with d ne pl show thesis by (intro that) auto
qed

lemma suits_Some:
  "suits prefer' lim t dis mx n = Some (p, cis) \<Longrightarrow>
     preset_find t n = Some p \<and> layout_of prefer' lim p dis = Some cis \<and> length cis \<le> mx"
  by (auto simp: suits_def split: option.splits if_splits)

lemma find_before: "P x \<Longrightarrow> \<exists>y. List.find P (xs @ x # ys) = Some y \<and> y \<in> set (xs @ [x])"
  by (induction xs) auto

subsection \<open>Properties\<close>

text \<open>C36. A plan is within what was asked for and what the devices and the controller offer: its preset is one
  of the requested order; it has at least one CIS, at most four and at most one per controller buffer, with
  the ids 0, 1, 2, ...; each CIS goes to a sink ASE of one of the devices that has a PAC record for the preset
  with that number of channels, and its SDU with the 4 octets of its header fits one ISO packet (the 16-bit
  length does not wrap); every device gets a CIS; and left and right sources are used only when the plan has
  both front locations.\<close>

theorem plan_stream_sound:
  assumes "plan_stream devices request presets lim = Inr plan"
  shows "(\<exists>n\<in>set (preset_order request). preset_find presets n = Some (sn_preset plan)) \<and>
    0 < length (sn_cis plan) \<and> length (sn_cis plan) \<le> min 4 (unat (iso_packet_count lim)) \<and>
    map pl_cis_id (sn_cis plan) = map of_nat [0..<length (sn_cis plan)] \<and>
    (\<forall>c\<in>set (sn_cis plan).
       unat (sdu_len c (sp_octets (sn_preset plan))) + 4 \<le> unat (iso_packet_length lim) \<and>
       (\<exists>d\<in>set devices. pl_device_id c = pd_id d \<and> pl_acl c = pd_acl d \<and>
          (\<exists>a\<in>set (pd_ases d). ase_sink a \<and> ase_id a = pl_ase_id c) \<and>
          device_supports d (sn_preset plan) (length (pl_channels c)))) \<and>
    (\<forall>d\<in>set devices. \<exists>c\<in>set (sn_cis plan). pl_device_id c = pd_id d) \<and>
    (\<forall>c\<in>set (sn_cis plan). \<forall>ch\<in>set (pl_channels c).
       cp_source ch = channel_source_of (has_location (sn_cis plan) LOCATION_FRONT_LEFT \<and>
         has_location (sn_cis plan) LOCATION_FRONT_RIGHT) (cp_allocation ch))"
  using assms
proof (rule plan_stream_Inr)
  fix dis p cis n
  assume d: "find_sink_ases devices = Inr dis" and ne: "devices \<noteq> []"
    and n: "List.find (\<lambda>n. suits (prefer_two_channel_ase request) lim presets dis
        (min MAX_CIS (unat (iso_packet_count lim))) n \<noteq> None) (preset_order request) = Some n"
    and s: "suits (prefer_two_channel_ase request) lim presets dis (min MAX_CIS (unat (iso_packet_count lim))) n = Some (p, cis)"
    and pl: "sn_preset plan = p" "sn_cis plan = assign_sources cis"
  note sp = suits_Some [OF s]
  note fs = find_sink_ases_Inr [OF d]
  have nonempty: "list_all (\<lambda>di. snd di \<noteq> []) dis" using fs by (auto simp: list_all_iff)
  note lay = layout_of_Some [OF sp [THEN conjunct2, THEN conjunct1] nonempty]
  have dis: "dis \<noteq> []" using fs ne by auto
  have c_ok: "\<exists>di\<in>set dis. cis_ok p lim di c" if "c \<in> set (assign_sources cis)" for c
    using assign_sources_mem [OF that] lay(3) by (fastforce simp: cis_ok_def split: prod.splits)
  have each: "unat (sdu_len c (sp_octets p)) + 4 \<le> unat (iso_packet_length lim) \<and>
      (\<exists>d\<in>set devices. pl_device_id c = pd_id d \<and> pl_acl c = pd_acl d \<and>
         (\<exists>a\<in>set (pd_ases d). ase_sink a \<and> ase_id a = pl_ase_id c) \<and> device_supports d p (length (pl_channels c)))"
    if c: "c \<in> set (assign_sources cis)" for c
  proof -
    obtain d ids where di: "(d, ids) \<in> set dis" "cis_ok p lim (d, ids) c" using c_ok [OF c] by auto
    have "d \<in> set devices" using fs di(1) by force
    moreover have "set ids = ase_id ` {a \<in> set (pd_ases d). ase_sink a}" using fs di(1) by (auto simp: list_all_iff)
    moreover have "unat (sdu_len c (sp_octets p)) + 4 \<le> unat (iso_packet_length lim)"
      using di(2) sdu_len_unat by (auto simp: cis_ok_def sdu_fits_def)
    moreover obtain a where "a \<in> set (pd_ases d)" "ase_sink a" "ase_id a = pl_ase_id c"
      using calculation(2) di(2) by (auto simp: cis_ok_def)
    ultimately show ?thesis using di(2) unfolding cis_ok_def prod.case by blast
  qed
  have all: "\<exists>c\<in>set (assign_sources cis). pl_device_id c = pd_id d" if dv: "d \<in> set devices" for d
  proof -
    obtain ids where "(d, ids) \<in> set dis" using fs dv by force
    then obtain c where "c \<in> set cis" "pl_device_id c = pd_id d" using lay(4) by (auto simp: cis_ok_def)
    then show ?thesis using assign_sources_mem_rev [of c] by auto
  qed
  have "n \<in> set (preset_order request)" using find_mem [OF n] by blast
  moreover have "0 < length cis" "length cis \<le> min 4 (unat (iso_packet_count lim))"
    using lay(2) dis sp by (simp_all add: MAX_CIS_def)
  ultimately show ?thesis
    using sp each all assign_sources_ids assign_sources_source by (auto simp: pl assign_sources_location)
qed

text \<open>C37. Planning succeeds when it can, and takes the best preset it can: with at least one device, each with
  a sink ASE, and controller buffers, if some preset of the requested order is known, every device takes it
  with one channel, its frame fits an ISO packet, and there are two CIS per device to spare, then there is a
  plan, and its preset comes no later in the order.\<close>

theorem plan_stream_complete:
  assumes "devices \<noteq> []" and "list_all (\<lambda>d. list_ex ase_sink (pd_ases d)) devices"
    and "2 * length devices \<le> min 4 (unat (iso_packet_count lim))"
    and "preset_order request = before @ n # after" and "preset_find presets n = Some p"
    and "list_all (\<lambda>d. device_supports d p 1) devices"
    and "unat (sp_octets p) + 4 \<le> unat (iso_packet_length lim)"
  shows "\<exists>plan n'. plan_stream devices request presets lim = Inr plan \<and> n' \<in> set (before @ [n]) \<and>
    preset_find presets n' = Some (sn_preset plan)"
proof -
  obtain dis where d: "find_sink_ases devices = Inr dis" using find_sink_ases_ok [OF assms(2)] by blast
  note fs = find_sink_ases_Inr [OF d]
  have len: "length dis = length devices" using fs by (metis length_map)
  have nz: "iso_packet_length lim \<noteq> 0" "iso_packet_count lim \<noteq> 0" using assms(1,3,7) by auto
  let ?mx = "min MAX_CIS (unat (iso_packet_count lim))"
  let ?s = "suits (prefer_two_channel_ase request) lim presets dis ?mx"
  have "\<exists>cs. snd (device_layout (prefer_two_channel_ase request) lim p di) = Some cs" if "di \<in> set dis" for di
  proof (rule device_layout_exists)
    have "fst di \<in> set devices" using fs that by force
    then show "device_supports (fst di) p 1" using assms(6) by (simp add: list_all_iff)
    show "sdu_fits lim (unat (sp_octets p))" using assms(7) by (simp add: sdu_fits_def)
  qed
  then obtain cis where lay: "layout_of (prefer_two_channel_ase request) lim p dis = Some cis"
    by (auto simp: layout_of_def list_all_iff)
  have nonempty: "list_all (\<lambda>di. snd di \<noteq> []) dis" using fs by (auto simp: list_all_iff)
  have "?s n = Some (p, cis)"
    using layout_of_Some(1) [OF lay nonempty] lay assms(3,5) len by (simp add: suits_def MAX_CIS_def)
  then obtain n' where n': "List.find (\<lambda>n. ?s n \<noteq> None) (before @ n # after) = Some n'" "n' \<in> set (before @ [n])"
    using find_before [of "\<lambda>n. ?s n \<noteq> None" n before "after"] by auto
  then obtain p' cis' where s': "?s n' = Some (p', cis')" using find_mem by fastforce
  obtain a b where "choose_preset (prefer_two_channel_ase request) lim presets dis ?mx (preset_order request) False False =
      (a, b, Some (p', cis'))"
  proof -
    have "snd (snd (choose_preset (prefer_two_channel_ase request) lim presets dis ?mx (preset_order request) False False)) =
        Some (p', cis')"
      unfolding choose_preset_suits assms(4) n'(1) option.case by (rule s')
    then show thesis using that by (metis prod.collapse)
  qed
  then have "\<exists>plan. plan_stream devices request presets lim = Inr plan \<and> sn_preset plan = p'"
    using assms(1) nz by (simp add: plan_stream_def d Let_def)
  then show ?thesis using n'(2) suits_Some [OF s'] by blast
qed

text \<open>C38. The Codec Specific Configuration of a CIS reads back as the plan: the sampling frequency code (which
  decodes to the preset's rate for every rate LC3 defines a code for), the frame duration, the allocation of
  its channels (absent for mono), the octets per frame and one frame block per SDU.\<close>

theorem codec_config_roundtrip:
  "let cfg = codec_config_ltvs plan c; p = sn_preset plan in
     ltv_find cfg CFG_SAMPLING_FREQUENCY = Some [sf_hz_to_code (sp_sampling_hz p)] \<and>
     sf_code_to_hz (sf_hz_to_code (sp_sampling_hz p)) =
       (if sp_sampling_hz p \<in> {8000, 16000, 24000, 32000, 44100, 48000} then sp_sampling_hz p else 0) \<and>
     ltv_find cfg CFG_FRAME_DURATION = Some [if sp_frame_us p = 7500 then 0 else 1] \<and>
     ltv_find cfg CFG_CHANNEL_ALLOCATION =
       (if cis_allocation c = 0 then None else Some (le32_bytes (cis_allocation c))) \<and>
     map_option rd16 (ltv_find cfg CFG_OCTETS_PER_FRAME) = Some (sp_octets p) \<and>
     ltv_find cfg CFG_FRAME_BLOCKS_PER_SDU = Some [1]"
proof -
  have tail: "ltv_find (ltv_put t v) t' = (if t' = t then Some v else None)" if "length v \<le> 254" for t v t'
    using ltv_find_put [OF that, of t "[]" t'] by simp
  have rd: "rd16 (le16_bytes w) = w" for w by (simp add: rd16_def le16_bytes_def)
  have sf: "sf_code_to_hz (sf_hz_to_code hz) = (if hz \<in> {8000, 16000, 24000, 32000, 44100, 48000} then hz else 0)" for hz
    by (simp add: sf_code_to_hz_def sf_hz_to_code_def)
  show ?thesis
    unfolding Let_def by (simp add: codec_config_ltvs_def Let_def ltv_find_put tail rd sf le_consts)
qed

subsection \<open>Witnesses\<close>

definition example_device :: plan_device where
  "example_device =
     \<lparr> pd_id = 1, pd_name = ''earbud'', pd_acl = 0x40,
       sink_pacs = [\<lparr> pr_codec_id = [6, 0, 0, 0, 0], pr_lc3 = True,
         pr_caps = \<lparr> sampling_frequencies = 0x80, frame_durations = 2, channel_counts = 1, min_octets = 26,
                     max_octets = 155, max_frames_per_sdu = 1 \<rparr>,
         pr_capabilities = [], pr_metadata = [], pr_preferred_contexts = 0 \<rparr>],
       sink_locations = 1, available_sink_contexts = 4, pd_ases = [default_ase\<lparr>ase_id := 3\<rparr>] \<rparr>"

definition example_limits :: iso_limits where
  "example_limits = \<lparr> iso_packet_length = 251, iso_packet_count = 8 \<rparr>"

lemma example_supported: "device_supports example_device (make_preset ''48_6_2'' 48000 10000 155 13 100 3) 1"
  by (simp add: device_supports_def pac_supports_def example_device_def make_preset_def Let_def le_consts bit_set_def
      sf_hz_to_cap_bit_def)

lemma example_found: "preset_find builtin_presets ''48_6_2'' = Some (make_preset ''48_6_2'' 48000 10000 155 13 100 3)"
  by (simp add: preset_find_def builtin_presets_def make_preset_def make_gr_def Let_def le_consts)

theorem plan_stream_complete_witness:
  "\<exists>plan. plan_stream [example_device] default_request builtin_presets example_limits = Inr plan \<and>
     preset_find builtin_presets ''48_6_2'' = Some (sn_preset plan)"
proof -
  have "\<exists>plan n'. plan_stream [example_device] default_request builtin_presets example_limits = Inr plan \<and>
      n' \<in> set ([] @ [''48_6_2'']) \<and> preset_find builtin_presets n' = Some (sn_preset plan)"
  proof (rule plan_stream_complete)
    show "preset_order default_request = [] @ ''48_6_2'' # tl DEFAULT_PRESET_ORDER"
      by (simp add: default_request_def DEFAULT_PRESET_ORDER_def)
    show "preset_find builtin_presets ''48_6_2'' = Some (make_preset ''48_6_2'' 48000 10000 155 13 100 3)"
      by (rule example_found)
    show "list_all (\<lambda>d. device_supports d (make_preset ''48_6_2'' 48000 10000 155 13 100 3) 1) [example_device]"
      using example_supported by simp
  qed (simp_all add: example_device_def example_limits_def default_ase_def make_preset_def)
  then show ?thesis by simp
qed

theorem plan_stream_sound_witness:
  "\<exists>plan. plan_stream [example_device] default_request builtin_presets example_limits = Inr plan \<and>
     map pl_cis_id (sn_cis plan) = map of_nat [0..<length (sn_cis plan)] \<and>
     (\<exists>c\<in>set (sn_cis plan). pl_device_id c = 1)"
proof -
  have "\<exists>cis. layout_of True example_limits (make_preset ''48_6_2'' 48000 10000 155 13 100 3) [(example_device, [3])] = Some cis \<and> length cis \<le> 4"
    using example_supported
    by (simp add: layout_of_def device_layout_def Let_def sdu_fits_def example_limits_def)
      (simp add: example_device_def count_ones_def le_consts make_preset_def upt_rec)
  then obtain cis where l: "layout_of True example_limits (make_preset ''48_6_2'' 48000 10000 155 13 100 3) [(example_device, [3])] = Some cis"
    "length cis \<le> 4" by blast
  have d: "find_sink_ases [example_device] = Inr [(example_device, [3])]"
    by (simp add: example_device_def default_ase_def)
  have "snd (snd (choose_preset True example_limits builtin_presets [(example_device, [3])] 4 DEFAULT_PRESET_ORDER False False)) =
      Some (make_preset ''48_6_2'' 48000 10000 155 13 100 3, cis)"
    unfolding choose_preset_suits by (simp add: DEFAULT_PRESET_ORDER_def suits_def example_found l)
  then obtain a b where "choose_preset True example_limits builtin_presets [(example_device, [3])] 4 DEFAULT_PRESET_ORDER False False =
      (a, b, Some (make_preset ''48_6_2'' 48000 10000 155 13 100 3, cis))"
    by (metis prod.collapse)
  then obtain plan where p: "plan_stream [example_device] default_request builtin_presets example_limits = Inr plan"
    using d by (simp add: plan_stream_def Let_def MAX_CIS_def default_request_def example_limits_def)
  have "pd_id example_device = 1" by (simp add: example_device_def)
  with plan_stream_sound [OF p] p show ?thesis by auto
qed

end
