(* ===== verification/Sdu_Queue.thy ===== *)
theory Sdu_Queue
  imports BC_Prelude "HOL-Library.Sublist"
begin

text \<open>
  The jitter buffer of SDU sets between the encode thread and the sender, and the send guard,
  \<^verbatim>\<open>app/src/crates/le-audio/src/sdu_queue.rs\<close>. The two threads share the buffer behind a mutex, so a
  run is a sequence of whole operations in any order. The counters are \<^verbatim>\<open>u64\<close> in the code and
  natural numbers here: at one set per 7.5 ms they do not come near their bound.

  Shown: no set is lost or reordered except the oldest ones dropped from a full buffer, the counters
  account for every set, the buffer and its prefill stay within bounds so that audio always resumes,
  and the guard's due time is exactly when it lets the next round start.
\<close>

type_synonym sdu_set = "bytes list"

definition CAPACITY :: nat where "CAPACITY = 16"
definition LOGGED_UNDERRUNS :: nat where "LOGGED_UNDERRUNS = 10"
definition PREFILL_EXTRA :: nat where "PREFILL_EXTRA = 3"
definition PREFILL_GROWTH :: nat where "PREFILL_GROWTH = 4"
definition SPARE_EXTRA :: nat where "SPARE_EXTRA = 4"

lemmas queue_consts = CAPACITY_def LOGGED_UNDERRUNS_def PREFILL_EXTRA_def PREFILL_GROWTH_def SPARE_EXTRA_def

record queue_stats =
  sets_pushed :: nat
  sets_popped :: nat
  silence_sets :: nat
  underruns :: nat
  overflows :: nat

definition no_stats :: queue_stats where
  "no_stats = \<lparr> sets_pushed = 0, sets_popped = 0, silence_sets = 0, underruns = 0, overflows = 0 \<rparr>"

record underrun =
  ur_set :: nat
  ur_underruns :: nat
  ur_prefill :: nat

definition underrun_message :: "underrun \<Rightarrow> string" where
  "underrun_message u =
     ''LE Audio: no audio for SDU set '' @ show_nat (ur_set u) @ '' (underrun '' @ show_nat (ur_underruns u) @
     ''), sending silence; buffering '' @ show_nat (ur_prefill u) @ '' sets''"

record sdu_queue =
  q_sets :: "sdu_set list"
  q_silence :: sdu_set
  buffering :: bool
  q_prefill :: nat
  prefill_max :: nat
  q_stats :: queue_stats
  spares :: "sdu_set list"
  spares_capacity :: nat
  q_underrun :: "underrun option"

definition sq_new :: sdu_queue where
  "sq_new = \<lparr> q_sets = [], q_silence = [], buffering = True, q_prefill = 0, prefill_max = 0,
     q_stats = no_stats, spares = [], spares_capacity = 0, q_underrun = None \<rparr>"

definition sq_configure :: "u8 \<Rightarrow> sdu_set \<Rightarrow> sdu_queue \<Rightarrow> sdu_queue" where
  "sq_configure queue_depth silence q =
     (let pf = unat queue_depth + PREFILL_EXTRA
      in q\<lparr> q_sets := [], spares := replicate (CAPACITY + SPARE_EXTRA) silence,
            spares_capacity := max (spares_capacity q) (CAPACITY + SPARE_EXTRA),
            q_silence := silence, buffering := True, q_prefill := pf, prefill_max := pf + PREFILL_GROWTH,
            q_stats := no_stats, q_underrun := None \<rparr>)"

definition same_shape :: "sdu_set \<Rightarrow> sdu_set \<Rightarrow> bool" where
  "same_shape a b \<longleftrightarrow> length a = length b \<and> list_all (\<lambda>(x, y). length x = length y) (zip a b)"

definition sq_recycle :: "sdu_set \<Rightarrow> sdu_queue \<Rightarrow> sdu_queue" where
  "sq_recycle st q =
     (if same_shape st (q_silence q) \<and> length (spares q) < spares_capacity q
      then q\<lparr>spares := spares q @ [st]\<rparr> else q)"

definition count_push :: "queue_stats \<Rightarrow> queue_stats" where
  "count_push s = s\<lparr>sets_pushed := sets_pushed s + 1\<rparr>"

definition count_overflow :: "queue_stats \<Rightarrow> queue_stats" where
  "count_overflow s = s\<lparr>overflows := overflows s + 1\<rparr>"

definition sq_push :: "sdu_set \<Rightarrow> sdu_queue \<Rightarrow> sdu_queue" where
  "sq_push st q =
     (let q1 = q\<lparr>q_stats := count_push (q_stats q)\<rparr>;
          q2 = (case q_sets q1 of
                  old # rest \<Rightarrow>
                    if CAPACITY \<le> length (q_sets q1)
                    then sq_recycle old (q1\<lparr>q_sets := rest, q_stats := count_overflow (q_stats q1)\<rparr>)
                    else q1
                | [] \<Rightarrow> q1)
      in q2\<lparr>q_sets := q_sets q2 @ [st]\<rparr>)"

definition note_underrun :: "sdu_queue \<Rightarrow> sdu_queue" where
  "note_underrun q =
     (let st = (q_stats q)\<lparr>underruns := underruns (q_stats q) + 1\<rparr>;
          pf = (if q_prefill q < prefill_max q then q_prefill q + 1 else q_prefill q);
          ur = (if underruns st \<le> LOGGED_UNDERRUNS
                then Some \<lparr> ur_set = sets_popped st + silence_sets st, ur_underruns = underruns st, ur_prefill = pf \<rparr>
                else q_underrun q)
      in q\<lparr>buffering := True, q_stats := st, q_prefill := pf, q_underrun := ur\<rparr>)"

definition sq_pop :: "sdu_queue \<Rightarrow> sdu_queue \<times> sdu_set option" where
  "sq_pop q =
     (let q1 = (if buffering q \<and> q_prefill q \<le> length (q_sets q) then q\<lparr>buffering := False\<rparr> else q);
          silent = (\<lambda>q. (q\<lparr>q_stats := (q_stats q)\<lparr>silence_sets := silence_sets (q_stats q) + 1\<rparr>\<rparr>, None))
      in if \<not> buffering q1
         then (case q_sets q1 of
                 st # rest \<Rightarrow>
                   (q1\<lparr>q_sets := rest, q_stats := (q_stats q1)\<lparr>sets_popped := sets_popped (q_stats q1) + 1\<rparr>\<rparr>, Some st)
               | [] \<Rightarrow> silent (note_underrun q1))
         else silent q1)"

definition take_underrun :: "sdu_queue \<Rightarrow> sdu_queue \<times> underrun option" where
  "take_underrun q = (q\<lparr>q_underrun := None\<rparr>, q_underrun q)"

definition sq_spare :: "sdu_queue \<Rightarrow> sdu_queue \<times> sdu_set option" where
  "sq_spare q = (if spares q = [] then (q, None) else (q\<lparr>spares := butlast (spares q)\<rparr>, Some (last (spares q))))"

definition sq_clear :: "sdu_queue \<Rightarrow> sdu_queue" where
  "sq_clear q = sq_new"

subsection \<open>The send guard\<close>

record send_guard =
  sg_frame_us :: nat
  sg_lead :: nat
  sg_rounds :: nat

definition sg_new :: "nat \<Rightarrow> nat \<Rightarrow> send_guard" where
  "sg_new frame_us lead = \<lparr> sg_frame_us = max frame_us 1, sg_lead = lead, sg_rounds = 0 \<rparr>"

definition may_send :: "send_guard \<Rightarrow> nat \<Rightarrow> bool" where
  "may_send g elapsed_us \<longleftrightarrow> sg_rounds g < elapsed_us div sg_frame_us g + sg_lead g"

definition next_due_us :: "send_guard \<Rightarrow> nat" where
  "next_due_us g = (sg_rounds g + 1 - sg_lead g) * sg_frame_us g"

definition round_started :: "send_guard \<Rightarrow> send_guard" where
  "round_started g = g\<lparr>sg_rounds := sg_rounds g + 1\<rparr>"

subsection \<open>Controller queue depth\<close>

definition QUEUE_DEPTH :: u8 where "QUEUE_DEPTH = 2"

definition queue_depth :: "u8 \<Rightarrow> nat \<Rightarrow> u8" where
  "queue_depth iso_packets cis =
     (if cis = 0 then 0 else of_nat (min (unat iso_packets div cis) (unat QUEUE_DEPTH)))"

subsection \<open>Runs of the two threads\<close>

datatype queue_op = Push sdu_set | Pop | Spare | Recycle sdu_set | TakeUnderrun

fun queue_step :: "sdu_queue \<times> sdu_set option list \<Rightarrow> queue_op \<Rightarrow> sdu_queue \<times> sdu_set option list" where
  "queue_step (q, out) (Push st) = (sq_push st q, out)"
| "queue_step (q, out) Pop = (fst (sq_pop q), out @ [snd (sq_pop q)])"
| "queue_step (q, out) Spare = (fst (sq_spare q), out)"
| "queue_step (q, out) (Recycle st) = (sq_recycle st q, out)"
| "queue_step (q, out) TakeUnderrun = (fst (take_underrun q), out)"

definition queue_run :: "u8 \<Rightarrow> sdu_set \<Rightarrow> queue_op list \<Rightarrow> sdu_queue \<times> sdu_set option list" where
  "queue_run depth silence ops = foldl queue_step (sq_configure depth silence sq_new, []) ops"

fun pushed :: "queue_op list \<Rightarrow> sdu_set list" where
  "pushed [] = []"
| "pushed (Push st # ops) = st # pushed ops"
| "pushed (_ # ops) = pushed ops"

fun audio :: "'a option list \<Rightarrow> 'a list" where
  "audio [] = []"
| "audio (Some x # xs) = x # audio xs"
| "audio (None # xs) = audio xs"

lemma pushed_append [simp]: "pushed (xs @ ys) = pushed xs @ pushed ys"
  by (induction xs rule: pushed.induct) auto

lemma audio_append [simp]: "audio (xs @ ys) = audio xs @ audio ys"
  by (induction xs rule: audio.induct) auto

subsection \<open>What the operations change\<close>

lemma recycle_simps [simp]:
  "q_sets (sq_recycle st q) = q_sets q" "q_stats (sq_recycle st q) = q_stats q"
  "buffering (sq_recycle st q) = buffering q" "q_prefill (sq_recycle st q) = q_prefill q"
  "prefill_max (sq_recycle st q) = prefill_max q" "q_silence (sq_recycle st q) = q_silence q"
  "spares_capacity (sq_recycle st q) = spares_capacity q"
  by (simp_all add: sq_recycle_def)

lemma push_simps [simp]:
  "q_sets (sq_push st q) = (if CAPACITY \<le> length (q_sets q) then tl (q_sets q) else q_sets q) @ [st]"
  "buffering (sq_push st q) = buffering q" "q_prefill (sq_push st q) = q_prefill q"
  "prefill_max (sq_push st q) = prefill_max q" "q_silence (sq_push st q) = q_silence q"
  "sets_pushed (q_stats (sq_push st q)) = sets_pushed (q_stats q) + 1"
  "sets_popped (q_stats (sq_push st q)) = sets_popped (q_stats q)"
  "silence_sets (q_stats (sq_push st q)) = silence_sets (q_stats q)"
  "underruns (q_stats (sq_push st q)) = underruns (q_stats q)"
  "overflows (q_stats (sq_push st q)) =
     overflows (q_stats q) + (if CAPACITY \<le> length (q_sets q) then 1 else 0)"
  by (auto simp: sq_push_def Let_def count_push_def count_overflow_def CAPACITY_def split: list.split)

lemma take_underrun_simps [simp]:
  "q_sets (fst (take_underrun q)) = q_sets q" "q_stats (fst (take_underrun q)) = q_stats q"
  "buffering (fst (take_underrun q)) = buffering q" "q_prefill (fst (take_underrun q)) = q_prefill q"
  "prefill_max (fst (take_underrun q)) = prefill_max q" "q_silence (fst (take_underrun q)) = q_silence q"
  by (simp_all add: take_underrun_def)

lemma spare_simps [simp]:
  "q_sets (fst (sq_spare q)) = q_sets q" "q_stats (fst (sq_spare q)) = q_stats q"
  "buffering (fst (sq_spare q)) = buffering q" "q_prefill (fst (sq_spare q)) = q_prefill q"
  "prefill_max (fst (sq_spare q)) = prefill_max q" "q_silence (fst (sq_spare q)) = q_silence q"
  by (simp_all add: sq_spare_def)

lemma pop_silence [simp]: "q_silence (fst (sq_pop q)) = q_silence q"
  by (auto simp: sq_pop_def Let_def note_underrun_def split: list.split)

text \<open>The three outcomes of a pop: audio, an underrun, silence while buffering.\<close>

lemma pop_cases:
  obtains (audio) st rest where "q_sets q = st # rest" "snd (sq_pop q) = Some st" "q_sets (fst (sq_pop q)) = rest"
      "q_prefill (fst (sq_pop q)) = q_prefill q" "prefill_max (fst (sq_pop q)) = prefill_max q"
      "q_stats (fst (sq_pop q)) = (q_stats q)\<lparr>sets_popped := sets_popped (q_stats q) + 1\<rparr>"
      "\<not> buffering (fst (sq_pop q))" "buffering q \<Longrightarrow> q_prefill q \<le> length (q_sets q)"
  | (underrun) "q_sets q = []" "snd (sq_pop q) = None" "q_sets (fst (sq_pop q)) = []"
      "q_prefill (fst (sq_pop q)) = (if q_prefill q < prefill_max q then q_prefill q + 1 else q_prefill q)"
      "prefill_max (fst (sq_pop q)) = prefill_max q" "buffering (fst (sq_pop q))"
      "q_stats (fst (sq_pop q)) =
         (q_stats q)\<lparr>underruns := underruns (q_stats q) + 1, silence_sets := silence_sets (q_stats q) + 1\<rparr>"
      "buffering q \<Longrightarrow> q_prefill q = 0"
  | (wait) "buffering q" "length (q_sets q) < q_prefill q" "snd (sq_pop q) = None"
      "q_sets (fst (sq_pop q)) = q_sets q" "q_prefill (fst (sq_pop q)) = q_prefill q"
      "prefill_max (fst (sq_pop q)) = prefill_max q" "buffering (fst (sq_pop q))"
      "q_stats (fst (sq_pop q)) = (q_stats q)\<lparr>silence_sets := silence_sets (q_stats q) + 1\<rparr>"
proof (cases "buffering q \<and> length (q_sets q) < q_prefill q")
  case True
  then show thesis by (intro wait) (simp_all add: sq_pop_def Let_def)
next
  case ready: False
  show thesis
  proof (cases "q_sets q")
    case Nil
    with ready show thesis
      by (intro underrun) (auto simp: sq_pop_def Let_def note_underrun_def)
  next
    case (Cons st rest)
    with ready show thesis
      by (intro audio [of st rest]) (auto simp: sq_pop_def Let_def)
  qed
qed

subsection \<open>The invariant of a run\<close>

definition queue_inv :: "nat \<Rightarrow> sdu_set list \<Rightarrow> sdu_queue \<Rightarrow> sdu_set option list \<Rightarrow> bool" where
  "queue_inv d ps q out \<longleftrightarrow>
     subseq (audio out @ q_sets q) ps \<and> length (q_sets q) \<le> CAPACITY \<and>
     sets_pushed (q_stats q) = length ps \<and> sets_popped (q_stats q) = length (audio out) \<and>
     sets_popped (q_stats q) + silence_sets (q_stats q) = length out \<and>
     sets_pushed (q_stats q) = sets_popped (q_stats q) + overflows (q_stats q) + length (q_sets q) \<and>
     prefill_max q = d + PREFILL_EXTRA + PREFILL_GROWTH \<and>
     q_prefill q = min (d + PREFILL_EXTRA + underruns (q_stats q)) (prefill_max q)"

lemma queue_inv_frame:
  assumes "queue_inv d ps q out" "q_sets q' = q_sets q" "q_stats q' = q_stats q"
    "q_prefill q' = q_prefill q" "prefill_max q' = prefill_max q"
  shows "queue_inv d ps q' out"
  using assms by (simp add: queue_inv_def)

lemma push_inv:
  assumes "queue_inv d ps q out"
  shows "queue_inv d (ps @ [st]) (sq_push st q) out"
proof -
  have s: "subseq (audio out @ q_sets q) ps" and l: "length (q_sets q) \<le> CAPACITY"
    using assms by (simp_all add: queue_inv_def)
  have "subseq (audio out @ tl (q_sets q)) (audio out @ q_sets q)"
    by (cases "q_sets q") (simp_all only: subseq_append', auto)
  then have "subseq (audio out @ tl (q_sets q)) ps" using s subseq_order.order_trans by blast
  then have "subseq (audio out @ q_sets (sq_push st q)) (ps @ [st])"
    using s by (auto simp flip: append_assoc)
  moreover have "length (q_sets (sq_push st q)) \<le> CAPACITY"
    using l by (auto simp: CAPACITY_def)
  moreover have "length (q_sets q) = CAPACITY \<Longrightarrow> length (tl (q_sets q)) = length (q_sets q) - 1 \<and> 0 < length (q_sets q)"
    by (simp add: CAPACITY_def)
  ultimately show ?thesis
    using assms l by (auto simp: queue_inv_def)
qed

lemma pop_inv:
  assumes "queue_inv d ps q out"
  shows "queue_inv d ps (fst (sq_pop q)) (out @ [snd (sq_pop q)])"
proof (cases q rule: pop_cases)
  case (audio st rest)
  then show ?thesis using assms by (simp add: queue_inv_def)
next
  case underrun
  then show ?thesis using assms by (auto simp: queue_inv_def)
next
  case wait
  then show ?thesis using assms by (simp add: queue_inv_def)
qed

lemma configure_inv: "queue_inv (unat d) [] (sq_configure d silence q) []"
  by (simp add: queue_inv_def sq_configure_def no_stats_def queue_consts Let_def)

lemma queue_run_inv: "queue_inv (unat d) (pushed ops) (fst (queue_run d silence ops)) (snd (queue_run d silence ops))"
proof (induction ops rule: rev_induct)
  case Nil
  then show ?case by (simp add: queue_run_def configure_inv)
next
  case (snoc op ops)
  obtain q out where r: "queue_run d silence ops = (q, out)" by fastforce
  have r': "queue_run d silence (ops @ [op]) = queue_step (q, out) op"
    using r by (simp add: queue_run_def)
  have inv: "queue_inv (unat d) (pushed ops) q out" using snoc.IH by (simp add: r)
  show ?case
  proof (cases op)
    case (Push st)
    then show ?thesis using push_inv [OF inv] r' by simp
  next
    case Pop
    then show ?thesis using pop_inv [OF inv] r' by simp
  qed (use inv r' in \<open>auto elim!: queue_inv_frame\<close>)
qed

lemma queue_depth_le: "unat (queue_depth p c) \<le> 2"
proof -
  have "min (unat p div c) 2 < (256::nat)" by simp
  then show ?thesis by (simp add: queue_depth_def QUEUE_DEPTH_def unat_of_nat)
qed

lemma push_run:
  "foldl queue_step (q, out) (map Push sts) = (foldl (\<lambda>q st. sq_push st q) q sts, out)"
  by (induction sts arbitrary: q) auto

lemma pushes_fill:
  "length (q_sets q) \<le> CAPACITY \<Longrightarrow>
   length (q_sets (foldl (\<lambda>q st. sq_push st q) q sts)) = min CAPACITY (length (q_sets q) + length sts) \<and>
   q_prefill (foldl (\<lambda>q st. sq_push st q) q sts) = q_prefill q \<and>
   buffering (foldl (\<lambda>q st. sq_push st q) q sts) = buffering q"
proof (induction sts arbitrary: q)
  case (Cons st sts)
  have l: "length (q_sets (sq_push st q)) = min CAPACITY (length (q_sets q) + 1)"
    using Cons.prems by (auto simp: CAPACITY_def)
  then show ?case using Cons.IH [of "sq_push st q"] by (auto simp: CAPACITY_def)
qed simp

lemma pop_audio:
  assumes "q_sets q \<noteq> []" "buffering q \<Longrightarrow> q_prefill q \<le> length (q_sets q)"
  shows "snd (sq_pop q) = Some (hd (q_sets q))"
  using assms by (cases q rule: pop_cases) auto

subsection \<open>Properties\<close>

text \<open>C33. In every interleaving of the encode thread and the sender on a configured jitter buffer: the
  audio sets handed to the sender followed by those still waiting are a subsequence of the sets pushed,
  in order; the only sets missing are the counted overflows; every pop is counted as audio or silence;
  and the buffer never holds more than 16 sets.\<close>

theorem sdu_queue_fifo:
  "let (q, out) = queue_run depth silence ops in
     subseq (audio out @ q_sets q) (pushed ops) \<and>
     length (pushed ops) = length (audio out) + length (q_sets q) + overflows (q_stats q) \<and>
     sets_pushed (q_stats q) = length (pushed ops) \<and> sets_popped (q_stats q) = length (audio out) \<and>
     sets_popped (q_stats q) + silence_sets (q_stats q) = length out \<and> length (q_sets q) \<le> 16"
  using queue_run_inv [of depth ops silence]
  by (auto simp: queue_inv_def CAPACITY_def split: prod.split)

text \<open>C34. Audio always (re)starts: for the controller queue depth the host computes, whatever happened to
  the buffer before, the prefill is between depth + 3 and depth + 7 and below the capacity, and once that
  many more sets are pushed the next pop hands out audio.\<close>

theorem sdu_queue_resumes:
  assumes "depth = max 1 (queue_depth iso_packets cis)"
    and "q_prefill (fst (queue_run depth silence ops)) \<le> length sts"
  shows "let q = fst (queue_run depth silence ops) in
    unat depth + 3 \<le> q_prefill q \<and> q_prefill q \<le> unat depth + 7 \<and> q_prefill q \<le> 16 \<and>
    (\<exists>st. snd (sq_pop (fst (queue_run depth silence (ops @ map Push sts)))) = Some st)"
proof -
  define q where "q = fst (queue_run depth silence ops)"
  have inv: "queue_inv (unat depth) (pushed ops) q (snd (queue_run depth silence ops))"
    unfolding q_def by (rule queue_run_inv)
  have d: "unat depth \<le> 2" using queue_depth_le [of iso_packets cis] by (auto simp: assms(1) max_def)
  have p: "unat depth + 3 \<le> q_prefill q" "q_prefill q \<le> unat depth + 7" "q_prefill q \<le> CAPACITY"
    and l: "length (q_sets q) \<le> CAPACITY"
    using inv d by (auto simp: queue_inv_def queue_consts)
  define q' where "q' = foldl (\<lambda>q st. sq_push st q) q sts"
  have q': "fst (queue_run depth silence (ops @ map Push sts)) = q'"
  proof -
    obtain out where "queue_run depth silence ops = (q, out)" by (metis q_def prod.collapse)
    then show ?thesis by (simp add: queue_run_def push_run q'_def)
  qed
  note f = pushes_fill [OF l, of sts, folded q'_def]
  have "q_prefill q \<le> length (q_sets q')" using f p(3) assms(2) by (simp add: q_def)
  then have "snd (sq_pop q') = Some (hd (q_sets q'))"
    using f p(1) by (intro pop_audio) auto
  then show ?thesis using p q' by (simp add: q_def [symmetric] Let_def CAPACITY_def)
qed

theorem sdu_queue_resumes_witness:
  "(2::u8) = max 1 (queue_depth 64 2) \<and> q_prefill (fst (queue_run 2 [] [])) \<le> length (replicate 5 ([] :: sdu_set)) \<and>
   (\<exists>st. snd (sq_pop (fst (queue_run 2 [] ([] @ map Push (replicate 5 []))))) = Some st)"
proof -
  have a: "(2::u8) = max 1 (queue_depth 64 2)" by (simp add: queue_depth_def QUEUE_DEPTH_def)
  have b: "q_prefill (fst (queue_run 2 [] [])) \<le> length (replicate 5 ([] :: sdu_set))"
    by (simp add: queue_run_def sq_configure_def queue_consts Let_def)
  show ?thesis using a b sdu_queue_resumes [OF a b] unfolding Let_def by blast
qed

text \<open>The send guard lets a round start exactly from its due time on: it keeps the rounds started at
  most \<open>lead\<close> intervals ahead of the time elapsed.\<close>

lemma guard_due:
  "may_send ((round_started ^^ n) (sg_new frame_us lead)) t \<longleftrightarrow>
     next_due_us ((round_started ^^ n) (sg_new frame_us lead)) \<le> t"
proof -
  define g where "g = (round_started ^^ n) (sg_new frame_us lead)"
  have "sg_frame_us ((round_started ^^ n) h) = sg_frame_us h" for h
    by (induction n) (simp_all add: round_started_def)
  then have f: "0 < sg_frame_us g" by (simp add: g_def sg_new_def)
  have "sg_rounds g < t div sg_frame_us g + sg_lead g \<longleftrightarrow> sg_rounds g + 1 - sg_lead g \<le> t div sg_frame_us g"
    by linarith
  also have "\<dots> \<longleftrightarrow> (sg_rounds g + 1 - sg_lead g) * sg_frame_us g \<le> t"
    using f by (simp only: less_eq_div_iff_mult_less_eq)
  finally show ?thesis by (simp add: may_send_def next_due_us_def g_def)
qed

end
