(* ===== verification/Iso_Sender.thy ===== *)
theory Iso_Sender
  imports Sdu_Queue
begin

text \<open>
  ISO SDU sending on the BTstack thread, \<^verbatim>\<open>app/src/crates/bt-host/src/le/iso_send.rs\<close>: rounds of one SDU
  per CIS (or BIS) from the shared jitter buffer, with silence on an underrun, the send guard and the
  statistics. Every handler of \<^verbatim>\<open>IsoSender\<close> is a function from a sender state to a new state and the
  list of calls it makes on BTstack (the trait \<^verbatim>\<open>IsoOut\<close>); the run loop time and the status of a send
  are inputs. The jitter buffer is a field of the state: the encode thread works on the same buffer
  under the mutex. Logging and the system timer resolution are left out.

  Shown: the sequence numbers of a CIS count up without gaps, every SDU sent is the CIS's part of a set
  that was pushed or of the silence set, and the published counters account for every round, set and
  SDU.
\<close>

definition HCI_EVENT_CIS_CAN_SEND_NOW :: u8 where "HCI_EVENT_CIS_CAN_SEND_NOW = 0x6C"
definition HCI_EVENT_BIS_CAN_SEND_NOW :: u8 where "HCI_EVENT_BIS_CAN_SEND_NOW = 0x6B"
definition ERROR_CODE_SUCCESS :: u8 where "ERROR_CODE_SUCCESS = 0x00"

definition byte_at :: "bytes \<Rightarrow> nat \<Rightarrow> u8 option" where
  "byte_at p i = (if i < length p then Some (p ! i) else None)"

definition u16_at :: "bytes \<Rightarrow> nat \<Rightarrow> u16 option" where
  "u16_at p i = (if i + 1 < length p then Some (of_le16 (p ! i) (p ! (i + 1))) else None)"

definition event_is :: "bytes \<Rightarrow> u8 \<Rightarrow> bool" where
  "event_is p code \<longleftrightarrow> byte_at p 0 = Some code"

record cis_can_send =
  ev_cig_id :: u8
  ev_cis_id :: u8
  ev_cis_handle :: u16
  ev_stream_index :: u8
  ev_group_complete :: bool

definition cis_can_send_now :: "bytes \<Rightarrow> cis_can_send option" where
  "cis_can_send_now packet =
     (if \<not> event_is packet HCI_EVENT_CIS_CAN_SEND_NOW then None
      else case (byte_at packet 2, byte_at packet 3, u16_at packet 4, byte_at packet 6, byte_at packet 7) of
        (Some cig, Some cis, Some h, Some idx, Some g) \<Rightarrow>
          Some \<lparr> ev_cig_id = cig, ev_cis_id = cis, ev_cis_handle = h, ev_stream_index = idx, ev_group_complete = (g \<noteq> 0) \<rparr>
      | _ \<Rightarrow> None)"

record bis_can_send =
  ev_big_handle :: u8
  ev_bis_index :: u8
  ev_bis_handle :: "u16 option"

definition bis_can_send_now :: "bytes \<Rightarrow> bis_can_send option" where
  "bis_can_send_now packet =
     (if \<not> event_is packet HCI_EVENT_BIS_CAN_SEND_NOW then None
      else case (byte_at packet 2, byte_at packet 3) of
        (Some big, Some idx) \<Rightarrow> Some \<lparr> ev_big_handle = big, ev_bis_index = idx, ev_bis_handle = u16_at packet 4 \<rparr>
      | _ \<Rightarrow> None)"

text \<open>The calls on BTstack.\<close>

datatype iso_out =
    SetQueue u8
  | RequestCanSend u16
  | RequestBisCanSend u8
  | Send u16 u16 bytes
  | TimerStart u32
  | TimerStop

record send_counters =
  sc_sets_encoded :: nat
  sc_sets_sent :: nat
  sc_sdus_sent :: nat
  sc_silence_sets :: nat
  sc_underruns :: nat
  sc_overflows :: nat
  sc_send_errors :: nat

definition no_counters :: send_counters where
  "no_counters = \<lparr> sc_sets_encoded = 0, sc_sets_sent = 0, sc_sdus_sent = 0, sc_silence_sets = 0,
     sc_underruns = 0, sc_overflows = 0, sc_send_errors = 0 \<rparr>"

definition stopped_message :: "send_counters \<Rightarrow> string" where
  "stopped_message c =
     ''LE Audio: stopped sending: '' @ show_nat (sc_sets_sent c) @ '' SDU sets ('' @ show_nat (sc_sdus_sent c) @
     '' SDUs), '' @ show_nat (sc_silence_sets c) @ '' silence, '' @ show_nat (sc_underruns c) @ '' underruns, '' @
     show_nat (sc_overflows c) @ '' dropped''"

definition stats_message :: "send_counters \<Rightarrow> string" where
  "stats_message c =
     ''LE Audio: '' @ show_nat (sc_sets_sent c) @ '' SDU sets sent ('' @ show_nat (sc_sdus_sent c) @
     '' SDUs), '' @ show_nat (sc_sets_encoded c) @ '' encoded, '' @ show_nat (sc_silence_sets c) @ '' silence, '' @
     show_nat (sc_underruns c) @ '' underruns, '' @ show_nat (sc_overflows c) @ '' dropped, '' @
     show_nat (sc_send_errors c) @ '' send errors''"

record le_stream_stats =
  ls_counters :: send_counters
  ls_prefill :: nat

record iso_sender =
  sending :: bool
  big :: "u8 option"
  cis_handles :: "u16 list"
  seqs :: "u16 list"
  alive :: "bool list"
  served :: "bool list"
  round_open :: bool
  current :: sdu_set
  queue :: "sdu_queue option"
  guard :: send_guard
  frame_us :: nat
  t0_ms :: "u32 option"
  counters :: send_counters
  is_queue_stats :: queue_stats
  is_prefill :: nat
  guard_waits :: nat
  guard_due_ms :: "u32 option"
  guard_late_ms :: u32
  stats_out :: le_stream_stats

definition is_new :: "le_stream_stats \<Rightarrow> iso_sender" where
  "is_new out = \<lparr> sending = False, big = None, cis_handles = [], seqs = [], alive = [], served = [],
     round_open = False, current = [], queue = None, guard = \<lparr> sg_frame_us = 0, sg_lead = 0, sg_rounds = 0 \<rparr>,
     frame_us = 0, t0_ms = None, counters = no_counters, is_queue_stats = no_stats, is_prefill = 0,
     guard_waits = 0, guard_due_ms = None, guard_late_ms = 0, stats_out = out \<rparr>"

definition send_counters_of :: "iso_sender \<Rightarrow> send_counters" where
  "send_counters_of s =
     (counters s)\<lparr> sc_sets_encoded := sets_pushed (is_queue_stats s), sc_silence_sets := silence_sets (is_queue_stats s),
                   sc_underruns := underruns (is_queue_stats s), sc_overflows := overflows (is_queue_stats s) \<rparr>"

definition is_stats :: "iso_sender \<Rightarrow> le_stream_stats" where
  "is_stats s = \<lparr> ls_counters = send_counters_of s, ls_prefill = is_prefill s \<rparr>"

definition publish :: "iso_sender \<Rightarrow> iso_sender" where
  "publish s = s\<lparr>stats_out := is_stats s\<rparr>"

definition round_done :: "iso_sender \<Rightarrow> bool" where
  "round_done s \<longleftrightarrow> list_all (\<lambda>(a, sv). \<not> a \<or> sv) (zip (alive s) (served s))"

fun position :: "('a \<Rightarrow> bool) \<Rightarrow> 'a list \<Rightarrow> nat option" where
  "position P [] = None"
| "position P (x # xs) = (if P x then Some 0 else map_option Suc (position P xs))"

definition request_events :: "iso_sender \<Rightarrow> iso_out list" where
  "request_events s =
     (case big s of
        Some b \<Rightarrow> [RequestBisCanSend b]
      | None \<Rightarrow> (case position (\<lambda>a. a) (alive s) of Some i \<Rightarrow> [RequestCanSend (cis_handles s ! i)] | None \<Rightarrow> []))"

definition guard_wait_ms :: "iso_sender \<Rightarrow> nat \<Rightarrow> nat" where
  "guard_wait_ms s elapsed_ms =
     (let due_ms = next_due_us (guard s) div 1000;
          wait = (if elapsed_ms < due_ms then due_ms - elapsed_ms else frame_us s div 1000)
      in if wait < 1 then 1 else if 1000 < wait then 1000 else wait)"

definition request_next :: "u32 \<Rightarrow> iso_sender \<Rightarrow> iso_sender \<times> iso_out list" where
  "request_next now s =
     (if \<not> sending s \<or> cis_handles s = [] then (s, [])
      else let t0 = (case t0_ms s of Some t \<Rightarrow> t | None \<Rightarrow> now);
               s1 = s\<lparr>t0_ms := Some t0\<rparr>;
               elapsed_ms = unat (now - t0)
           in if may_send (guard s1) (elapsed_ms * 1000) then (s1, request_events s1)
              else let wait = guard_wait_ms s1 elapsed_ms
                   in (s1\<lparr>guard_waits := guard_waits s1 + 1, guard_due_ms := Some (now + of_nat wait)\<rparr>,
                       [TimerStart (of_nat wait)]))"

definition is_begin :: "u32 \<Rightarrow> u16 list \<Rightarrow> sdu_queue \<Rightarrow> nat \<Rightarrow> u8 \<Rightarrow> iso_sender \<Rightarrow> iso_sender \<times> iso_out list" where
  "is_begin now handles q frame depth s =
     (let n = length handles;
          s1 = publish (s\<lparr> cis_handles := handles, seqs := replicate n 0, alive := replicate n True,
                 served := replicate n False, round_open := False, current := [], queue := Some q,
                 frame_us := max frame 1, guard := sg_new (max frame 1) (unat depth + 2), t0_ms := None,
                 counters := no_counters, is_queue_stats := no_stats, is_prefill := q_prefill q,
                 guard_waits := 0, guard_due_ms := None, guard_late_ms := 0 \<rparr>);
          (s2, out) = request_next now (s1\<lparr>sending := True\<rparr>)
      in (s2, SetQueue depth # out))"

definition is_start :: "u32 \<Rightarrow> u16 list \<Rightarrow> sdu_queue \<Rightarrow> nat \<Rightarrow> u8 \<Rightarrow> iso_sender \<Rightarrow> iso_sender \<times> iso_out list" where
  "is_start now handles q frame depth s = is_begin now handles q frame depth (s\<lparr>big := None\<rparr>)"

definition is_start_big :: "u32 \<Rightarrow> u8 \<Rightarrow> u16 list \<Rightarrow> sdu_queue \<Rightarrow> nat \<Rightarrow> u8 \<Rightarrow> iso_sender \<Rightarrow> iso_sender \<times> iso_out list" where
  "is_start_big now b handles q frame depth s = is_begin now handles q frame depth (s\<lparr>big := Some b\<rparr>)"

definition is_stop :: "iso_sender \<Rightarrow> iso_sender \<times> iso_out list" where
  "is_stop s =
     (if \<not> sending s then (s, [])
      else let s1 = s\<lparr>sending := False\<rparr>;
               s2 = (case queue s1 of
                       None \<Rightarrow> s1
                     | Some q \<Rightarrow>
                         s1\<lparr> is_queue_stats := q_stats q, is_prefill := q_prefill q, current := [],
                             queue := Some (if current s1 \<noteq> [] then sq_recycle (current s1) q else q) \<rparr>)
           in (publish s2, [TimerStop]))"

definition silence_copy :: "sdu_queue \<Rightarrow> sdu_queue \<times> sdu_set" where
  "silence_copy q =
     (let (q1, sp) = sq_spare q; st = (case sp of Some x \<Rightarrow> x | None \<Rightarrow> []); silence = q_silence q1
      in (q1, if same_shape st silence then map snd (zip st silence) else silence))"

definition next_set :: "sdu_queue \<Rightarrow> sdu_queue \<times> sdu_set" where
  "next_set q = (case sq_pop q of (q1, Some st) \<Rightarrow> (q1, st) | (q1, None) \<Rightarrow> silence_copy q1)"

definition start_round :: "iso_sender \<Rightarrow> iso_sender" where
  "start_round s =
     (let s1 = (case queue s of
                  None \<Rightarrow> s
                | Some q \<Rightarrow>
                    let (q1, st) = next_set q;
                        q2 = fst (take_underrun q1);
                        q3 = (if current s \<noteq> [] then sq_recycle (current s) q2 else q2)
                    in s\<lparr>queue := Some q3, current := st, is_queue_stats := q_stats q3, is_prefill := q_prefill q3\<rparr>)
      in s1\<lparr> counters := (counters s1)\<lparr>sc_sets_sent := sc_sets_sent (counters s1) + 1\<rparr>,
             guard := round_started (guard s1), round_open := True,
             served := replicate (length (served s1)) False \<rparr>)"

definition send_sdu :: "u8 \<Rightarrow> nat \<Rightarrow> u16 \<Rightarrow> iso_sender \<Rightarrow> iso_sender \<times> iso_out list" where
  "send_sdu status i handle s =
     (if length (current s) = length (cis_handles s)
      then (s\<lparr> seqs := (seqs s)[i := seqs s ! i + 1],
               counters := (if status = ERROR_CODE_SUCCESS
                            then (counters s)\<lparr>sc_sdus_sent := sc_sdus_sent (counters s) + 1\<rparr>
                            else (counters s)\<lparr>sc_send_errors := sc_send_errors (counters s) + 1\<rparr>) \<rparr>,
            [Send handle (seqs s ! i) (current s ! i)])
      else (s, []))"

definition on_can_send :: "u32 \<Rightarrow> u8 \<Rightarrow> u16 \<Rightarrow> bool \<Rightarrow> iso_sender \<Rightarrow> iso_sender \<times> iso_out list" where
  "on_can_send now status handle group_complete s =
     (case position (\<lambda>h. h = handle) (cis_handles s) of
        None \<Rightarrow> (s, [])
      | Some i \<Rightarrow>
          let s1 = (if \<not> round_open s \<or> served s ! i then start_round s else s);
              (s2, out) = send_sdu status i handle s1;
              s3 = s2\<lparr>served := (served s2)[i := True]\<rparr>
          in if group_complete \<or> round_done s3
             then let (s4, out') = request_next now (publish (s3\<lparr>round_open := False\<rparr>)) in (s4, out @ out')
             else (s3, out))"

definition on_cis_can_send_now :: "u32 \<Rightarrow> u8 \<Rightarrow> bytes \<Rightarrow> iso_sender \<Rightarrow> iso_sender \<times> iso_out list" where
  "on_cis_can_send_now now status packet s =
     (if \<not> sending s \<or> big s \<noteq> None then (s, [])
      else case cis_can_send_now packet of
        None \<Rightarrow> (s, [])
      | Some ev \<Rightarrow> on_can_send now status (ev_cis_handle ev) (ev_group_complete ev) s)"

definition on_bis_can_send_now :: "u32 \<Rightarrow> u8 \<Rightarrow> bytes \<Rightarrow> iso_sender \<Rightarrow> iso_sender \<times> iso_out list" where
  "on_bis_can_send_now now status packet s =
     (if \<not> sending s then (s, [])
      else case bis_can_send_now packet of
        None \<Rightarrow> (s, [])
      | Some ev \<Rightarrow>
          if big s \<noteq> Some (ev_big_handle ev) then (s, [])
          else let i = unat (ev_bis_index ev)
               in if length (cis_handles s) \<le> i then (s, [])
                  else on_can_send now status (cis_handles s ! i) (i + 1 = length (cis_handles s)) s)"

definition mark_down :: "u16 \<Rightarrow> u16 list \<Rightarrow> bool list \<Rightarrow> bool list" where
  "mark_down handle hs al = map (\<lambda>(h, a). a \<and> h \<noteq> handle) (zip hs al)"

definition on_cis_down :: "u32 \<Rightarrow> u16 \<Rightarrow> iso_sender \<Rightarrow> iso_sender \<times> iso_out list" where
  "on_cis_down now handle s =
     (if \<not> sending s then (s, [])
      else let s1 = s\<lparr>alive := mark_down handle (cis_handles s) (alive s)\<rparr>
           in if list_ex (\<lambda>a. a) (alive s1) \<and> round_open s1 \<and> round_done s1
              then request_next now (s1\<lparr>round_open := False\<rparr>)
              else (s1, []))"

definition on_timer :: "u32 \<Rightarrow> iso_sender \<Rightarrow> iso_sender \<times> iso_out list" where
  "on_timer now s =
     (let s1 = (case guard_due_ms s of
                  None \<Rightarrow> s
                | Some due \<Rightarrow>
                    let late = sint (now - due)
                    in s\<lparr>guard_due_ms := None, guard_late_ms := max (guard_late_ms s) (of_int (max late 0))\<rparr>)
      in (s1, if sending s1 then request_events s1 else []))"

subsection \<open>Runs\<close>

text \<open>
  A stream after it was started: events of the BTstack thread, each with the run loop time, the status a
  send would return where one is made, and operations of the encode thread on the shared buffer.
\<close>

datatype iso_event =
    CisCanSend u32 u8 bytes
  | BisCanSend u32 u8 bytes
  | CisDown u32 u16
  | TimerFired u32
  | EncodePush sdu_set
  | EncodeSpare

fun iso_handle :: "iso_sender \<Rightarrow> iso_event \<Rightarrow> iso_sender \<times> iso_out list" where
  "iso_handle s (CisCanSend now st p) = on_cis_can_send_now now st p s"
| "iso_handle s (BisCanSend now st p) = on_bis_can_send_now now st p s"
| "iso_handle s (CisDown now h) = on_cis_down now h s"
| "iso_handle s (TimerFired now) = on_timer now s"
| "iso_handle s (EncodePush st) = (s\<lparr>queue := map_option (sq_push st) (queue s)\<rparr>, [])"
| "iso_handle s EncodeSpare = (s\<lparr>queue := map_option (\<lambda>q. fst (sq_spare q)) (queue s)\<rparr>, [])"

fun iso_step :: "iso_sender \<times> iso_out list \<Rightarrow> iso_event \<Rightarrow> iso_sender \<times> iso_out list" where
  "iso_step (s, out) e = (fst (iso_handle s e), out @ snd (iso_handle s e))"

definition iso_run :: "u32 \<Rightarrow> u8 option \<Rightarrow> u16 list \<Rightarrow> nat \<Rightarrow> u8 \<Rightarrow> sdu_set \<Rightarrow> le_stream_stats \<Rightarrow> iso_event list \<Rightarrow>
    iso_sender \<times> iso_out list" where
  "iso_run now bg handles frame depth silence st0 es =
     (let q = sq_configure depth silence sq_new
      in foldl iso_step
           (case bg of
              None \<Rightarrow> is_start now handles q frame depth (is_new st0)
            | Some b \<Rightarrow> is_start_big now b handles q frame depth (is_new st0)) es)"

fun encoded_sets :: "iso_event list \<Rightarrow> sdu_set list" where
  "encoded_sets [] = []"
| "encoded_sets (EncodePush st # es) = st # encoded_sets es"
| "encoded_sets (_ # es) = encoded_sets es"

fun sends_to :: "u16 \<Rightarrow> iso_out list \<Rightarrow> (u16 \<times> bytes) list" where
  "sends_to h [] = []"
| "sends_to h (Send g sq sdu # out) = (if g = h then [(sq, sdu)] else []) @ sends_to h out"
| "sends_to h (_ # out) = sends_to h out"

fun sends :: "iso_out list \<Rightarrow> nat" where
  "sends [] = 0"
| "sends (Send _ _ _ # out) = Suc (sends out)"
| "sends (_ # out) = sends out"

lemma encoded_sets_append [simp]: "encoded_sets (xs @ ys) = encoded_sets xs @ encoded_sets ys"
  by (induction xs rule: encoded_sets.induct) auto

lemma sends_to_append [simp]: "sends_to h (xs @ ys) = sends_to h xs @ sends_to h ys"
  by (induction xs rule: sends.induct) auto

lemma sends_append [simp]: "sends (xs @ ys) = sends xs + sends ys"
  by (induction xs rule: sends.induct) auto

lemma position_Some: "position P xs = Some i \<Longrightarrow> i < length xs \<and> P (xs ! i)"
  by (induction xs arbitrary: i) (auto split: if_splits)

subsection \<open>The invariant of a stream\<close>

definition from_set :: "sdu_set \<Rightarrow> sdu_set list \<Rightarrow> nat \<Rightarrow> bytes \<Rightarrow> bool" where
  "from_set silence ps i sdu \<longleftrightarrow> (\<exists>st \<in> insert silence (set ps). i < length st \<and> sdu = st ! i)"

definition cis_inv :: "sdu_set \<Rightarrow> sdu_set list \<Rightarrow> iso_sender \<Rightarrow> iso_out list \<Rightarrow> u16 \<Rightarrow> bool" where
  "cis_inv silence ps s out h \<longleftrightarrow>
     (case position (\<lambda>g. g = h) (cis_handles s) of
        None \<Rightarrow> sends_to h out = []
      | Some i \<Rightarrow>
          map fst (sends_to h out) = map of_nat [0..<length (sends_to h out)] \<and>
          seqs s ! i = of_nat (length (sends_to h out)) \<and>
          length (sends_to h out) + (if round_open s \<and> \<not> served s ! i then 1 else 0) \<le> sg_rounds (guard s) \<and>
          list_all (\<lambda>(_, sdu). from_set silence ps i sdu) (sends_to h out))"

definition queue_ok :: "sdu_set \<Rightarrow> sdu_set list \<Rightarrow> nat \<Rightarrow> sdu_queue \<Rightarrow> bool" where
  "queue_ok silence ps n q \<longleftrightarrow>
     q_silence q = silence \<and> set (q_sets q) \<subseteq> set ps \<and> sets_pushed (q_stats q) = length ps \<and>
     n = sets_popped (q_stats q) + silence_sets (q_stats q)"

definition stream_inv :: "sdu_set \<Rightarrow> sdu_set list \<Rightarrow> iso_sender \<Rightarrow> iso_out list \<Rightarrow> bool" where
  "stream_inv silence ps s out \<longleftrightarrow>
     length (seqs s) = length (cis_handles s) \<and> length (served s) = length (cis_handles s) \<and>
     (current s = [] \<or> current s \<in> insert silence (set ps)) \<and>
     sg_rounds (guard s) = sc_sets_sent (counters s) \<and>
     sc_sdus_sent (counters s) + sc_send_errors (counters s) = sends out \<and>
     (\<exists>q. queue s = Some q \<and> queue_ok silence ps (sc_sets_sent (counters s)) q) \<and>
     (\<forall>h. cis_inv silence ps s out h)"

text \<open>Handlers that send nothing and leave the round alone, or close it.\<close>

definition quiet :: "iso_sender \<Rightarrow> iso_sender \<Rightarrow> bool" where
  "quiet s s' \<longleftrightarrow>
     cis_handles s' = cis_handles s \<and> seqs s' = seqs s \<and> served s' = served s \<and> current s' = current s \<and>
     queue s' = queue s \<and> guard s' = guard s \<and> counters s' = counters s \<and> (round_open s' \<longrightarrow> round_open s)"

lemma quiet_trans: "quiet s t \<Longrightarrow> quiet t u \<Longrightarrow> quiet s u"
  by (simp add: quiet_def)

lemma stream_inv_quiet:
  assumes "stream_inv silence ps s out" "quiet s s'" "sends o' = 0" "\<And>h. sends_to h o' = []"
  shows "stream_inv silence ps s' (out @ o')"
proof -
  have "cis_inv silence ps s' (out @ o') h" if "cis_inv silence ps s out h" for h
    using that assms(2,4) by (auto simp: cis_inv_def quiet_def split: option.splits if_splits)
  then have "\<forall>h. cis_inv silence ps s' (out @ o') h" using assms(1) by (simp add: stream_inv_def)
  with assms(1-3) show ?thesis by (simp add: stream_inv_def quiet_def)
qed

lemma request_events_quiet: "sends (request_events s) = 0" "sends_to h (request_events s) = []"
  by (simp_all add: request_events_def split: option.split)

lemma request_next_quiet:
  "quiet s (fst (request_next now s))" "sends (snd (request_next now s)) = 0"
  "sends_to h (snd (request_next now s)) = []"
  by (simp_all add: request_next_def quiet_def Let_def request_events_quiet)

lemma publish_quiet: "quiet s (publish s)" "quiet s (publish (s\<lparr>round_open := False\<rparr>))"
  by (simp_all add: publish_def quiet_def)

lemma on_timer_quiet:
  "quiet s (fst (on_timer now s))" "sends (snd (on_timer now s)) = 0" "sends_to h (snd (on_timer now s)) = []"
  by (simp_all add: on_timer_def quiet_def Let_def request_events_quiet split: option.split)

lemma on_cis_down_quiet:
  "quiet s (fst (on_cis_down now g s))" "sends (snd (on_cis_down now g s)) = 0"
  "sends_to h (snd (on_cis_down now g s)) = []"
proof -
  have "quiet s (s\<lparr>alive := al, round_open := False\<rparr>)" "quiet s (s\<lparr>alive := al\<rparr>)" "quiet s s" for al
    by (simp_all add: quiet_def)
  then show "quiet s (fst (on_cis_down now g s))"
    unfolding on_cis_down_def Let_def by (simp add: quiet_trans [OF _ request_next_quiet(1)])
  show "sends (snd (on_cis_down now g s)) = 0" "sends_to h (snd (on_cis_down now g s)) = []"
    by (simp_all add: on_cis_down_def Let_def request_next_quiet)
qed

subsection \<open>Rounds\<close>

lemma silence_copy_eq: "snd (silence_copy q) = q_silence q"
proof -
  have "map snd (zip st silence) = silence" if "same_shape st silence" for st silence :: sdu_set
    using that by (simp add: same_shape_def)
  then show ?thesis by (simp add: silence_copy_def Let_def split: prod.split) (metis fst_conv spare_simps(6))
qed

lemma silence_copy_keeps:
  "q_silence (fst (silence_copy q)) = q_silence q" "q_sets (fst (silence_copy q)) = q_sets q"
  "q_stats (fst (silence_copy q)) = q_stats q"
  by (simp_all add: silence_copy_def Let_def sq_spare_def)

lemma next_set_facts:
  assumes "q_silence q = silence" "set (q_sets q) \<subseteq> set ps"
  shows "q_silence (fst (next_set q)) = silence" "set (q_sets (fst (next_set q))) \<subseteq> set ps"
    "snd (next_set q) \<in> insert silence (set ps)"
    "sets_pushed (q_stats (fst (next_set q))) = sets_pushed (q_stats q)"
    "sets_popped (q_stats (fst (next_set q))) + silence_sets (q_stats (fst (next_set q))) =
       sets_popped (q_stats q) + silence_sets (q_stats q) + 1"
proof -
  obtain q1 r where p: "sq_pop q = (q1, r)" by fastforce
  have sil: "q_silence q1 = silence" using pop_silence [of q] assms(1) by (simp add: p)
  have *: "set (q_sets q1) \<subseteq> set ps \<and> (\<forall>st. r = Some st \<longrightarrow> st \<in> set ps) \<and>
      sets_pushed (q_stats q1) = sets_pushed (q_stats q) \<and>
      sets_popped (q_stats q1) + silence_sets (q_stats q1) = sets_popped (q_stats q) + silence_sets (q_stats q) + 1"
    using assms(2) by (cases q rule: pop_cases) (auto simp: p)
  show "q_silence (fst (next_set q)) = silence" "set (q_sets (fst (next_set q))) \<subseteq> set ps"
    "snd (next_set q) \<in> insert silence (set ps)"
    "sets_pushed (q_stats (fst (next_set q))) = sets_pushed (q_stats q)"
    "sets_popped (q_stats (fst (next_set q))) + silence_sets (q_stats (fst (next_set q))) =
       sets_popped (q_stats q) + silence_sets (q_stats q) + 1"
    using * sil by (auto simp: next_set_def p silence_copy_keeps silence_copy_eq split: option.split)
qed

lemma start_round_inv:
  assumes "stream_inv silence ps s out"
  shows "stream_inv silence ps (start_round s) out" and "round_open (start_round s)"
    and "served (start_round s) = replicate (length (cis_handles s)) False"
    and "cis_handles (start_round s) = cis_handles s"
proof -
  obtain q where q: "queue s = Some q" "q_silence q = silence" "set (q_sets q) \<subseteq> set ps"
    and c: "sets_pushed (q_stats q) = length ps"
      "sc_sets_sent (counters s) = sets_popped (q_stats q) + silence_sets (q_stats q)"
    using assms unfolding stream_inv_def queue_ok_def by blast
  have len: "length (served s) = length (cis_handles s)" "length (seqs s) = length (cis_handles s)"
    using assms by (simp_all add: stream_inv_def)
  obtain q1 st where n: "next_set q = (q1, st)" by fastforce
  note f = next_set_facts [OF q(2,3), unfolded n fst_conv snd_conv]
  show 1: "round_open (start_round s)" "served (start_round s) = replicate (length (cis_handles s)) False"
    "cis_handles (start_round s) = cis_handles s"
    using q(1) n len by (simp_all add: start_round_def Let_def)
  have 2: "seqs (start_round s) = seqs s" "sg_rounds (guard (start_round s)) = sg_rounds (guard s) + 1"
    using q(1) n by (simp_all add: start_round_def Let_def round_started_def)
  have "cis_inv silence ps (start_round s) out h" if "cis_inv silence ps s out h" for h
    using that position_Some [of "\<lambda>g. g = h" "cis_handles s"]
    by (auto simp: cis_inv_def 1 2 split: option.splits if_splits)
  then have cis: "\<forall>h. cis_inv silence ps (start_round s) out h" using assms by (simp add: stream_inv_def)
  have cnt: "sc_sets_sent (counters (start_round s)) = sc_sets_sent (counters s) + 1"
    "sc_sdus_sent (counters (start_round s)) = sc_sdus_sent (counters s)"
    "sc_send_errors (counters (start_round s)) = sc_send_errors (counters s)"
    "current (start_round s) = st"
    using q(1) n by (simp_all add: start_round_def Let_def)
  have "\<exists>q. queue (start_round s) = Some q \<and> queue_ok silence ps (sc_sets_sent (counters s) + 1) q"
    using q(1) n f c by (simp add: start_round_def Let_def queue_ok_def)
  with cis cnt f(3) len show "stream_inv silence ps (start_round s) out"
    using assms by (simp add: stream_inv_def 1 2)
qed

lemma send_sdu_inv:
  assumes inv: "stream_inv silence ps s out" and p: "position (\<lambda>g. g = handle) (cis_handles s) = Some i"
    and r: "round_open s" "\<not> served s ! i"
  shows "stream_inv silence ps ((fst (send_sdu status i handle s))\<lparr>served := (served s)[i := True]\<rparr>)
    (out @ snd (send_sdu status i handle s))" (is "stream_inv _ _ ?s' ?out'")
proof -
  have i: "i < length (cis_handles s)" "cis_handles s ! i = handle" using position_Some [OF p] by auto
  have len: "length (seqs s) = length (cis_handles s)" "length (served s) = length (cis_handles s)"
    using inv by (simp_all add: stream_inv_def)
  have old: "cis_inv silence ps s out h" for h using inv by (simp add: stream_inv_def)
  have other: "cis_inv silence ps ?s' ?out' h" if "h \<noteq> handle" for h
  proof -
    have "j \<noteq> i" if "position (\<lambda>g. g = h) (cis_handles s) = Some j" for j
      using position_Some [OF that] i(2) \<open>h \<noteq> handle\<close> by auto
    then show ?thesis using old [of h] that by (auto simp: cis_inv_def send_sdu_def split: option.splits)
  qed
  have this: "cis_inv silence ps ?s' ?out' handle"
  proof (cases "length (current s) = length (cis_handles s)")
    case True
    then have "current s \<noteq> []" using i(1) by auto
    then have "current s \<in> insert silence (set ps)" using inv by (auto simp: stream_inv_def)
    then have "from_set silence ps i (current s ! i)"
      unfolding from_set_def using True i(1) by (intro bexI [of _ "current s"]) simp_all
    with True show ?thesis using old [of handle] i len r p by (simp add: cis_inv_def send_sdu_def)
  next
    case False
    then show ?thesis using old [of handle] i len r p by (simp add: cis_inv_def send_sdu_def)
  qed
  from other this have cis: "\<forall>h. cis_inv silence ps ?s' ?out' h" by metis
  obtain q where "queue s = Some q" "queue_ok silence ps (sc_sets_sent (counters s)) q"
    using inv by (auto simp: stream_inv_def)
  with cis len inv show ?thesis
    by (simp add: stream_inv_def) (simp add: send_sdu_def)
qed

lemma on_can_send_inv:
  assumes "stream_inv silence ps s out"
  shows "stream_inv silence ps (fst (on_can_send now status handle gc s)) (out @ snd (on_can_send now status handle gc s))"
proof (cases "position (\<lambda>h. h = handle) (cis_handles s)")
  case None
  then show ?thesis using assms by (simp add: on_can_send_def)
next
  case (Some i)
  define s1 where "s1 = (if \<not> round_open s \<or> served s ! i then start_round s else s)"
  have i: "i < length (cis_handles s)" using position_Some [OF Some] by simp
  have s1: "stream_inv silence ps s1 out" "round_open s1" "\<not> served s1 ! i" "cis_handles s1 = cis_handles s"
    using assms start_round_inv [OF assms] i by (auto simp: s1_def)
  obtain s2 o2 where snd_eq: "send_sdu status i handle s1 = (s2, o2)" by fastforce
  have served: "served s2 = served s1" using arg_cong [OF snd_eq, of "\<lambda>x. served (fst x)"]
    by (auto simp: send_sdu_def split: if_splits)
  define s3 where "s3 = s2\<lparr>served := (served s2)[i := True]\<rparr>"
  have inv3: "stream_inv silence ps s3 (out @ o2)"
    using send_sdu_inv [OF s1(1), of handle i status] Some s1 by (simp add: snd_eq s3_def served)
  have q: "quiet s3 (fst (request_next now (publish (s3\<lparr>round_open := False\<rparr>))))"
    by (rule quiet_trans [OF publish_quiet(2) request_next_quiet(1)])
  have eq: "on_can_send now status handle gc s =
      (if gc \<or> round_done s3
       then (case request_next now (publish (s3\<lparr>round_open := False\<rparr>)) of (s4, o4) \<Rightarrow> (s4, o2 @ o4))
       else (s3, o2))"
    unfolding on_can_send_def Some Let_def option.case s1_def [symmetric] snd_eq prod.case s3_def [symmetric] ..
  show ?thesis
  proof (cases "gc \<or> round_done s3")
    case True
    obtain s4 o4 where r: "request_next now (publish (s3\<lparr>round_open := False\<rparr>)) = (s4, o4)" by fastforce
    have "stream_inv silence ps s4 ((out @ o2) @ o4)"
      using stream_inv_quiet [OF inv3 q, of o4] request_next_quiet(2,3) [where s = "publish (s3\<lparr>round_open := False\<rparr>)" and now = now]
      by (simp add: r)
    with True show ?thesis by (simp add: eq r)
  next
    case False
    with inv3 show ?thesis unfolding eq by simp
  qed
qed

lemma from_set_mono: "from_set silence ps i sdu \<Longrightarrow> from_set silence (ps @ [st]) i sdu"
  by (auto simp: from_set_def)

lemma encode_push_inv:
  assumes "stream_inv silence ps s out"
  shows "stream_inv silence (ps @ [st]) (s\<lparr>queue := map_option (sq_push st) (queue s)\<rparr>) out"
proof -
  obtain q where q: "queue s = Some q" "queue_ok silence ps (sc_sets_sent (counters s)) q"
    using assms by (auto simp: stream_inv_def)
  have "queue_ok silence (ps @ [st]) (sc_sets_sent (counters s)) (sq_push st q)"
    using q(2) by (cases "q_sets q") (auto simp: queue_ok_def)
  moreover have "cis_inv silence (ps @ [st]) (s\<lparr>queue := x\<rparr>) out h" if "cis_inv silence ps s out h" for x h
    using that from_set_mono by (fastforce simp: cis_inv_def list_all_iff split: option.splits)
  ultimately show ?thesis using assms q(1) by (auto simp: stream_inv_def)
qed

lemma iso_handle_inv:
  assumes "stream_inv silence ps s out"
  shows "stream_inv silence (ps @ encoded_sets [e]) (fst (iso_handle s e)) (out @ snd (iso_handle s e))"
proof (cases e)
  case (CisCanSend now st p)
  then show ?thesis
    using assms on_can_send_inv [OF assms] by (simp add: on_cis_can_send_now_def split: option.split)
next
  case (BisCanSend now st p)
  then show ?thesis
    using assms on_can_send_inv [OF assms] by (simp add: on_bis_can_send_now_def Let_def split: option.split)
next
  case (CisDown now h)
  then show ?thesis using stream_inv_quiet [OF assms on_cis_down_quiet] by simp
next
  case (TimerFired now)
  then show ?thesis using stream_inv_quiet [OF assms on_timer_quiet] by simp
next
  case (EncodePush st)
  then show ?thesis using encode_push_inv [OF assms] by simp
next
  case EncodeSpare
  obtain q where q: "queue s = Some q" "queue_ok silence ps (sc_sets_sent (counters s)) q"
    using assms by (auto simp: stream_inv_def)
  have "queue_ok silence ps (sc_sets_sent (counters s)) (fst (sq_spare q))"
    using q(2) by (simp add: queue_ok_def)
  moreover have "cis_inv silence ps (s\<lparr>queue := x\<rparr>) out h" if "cis_inv silence ps s out h" for x h
    using that by (cases "position (\<lambda>g. g = h) (cis_handles s)") (simp_all add: cis_inv_def)
  ultimately show ?thesis using assms q(1) EncodeSpare by (simp add: stream_inv_def)
qed

lemma is_begin_inv:
  assumes "is_begin now handles (sq_configure depth silence sq_new) frame depth s = (s', out)"
  shows "stream_inv silence [] s' out"
proof -
  define q where "q = sq_configure depth silence sq_new"
  define s1 where "s1 = publish (s\<lparr> cis_handles := handles, seqs := replicate (length handles) 0,
      alive := replicate (length handles) True,
      served := replicate (length handles) False, round_open := False, current := [], queue := Some q,
      frame_us := max frame 1, guard := sg_new (max frame 1) (unat depth + 2), t0_ms := None,
      counters := no_counters, is_queue_stats := no_stats, is_prefill := q_prefill q,
      guard_waits := 0, guard_due_ms := None, guard_late_ms := 0 \<rparr>)\<lparr>sending := True\<rparr>"
  have "queue_ok silence [] 0 q"
    by (simp add: queue_ok_def q_def sq_configure_def no_stats_def Let_def)
  moreover have "cis_inv silence [] s1 [] h" for h
    using position_Some [of "\<lambda>g. g = h" handles]
    by (auto simp: cis_inv_def s1_def publish_def split: option.split)
  ultimately have "stream_inv silence [] s1 []"
    by (simp add: stream_inv_def) (simp add: s1_def publish_def sg_new_def no_counters_def)
  from stream_inv_quiet [OF this request_next_quiet]
  have "stream_inv silence [] (fst (request_next now s1)) (snd (request_next now s1))" by simp
  from stream_inv_quiet [OF this, of _ "[SetQueue depth]"]
  have inv: "stream_inv silence [] (fst (request_next now s1)) (snd (request_next now s1) @ [SetQueue depth])"
    by (simp add: quiet_def)
  obtain s2 o2 where r: "request_next now s1 = (s2, o2)" by fastforce
  have "s' = s2" "out = SetQueue depth # o2"
    using assms r by (auto simp: is_begin_def Let_def s1_def q_def)
  moreover have "sends_to h (SetQueue depth # o2) = sends_to h (o2 @ [SetQueue depth])"
    "sends (SetQueue depth # o2) = sends (o2 @ [SetQueue depth])" for h by simp_all
  ultimately show ?thesis
    using inv unfolding r fst_conv snd_conv stream_inv_def cis_inv_def by metis
qed

lemma iso_run_inv:
  "stream_inv silence (encoded_sets es) (fst (iso_run now bg handles frame depth silence st0 es))
     (snd (iso_run now bg handles frame depth silence st0 es))"
proof (induction es rule: rev_induct)
  case Nil
  obtain s out where r: "iso_run now bg handles frame depth silence st0 [] = (s, out)" by fastforce
  then have "\<exists>s0. is_begin now handles (sq_configure depth silence sq_new) frame depth s0 = (s, out)"
    by (auto simp: iso_run_def is_start_def is_start_big_def Let_def split: option.splits)
  then show ?case using is_begin_inv by (auto simp: r)
next
  case (snoc e es)
  obtain s out where r: "iso_run now bg handles frame depth silence st0 es = (s, out)" by fastforce
  have "iso_run now bg handles frame depth silence st0 (es @ [e]) = iso_step (s, out) e"
    using r by (simp add: iso_run_def Let_def)
  then show ?case using iso_handle_inv [of silence "encoded_sets es" s out e] snoc.IH by (simp add: r)
qed

text \<open>
  The elapsed time is a 32-bit difference of milliseconds: when the run loop clock comes back to the time of
  the first round (after about 49.7 days of one stream) the guard sees no time elapsed and waits a second
  before each round.
\<close>

lemma guard_time_wraps:
  assumes "sending s" "cis_handles s \<noteq> []" "t0_ms s = Some t0" "1000 < next_due_us (guard s) div 1000"
    and "sg_lead (guard s) \<le> sg_rounds (guard s)"
  shows "snd (request_next t0 s) = [TimerStart 1000]"
  using assms by (simp add: request_next_def may_send_def guard_wait_ms_def Let_def)

subsection \<open>Properties\<close>

text \<open>C35. In every run of a stream, over any order of events of the controller and pushes of the encode
  thread, each CIS (or BIS) is sent the sequence numbers 0, 1, 2, ... (modulo 65536) without a gap, at most
  one SDU per round started, and every SDU it is sent is its own part of a set the encode thread pushed or of
  the silence set; a handle that is not of the stream is sent nothing.\<close>

theorem iso_sequence_and_content:
  "let (s, out) = iso_run now bg handles frame depth silence st0 es;
       sent = sends_to h out in
   case position (\<lambda>g. g = h) (cis_handles s) of
     None \<Rightarrow> sent = []
   | Some i \<Rightarrow>
       map fst sent = map of_nat [0..<length sent] \<and> length sent \<le> sc_sets_sent (counters s) \<and>
       list_all (\<lambda>(_, sdu). \<exists>st \<in> insert silence (set (encoded_sets es)). i < length st \<and> sdu = st ! i) sent"
proof -
  obtain s out where r: "iso_run now bg handles frame depth silence st0 es = (s, out)" by fastforce
  have inv: "stream_inv silence (encoded_sets es) s out"
    using iso_run_inv [of silence es now bg handles frame depth st0] by (simp add: r)
  then have "cis_inv silence (encoded_sets es) s out h" "sg_rounds (guard s) = sc_sets_sent (counters s)"
    by (simp_all add: stream_inv_def)
  then show ?thesis
    by (auto simp: r Let_def cis_inv_def from_set_def split: option.splits if_splits)
qed

text \<open>The counters of a stream account for everything: the sets sent are the rounds the guard counted and
  the audio sets popped plus the silence sets of the jitter buffer; the SDUs sent and the send errors add up
  to the sends made; and the sets encoded are those pushed.\<close>

lemma iso_counters:
  "let (s, out) = iso_run now bg handles frame depth silence st0 es in
     \<exists>q. queue s = Some q \<and>
         sc_sets_sent (counters s) = sets_popped (q_stats q) + silence_sets (q_stats q) \<and>
         sc_sets_sent (counters s) = sg_rounds (guard s) \<and>
         sc_sdus_sent (counters s) + sc_send_errors (counters s) = sends out \<and>
         sets_pushed (q_stats q) = length (encoded_sets es)"
proof -
  obtain s out where r: "iso_run now bg handles frame depth silence st0 es = (s, out)" by fastforce
  have "stream_inv silence (encoded_sets es) s out"
    using iso_run_inv [of silence es now bg handles frame depth st0] by (simp add: r)
  then show ?thesis by (auto simp: r stream_inv_def queue_ok_def)
qed

end
