(* ===== verification/Bap_Unicast.thy ===== *)
theory Bap_Unicast
  imports Le_Plan Iso_Sender
begin

text \<open>
  The BAP unicast state machine, \<^verbatim>\<open>Unicast\<close> of \<^verbatim>\<open>app/src/crates/bt-host/src/le/bap.rs\<close>: the procedure that
  takes the ASEs of one or more devices from Config Codec to Streaming, and back, over one CIG. The parts of
  \<^verbatim>\<open>core.rs\<close> it rests on are here too: the device it looks at, the guard of \<^verbatim>\<open>start_unicast\<close>, and the timers.

  The trait \<^verbatim>\<open>UnicastEnv\<close> is split. What the machine asks (the devices, the status of a BTstack call, whether
  a command can be sent) is a record of functions, \<open>unicast_env\<close>, which an event brings with it, so it can
  change freely from event to event. What the machine does (control point writes, BTstack calls, timers,
  callbacks) is the list of actions a handler returns, in order. A completion callback is a number; calling it is
  an action.

  \<^verbatim>\<open>enter\<close>, \<^verbatim>\<open>advance\<close> and \<^verbatim>\<open>fail\<close> call each other, always in tail position (\<^verbatim>\<open>return\<close> follows). Here each
  is one step that names what runs next (\<open>todo\<close>), and \<open>run_todo\<close> runs the chain; its termination proof is that of
  the mutual recursion. Log lines are left out; the texts that become a failure reason are kept.
\<close>

subsection \<open>Constants, devices, events\<close>

definition START_STEP_TIMEOUT_MS :: u32 where "START_STEP_TIMEOUT_MS = 8000"
definition STOP_STEP_TIMEOUT_MS :: u32 where "STOP_STEP_TIMEOUT_MS = 3000"
definition REFRESH_MS :: u32 where "REFRESH_MS = 500"
definition CON_HANDLE_INVALID :: u16 where "CON_HANDLE_INVALID = 0xFFFF"
definition ASE_OP_ENABLE :: u8 where "ASE_OP_ENABLE = 0x03"
definition ASE_OP_DISABLE :: u8 where "ASE_OP_DISABLE = 0x05"
definition ASE_OP_RELEASE :: u8 where "ASE_OP_RELEASE = 0x08"
definition PHY_1M :: u8 where "PHY_1M = 0x01"
definition HCI_EVENT_META_GAP :: u8 where "HCI_EVENT_META_GAP = 0xE7"
definition GAP_SUBEVENT_CIG_CREATED :: u8 where "GAP_SUBEVENT_CIG_CREATED = 0x06"
definition GAP_SUBEVENT_CIS_CREATED :: u8 where "GAP_SUBEVENT_CIS_CREATED = 0x07"
definition ERROR_CODE_MEMORY_CAPACITY_EXCEEDED :: u8 where "ERROR_CODE_MEMORY_CAPACITY_EXCEEDED = 0x07"
definition ERROR_CODE_ACL_CONNECTION_ALREADY_EXISTS :: u8 where "ERROR_CODE_ACL_CONNECTION_ALREADY_EXISTS = 0x0B"

text \<open>The fields of \<^verbatim>\<open>LeDevice\<close> the unicast machine reads.\<close>

record le_device =
  ld_addr :: string
  ld_acl :: u16
  ld_available_sink_contexts :: u16
  ld_ases :: "ase list"

definition ld_connected :: "le_device \<Rightarrow> bool" where
  "ld_connected d \<longleftrightarrow> ld_acl d \<noteq> CON_HANDLE_INVALID"

definition ld_ase :: "le_device \<Rightarrow> u8 \<Rightarrow> ase option" where
  "ld_ase d i = List.find (\<lambda>a. ase_id a = i) (ld_ases d)"

definition device_on :: "u16 \<Rightarrow> le_device option \<Rightarrow> le_device option" where
  "device_on con d = (case d of Some x \<Rightarrow> if ld_acl x = con \<and> con \<noteq> CON_HANDLE_INVALID then Some x else None | None \<Rightarrow> None)"

text \<open>An ASE value, read or notified: the device with its ASE updated, and the id to report to the state machine.\<close>

fun update_handle :: "u16 \<Rightarrow> ase \<Rightarrow> ase list \<Rightarrow> ase list" where
  "update_handle h a [] = []"
| "update_handle h a (x # xs) = (if value_handle x = h then a # xs else x # update_handle h a xs)"

definition on_ase_value :: "u16 \<Rightarrow> u16 \<Rightarrow> bytes \<Rightarrow> le_device \<Rightarrow> le_device \<times> u8 option" where
  "on_ase_value con h v d =
     (case device_on con (Some d) of
        None \<Rightarrow> (d, None)
      | Some d \<Rightarrow>
          (case List.find (\<lambda>a. value_handle a = h) (ld_ases d) of
             None \<Rightarrow> (d, None)
           | Some a \<Rightarrow>
               (case parse_ase_value v a of
                  (_, False) \<Rightarrow> (d, None)
                | (parsed, True) \<Rightarrow> (d\<lparr>ld_ases := update_handle h parsed (ld_ases d)\<rparr>, Some (ase_id parsed)))))"

definition gap_meta_subevent :: "bytes \<Rightarrow> u8 option" where
  "gap_meta_subevent packet = (if event_is packet HCI_EVENT_META_GAP then byte_at packet 2 else None)"

record cig_created_ev =
  gc_status :: u8
  gc_cig_id :: u8
  gc_cis_handles :: "u16 list"

definition handles_at :: "bytes \<Rightarrow> nat \<Rightarrow> u16 list option" where
  "handles_at packet n = those (map (\<lambda>i. u16_at packet (6 + 2 * i)) [0..<n])"

definition cig_created :: "bytes \<Rightarrow> cig_created_ev option" where
  "cig_created packet =
     (if gap_meta_subevent packet \<noteq> Some GAP_SUBEVENT_CIG_CREATED then None
      else case byte_at packet 5 of None \<Rightarrow> None
        | Some n \<Rightarrow> (case (handles_at packet (unat n), byte_at packet 3, byte_at packet 4) of
            (Some hs, Some st, Some cig) \<Rightarrow> Some \<lparr> gc_status = st, gc_cig_id = cig, gc_cis_handles = hs \<rparr>
          | _ \<Rightarrow> None))"

record cis_created_ev =
  ic_status :: u8
  ic_cig_id :: u8
  ic_cis_id :: u8
  ic_cis_handle :: u16
  ic_acl_handle :: u16
  ic_iso_interval_1250us :: u16

definition cis_created :: "bytes \<Rightarrow> cis_created_ev option" where
  "cis_created packet =
     (if gap_meta_subevent packet \<noteq> Some GAP_SUBEVENT_CIS_CREATED then None
      else case (byte_at packet 3, byte_at packet 4, byte_at packet 5, u16_at packet 6, u16_at packet 8, u16_at packet 10) of
        (Some st, Some cig, Some cis, Some h, Some acl, Some iv) \<Rightarrow>
          Some \<lparr> ic_status = st, ic_cig_id = cig, ic_cis_id = cis, ic_cis_handle = h, ic_acl_handle = acl,
                 ic_iso_interval_1250us = iv \<rparr>
      | _ \<Rightarrow> None)"

text \<open>Hexadecimal numbers of the failure texts: \<^verbatim>\<open>{:02x}\<close> of a byte, \<^verbatim>\<open>{:04x}\<close> of a 16-bit value.\<close>

definition hex_digit :: "nat \<Rightarrow> char" where
  "hex_digit d = char_of (if d < 10 then 48 + d else 87 + d)"

definition hex02 :: "u8 \<Rightarrow> string" where
  "hex02 w = [hex_digit (unat w div 16), hex_digit (unat w mod 16)]"

definition hex04 :: "u16 \<Rightarrow> string" where
  "hex04 w = [hex_digit (unat w div 4096), hex_digit (unat w div 256 mod 16), hex_digit (unat w div 16 mod 16), hex_digit (unat w mod 16)]"

subsection \<open>The state, the environment, the actions\<close>

datatype phase =
  PhIdle | PhConfigCodec | PhCreateCig | PhConfigQos | PhEnable | PhCreateCis | PhWaitStreaming | PhStreaming
| PhDisable | PhRelease | PhRemoveCig

fun phase_name :: "phase \<Rightarrow> string" where
  "phase_name PhIdle = ''idle''"
| "phase_name PhConfigCodec = ''Config Codec''"
| "phase_name PhCreateCig = ''Set CIG Parameters''"
| "phase_name PhConfigQos = ''Config QoS''"
| "phase_name PhEnable = ''Enable''"
| "phase_name PhCreateCis = ''Create CIS''"
| "phase_name PhWaitStreaming = ''Receiver Start Ready''"
| "phase_name PhStreaming = ''streaming''"
| "phase_name PhDisable = ''Disable''"
| "phase_name PhRelease = ''Release''"
| "phase_name PhRemoveCig = ''Remove CIG''"

definition ph_stopping :: "phase \<Rightarrow> bool" where
  "ph_stopping p \<longleftrightarrow> p \<in> {PhDisable, PhRelease, PhRemoveCig}"

datatype unicast_timer = StepTimer | DropTimer | RefreshTimer

record cis_params =
  cs_cis_id :: u8
  cs_max_sdu_c_to_p :: u16
  cs_max_sdu_p_to_c :: u16
  cs_phy_c_to_p :: u8
  cs_phy_p_to_c :: u8
  cs_rtn_c_to_p :: u8
  cs_rtn_p_to_c :: u8

record cig_params =
  cg_cig_id :: u8
  cg_sdu_interval_c_to_p :: u32
  cg_sdu_interval_p_to_c :: u32
  cg_worst_case_sca :: u8
  cg_packing :: u8
  cg_framing :: u8
  cg_max_transport_latency_c_to_p :: u16
  cg_max_transport_latency_p_to_c :: u16
  cg_cis :: "cis_params list"

text \<open>What the machine asks. Whether a command can be sent may change while disconnections are sent: the argument
  counts those of the handler so far.\<close>

record unicast_env =
  ue_device :: "u32 \<Rightarrow> le_device option"
  ue_ccids :: "u16 \<Rightarrow> bytes"
  ue_cig_create :: "cig_params \<Rightarrow> u8"
  ue_cig_remove :: "u8 \<Rightarrow> u8"
  ue_cis_create :: "u8 \<Rightarrow> u16 list \<Rightarrow> u16 list \<Rightarrow> u8"
  ue_can_send_command :: "nat \<Rightarrow> bool"
  ue_disconnect_cis :: "u16 \<Rightarrow> u8"
  ue_iso_packet_count :: u8

datatype start_result = StartOk | StartErr string

datatype un_action =
  CpWrite u32 bytes
| CigCreate cig_params
| CigRemove u8
| CisCreate u8 "u16 list" "u16 list"
| DisconnectCis u16
| StartSending "u16 list" u8 u32
| StopSending
| CisDown u16
| StreamLost string
| StreamState stream_plan bool
| Arm unicast_timer u32
| Disarm unicast_timer
| ReadAse u32 u8
| StartDone nat start_result
| StopDone nat

record unicast =
  un_phase :: phase
  un_plan :: "stream_plan option"
  start_done :: "nat option"
  stop_done :: "nat list"
  cig_exists :: bool
  cig_pending :: bool
  cig_removing :: bool
  cis_pending :: nat
  cis_up :: nat
  starting :: bool
  fail_reason :: string
  un_latency_ms :: u16
  un_phy :: u8
  un_framing :: u8
  waiting_contexts :: bool
  cis_connected :: "u16 list"
  cis_to_drop :: "u16 list"
  cis_dropping :: "u16 list"

definition unicast_new :: unicast where
  "unicast_new = \<lparr> un_phase = PhIdle, un_plan = None, start_done = None, stop_done = [], cig_exists = False,
     cig_pending = False, cig_removing = False, cis_pending = 0, cis_up = 0, starting = False, fail_reason = [],
     un_latency_ms = 0, un_phy = 0, un_framing = 0, waiting_contexts = False, cis_connected = [], cis_to_drop = [],
     cis_dropping = [] \<rparr>"

definition un_busy :: "unicast \<Rightarrow> bool" where
  "un_busy u \<longleftrightarrow> un_phase u \<noteq> PhIdle"

definition plan_cis :: "unicast \<Rightarrow> cis_plan list" where
  "plan_cis u = (case un_plan u of Some p \<Rightarrow> sn_cis p | None \<Rightarrow> [])"

definition uses_handle :: "unicast \<Rightarrow> u16 \<Rightarrow> bool" where
  "uses_handle u h \<longleftrightarrow> un_phase u \<noteq> PhIdle \<and> list_ex (\<lambda>c. pl_acl c = h \<or> pl_cis_handle c = h) (plan_cis u)"

text \<open>The CIS of each device, in the order of the device ids.\<close>

definition by_device :: "stream_plan \<Rightarrow> (u32 \<times> cis_plan list) list" where
  "by_device plan =
     map (\<lambda>d. (d, filter (\<lambda>c. pl_device_id c = d) (sn_cis plan))) (sort (remdups (map pl_device_id (sn_cis plan))))"

definition dev_connected :: "unicast_env \<Rightarrow> u32 \<Rightarrow> bool" where
  "dev_connected env i = (case ue_device env i of Some d \<Rightarrow> ld_connected d | None \<Rightarrow> False)"

definition ase_of :: "unicast_env \<Rightarrow> cis_plan \<Rightarrow> ase option" where
  "ase_of env c = (case ue_device env (pl_device_id c) of Some d \<Rightarrow> ld_ase d (pl_ase_id c) | None \<Rightarrow> None)"

definition ase_is :: "unicast_env \<Rightarrow> (ase_state \<Rightarrow> bool) \<Rightarrow> cis_plan \<Rightarrow> bool" where
  "ase_is env pred c = (case ase_of env c of Some a \<Rightarrow> pred (ase_st a) | None \<Rightarrow> False)"

definition all_ases :: "unicast_env \<Rightarrow> stream_plan \<Rightarrow> bool \<Rightarrow> (ase_state \<Rightarrow> bool) \<Rightarrow> bool" where
  "all_ases env plan stopping pred =
     list_all (\<lambda>c. if \<not> dev_connected env (pl_device_id c) then stopping else ase_is env pred c) (sn_cis plan)"

subsection \<open>The steps of the procedure\<close>

datatype todo = Enter phase | Advance | Fail string | Return

text \<open>The control point writes of a step that needs every device: they stop at the first device that is gone.\<close>

fun cp_writes :: "unicast_env \<Rightarrow> (cis_plan list \<Rightarrow> bytes) \<Rightarrow> (u32 \<times> cis_plan list) list \<Rightarrow> un_action list \<times> bool" where
  "cp_writes env pdu [] = ([], True)"
| "cp_writes env pdu ((d, cs) # rest) =
     (if \<not> dev_connected env d then ([], False)
      else let (acts, ok) = cp_writes env pdu rest in (CpWrite d (pdu cs) # acts, ok))"

definition written :: "un_action list \<times> bool \<Rightarrow> unicast \<Rightarrow> unicast \<times> un_action list \<times> todo" where
  "written r u = (u, fst r, if snd r then Advance else Fail ''a device is not connected'')"

text \<open>The writes of Disable and Release: for the devices that are there, the ASEs in the given states.\<close>

definition cp_selected :: "unicast_env \<Rightarrow> u8 \<Rightarrow> (ase_state \<Rightarrow> bool) \<Rightarrow> stream_plan \<Rightarrow> un_action list" where
  "cp_selected env opcode pred plan =
     concat (map (\<lambda>(d, cs).
        let ids = map pl_ase_id (filter (ase_is env pred) cs)
        in if \<not> dev_connected env d \<or> ids = [] then [] else [CpWrite d (cp_ase_ids opcode ids)]) (by_device plan))"

definition config_codec_pdu :: "stream_plan \<Rightarrow> cis_plan list \<Rightarrow> bytes" where
  "config_codec_pdu plan cs =
     cp_config_codec (map (\<lambda>c. \<lparr> cc_ase_id = pl_ase_id c, cc_target_latency = sp_target_latency (sn_preset plan),
        cc_target_phy = sn_phy plan, cc_codec_id = [CODING_FORMAT_LC3, 0, 0, 0, 0], cc_config = codec_config_ltvs plan c \<rparr>) cs)"

definition config_qos_pdu :: "unicast \<Rightarrow> stream_plan \<Rightarrow> cis_plan list \<Rightarrow> bytes" where
  "config_qos_pdu u plan cs =
     cp_config_qos (map (\<lambda>c. \<lparr> cq_ase_id = pl_ase_id c, cq_cig_id = sn_cig_id plan, cq_cis_id = pl_cis_id c,
        cq_sdu_interval_us = sdu_interval_us (sn_preset plan), cq_framing = un_framing u, cq_phy = un_phy u,
        cq_max_sdu = sdu_len c (sp_octets (sn_preset plan)), cq_rtn = sp_rtn (sn_preset plan),
        cq_max_transport_latency_ms = un_latency_ms u, cq_presentation_delay_us = sn_presentation_delay_us plan \<rparr>) cs)"

text \<open>What the servers' ASEs ask of the QoS: the limits of the presentation delay, the latency, PHY and framing.\<close>

record qos_limits =
  ql_lower :: u32
  ql_upper :: u32
  ql_latency :: u16
  ql_phy :: u8
  ql_framing :: u8

definition ase_limits :: "unicast_env \<Rightarrow> cis_plan \<Rightarrow> qos_limits \<Rightarrow> qos_limits" where
  "ase_limits env c q =
     (case ase_of env c of
        None \<Rightarrow> q
      | Some a \<Rightarrow>
          \<lparr> ql_lower = (if pd_min_us a \<noteq> 0 then max (ql_lower q) (pd_min_us a) else ql_lower q),
            ql_upper = (if pd_max_us a \<noteq> 0 then min (ql_upper q) (pd_max_us a) else ql_upper q),
            ql_latency = (if pref_max_latency_ms a \<noteq> 0 then min (ql_latency q) (pref_max_latency_ms a) else ql_latency q),
            ql_phy = (if pref_phy a \<noteq> 0 \<and> pref_phy a AND ql_phy q = 0 then PHY_1M else ql_phy q),
            ql_framing = (if pref_framing a = 0x01 then 1 else ql_framing q) \<rparr>)"

definition cig_limits :: "unicast_env \<Rightarrow> stream_plan \<Rightarrow> qos_limits" where
  "cig_limits env plan =
     (let q = fold (ase_limits env) (sn_cis plan)
          \<lparr> ql_lower = 0, ql_upper = 0xFFFFFF, ql_latency = sp_max_transport_latency_ms (sn_preset plan),
            ql_phy = sn_phy plan, ql_framing = sp_framing (sn_preset plan) \<rparr>
      in q\<lparr>ql_latency := max (ql_latency q) 5\<rparr>)"

definition cig_delay :: "stream_plan \<Rightarrow> qos_limits \<Rightarrow> u32" where
  "cig_delay plan q = max (min (sp_presentation_delay_us (sn_preset plan)) (ql_upper q)) (ql_lower q)"

definition cig_parameters :: "stream_plan \<Rightarrow> qos_limits \<Rightarrow> cig_params" where
  "cig_parameters plan q =
     (let p = sn_preset plan in
      \<lparr> cg_cig_id = sn_cig_id plan, cg_sdu_interval_c_to_p = sdu_interval_us p, cg_sdu_interval_p_to_c = sdu_interval_us p,
        cg_worst_case_sca = 0, cg_packing = 0, cg_framing = ql_framing q,
        cg_max_transport_latency_c_to_p = ql_latency q, cg_max_transport_latency_p_to_c = ql_latency q,
        cg_cis = map (\<lambda>c. \<lparr> cs_cis_id = pl_cis_id c, cs_max_sdu_c_to_p = sdu_len c (sp_octets p), cs_max_sdu_p_to_c = 0,
          cs_phy_c_to_p = ql_phy q, cs_phy_p_to_c = ql_phy q, cs_rtn_c_to_p = sp_rtn p, cs_rtn_p_to_c = sp_rtn p \<rparr>) (sn_cis plan) \<rparr>)"

text \<open>A CIG id that BTstack still holds is replaced by the next, at most three times.\<close>

fun cig_retry :: "unicast_env \<Rightarrow> nat \<Rightarrow> cig_params \<Rightarrow> u8 \<Rightarrow> cig_params \<times> u8 \<times> un_action list" where
  "cig_retry env 0 params status = (params, status, [])"
| "cig_retry env (Suc n) params status =
     (if status = ERROR_CODE_ACL_CONNECTION_ALREADY_EXISTS
      then let params' = params\<lparr>cg_cig_id := cg_cig_id params mod 4 + 1\<rparr>;
               (p, st, acts) = cig_retry env n params' (ue_cig_create env params')
           in (p, st, CigCreate params' # acts)
      else (params, status, []))"

definition cig_failure :: "u8 \<Rightarrow> string" where
  "cig_failure status =
     ''LE Set CIG Parameters could not start (0x'' @ hex02 status @ '')'' @
     (if status = ERROR_CODE_MEMORY_CAPACITY_EXCEEDED
      then '': BTstack still holds 4 CIGs it could not remove; restart Bluetooth'' else [])"

definition create_cig :: "unicast_env \<Rightarrow> stream_plan \<Rightarrow> unicast \<Rightarrow> unicast \<times> un_action list \<times> todo" where
  "create_cig env plan u =
     (let q = cig_limits env plan;
          params = cig_parameters plan q;
          (params', status, retries) = cig_retry env 3 params (ue_cig_create env params);
          u1 = u\<lparr> un_latency_ms := ql_latency q, un_phy := ql_phy q, un_framing := ql_framing q,
                  un_plan := map_option (\<lambda>p. p\<lparr> sn_presentation_delay_us := cig_delay plan q, sn_phy := ql_phy q,
                     sn_cig_id := cg_cig_id params' \<rparr>) (un_plan u) \<rparr>;
          acts = CigCreate params # retries
      in if status \<noteq> 0 then (u1, acts, Fail (cig_failure status))
         else (u1\<lparr> cig_pending := True, cig_exists := True \<rparr>, acts, Advance))"

text \<open>The first CIS of each device, for the contexts of the devices (each device once, in plan order).\<close>

fun first_of_device :: "u32 list \<Rightarrow> cis_plan list \<Rightarrow> u32 list" where
  "first_of_device seen [] = []"
| "first_of_device seen (c # cs) =
     (if pl_device_id c \<in> set seen then first_of_device seen cs
      else pl_device_id c # first_of_device (seen @ [pl_device_id c]) cs)"

definition planned_devices :: "unicast_env \<Rightarrow> stream_plan \<Rightarrow> le_device list" where
  "planned_devices env plan = List.map_filter (ue_device env) (first_of_device [] (sn_cis plan))"

definition current_contexts :: "unicast_env \<Rightarrow> unicast \<Rightarrow> u16" where
  "current_contexts env u =
     (case un_plan u of None \<Rightarrow> 0
      | Some plan \<Rightarrow>
          choose_streaming_contexts (map ld_available_sink_contexts (planned_devices env plan)) (sn_requested_contexts plan))"

definition contexts_text :: "unicast_env \<Rightarrow> unicast \<Rightarrow> string" where
  "contexts_text env u =
     (case un_plan u of None \<Rightarrow> []
      | Some plan \<Rightarrow>
          ''wanted 0x'' @ hex04 (sn_requested_contexts plan) @
          concat (map (\<lambda>d. '', '' @ ld_addr d @ '' has 0x'' @ hex04 (ld_available_sink_contexts d)) (planned_devices env plan)))"

definition send_enable :: "unicast_env \<Rightarrow> unicast \<Rightarrow> unicast \<times> un_action list \<times> todo" where
  "send_enable env u =
     (let contexts = current_contexts env u in
      if contexts = 0 then (u\<lparr>waiting_contexts := True\<rparr>, [], Return)
      else let u1 = u\<lparr>waiting_contexts := False\<rparr> in
           case un_plan u1 of None \<Rightarrow> (u1, [], Return)
           | Some p \<Rightarrow>
               let plan = p\<lparr>sn_contexts := contexts\<rparr>;
                   ccids = remdups_adj (sort (ue_ccids env contexts));
                   meta = enable_metadata contexts ccids
               in written (cp_writes env (\<lambda>cs. cp_with_metadata ASE_OP_ENABLE (map (\<lambda>c. (pl_ase_id c, meta)) cs)) (by_device plan))
                    (u1\<lparr>un_plan := Some plan\<rparr>))"

definition finish_stop :: "unicast \<Rightarrow> unicast \<times> un_action list" where
  "finish_stop u =
     (u\<lparr> un_phase := PhIdle, waiting_contexts := False, cis_connected := [], cis_to_drop := [], cis_dropping := [],
         starting := False, start_done := (if starting u then None else start_done u), stop_done := [] \<rparr>,
      [Disarm StepTimer, Disarm DropTimer, Disarm RefreshTimer] @
      (case un_plan u of Some plan \<Rightarrow> [StreamState plan False] | None \<Rightarrow> []) @
      (case start_done u of
         Some d \<Rightarrow> if starting u then [StartDone d (StartErr (if fail_reason u = [] then ''stopped'' else fail_reason u))] else []
       | None \<Rightarrow> []) @
      map StopDone (stop_done u))"

definition try_remove_cig :: "unicast_env \<Rightarrow> unicast \<Rightarrow> unicast \<times> un_action list" where
  "try_remove_cig env u =
     (if \<not> cig_exists u then finish_stop u
      else if cig_pending u \<or> cis_pending u > 0 then (u, [])
      else if cis_to_drop u \<noteq> [] \<or> cis_dropping u \<noteq> [] then (u, [])
      else if \<not> cig_removing u then
        let cig_id = (case un_plan u of Some p \<Rightarrow> sn_cig_id p | None \<Rightarrow> 1)
        in if ue_cig_remove env cig_id \<noteq> 0
           then let (u', acts) = finish_stop (u\<lparr>cig_exists := False\<rparr>) in (u', CigRemove cig_id # acts)
           else (u\<lparr>cig_removing := True\<rparr>, [CigRemove cig_id])
      else (u, []))"

fun drop_loop :: "unicast_env \<Rightarrow> nat \<Rightarrow> u16 list \<Rightarrow> u16 list \<Rightarrow> u16 list \<times> u16 list \<times> un_action list" where
  "drop_loop env n [] dropping = ([], dropping, [])"
| "drop_loop env n (h # to_drop) dropping =
     (if \<not> ue_can_send_command env n then (h # to_drop, dropping, [Arm DropTimer 2])
      else let dropping' = (if ue_disconnect_cis env h = 0 then dropping @ [h] else dropping);
               (t, d, acts) = drop_loop env (Suc n) to_drop dropping'
           in (t, d, DisconnectCis h # acts))"

definition drop_cis :: "unicast_env \<Rightarrow> unicast \<Rightarrow> unicast \<times> un_action list" where
  "drop_cis env u =
     (let (t, d, acts) = drop_loop env 0 (cis_to_drop u) (cis_dropping u)
      in (u\<lparr> cis_to_drop := t, cis_dropping := d \<rparr>, Disarm DropTimer # acts))"

fun queue_drops :: "u16 list \<Rightarrow> u16 list \<Rightarrow> u16 list \<Rightarrow> u16 list" where
  "queue_drops dropping [] to_drop = to_drop"
| "queue_drops dropping (h # hs) to_drop =
     queue_drops dropping hs (if h \<notin> set to_drop \<and> h \<notin> set dropping then to_drop @ [h] else to_drop)"

definition enter_timers :: "phase \<Rightarrow> un_action list" where
  "enter_timers p =
     [if p = PhStreaming \<or> p = PhIdle then Disarm StepTimer
      else Arm StepTimer (if ph_stopping p then STOP_STEP_TIMEOUT_MS else START_STEP_TIMEOUT_MS),
      if p = PhDisable \<or> p = PhRelease then Arm RefreshTimer REFRESH_MS else Disarm RefreshTimer]"

definition enter_create_cis :: "unicast_env \<Rightarrow> stream_plan \<Rightarrow> unicast \<Rightarrow> unicast \<times> un_action list \<times> todo" where
  "enter_create_cis env plan u =
     (let cs = map (\<lambda>c. c\<lparr>pl_acl := (case ue_device env (pl_device_id c) of Some d \<Rightarrow> ld_acl d | None \<Rightarrow> CON_HANDLE_INVALID)\<rparr>) (sn_cis plan);
          cis = map pl_cis_handle cs; acl = map pl_acl cs;
          u1 = u\<lparr> un_plan := Some (plan\<lparr>sn_cis := cs\<rparr>), cis_up := 0 \<rparr>;
          status = ue_cis_create env (sn_cig_id plan) cis acl;
          acts = [CisCreate (sn_cig_id plan) cis acl]
      in if status \<noteq> 0 then (u1, acts, Fail (''LE Create CIS could not start (0x'' @ hex02 status @ '')''))
         else (u1\<lparr>cis_pending := length cis\<rparr>, acts, Advance))"

definition enter_streaming :: "unicast_env \<Rightarrow> stream_plan \<Rightarrow> unicast \<Rightarrow> unicast \<times> un_action list \<times> todo" where
  "enter_streaming env plan u =
     (let handles = map pl_cis_handle (sn_cis plan); depth = queue_depth (ue_iso_packet_count env) (length handles)
      in if depth = 0 then (u, [], Fail ''the adapter has fewer ISO data buffers than the stream has CIS'')
         else (u\<lparr> starting := False, start_done := None \<rparr>,
               [StartSending handles depth (ucast (sp_frame_us (sn_preset plan))), StreamState plan True] @
               (case start_done u of Some d \<Rightarrow> [StartDone d StartOk] | None \<Rightarrow> []), Advance))"

definition enter_release :: "unicast_env \<Rightarrow> stream_plan \<Rightarrow> unicast \<Rightarrow> unicast \<times> un_action list \<times> todo" where
  "enter_release env plan u =
     (let (u1, drops) = drop_cis env (u\<lparr>cis_to_drop := queue_drops (cis_dropping u) (cis_connected u) (cis_to_drop u)\<rparr>);
          ws = cp_selected env ASE_OP_RELEASE (\<lambda>s. s \<notin> {ase_state.Idle, Releasing, UnknownState}) plan
      in (u1, drops @ ws, if ws = [] then Enter PhRemoveCig else Advance))"

fun enter_body :: "unicast_env \<Rightarrow> phase \<Rightarrow> stream_plan \<Rightarrow> unicast \<Rightarrow> unicast \<times> un_action list \<times> todo" where
  "enter_body env PhConfigCodec plan u = written (cp_writes env (config_codec_pdu plan) (by_device plan)) u"
| "enter_body env PhCreateCig plan u = create_cig env plan u"
| "enter_body env PhConfigQos plan u = written (cp_writes env (config_qos_pdu u plan) (by_device plan)) u"
| "enter_body env PhEnable plan u = send_enable env (u\<lparr>waiting_contexts := False\<rparr>)"
| "enter_body env PhCreateCis plan u = enter_create_cis env plan u"
| "enter_body env PhWaitStreaming plan u = (u, [], Advance)"
| "enter_body env PhStreaming plan u = enter_streaming env plan u"
| "enter_body env PhDisable plan u =
     (let ws = cp_selected env ASE_OP_DISABLE (\<lambda>s. s \<in> {Enabling, ase_state.Streaming}) plan
      in (u, StopSending # ws, if ws = [] then Enter PhRelease else Advance))"
| "enter_body env PhRelease plan u = enter_release env plan u"
| "enter_body env PhRemoveCig plan u = (let (u', acts) = try_remove_cig env u in (u', acts, Return))"
| "enter_body env PhIdle plan u = (u, [], Advance)"

definition enter :: "unicast_env \<Rightarrow> phase \<Rightarrow> unicast \<Rightarrow> unicast \<times> un_action list \<times> todo" where
  "enter env p u =
     (case un_plan u of
        None \<Rightarrow> (u\<lparr>un_phase := p\<rparr>, enter_timers p, Return)
      | Some plan \<Rightarrow> (let (u', acts, t) = enter_body env p plan (u\<lparr>un_phase := p\<rparr>) in (u', enter_timers p @ acts, t)))"

definition step_done :: "phase \<Rightarrow> ase_state \<Rightarrow> bool" where
  "step_done p s \<longleftrightarrow> (if p = PhDisable then s \<notin> {Enabling, ase_state.Streaming, Disabling}
     else s \<in> {ase_state.Idle, CodecConfigured, UnknownState})"

definition advance_next :: "unicast_env \<Rightarrow> stream_plan \<Rightarrow> unicast \<Rightarrow> phase option" where
  "advance_next env plan u =
     (case un_phase u of
        PhConfigCodec \<Rightarrow> if all_ases env plan False (\<lambda>s. s = CodecConfigured) then Some PhCreateCig else None
      | PhConfigQos \<Rightarrow> if all_ases env plan False (\<lambda>s. s = QosConfigured) then Some PhEnable else None
      | PhEnable \<Rightarrow> if all_ases env plan False (\<lambda>s. s \<in> {Enabling, ase_state.Streaming}) then Some PhCreateCis else None
      | PhCreateCis \<Rightarrow> if cis_up u = length (sn_cis plan) then Some PhWaitStreaming else None
      | PhWaitStreaming \<Rightarrow> if all_ases env plan False (\<lambda>s. s = ase_state.Streaming) then Some PhStreaming else None
      | PhDisable \<Rightarrow> if all_ases env plan True (step_done PhDisable) then Some PhRelease else None
      | PhRelease \<Rightarrow> if all_ases env plan True (step_done PhRelease) then Some PhRemoveCig else None
      | _ \<Rightarrow> None)"

definition advance :: "unicast_env \<Rightarrow> unicast \<Rightarrow> unicast \<times> un_action list \<times> todo" where
  "advance env u =
     (case un_plan u of
        None \<Rightarrow> (u, [], Return)
      | Some plan \<Rightarrow>
          if un_phase u = PhRemoveCig then (let (u', acts) = try_remove_cig env u in (u', acts, Return))
          else (u, [], case advance_next env plan u of Some p \<Rightarrow> Enter p | None \<Rightarrow> Return))"

definition fail :: "string \<Rightarrow> unicast \<Rightarrow> unicast \<times> un_action list \<times> todo" where
  "fail why u = (if fail_reason u \<noteq> [] then (u, [], Return) else (u\<lparr>fail_reason := why\<rparr>, [], Enter PhDisable))"

fun todo_step :: "unicast_env \<Rightarrow> todo \<Rightarrow> unicast \<Rightarrow> unicast \<times> un_action list \<times> todo" where
  "todo_step env (Enter p) u = enter env p u"
| "todo_step env Advance u = advance env u"
| "todo_step env (Fail why) u = fail why u"
| "todo_step env Return u = (u, [], Return)"

fun ph_rank :: "phase \<Rightarrow> nat" where
  "ph_rank PhConfigCodec = 1" | "ph_rank PhCreateCig = 2" | "ph_rank PhConfigQos = 3" | "ph_rank PhEnable = 4"
| "ph_rank PhCreateCis = 5" | "ph_rank PhWaitStreaming = 6" | "ph_rank PhStreaming = 7" | "ph_rank PhDisable = 8"
| "ph_rank PhRelease = 9" | "ph_rank PhRemoveCig = 10" | "ph_rank PhIdle = 11"

fun todo_measure :: "todo \<Rightarrow> unicast \<Rightarrow> nat" where
  "todo_measure (Enter p) u = 4 * (11 - ph_rank p) + 2"
| "todo_measure Advance u = 4 * (11 - ph_rank (un_phase u)) + 1"
| "todo_measure (Fail why) u = 15"
| "todo_measure Return u = 0"


lemma finish_stop_phase [simp]: "un_phase (fst (finish_stop u)) = PhIdle"
  by (simp add: finish_stop_def)

lemma advance_next_rank: "advance_next env plan u = Some p \<Longrightarrow> ph_rank (un_phase u) < ph_rank p \<and> ph_rank p \<le> 10"
  by (cases "un_phase u") (auto simp: advance_next_def split: if_splits)

lemma drop_cis_phase [simp]: "un_phase (fst (drop_cis env u)) = un_phase u"
  by (simp add: drop_cis_def split: prod.splits)

lemma ph_rank_le [simp]: "ph_rank p \<le> 11" "0 < ph_rank p"
  by (cases p; simp)+

lemma enter_body_todo:
  assumes "enter_body env p plan u = (u', acts, t)" "un_phase u = p"
  shows "t = Return \<or> (t = Advance \<and> un_phase u' = p) \<or> (\<exists>why. t = Fail why \<and> why \<noteq> [] \<and> ph_rank p \<le> 7)
    \<or> (p = PhDisable \<and> t = Enter PhRelease) \<or> (p = PhRelease \<and> t = Enter PhRemoveCig)"
  using assms
  by (cases p) (auto simp: written_def create_cig_def send_enable_def enter_create_cis_def enter_streaming_def enter_release_def
      cig_failure_def drop_cis_def Let_def split: prod.splits if_splits option.splits)

lemma enter_todo:
  assumes "enter env p u = (u', acts, t)"
  shows "t = Return \<or> (t = Advance \<and> un_phase u' = p) \<or> (\<exists>why. t = Fail why \<and> why \<noteq> [] \<and> ph_rank p \<le> 7)
    \<or> (p = PhDisable \<and> t = Enter PhRelease) \<or> (p = PhRelease \<and> t = Enter PhRemoveCig)"
proof (cases "un_plan u")
  case None
  then show ?thesis using assms by (simp add: enter_def)
next
  case (Some plan)
  obtain u1 a1 t1 where b: "enter_body env p plan (u\<lparr>un_phase := p\<rparr>) = (u1, a1, t1)" by (cases "enter_body env p plan (u\<lparr>un_phase := p\<rparr>)")
  then have "u' = u1" "t = t1" using assms Some by (simp_all add: enter_def)
  then show ?thesis using enter_body_todo[OF b] by simp
qed

lemma todo_measure_step:
  assumes "t \<noteq> Return" "todo_step env t u = (u', acts, t')"
  shows "todo_measure t' u' < todo_measure t u"
proof (cases t)
  case (Enter p)
  then have e: "enter env p u = (u', acts, t')" using assms by simp
  show ?thesis using enter_todo[OF e] by (auto simp: Enter)
next
  case Advance
  then show ?thesis using assms
    by (auto simp: advance_def split: option.splits if_splits prod.splits dest!: advance_next_rank)
next
  case (Fail why)
  then show ?thesis using assms by (auto simp: fail_def split: if_splits)
qed (use assms in simp)

function run_todo :: "unicast_env \<Rightarrow> todo \<Rightarrow> unicast \<Rightarrow> unicast \<times> un_action list" where
  "run_todo env t u =
     (if t = Return then (u, [])
      else let (u1, acts1, t1) = todo_step env t u; (u2, acts2) = run_todo env t1 u1 in (u2, acts1 @ acts2))"
  by pat_completeness auto
termination
  by (relation "measure (\<lambda>(env, t, u). todo_measure t u)") (auto intro: todo_measure_step sym)

declare run_todo.simps [simp del]

subsection \<open>Requests and events\<close>

definition un_start :: "unicast_env \<Rightarrow> stream_plan \<Rightarrow> nat \<Rightarrow> unicast \<Rightarrow> unicast \<times> un_action list" where
  "un_start env plan done u =
     (let (u', acts) = run_todo env (Enter PhConfigCodec)
            (u\<lparr> un_plan := Some plan, start_done := Some done, starting := True, fail_reason := [], cis_up := 0, cis_pending := 0,
                waiting_contexts := False, cis_connected := [], cis_to_drop := [], cis_dropping := [] \<rparr>)
      in (u', Disarm DropTimer # acts))"

text \<open>\<^verbatim>\<open>start_unicast\<close> of the core: a broadcast or a stream that is not over refuses the start.\<close>

definition start_unicast :: "unicast_env \<Rightarrow> bool \<Rightarrow> stream_plan \<Rightarrow> nat \<Rightarrow> unicast \<Rightarrow> unicast \<times> un_action list" where
  "start_unicast env broadcast plan done u =
     (if broadcast then (u, [StartDone done (StartErr ''a broadcast is running'')])
      else if un_busy u then (u, [StartDone done (StartErr ''a stream is still being stopped'')])
      else un_start env plan done u)"

definition un_stop :: "unicast_env \<Rightarrow> nat \<Rightarrow> unicast \<Rightarrow> unicast \<times> un_action list" where
  "un_stop env done u =
     (if un_phase u = PhIdle then (u, [StopDone done])
      else let u1 = u\<lparr>stop_done := stop_done u @ [done]\<rparr> in
           if ph_stopping (un_phase u) then (u1, [])
           else run_todo env (Enter PhDisable)
                  (if starting u1 \<and> fail_reason u1 = [] then u1\<lparr>fail_reason := ''stopped''\<rparr> else u1))"

definition on_available_contexts :: "unicast_env \<Rightarrow> u32 \<Rightarrow> unicast \<Rightarrow> unicast \<times> un_action list" where
  "on_available_contexts env dev u =
     (if un_phase u \<noteq> PhEnable \<or> \<not> waiting_contexts u then (u, [])
      else if list_ex (\<lambda>c. pl_device_id c = dev) (plan_cis u)
           then let (u1, acts1, t) = send_enable env u; (u2, acts2) = run_todo env t u1 in (u2, acts1 @ acts2)
           else (u, []))"

definition on_cig_removed :: "unicast \<Rightarrow> unicast \<times> un_action list" where
  "on_cig_removed u =
     (if \<not> cig_removing u then (u, [])
      else let u1 = u\<lparr> cig_removing := False, cig_exists := False \<rparr>
           in if un_phase u = PhRemoveCig then finish_stop u1 else (u1, []))"

definition on_refresh :: "unicast_env \<Rightarrow> unicast \<Rightarrow> unicast \<times> un_action list" where
  "on_refresh env u =
     (case un_plan u of None \<Rightarrow> (u, [])
      | Some plan \<Rightarrow>
          if un_phase u \<noteq> PhDisable \<and> un_phase u \<noteq> PhRelease then (u, [])
          else (u, concat (map (\<lambda>c.
                 if dev_connected env (pl_device_id c) \<and> ase_is env (\<lambda>s. \<not> step_done (un_phase u) s) c
                 then [ReadAse (pl_device_id c) (pl_ase_id c)] else []) (sn_cis plan)) @ [Arm RefreshTimer REFRESH_MS]))"

definition no_answer :: "unicast_env \<Rightarrow> unicast \<Rightarrow> string" where
  "no_answer env u =
     ''no answer in '' @ phase_name (un_phase u) @
     concat (map (\<lambda>c. ''; ASE '' @ show_nat (unat (pl_ase_id c)) @ '' '' @
        (case ase_of env c of Some a \<Rightarrow> ase_state_name (ase_st a) | None \<Rightarrow> ''gone'')) (plan_cis u))"

definition remove_timed_out :: "unicast_env \<Rightarrow> unicast \<Rightarrow> unicast \<times> un_action list" where
  "remove_timed_out env u =
     (if \<not> cig_removing u \<and> cig_exists u
      then let (u1, acts) = try_remove_cig env
                 (u\<lparr> cig_pending := False, cis_pending := 0, cis_to_drop := [], cis_dropping := [] \<rparr>)
           in (u1, Disarm DropTimer # acts @ (if un_phase u1 = PhRemoveCig then [Arm StepTimer STOP_STEP_TIMEOUT_MS] else []))
      else finish_stop (u\<lparr> cig_removing := False, cig_exists := False \<rparr>))"

definition on_timeout :: "unicast_env \<Rightarrow> unicast \<Rightarrow> unicast \<times> un_action list" where
  "on_timeout env u =
     (case un_phase u of
        PhDisable \<Rightarrow> run_todo env (Enter PhRelease) u
      | PhRelease \<Rightarrow> run_todo env (Enter PhRemoveCig) u
      | PhRemoveCig \<Rightarrow> remove_timed_out env u
      | PhIdle \<Rightarrow> (u, [])
      | PhStreaming \<Rightarrow> (u, [])
      | _ \<Rightarrow> run_todo env (Fail (if un_phase u = PhEnable \<and> waiting_contexts u
               then ''no audio context available for the stream ('' @ contexts_text env u @ '')'' else no_answer env u)) u)"

definition planned :: "unicast \<Rightarrow> u32 \<Rightarrow> u8 \<Rightarrow> bool" where
  "planned u dev i = list_ex (\<lambda>c. pl_device_id c = dev \<and> pl_ase_id c = i) (plan_cis u)"

definition on_ase_update :: "unicast_env \<Rightarrow> u32 \<Rightarrow> u8 \<Rightarrow> unicast \<Rightarrow> unicast \<times> un_action list" where
  "on_ase_update env dev i u =
     (if un_phase u = PhIdle \<or> \<not> planned u dev i then (u, [])
      else if un_phase u = PhStreaming then
        (case ue_device env dev of None \<Rightarrow> (u, [])
         | Some d \<Rightarrow> if (case ld_ase d i of Some a \<Rightarrow> ase_st a | None \<Rightarrow> UnknownState) \<noteq> ase_state.Streaming
                     then (u, [StreamLost ''an ASE left the Streaming state'']) else run_todo env Advance u)
      else run_todo env Advance u)"

definition start_phase :: "phase \<Rightarrow> bool" where
  "start_phase p \<longleftrightarrow> p \<in> {PhConfigCodec, PhCreateCig, PhConfigQos, PhEnable}"

definition on_cp_response :: "unicast_env \<Rightarrow> u32 \<Rightarrow> bytes \<Rightarrow> unicast \<Rightarrow> unicast \<times> un_action list" where
  "on_cp_response env dev v u =
     (if length v < 2 then (u, [])
      else if v ! 1 = 0xFF then
        (if 5 \<le> length v \<and> v ! 3 \<noteq> 0 \<and> un_phase u \<noteq> PhIdle \<and> fail_reason u = [] \<and> \<not> ph_stopping (un_phase u)
         then run_todo env (Fail (''ASE control point op 0x'' @ hex02 (v ! 0) @ '' rejected (0x'' @ hex02 (v ! 3) @ '' / 0x'' @
                hex02 (v ! 4) @ '')'')) u
         else (u, []))
      else case List.find (\<lambda>e. re_code e \<noteq> 0 \<and> planned u dev (re_ase_id e) \<and> start_phase (un_phase u))
                  (take (unat (v ! 1)) (chunks3 (drop 2 v))) of
             None \<Rightarrow> (u, [])
           | Some e \<Rightarrow> run_todo env (Fail (''ASE '' @ show_nat (unat (re_ase_id e)) @ '': op 0x'' @ hex02 (v ! 0) @
                '' rejected (response 0x'' @ hex02 (re_code e) @ '' reason 0x'' @ hex02 (re_reason e) @ '')'')) u)"

fun set_handles :: "cis_plan list \<Rightarrow> u16 list \<Rightarrow> cis_plan list" where
  "set_handles (c # cs) (h # hs) = c\<lparr>pl_cis_handle := h\<rparr> # set_handles cs hs"
| "set_handles cs _ = cs"

definition on_cig_created :: "unicast_env \<Rightarrow> bytes \<Rightarrow> unicast \<Rightarrow> unicast \<times> un_action list" where
  "on_cig_created env packet u =
     (case (cig_created packet, un_plan u) of
        (Some ev, Some plan) \<Rightarrow>
          if \<not> cig_pending u \<or> gc_cig_id ev \<noteq> sn_cig_id plan then (u, [])
          else let u1 = u\<lparr>cig_pending := False\<rparr> in
               if gc_status ev \<noteq> 0
               then run_todo env (Fail (''LE Set CIG Parameters failed (0x'' @ hex02 (gc_status ev) @ '')'')) (u1\<lparr>cig_exists := False\<rparr>)
               else let u2 = u1\<lparr>un_plan := Some (plan\<lparr>sn_cis := set_handles (sn_cis plan) (gc_cis_handles ev)\<rparr>)\<rparr>
                    in run_todo env (if un_phase u = PhCreateCig then Enter PhConfigQos else Advance) u2
      | _ \<Rightarrow> (u, []))"

definition on_cis_created :: "unicast_env \<Rightarrow> bytes \<Rightarrow> unicast \<Rightarrow> unicast \<times> un_action list" where
  "on_cis_created env packet u =
     (case (cis_created packet, un_plan u) of
        (Some ev, Some plan) \<Rightarrow>
          if sn_cig_id plan \<noteq> ic_cig_id ev \<or> cis_pending u = 0 then (u, [])
          else let u1 = u\<lparr>cis_pending := cis_pending u - 1\<rparr>;
                   (u2, acts2) =
                     (if ic_status ev \<noteq> 0
                      then (if un_phase u = PhCreateCis
                            then run_todo env (Fail (''CIS 0x'' @ hex04 (ic_cis_handle ev) @ '' could not be established (0x'' @
                                   hex02 (ic_status ev) @ '')'')) u1
                            else (u1, []))
                      else (u1\<lparr> cis_up := cis_up u1 + 1, cis_connected := cis_connected u1 @ [ic_cis_handle ev] \<rparr>, []));
                   (u3, acts3) = run_todo env Advance u2
               in (u3, acts2 @ acts3)
      | _ \<Rightarrow> (u, []))"

definition cis_lost :: "u16 \<Rightarrow> unicast \<Rightarrow> unicast" where
  "cis_lost h u =
     (let u1 = (if h \<in> set (cis_dropping u) \<or> h \<in> set (cis_to_drop u) then u
                else if un_phase u = PhCreateCis \<and> cis_pending u > 0 then u\<lparr>cis_pending := cis_pending u - 1\<rparr> else u)
      in u1\<lparr> cis_connected := filter (\<lambda>x. x \<noteq> h) (cis_connected u1), cis_to_drop := filter (\<lambda>x. x \<noteq> h) (cis_to_drop u1),
             cis_dropping := filter (\<lambda>x. x \<noteq> h) (cis_dropping u1) \<rparr>)"

definition on_link_lost :: "unicast_env \<Rightarrow> u16 \<Rightarrow> unicast \<Rightarrow> unicast \<times> un_action list" where
  "on_link_lost env h u =
     (if \<not> uses_handle u h then (u, [])
      else let (u1, acts1) = (if list_ex (\<lambda>c. pl_cis_handle c = h) (plan_cis u) then (cis_lost h u, [CisDown h]) else (u, []));
               (u2, acts2) = (if un_phase u1 = PhStreaming then (u1, [StreamLost ''a link of the stream went down''])
                              else if ph_stopping (un_phase u1) then run_todo env Advance u1
                              else run_todo env (Fail ''a link went down'') u1)
           in (u2, acts1 @ acts2))"

text \<open>The requests of the host and the events of the core.\<close>

datatype un_event =
  EvStart bool stream_plan nat
| EvStop nat
| EvTimer unicast_timer
| EvContexts u32
| EvAse u32 u8
| EvCp u32 bytes
| EvCigCreated bytes
| EvCisCreated bytes
| EvCigRemoved
| EvLinkLost u16

fun on_timer_fired :: "unicast_env \<Rightarrow> unicast_timer \<Rightarrow> unicast \<Rightarrow> unicast \<times> un_action list" where
  "on_timer_fired env StepTimer u = on_timeout env u"
| "on_timer_fired env DropTimer u = drop_cis env u"
| "on_timer_fired env RefreshTimer u = on_refresh env u"

fun un_handle :: "unicast_env \<Rightarrow> un_event \<Rightarrow> unicast \<Rightarrow> unicast \<times> un_action list" where
  "un_handle env (EvStart broadcast plan done) u = start_unicast env broadcast plan done u"
| "un_handle env (EvStop done) u = un_stop env done u"
| "un_handle env (EvTimer t) u = on_timer_fired env t u"
| "un_handle env (EvContexts dev) u = on_available_contexts env dev u"
| "un_handle env (EvAse dev i) u = on_ase_update env dev i u"
| "un_handle env (EvCp dev v) u = on_cp_response env dev v u"
| "un_handle env (EvCigCreated p) u = on_cig_created env p u"
| "un_handle env (EvCisCreated p) u = on_cis_created env p u"
| "un_handle env EvCigRemoved u = on_cig_removed u"
| "un_handle env (EvLinkLost h) u = on_link_lost env h u"

text \<open>The machine with its timers: an action arms or disarms a timer, and only an armed timer fires.\<close>

record bap_system =
  bs_un :: unicast
  bs_armed :: "unicast_timer \<Rightarrow> bool"

definition bap_new :: bap_system where
  "bap_new = \<lparr> bs_un = unicast_new, bs_armed = (\<lambda>_. False) \<rparr>"

fun apply_timer :: "un_action \<Rightarrow> (unicast_timer \<Rightarrow> bool) \<Rightarrow> unicast_timer \<Rightarrow> bool" where
  "apply_timer (Arm t ms) armed = armed(t := True)"
| "apply_timer (Disarm t) armed = armed(t := False)"
| "apply_timer _ armed = armed"

fun bap_step :: "bap_system \<Rightarrow> unicast_env \<times> un_event \<Rightarrow> bap_system \<times> un_action list" where
  "bap_step s (env, ev) =
     (case ev of
        EvTimer t \<Rightarrow>
          if bs_armed s t
          then let (u, acts) = un_handle env ev (bs_un s)
               in (\<lparr> bs_un = u, bs_armed = fold apply_timer acts ((bs_armed s)(t := False)) \<rparr>, acts)
          else (s, [])
      | _ \<Rightarrow> let (u, acts) = un_handle env ev (bs_un s) in (\<lparr> bs_un = u, bs_armed = fold apply_timer acts (bs_armed s) \<rparr>, acts))"

fun bap_run :: "bap_system \<Rightarrow> (unicast_env \<times> un_event) list \<Rightarrow> bap_system \<times> un_action list" where
  "bap_run s [] = (s, [])"
| "bap_run s (e # es) = (let (s1, a1) = bap_step s e; (s2, a2) = bap_run s1 es in (s2, a1 @ a2))"

end
