(* ===== verification/Bap_Invariant.thy ===== *)
theory Bap_Invariant
  imports Bap_Unicast "HOL-Library.Multiset"
begin

text \<open>
  The invariant of the BAP unicast machine (\<open>Bap_Unicast\<close>): \<open>core_ok\<close> holds in every phase, \<open>phase_ok\<close>
  says what holds in each, and \<open>un_inv\<close> is both. The rule \<open>run_todo_rule\<close> carries any property over a chain
  of enter, advance and fail from the property of one step; each handler has a case rule that names the ways it
  can end (\<open>started\<close>, \<open>stop_asked\<close>, \<open>cig_made\<close>, \<open>cis_made\<close>, \<open>link_lost\<close>), which the
  theories on top (answers, timing, sending) reuse instead of opening the handlers again.
\<close>

subsection \<open>The invariant\<close>

definition core_ok :: "unicast \<Rightarrow> bool" where
  "core_ok u \<longleftrightarrow>
     (start_done u = None \<longleftrightarrow> \<not> starting u) \<and> (un_plan u = None \<longrightarrow> un_phase u = PhIdle) \<and>
     (cig_pending u \<longrightarrow> cig_exists u \<and> starting u \<and> cis_pending u = 0) \<and>
     (cig_removing u \<longrightarrow> cig_exists u \<and> \<not> cig_pending u \<and> cis_pending u = 0 \<and> cis_to_drop u = [] \<and> cis_dropping u = []) \<and>
     (cis_pending u > 0 \<longrightarrow> cig_exists u) \<and> cis_pending u + cis_up u \<le> length (plan_cis u)"

definition phase_ok :: "phase \<Rightarrow> unicast \<Rightarrow> bool" where
  "phase_ok p u \<longleftrightarrow>
     (p = PhIdle \<longrightarrow> \<not> starting u \<and> stop_done u = [] \<and> \<not> cig_exists u \<and> \<not> waiting_contexts u \<and> cis_connected u = [] \<and>
        cis_to_drop u = [] \<and> cis_dropping u = []) \<and>
     (ph_rank p \<le> 6 \<longrightarrow> starting u) \<and>
     (ph_rank p \<le> 7 \<longrightarrow> fail_reason u = [] \<and> stop_done u = [] \<and> cis_to_drop u = [] \<and> cis_dropping u = []) \<and>
     (p = PhStreaming \<longrightarrow> \<not> starting u) \<and>
     (p = PhConfigCodec \<longrightarrow> \<not> cig_exists u) \<and>
     (3 \<le> ph_rank p \<and> ph_rank p \<le> 7 \<longrightarrow> cig_exists u \<and> \<not> cig_pending u) \<and>
     (ph_rank p \<le> 4 \<longrightarrow> cis_pending u = 0 \<and> cis_connected u = []) \<and>
     (ph_rank p \<in> {5, 6} \<longrightarrow> length (cis_connected u) = cis_up u) \<and>
     (ph_rank p \<in> {6, 7} \<longrightarrow> cis_up u = length (plan_cis u)) \<and>
     (ph_stopping p \<and> starting u \<longrightarrow> fail_reason u \<noteq> []) \<and>
     (p \<noteq> PhRemoveCig \<longrightarrow> \<not> cig_removing u)"

fun enter_from :: "phase \<Rightarrow> phase" where
  "enter_from PhCreateCig = PhConfigCodec"
| "enter_from PhCreateCis = PhEnable"
| "enter_from PhStreaming = PhWaitStreaming"
| "enter_from p = p"

definition un_inv :: "unicast \<Rightarrow> bool" where
  "un_inv u \<longleftrightarrow> core_ok u \<and> phase_ok (un_phase u) u"

fun todo_ok :: "todo \<Rightarrow> unicast \<Rightarrow> bool" where
  "todo_ok (Enter p) u \<longleftrightarrow> core_ok u \<and> un_plan u \<noteq> None \<and> p \<noteq> PhIdle \<and> phase_ok (enter_from p) u"
| "todo_ok Advance u \<longleftrightarrow> un_inv u"
| "todo_ok (Fail why) u \<longleftrightarrow> core_ok u \<and> un_plan u \<noteq> None \<and> why \<noteq> [] \<and>
     (if fail_reason u = [] then \<not> cig_removing u \<and> ph_rank (un_phase u) \<le> 7 else un_inv u)"
| "todo_ok Return u \<longleftrightarrow> un_inv u"

lemma ph_stopping_simps [simp]:
  "ph_stopping PhDisable" "ph_stopping PhRelease" "ph_stopping PhRemoveCig" "\<not> ph_stopping PhIdle" "\<not> ph_stopping PhConfigCodec"
  "\<not> ph_stopping PhCreateCig" "\<not> ph_stopping PhConfigQos" "\<not> ph_stopping PhEnable" "\<not> ph_stopping PhCreateCis"
  "\<not> ph_stopping PhWaitStreaming" "\<not> ph_stopping PhStreaming"
  by (simp_all add: ph_stopping_def)

lemmas phase_ok_at =
  phase_ok_def[of PhIdle, simplified] phase_ok_def[of PhConfigCodec, simplified] phase_ok_def[of PhCreateCig, simplified]
  phase_ok_def[of PhConfigQos, simplified] phase_ok_def[of PhEnable, simplified] phase_ok_def[of PhCreateCis, simplified]
  phase_ok_def[of PhWaitStreaming, simplified] phase_ok_def[of PhStreaming, simplified] phase_ok_def[of PhDisable, simplified]
  phase_ok_def[of PhRelease, simplified] phase_ok_def[of PhRemoveCig, simplified]

lemma run_todo_rule:
  assumes "I t u acts0"
    and "\<And>t u acts u1 a t1. I t u acts \<Longrightarrow> t \<noteq> Return \<Longrightarrow> todo_step env t u = (u1, a, t1) \<Longrightarrow> I t1 u1 (acts @ a)"
  shows "I Return (fst (run_todo env t u)) (acts0 @ snd (run_todo env t u))"
  using assms(1)
proof (induction "todo_measure t u" arbitrary: t u acts0 rule: less_induct)
  case less
  show ?case
  proof (cases "t = Return")
    case True
    then show ?thesis using less.prems by (simp add: run_todo.simps)
  next
    case False
    obtain u1 a t1 where s: "todo_step env t u = (u1, a, t1)" by (cases "todo_step env t u")
    have "I Return (fst (run_todo env t1 u1)) ((acts0 @ a) @ snd (run_todo env t1 u1))"
      by (rule less.hyps[OF todo_measure_step[OF False s] assms(2)[OF less.prems False s]])
    moreover have "run_todo env t u = (fst (run_todo env t1 u1), a @ snd (run_todo env t1 u1))"
      by (subst run_todo.simps) (simp add: False s split: prod.splits)
    ultimately show ?thesis by simp
  qed
qed

lemma enter_step_eq:
  assumes "un_plan u = Some plan" "enter_body env p plan (u\<lparr>un_phase := p\<rparr>) = (u1, a1, t1)"
  shows "enter env p u = (u1, enter_timers p @ a1, t1)"
  using assms by (simp add: enter_def)

lemma plan_cis_simps [simp]: "un_plan u = Some plan \<Longrightarrow> plan_cis u = sn_cis plan"
  by (simp add: plan_cis_def)

lemma plan_cis_update [simp]:
  "plan_cis (un_plan_update (\<lambda>_. Some plan) u) = sn_cis plan"
  "plan_cis (un_phase_update f1 u) = plan_cis u" "plan_cis (start_done_update f2 u) = plan_cis u"
  "plan_cis (stop_done_update f3 u) = plan_cis u" "plan_cis (cig_exists_update f4 u) = plan_cis u"
  "plan_cis (cig_pending_update f4 u) = plan_cis u" "plan_cis (cig_removing_update f4 u) = plan_cis u"
  "plan_cis (cis_pending_update f5 u) = plan_cis u" "plan_cis (cis_up_update f5 u) = plan_cis u"
  "plan_cis (starting_update f4 u) = plan_cis u" "plan_cis (fail_reason_update f6 u) = plan_cis u"
  "plan_cis (un_latency_ms_update f7 u) = plan_cis u" "plan_cis (un_phy_update f8 u) = plan_cis u"
  "plan_cis (un_framing_update f8 u) = plan_cis u" "plan_cis (waiting_contexts_update f4 u) = plan_cis u"
  "plan_cis (cis_connected_update f9 u) = plan_cis u" "plan_cis (cis_to_drop_update f9 u) = plan_cis u"
  "plan_cis (cis_dropping_update f9 u) = plan_cis u"
  by (simp_all add: plan_cis_def)

lemma finish_stop_ok:
  assumes "core_ok u" "\<not> cig_exists u"
  shows "un_inv (fst (finish_stop u))"
  using assms by (auto simp: finish_stop_def un_inv_def core_ok_def phase_ok_at)

lemma try_remove_ok:
  assumes "core_ok u" "phase_ok PhRemoveCig u" "un_phase u = PhRemoveCig"
  shows "un_inv (fst (try_remove_cig env u))"
proof (cases "cig_exists u \<and> \<not> cig_pending u \<and> cis_pending u = 0 \<and> cis_to_drop u = [] \<and> cis_dropping u = [] \<and> \<not> cig_removing u")
  case True
  then have "core_ok (u\<lparr>cig_exists := False\<rparr>)" using assms(1) by (simp add: core_ok_def)
  then have f: "un_inv (fst (finish_stop (u\<lparr>cig_exists := False\<rparr>)))" by (rule finish_stop_ok) simp
  have r: "un_inv (u\<lparr>cig_removing := True\<rparr>)" using assms True by (simp add: un_inv_def core_ok_def phase_ok_at)
  show ?thesis using True f r unfolding try_remove_cig_def Let_def by (simp add: split_def)
next
  case False
  then have "fst (try_remove_cig env u) = (if cig_exists u then u else fst (finish_stop u))"
    by (auto simp: try_remove_cig_def)
  then show ?thesis using assms finish_stop_ok[of u] by (auto simp: un_inv_def)
qed

lemma written_ok:
  assumes "written r u = (u1, a, t)" "core_ok u" "phase_ok (un_phase u) u" "un_plan u \<noteq> None" "fail_reason u = []"
    and "ph_rank (un_phase u) \<le> 7" "\<not> cig_removing u"
  shows "todo_ok t u1"
  using assms by (auto simp: written_def un_inv_def split: if_splits)

lemma create_cig_ok:
  assumes "create_cig env plan u = (u1, a, t)" "un_plan u = Some plan" "un_phase u = PhCreateCig" "core_ok u" "phase_ok PhConfigCodec u"
  shows "todo_ok t u1"
  using assms
  by (auto simp: create_cig_def Let_def cig_failure_def un_inv_def core_ok_def phase_ok_at plan_cis_def split: prod.splits if_splits)

lemma send_enable_ok:
  assumes "send_enable env u = (u1, a, t)" "un_plan u = Some plan" "un_phase u = PhEnable" "core_ok u" "phase_ok PhEnable u"
  shows "todo_ok t u1"
proof (cases "current_contexts env u = 0")
  case True
  then show ?thesis using assms by (auto simp: send_enable_def un_inv_def core_ok_def phase_ok_at)
next
  case False
  obtain r plan' where w: "written r (u\<lparr> waiting_contexts := False, un_plan := Some plan' \<rparr>) = (u1, a, t)" "sn_cis plan' = sn_cis plan"
    using assms(1,2) False by (auto simp: send_enable_def Let_def)
  show ?thesis by (rule written_ok[OF w(1)]) (use assms w(2) in \<open>simp_all add: un_inv_def core_ok_def phase_ok_at\<close>)
qed

lemma enter_create_cis_ok:
  assumes "enter_create_cis env plan u = (u1, a, t)" "un_plan u = Some plan" "un_phase u = PhCreateCis" "core_ok u" "phase_ok PhEnable u"
  shows "todo_ok t u1"
  using assms by (auto simp: enter_create_cis_def Let_def un_inv_def core_ok_def phase_ok_at split: if_splits)

lemma enter_streaming_ok:
  assumes "enter_streaming env plan u = (u1, a, t)" "un_plan u = Some plan" "un_phase u = PhStreaming" "core_ok u" "phase_ok PhWaitStreaming u"
  shows "todo_ok t u1"
  using assms by (auto simp: enter_streaming_def Let_def un_inv_def core_ok_def phase_ok_at split: if_splits)

lemma drop_cis_fields:
  "\<exists>t d. fst (drop_cis env u) = u\<lparr> cis_to_drop := t, cis_dropping := d \<rparr> \<and> (cis_to_drop u = [] \<longrightarrow> t = [] \<and> d = cis_dropping u)"
proof -
  obtain t d acts where l: "drop_loop env 0 (cis_to_drop u) (cis_dropping u) = (t, d, acts)"
    by (cases "drop_loop env 0 (cis_to_drop u) (cis_dropping u)")
  then have "fst (drop_cis env u) = u\<lparr> cis_to_drop := t, cis_dropping := d \<rparr>" by (simp add: drop_cis_def)
  moreover have "cis_to_drop u = [] \<longrightarrow> t = [] \<and> d = cis_dropping u" using l by auto
  ultimately show ?thesis by blast
qed

lemma stop_phase_ok:
  assumes "phase_ok p u" "\<not> cig_removing u" "ph_stopping p" "ph_stopping q"
  shows "phase_ok q u"
  using assms by (auto simp: ph_stopping_def phase_ok_at)

lemma enter_release_ok:
  assumes "enter_release env plan u = (u1, a, t)" "un_plan u = Some plan" "un_phase u = PhRelease" "core_ok u" "phase_ok PhRelease u"
  shows "todo_ok t u1"
proof -
  let ?u = "u\<lparr>cis_to_drop := queue_drops (cis_dropping u) (cis_connected u) (cis_to_drop u)\<rparr>"
  obtain td d where e: "fst (drop_cis env ?u) = ?u\<lparr> cis_to_drop := td, cis_dropping := d \<rparr>" using drop_cis_fields[of env ?u] by blast
  have "u1 = fst (drop_cis env ?u)" "t = Enter PhRemoveCig \<or> t = Advance"
    using assms(1) by (auto simp: enter_release_def Let_def split: prod.splits if_splits)
  then show ?thesis using assms e by (auto simp: un_inv_def core_ok_def phase_ok_at)
qed

lemma enter_ok:
  assumes "todo_ok (Enter p) u" "enter env p u = (u1, a, t)"
  shows "todo_ok t u1"
proof -
  obtain plan where plan: "un_plan u = Some plan" using assms(1) by auto
  let ?u = "u\<lparr>un_phase := p\<rparr>"
  obtain a1 where b: "enter_body env p plan ?u = (u1, a1, t)"
    using assms(2) plan by (auto simp: enter_def split: prod.splits)
  have u: "un_plan ?u = Some plan" "un_phase ?u = p" "core_ok ?u" "phase_ok (enter_from p) ?u" "p \<noteq> PhIdle"
    using assms(1) plan by (auto simp: core_ok_def phase_ok_def)
  show ?thesis
  proof (cases p)
    case PhConfigCodec
    show ?thesis by (rule written_ok) (use b u PhConfigCodec in \<open>auto simp: phase_ok_at\<close>)
  next
    case PhCreateCig
    show ?thesis by (rule create_cig_ok) (use b u PhCreateCig in auto)
  next
    case PhConfigQos
    show ?thesis by (rule written_ok) (use b u PhConfigQos in \<open>auto simp: phase_ok_at\<close>)
  next
    case PhEnable
    show ?thesis by (rule send_enable_ok[of env "?u\<lparr>waiting_contexts := False\<rparr>"]) (use b u PhEnable in \<open>auto simp: un_inv_def core_ok_def phase_ok_at\<close>)
  next
    case PhCreateCis
    show ?thesis by (rule enter_create_cis_ok) (use b u PhCreateCis in auto)
  next
    case PhWaitStreaming
    show ?thesis using b u PhWaitStreaming by (auto simp: un_inv_def)
  next
    case PhStreaming
    show ?thesis by (rule enter_streaming_ok) (use b u PhStreaming in auto)
  next
    case PhDisable
    show ?thesis using b u PhDisable by (auto simp: Let_def un_inv_def phase_ok_at)
  next
    case PhRelease
    show ?thesis by (rule enter_release_ok) (use b u PhRelease in auto)
  next
    case PhRemoveCig
    show ?thesis using b u PhRemoveCig try_remove_ok[of ?u env] by (auto split: prod.splits)
  qed (use u in simp)
qed

lemma advance_ok:
  assumes "todo_ok Advance u" "advance env u = (u1, a, t)"
  shows "todo_ok t u1"
proof (cases "un_plan u = None \<or> un_phase u = PhRemoveCig")
  case True
  then show ?thesis using assms try_remove_ok[of u env] by (auto simp: advance_def un_inv_def split: prod.splits option.splits)
next
  case False
  then obtain plan where plan: "un_plan u = Some plan" "un_phase u \<noteq> PhRemoveCig" by auto
  then have a: "u1 = u" "t = (case advance_next env plan u of Some p \<Rightarrow> Enter p | None \<Rightarrow> Return)"
    using assms(2) by (auto simp: advance_def)
  show ?thesis
  proof (cases "advance_next env plan u")
    case None
    then show ?thesis using a assms(1) by simp
  next
    case (Some p)
    then show ?thesis using a assms(1) plan
      by (cases "un_phase u") (auto simp: advance_next_def un_inv_def phase_ok_at split: if_splits)
  qed
qed

lemma fail_ok:
  assumes "todo_ok (Fail why) u" "fail why u = (u1, a, t)"
  shows "todo_ok t u1"
  using assms by (auto simp: fail_def un_inv_def core_ok_def phase_ok_at split: if_splits)

lemma todo_step_ok:
  assumes "todo_ok t u" "todo_step env t u = (u1, a, t1)"
  shows "todo_ok t1 u1"
  using assms enter_ok advance_ok fail_ok by (cases t) auto

lemma run_todo_ok: "todo_ok t u \<Longrightarrow> un_inv (fst (run_todo env t u))"
  using run_todo_rule[where I = "\<lambda>t u _. todo_ok t u", of t u env] by (auto intro: todo_step_ok)


subsection \<open>The handlers\<close>

lemma inv_plan: "un_inv u \<Longrightarrow> un_phase u \<noteq> PhIdle \<Longrightarrow> \<exists>plan. un_plan u = Some plan"
  by (auto simp: un_inv_def core_ok_def)

lemma inv_start:
  assumes "un_inv u" "ph_rank (un_phase u) \<le> 7"
  shows "fail_reason u = [] \<and> stop_done u = [] \<and> \<not> cig_removing u \<and> cis_to_drop u = [] \<and> cis_dropping u = [] \<and> core_ok u \<and> un_plan u \<noteq> None"
proof -
  have "un_phase u \<noteq> PhIdle" "un_phase u \<noteq> PhRemoveCig" using assms(2) by auto
  then show ?thesis using assms inv_plan[OF assms(1)] unfolding un_inv_def phase_ok_def by auto
qed

lemma phase_cases: "p = PhIdle \<or> ph_stopping p \<or> p \<noteq> PhIdle \<and> \<not> ph_stopping p \<and> ph_rank p \<le> 7"
  by (cases p) auto

lemma start_rank: "p \<noteq> PhIdle \<Longrightarrow> \<not> ph_stopping p \<Longrightarrow> ph_rank p \<le> 7"
  using phase_cases by blast

text \<open>What each handler does, as the step chains it runs, and that the chains start well.\<close>

definition started :: "stream_plan \<Rightarrow> nat \<Rightarrow> unicast \<Rightarrow> unicast" where
  "started plan d u =
     u\<lparr> un_plan := Some plan, start_done := Some d, starting := True, fail_reason := [], cis_up := 0, cis_pending := 0,
        waiting_contexts := False, cis_connected := [], cis_to_drop := [], cis_dropping := [] \<rparr>"

lemma start_cases:
  obtains (refused) w where "start_unicast env b plan d u = (u, [StartDone d (StartErr w)])"
  | (started) "un_phase u = PhIdle" "start_unicast env b plan d u =
       (fst (run_todo env (Enter PhConfigCodec) (started plan d u)), Disarm DropTimer # snd (run_todo env (Enter PhConfigCodec) (started plan d u)))"
proof (cases "b \<or> un_busy u")
  case True
  then have "start_unicast env b plan d u = (u, [StartDone d (StartErr (if b then ''a broadcast is running'' else ''a stream is still being stopped''))])"
    by (auto simp: start_unicast_def)
  then show ?thesis by (rule refused)
next
  case False
  then show ?thesis by (intro started) (simp_all add: start_unicast_def un_start_def started_def un_busy_def Let_def split_def)
qed

lemma started_todo: "un_inv u \<Longrightarrow> un_phase u = PhIdle \<Longrightarrow> todo_ok (Enter PhConfigCodec) (started plan d u)"
  by (auto simp: started_def un_inv_def core_ok_def phase_ok_at)

definition stop_asked :: "nat \<Rightarrow> unicast \<Rightarrow> unicast" where
  "stop_asked d u = (let u1 = u\<lparr>stop_done := stop_done u @ [d]\<rparr> in if starting u1 \<and> fail_reason u1 = [] then u1\<lparr>fail_reason := ''stopped''\<rparr> else u1)"

lemma stop_cases:
  obtains (idle) "un_stop env d u = (u, [StopDone d])"
  | (chained) "ph_stopping (un_phase u)" "un_stop env d u = (u\<lparr>stop_done := stop_done u @ [d]\<rparr>, [])"
  | (stopped) "ph_rank (un_phase u) \<le> 7" "un_stop env d u = run_todo env (Enter PhDisable) (stop_asked d u)"
proof -
  consider "un_phase u = PhIdle" | "ph_stopping (un_phase u)" | "un_phase u \<noteq> PhIdle" "\<not> ph_stopping (un_phase u)" by blast
  then show ?thesis
  proof cases
    case 1
    then show ?thesis by (intro idle) (simp add: un_stop_def)
  next
    case 2
    moreover have "un_phase u \<noteq> PhIdle" using 2 by auto
    ultimately show ?thesis by (intro chained) (simp_all add: un_stop_def Let_def)
  next
    case 3
    then show ?thesis by (intro stopped start_rank) (simp_all add: un_stop_def stop_asked_def Let_def)
  qed
qed

lemma stop_asked_todo:
  assumes "un_inv u" "ph_rank (un_phase u) \<le> 7"
  shows "todo_ok (Enter PhDisable) (stop_asked d u)"
proof -
  have f: "fail_reason u = []" "\<not> cig_removing u" "core_ok u" "un_plan u \<noteq> None" using inv_start[OF assms] by auto
  have "core_ok (stop_asked d u)" using f(3) by (simp add: stop_asked_def core_ok_def Let_def)
  moreover have "phase_ok PhDisable (stop_asked d u)" using f by (simp add: stop_asked_def phase_ok_at Let_def)
  ultimately show ?thesis using f(4) by (simp add: stop_asked_def Let_def)
qed

lemma contexts_cases:
  obtains (ignored) "on_available_contexts env dev u = (u, [])"
  | (enabled) u1 a t where "un_phase u = PhEnable" "send_enable env u = (u1, a, t)"
      "on_available_contexts env dev u = (fst (run_todo env t u1), a @ snd (run_todo env t u1))"
proof (cases "un_phase u = PhEnable \<and> waiting_contexts u \<and> list_ex (\<lambda>c. pl_device_id c = dev) (plan_cis u)")
  case True
  obtain u1 a t where e: "send_enable env u = (u1, a, t)" by (cases "send_enable env u")
  show ?thesis by (rule enabled[OF _ e]) (use True e in \<open>simp_all add: on_available_contexts_def split_def Let_def\<close>)
next
  case False
  then show ?thesis by (intro ignored) (auto simp: on_available_contexts_def)
qed

lemma enabled_todo:
  assumes "un_inv u" "un_phase u = PhEnable" "send_enable env u = (u1, a, t)"
  shows "todo_ok t u1"
proof -
  obtain plan where "un_plan u = Some plan" using inv_plan[OF assms(1)] assms(2) by auto
  then show ?thesis using send_enable_ok[OF assms(3)] assms(1,2) by (auto simp: un_inv_def)
qed

lemma cig_removed_cases:
  assumes "un_inv u"
  obtains (ignored) "on_cig_removed u = (u, [])"
  | (removed) "cig_removing u" "un_phase u = PhRemoveCig" "on_cig_removed u = finish_stop (u\<lparr> cig_removing := False, cig_exists := False \<rparr>)"
proof (cases "cig_removing u")
  case True
  then have "un_phase u = PhRemoveCig" using assms unfolding un_inv_def phase_ok_def by blast
  then show ?thesis using True removed by (simp add: on_cig_removed_def)
qed (use ignored in \<open>simp add: on_cig_removed_def\<close>)

lemma removed_core: "un_inv u \<Longrightarrow> cig_removing u \<or> \<not> cig_exists u \<Longrightarrow> core_ok (u\<lparr> cig_removing := False, cig_exists := False \<rparr>)"
  by (auto simp: un_inv_def core_ok_def)

lemma no_answer_nonempty [simp]: "no_answer env u \<noteq> []"
  by (simp add: no_answer_def)

definition gave_up :: "unicast \<Rightarrow> unicast" where
  "gave_up u = u\<lparr> cig_pending := False, cis_pending := 0, cis_to_drop := [], cis_dropping := [] \<rparr>"

lemma timeout_cases:
  obtains (nothing) "un_phase u \<in> {PhIdle, PhStreaming}" "on_timeout env u = (u, [])"
  | (next_step) p where "un_phase u \<in> {PhDisable, PhRelease}" "ph_stopping p" "ph_rank p = Suc (ph_rank (un_phase u))" "on_timeout env u = run_todo env (Enter p) u"
  | (failed) why where "ph_rank (un_phase u) \<le> 6" "why \<noteq> []" "on_timeout env u = run_todo env (Fail why) u"
  | (removing) "un_phase u = PhRemoveCig" "\<not> cig_removing u" "cig_exists u"
      "on_timeout env u = (fst (try_remove_cig env (gave_up u)), Disarm DropTimer # snd (try_remove_cig env (gave_up u)) @
         (if un_phase (fst (try_remove_cig env (gave_up u))) = PhRemoveCig then [Arm StepTimer STOP_STEP_TIMEOUT_MS] else []))"
  | (over) "un_phase u = PhRemoveCig" "cig_removing u \<or> \<not> cig_exists u"
      "on_timeout env u = finish_stop (u\<lparr> cig_removing := False, cig_exists := False \<rparr>)"
proof (cases "un_phase u = PhRemoveCig")
  case True
  then show ?thesis using removing over
    by (cases "\<not> cig_removing u \<and> cig_exists u") (auto simp: on_timeout_def remove_timed_out_def gave_up_def Let_def split_def)
next
  case False
  let ?why = "if un_phase u = PhEnable \<and> waiting_contexts u
    then ''no audio context available for the stream ('' @ contexts_text env u @ '')'' else no_answer env u"
  consider "un_phase u \<in> {PhIdle, PhStreaming}" | "un_phase u = PhDisable" | "un_phase u = PhRelease" | "ph_rank (un_phase u) \<le> 6"
    using False by (cases "un_phase u") auto
  then show ?thesis
  proof cases
    case 1
    show ?thesis by (rule nothing[OF 1]) (use 1 in \<open>auto simp: on_timeout_def\<close>)
  next
    case 2
    then show ?thesis by (intro next_step[of PhRelease]) (simp_all add: on_timeout_def)
  next
    case 3
    then show ?thesis by (intro next_step[of PhRemoveCig]) (simp_all add: on_timeout_def)
  next
    case 4
    have "on_timeout env u = run_todo env (Fail ?why) u" using 4 by (cases "un_phase u") (simp_all add: on_timeout_def)
    then show ?thesis by (intro failed[of ?why] 4) simp_all
  qed
qed

lemma gave_up_ok: "un_inv u \<Longrightarrow> un_phase u = PhRemoveCig \<Longrightarrow> core_ok (gave_up u) \<and> phase_ok PhRemoveCig (gave_up u)"
  by (auto simp: gave_up_def un_inv_def core_ok_def phase_ok_at)

lemma next_step_todo:
  assumes "un_inv u" "un_phase u \<in> {PhDisable, PhRelease}" "ph_stopping p"
  shows "todo_ok (Enter p) u"
proof -
  have u: "core_ok u" "phase_ok (un_phase u) u" "un_plan u \<noteq> None" using assms(1,2) by (auto simp: un_inv_def core_ok_def)
  then have "\<not> cig_removing u" using assms(2) by (auto simp: phase_ok_at)
  moreover have "ph_stopping (un_phase u)" "enter_from p = p" "p \<noteq> PhIdle" using assms(2,3) by (auto simp: ph_stopping_def)
  ultimately show ?thesis using u stop_phase_ok[OF u(2)] assms(3) by simp
qed

lemma fail_todo: "un_inv u \<Longrightarrow> why \<noteq> [] \<Longrightarrow> ph_rank (un_phase u) \<le> 7 \<Longrightarrow> todo_ok (Fail why) u"
  using inv_start[of u] by simp

lemma ase_update_cases:
  obtains (ignored) "on_ase_update env dev i u = (u, [])"
  | (lost) w where "un_phase u = PhStreaming" "on_ase_update env dev i u = (u, [StreamLost w])"
  | (advanced) "on_ase_update env dev i u = run_todo env Advance u"
proof -
  have "on_ase_update env dev i u = (u, []) \<or> un_phase u = PhStreaming \<and> (\<exists>w. on_ase_update env dev i u = (u, [StreamLost w]))
      \<or> on_ase_update env dev i u = run_todo env Advance u"
    by (auto simp: on_ase_update_def split: option.splits)
  then show ?thesis using ignored lost advanced by blast
qed

lemma start_phase_rank: "start_phase p \<Longrightarrow> ph_rank p \<le> 7"
  by (auto simp: start_phase_def)

lemma cp_response_cases:
  obtains (ignored) "on_cp_response env dev v u = (u, [])"
  | (rejected) why where "ph_rank (un_phase u) \<le> 7" "why \<noteq> []" "on_cp_response env dev v u = run_todo env (Fail why) u"
proof -
  have "on_cp_response env dev v u = (u, []) \<or> ph_rank (un_phase u) \<le> 7 \<and> (\<exists>why. why \<noteq> [] \<and> on_cp_response env dev v u = run_todo env (Fail why) u)"
  proof (cases "v ! 1 = 0xFF")
    case True
    then show ?thesis using start_rank[of "un_phase u"] by (auto simp: on_cp_response_def)
  next
    case False
    then show ?thesis using start_phase_rank[of "un_phase u"]
      by (auto simp: on_cp_response_def split: option.splits dest!: find_mem)
  qed
  then show ?thesis using ignored rejected by blast
qed

lemma length_set_handles [simp]: "length (set_handles cs hs) = length cs"
  by (induction cs hs rule: set_handles.induct) auto

definition cig_made :: "stream_plan \<Rightarrow> u16 list \<Rightarrow> unicast \<Rightarrow> unicast" where
  "cig_made plan hs u = u\<lparr> cig_pending := False, un_plan := Some (plan\<lparr>sn_cis := set_handles (sn_cis plan) hs\<rparr>) \<rparr>"

lemma cig_created_cases:
  obtains (ignored) "on_cig_created env packet u = (u, [])"
      "\<And>ev plan. cig_pending u \<Longrightarrow> cig_created packet = Some ev \<Longrightarrow> un_plan u = Some plan \<Longrightarrow> gc_cig_id ev \<noteq> sn_cig_id plan"
  | (failed) plan why ev where "cig_pending u" "un_plan u = Some plan" "why \<noteq> []" "on_cig_created env packet u =
       run_todo env (Fail why) (u\<lparr> cig_pending := False, cig_exists := False \<rparr>)"
       "cig_created packet = Some ev" "gc_cig_id ev = sn_cig_id plan"
  | (made) plan hs ev where "cig_pending u" "un_plan u = Some plan" "on_cig_created env packet u =
       run_todo env (if un_phase u = PhCreateCig then Enter PhConfigQos else Advance) (cig_made plan hs u)"
       "cig_created packet = Some ev" "gc_cig_id ev = sn_cig_id plan" "gc_status ev = 0" "hs = gc_cis_handles ev"
proof (cases "cig_pending u \<and> (\<exists>ev plan. cig_created packet = Some ev \<and> un_plan u = Some plan \<and> gc_cig_id ev = sn_cig_id plan)")
  case True
  then obtain ev plan where e: "cig_pending u" "cig_created packet = Some ev" "un_plan u = Some plan" "gc_cig_id ev = sn_cig_id plan" by blast
  show ?thesis
  proof (cases "gc_status ev = 0")
    case True
    show ?thesis by (rule made[OF e(1,3) _ e(2,4) True refl]) (simp add: on_cig_created_def cig_made_def e True)
  next
    case False
    show ?thesis by (rule failed[OF e(1,3), of "''LE Set CIG Parameters failed (0x'' @ hex02 (gc_status ev) @ '')''", OF _ _ e(2,4)])
      (use False e in \<open>simp_all add: on_cig_created_def\<close>)
  qed
next
  case False
  then show ?thesis by (intro ignored) (auto simp: on_cig_created_def split: option.splits)
qed

lemma inv_cig_pending:
  assumes "un_inv u" "cig_pending u"
  shows "un_phase u = PhCreateCig \<or> ph_stopping (un_phase u) \<and> fail_reason u \<noteq> []"
  using assms by (cases "un_phase u") (auto simp: un_inv_def core_ok_def phase_ok_at)

lemma cig_failed_todo:
  assumes "un_inv u" "cig_pending u" "un_plan u = Some plan" "why \<noteq> []"
  shows "todo_ok (Fail why) (u\<lparr> cig_pending := False, cig_exists := False \<rparr>)"
  using inv_cig_pending[OF assms(1,2)] assms by (auto simp: un_inv_def core_ok_def phase_ok_at ph_stopping_def)

lemma cig_made_todo:
  assumes "un_inv u" "cig_pending u" "un_plan u = Some plan"
  shows "todo_ok (if un_phase u = PhCreateCig then Enter PhConfigQos else Advance) (cig_made plan hs u)"
  using inv_cig_pending[OF assms(1,2)] assms by (auto simp: cig_made_def un_inv_def core_ok_def phase_ok_at ph_stopping_def)

definition cis_counted :: "unicast \<Rightarrow> unicast" where
  "cis_counted u = u\<lparr>cis_pending := cis_pending u - 1\<rparr>"

definition cis_made :: "u16 \<Rightarrow> unicast \<Rightarrow> unicast" where
  "cis_made h u = u\<lparr> cis_pending := cis_pending u - 1, cis_up := cis_up u + 1, cis_connected := cis_connected u @ [h] \<rparr>"

lemma cis_created_cases:
  obtains (ignored) "on_cis_created env packet u = (u, [])"
      "\<And>ev plan. 0 < cis_pending u \<Longrightarrow> cis_created packet = Some ev \<Longrightarrow> un_plan u = Some plan \<Longrightarrow> ic_cig_id ev \<noteq> sn_cig_id plan"
  | (failed) why u2 a2 ev plan where "cis_pending u > 0" "un_phase u = PhCreateCis" "why \<noteq> []" "run_todo env (Fail why) (cis_counted u) = (u2, a2)"
      "on_cis_created env packet u = (fst (run_todo env Advance u2), a2 @ snd (run_todo env Advance u2))"
      "cis_created packet = Some ev" "un_plan u = Some plan" "ic_cig_id ev = sn_cig_id plan"
  | (counted) ev plan where "cis_pending u > 0" "on_cis_created env packet u = run_todo env Advance (cis_counted u)"
      "cis_created packet = Some ev" "un_plan u = Some plan" "ic_cig_id ev = sn_cig_id plan"
  | (made) h ev plan where "cis_pending u > 0" "on_cis_created env packet u = run_todo env Advance (cis_made h u)"
      "cis_created packet = Some ev" "un_plan u = Some plan" "ic_cig_id ev = sn_cig_id plan" "ic_status ev = 0" "h = ic_cis_handle ev"
proof (cases "cis_pending u > 0 \<and> (\<exists>ev plan. cis_created packet = Some ev \<and> un_plan u = Some plan \<and> ic_cig_id ev = sn_cig_id plan)")
  case True
  then obtain ev plan where e: "cis_pending u > 0" "cis_created packet = Some ev" "un_plan u = Some plan" "ic_cig_id ev = sn_cig_id plan" by blast
  show ?thesis
  proof (cases "ic_status ev = 0")
    case True
    show ?thesis by (rule made[OF e(1) _ e(2-4) True refl]) (use e True in \<open>simp add: on_cis_created_def cis_made_def Let_def split_def\<close>)
  next
    case False
    define why where "why = ''CIS 0x'' @ hex04 (ic_cis_handle ev) @ '' could not be established (0x'' @ hex02 (ic_status ev) @ '')''"
    obtain u2 a2 where r: "run_todo env (Fail why) (cis_counted u) = (u2, a2)" by fastforce
    show ?thesis
    proof (cases "un_phase u = PhCreateCis")
      case True
      show ?thesis by (rule failed[OF e(1) True _ r _ e(2-4)])
        (use r e False True in \<open>simp_all add: why_def on_cis_created_def cis_counted_def Let_def split_def\<close>)
    next
      case f: False
      show ?thesis by (rule counted[OF e(1) _ e(2-4)]) (use e False f in \<open>simp add: on_cis_created_def cis_counted_def split_def\<close>)
    qed
  qed
next
  case False
  show ?thesis by (rule ignored) (use False in \<open>auto simp: on_cis_created_def split: option.splits\<close>)
qed

lemma inv_cis_pending:
  assumes "un_inv u" "cis_pending u > 0"
  shows "un_phase u = PhCreateCis \<or> ph_stopping (un_phase u)"
  using assms by (cases "un_phase u") (auto simp: un_inv_def core_ok_def phase_ok_at)

lemma cis_counted_inv: "un_inv u \<Longrightarrow> cis_pending u > 0 \<Longrightarrow> un_inv (cis_counted u)"
  using inv_cis_pending[of u] by (auto simp: cis_counted_def un_inv_def core_ok_def phase_ok_at ph_stopping_def)

lemma cis_made_inv: "un_inv u \<Longrightarrow> cis_pending u > 0 \<Longrightarrow> un_inv (cis_made h u)"
  using inv_cis_pending[of u] by (auto simp: cis_made_def un_inv_def core_ok_def phase_ok_at ph_stopping_def)

lemma cis_lost_keeps [simp]:
  "un_phase (cis_lost h u) = un_phase u" "un_plan (cis_lost h u) = un_plan u" "fail_reason (cis_lost h u) = fail_reason u"
  "cig_removing (cis_lost h u) = cig_removing u" "start_done (cis_lost h u) = start_done u" "stop_done (cis_lost h u) = stop_done u"
  "starting (cis_lost h u) = starting u" "cig_exists (cis_lost h u) = cig_exists u" "cig_pending (cis_lost h u) = cig_pending u"
  "cis_up (cis_lost h u) = cis_up u" "plan_cis (cis_lost h u) = plan_cis u" "waiting_contexts (cis_lost h u) = waiting_contexts u"
  "cis_to_drop (cis_lost h u) = filter (\<lambda>x. x \<noteq> h) (cis_to_drop u)" "cis_dropping (cis_lost h u) = filter (\<lambda>x. x \<noteq> h) (cis_dropping u)"
  by (simp_all add: cis_lost_def Let_def plan_cis_def)

lemma cis_lost_core: "core_ok u \<Longrightarrow> core_ok (cis_lost h u)"
proof -
  have "cis_pending (cis_lost h u) \<le> cis_pending u" by (simp add: cis_lost_def Let_def)
  then show "core_ok u \<Longrightarrow> ?thesis" by (auto simp: core_ok_def)
qed

definition link_lost :: "u16 \<Rightarrow> unicast \<Rightarrow> unicast" where
  "link_lost h u = (if list_ex (\<lambda>c. pl_cis_handle c = h) (plan_cis u) then cis_lost h u else u)"

lemma link_lost_cases:
  obtains (ignored) "on_link_lost env h u = (u, [])" "\<not> uses_handle u h"
  | (streaming) pre w where "set pre \<subseteq> {CisDown h}" "un_phase u = PhStreaming" "on_link_lost env h u = (link_lost h u, pre @ [StreamLost w])"
  | (stopping) pre where "set pre \<subseteq> {CisDown h}" "ph_stopping (un_phase u)"
      "on_link_lost env h u = (fst (run_todo env Advance (link_lost h u)), pre @ snd (run_todo env Advance (link_lost h u)))"
  | (starting) pre why where "why \<noteq> []" "set pre \<subseteq> {CisDown h}" "ph_rank (un_phase u) \<le> 7" "on_link_lost env h u =
       (fst (run_todo env (Fail why) (link_lost h u)), pre @ snd (run_todo env (Fail why) (link_lost h u)))"
proof (cases "uses_handle u h")
  case True
  define pre where "pre = (if list_ex (\<lambda>c. pl_cis_handle c = h) (plan_cis u) then [CisDown h] else [])"
  have p: "set pre \<subseteq> {CisDown h}" "un_phase u \<noteq> PhIdle" using True by (auto simp: pre_def uses_handle_def)
  consider "un_phase u = PhStreaming" | "ph_stopping (un_phase u)" | "un_phase u \<noteq> PhStreaming" "\<not> ph_stopping (un_phase u)" by blast
  then show ?thesis
  proof cases
    case 1
    show ?thesis by (rule streaming[OF p(1) 1]) (use True 1 in \<open>simp add: on_link_lost_def link_lost_def pre_def\<close>)
  next
    case 2
    then have "un_phase u \<noteq> PhStreaming" by auto
    then show ?thesis
      by (intro stopping[OF p(1) 2]) (use True 2 in \<open>simp add: on_link_lost_def link_lost_def pre_def split_def Let_def\<close>)
  next
    case 3
    show ?thesis by (rule starting[of "''a link went down''", OF _ p(1) start_rank[OF p(2) 3(2)]])
      (use True 3 in \<open>simp_all add: on_link_lost_def link_lost_def pre_def split_def Let_def\<close>)
  qed
qed (use ignored in \<open>simp add: on_link_lost_def\<close>)

lemma link_lost_phase [simp]: "un_phase (link_lost h u) = un_phase u"
  by (simp add: link_lost_def)

lemma link_lost_inv: "un_inv u \<Longrightarrow> ph_stopping (un_phase u) \<or> un_phase u = PhStreaming \<Longrightarrow> un_inv (link_lost h u)"
  using cis_lost_core[of u h] by (auto simp: link_lost_def un_inv_def ph_stopping_def phase_ok_at)

lemma link_lost_todo: "un_inv u \<Longrightarrow> ph_rank (un_phase u) \<le> 7 \<Longrightarrow> why \<noteq> [] \<Longrightarrow> todo_ok (Fail why) (link_lost h u)"
  using inv_start[of u] cis_lost_core[of u h] by (auto simp: link_lost_def)

subsection \<open>The handlers keep it\<close>

lemma drop_timer_ok: "un_inv u \<Longrightarrow> un_inv (fst (drop_cis env u))"
proof -
  assume i: "un_inv u"
  obtain t d where e: "fst (drop_cis env u) = u\<lparr> cis_to_drop := t, cis_dropping := d \<rparr>" "cis_to_drop u = [] \<longrightarrow> t = [] \<and> d = cis_dropping u"
    using drop_cis_fields by blast
  show ?thesis
  proof (cases "cis_to_drop u = []")
    case True
    then show ?thesis using i e by (simp add: un_inv_def core_ok_def phase_ok_def)
  next
    case False
    then have "ph_stopping (un_phase u)" "\<not> cig_removing u"
      using i by (cases "un_phase u"; auto simp: un_inv_def core_ok_def phase_ok_at)+
    then show ?thesis using i e by (auto simp: un_inv_def core_ok_def phase_ok_at ph_stopping_def)
  qed
qed

lemma refresh_state [simp]: "fst (on_refresh env u) = u"
  by (simp add: on_refresh_def split: option.splits)

lemma timeout_inv: "un_inv u \<Longrightarrow> un_inv (fst (on_timeout env u))"
proof (cases rule: timeout_cases[where env = env and u = u])
  case removing
  then show "un_inv u \<Longrightarrow> ?thesis" using gave_up_ok[of u] try_remove_ok[of "gave_up u" env] by (simp add: gave_up_def)
next
  case over
  then show "un_inv u \<Longrightarrow> ?thesis" using finish_stop_ok[OF removed_core] by simp
qed (auto intro!: run_todo_ok next_step_todo fail_todo)

lemma un_handle_inv:
  assumes i: "un_inv u"
  shows "un_inv (fst (un_handle env ev u))"
proof (cases ev)
  case (EvStart b plan d)
  show ?thesis by (cases rule: start_cases[where env = env and b = b and plan = plan and d = d and u = u]) (use EvStart i in \<open>auto intro!: run_todo_ok started_todo simp del: todo_ok.simps\<close>)
next
  case (EvStop d)
  have "un_inv (u\<lparr>stop_done := stop_done u @ [d]\<rparr>)" if "ph_stopping (un_phase u)"
    using i that by (auto simp: un_inv_def core_ok_def phase_ok_at ph_stopping_def)
  then show ?thesis by (cases rule: stop_cases[where env = env and d = d and u = u]) (use EvStop i in \<open>auto intro!: run_todo_ok stop_asked_todo simp del: todo_ok.simps\<close>)
next
  case (EvTimer t)
  then show ?thesis using i by (cases t) (simp_all add: timeout_inv drop_timer_ok)
next
  case (EvContexts dev)
  show ?thesis by (cases rule: contexts_cases[where env = env and dev = dev and u = u]) (use EvContexts i enabled_todo run_todo_ok in auto)
next
  case (EvAse dev i')
  show ?thesis by (cases rule: ase_update_cases[where env = env and dev = dev and i = i' and u = u]) (use EvAse i run_todo_ok in auto)
next
  case (EvCp dev v)
  show ?thesis by (cases rule: cp_response_cases[where env = env and dev = dev and v = v and u = u]) (use EvCp i in \<open>auto intro!: run_todo_ok fail_todo simp del: todo_ok.simps\<close>)
next
  case (EvCigCreated p)
  show ?thesis
  proof (cases rule: cig_created_cases[where env = env and packet = p and u = u])
    case (failed plan why)
    show ?thesis using run_todo_ok[OF cig_failed_todo[OF i failed(1-3)], of env] failed(4) EvCigCreated by simp
  next
    case (made plan hs)
    from run_todo_ok[OF cig_made_todo[OF i made(1,2), of hs], of env] show ?thesis using made(3) EvCigCreated by simp
  qed (use EvCigCreated i in simp)
next
  case (EvCisCreated p)
  show ?thesis
  proof (cases rule: cis_created_cases[where env = env and packet = p and u = u])
    case (failed why u2 a2)
    have "todo_ok (Fail why) (cis_counted u)"
      by (rule fail_todo[OF cis_counted_inv[OF i failed(1)] failed(3)]) (simp add: failed(2) cis_counted_def)
    then have "un_inv u2" using run_todo_ok failed(4) by (metis fst_conv)
    then show ?thesis using failed(5) EvCisCreated run_todo_ok[of Advance u2] by simp
  qed (use EvCisCreated i cis_counted_inv cis_made_inv run_todo_ok[of Advance] in auto)
next
  case EvCigRemoved
  show ?thesis by (cases rule: cig_removed_cases[OF i]) (use EvCigRemoved i finish_stop_ok[OF removed_core] in auto)
next
  case (EvLinkLost h)
  show ?thesis by (cases rule: link_lost_cases[where env = env and h = h and u = u])
    (use EvLinkLost i link_lost_inv[OF i] run_todo_ok[of Advance] in \<open>auto intro!: run_todo_ok link_lost_todo\<close>)
qed

lemma un_inv_new: "un_inv unicast_new"
  by (simp add: un_inv_def core_ok_def phase_ok_at unicast_new_def plan_cis_def)

end
