(* ===== verification/Bap_Answers.thy ===== *)
theory Bap_Answers
  imports Bap_Invariant
begin

text \<open>
  The callbacks of the BAP unicast machine (\<open>Bap_Unicast\<close>): every handler keeps the books of the start and stop
  requests, so that what is asked and what is answered or still open are the same callbacks. The cases of the handlers
  and the rule for step chains come from \<open>Bap_Invariant\<close>.
\<close>

fun start_ids :: "un_action list \<Rightarrow> nat list" where
  "start_ids [] = []"
| "start_ids (StartDone d r # acts) = d # start_ids acts"
| "start_ids (_ # acts) = start_ids acts"

fun stop_ids :: "un_action list \<Rightarrow> nat list" where
  "stop_ids [] = []"
| "stop_ids (StopDone d # acts) = d # stop_ids acts"
| "stop_ids (_ # acts) = stop_ids acts"

lemma start_ids_append [simp]: "start_ids (xs @ ys) = start_ids xs @ start_ids ys"
  by (induction xs rule: start_ids.induct) auto

lemma stop_ids_append [simp]: "stop_ids (xs @ ys) = stop_ids xs @ stop_ids ys"
  by (induction xs rule: stop_ids.induct) auto

text \<open>Actions that are no answer, no timer and no start of the sending.\<close>

fun plain :: "un_action \<Rightarrow> bool" where
  "plain (StartDone _ _) = False"
| "plain (StopDone _) = False"
| "plain (Arm _ _) = False"
| "plain (Disarm _) = False"
| "plain (StartSending _ _ _) = False"
| "plain _ = True"

lemma plain_ids: "list_all plain acts \<Longrightarrow> start_ids acts = [] \<and> stop_ids acts = []"
proof (induction acts)
  case (Cons a acts)
  then show ?case by (cases a) auto
qed simp

lemma plain_timers: "list_all plain acts \<Longrightarrow> fold apply_timer acts armed = armed"
proof (induction acts arbitrary: armed)
  case (Cons a acts)
  then show ?case by (cases a) auto
qed simp

lemma plain_cp_writes [simp]: "list_all plain (fst (cp_writes env pdu ds))"
  by (induction env pdu ds rule: cp_writes.induct) (auto simp: Let_def split_def)

lemma plain_cp_selected [simp]: "list_all plain (cp_selected env opcode pred plan)"
  by (auto simp: cp_selected_def list_all_iff Let_def split: if_splits)

lemma plain_cig_retry: "cig_retry env n params st = (p, s, acts) \<Longrightarrow> list_all plain acts"
  by (induction env n params st arbitrary: p s acts rule: cig_retry.induct) (auto simp: Let_def split: if_splits prod.splits)

lemma drop_loop_ids: "drop_loop env n xs ds = (t, d, acts) \<Longrightarrow> start_ids acts = [] \<and> stop_ids acts = []"
  by (induction env n xs ds arbitrary: t d acts rule: drop_loop.induct) (auto simp: Let_def split: if_splits prod.splits)

lemma plain_written: "written (cp_writes env pdu ds) u = (u1, a, t) \<Longrightarrow> u1 = u \<and> list_all plain a"
  by (auto simp: written_def)

lemma plain_send_enable: "send_enable env u = (u1, a, t) \<Longrightarrow> list_all plain a"
  by (auto simp: send_enable_def Let_def split: if_splits option.splits dest!: plain_written)

lemma plain_create_cig: "create_cig env plan u = (u1, a, t) \<Longrightarrow> list_all plain a"
  by (auto simp: create_cig_def Let_def split: if_splits prod.splits dest!: plain_cig_retry)

definition open_starts :: "unicast \<Rightarrow> nat multiset" where
  "open_starts u = (case start_done u of Some d \<Rightarrow> {#d#} | None \<Rightarrow> {#})"

definition balanced :: "unicast \<Rightarrow> un_action list \<Rightarrow> unicast \<Rightarrow> bool" where
  "balanced u acts u' \<longleftrightarrow> open_starts u = open_starts u' + mset (start_ids acts) \<and> mset (stop_done u) = mset (stop_done u') + mset (stop_ids acts)"

lemma balanced_plain: "list_all plain acts \<Longrightarrow> start_done u' = start_done u \<Longrightarrow> stop_done u' = stop_done u \<Longrightarrow> balanced u acts u'"
  by (auto simp: balanced_def open_starts_def dest!: plain_ids)

lemma balanced_append: "balanced u a u1 \<Longrightarrow> balanced u1 b u2 \<Longrightarrow> balanced u (a @ b) u2"
  by (auto simp: balanced_def)

lemma stop_ids_map [simp]: "stop_ids (map StopDone ds) = ds" "start_ids (map StopDone ds) = []"
  by (induction ds) auto

lemma finish_stop_balanced: "core_ok u \<Longrightarrow> balanced u (snd (finish_stop u)) (fst (finish_stop u))"
  by (auto simp: finish_stop_def balanced_def open_starts_def core_ok_def split: option.splits)

lemma try_remove_balanced:
  assumes "core_ok u"
  shows "balanced u (snd (try_remove_cig env u)) (fst (try_remove_cig env u))"
proof -
  have c: "balanced u acts u' \<Longrightarrow> balanced u (CigRemove i # acts) u'" for acts u' i by (simp add: balanced_def)
  have "balanced u (snd (finish_stop (u\<lparr>cig_exists := False\<rparr>))) (fst (finish_stop (u\<lparr>cig_exists := False\<rparr>)))"
    using assms by (auto simp: finish_stop_def balanced_def open_starts_def core_ok_def split: option.splits)
  then show ?thesis using finish_stop_balanced[OF assms] c
    by (auto simp: try_remove_cig_def Let_def split_def balanced_def open_starts_def)
qed

lemma enter_timers_ids [simp]: "start_ids (enter_timers p) = []" "stop_ids (enter_timers p) = []"
  by (simp_all add: enter_timers_def)

lemma drop_cis_balanced: "balanced u (snd (drop_cis env u)) (fst (drop_cis env u))"
  by (auto simp: drop_cis_def balanced_def open_starts_def split: prod.splits dest!: drop_loop_ids)

lemma enter_body_balanced:
  assumes "core_ok u" "un_plan u = Some plan" "enter_body env p plan u = (u1, a, t)"
  shows "balanced u a u1"
proof (cases p)
  case PhConfigCodec
  then show ?thesis using assms plain_written balanced_plain by (metis enter_body.simps(1))
next
  case PhConfigQos
  then show ?thesis using assms plain_written balanced_plain by (metis enter_body.simps(3))
next
  case PhCreateCig
  then have e: "create_cig env plan u = (u1, a, t)" using assms by simp
  show ?thesis by (rule balanced_plain[OF plain_create_cig[OF e]]) (use e in \<open>auto simp: create_cig_def Let_def split: if_splits prod.splits\<close>)
next
  case PhEnable
  then have e: "send_enable env (u\<lparr>waiting_contexts := False\<rparr>) = (u1, a, t)" using assms by simp
  show ?thesis by (rule balanced_plain[OF plain_send_enable[OF e]])
    (use e in \<open>auto simp: send_enable_def written_def Let_def split: if_splits option.splits\<close>)
next
  case PhCreateCis
  then show ?thesis using assms by (auto simp: enter_create_cis_def Let_def balanced_def open_starts_def split: if_splits)
next
  case PhStreaming
  then show ?thesis using assms by (auto simp: enter_streaming_def Let_def balanced_def open_starts_def split: if_splits option.splits)
next
  case PhDisable
  then show ?thesis using assms by (intro balanced_plain) (auto simp: Let_def)
next
  case PhRelease
  let ?u = "u\<lparr>cis_to_drop := queue_drops (cis_dropping u) (cis_connected u) (cis_to_drop u)\<rparr>"
  have d: "balanced u (snd (drop_cis env ?u)) (fst (drop_cis env ?u))" using drop_cis_balanced[of ?u] by (simp add: balanced_def open_starts_def)
  obtain ws where "a = snd (drop_cis env ?u) @ ws" "list_all plain ws" "u1 = fst (drop_cis env ?u)"
    using assms(3) PhRelease by (auto simp: enter_release_def Let_def split_def)
  then show ?thesis using balanced_append[OF d balanced_plain[of ws]] by simp
next
  case PhRemoveCig
  then show ?thesis using assms try_remove_balanced[OF assms(1), of env] by (auto simp: split_def Let_def)
qed (use assms in \<open>auto simp: balanced_def\<close>)

lemma todo_step_balanced:
  assumes "todo_ok t u" "todo_step env t u = (u1, a, t1)"
  shows "balanced u a u1"
proof (cases t)
  case (Enter p)
  then obtain plan b where b: "un_plan u = Some plan" "enter_body env p plan (u\<lparr>un_phase := p\<rparr>) = (u1, b, t1)" "a = enter_timers p @ b"
    using assms by (auto simp: enter_def split: prod.splits)
  have "balanced (u\<lparr>un_phase := p\<rparr>) b u1"
    by (rule enter_body_balanced[OF _ _ b(2)]) (use assms Enter b(1) in \<open>auto simp: core_ok_def\<close>)
  then show ?thesis using b(3) by (simp add: balanced_def open_starts_def)
next
  case Advance
  then show ?thesis using assms try_remove_balanced[of u env]
    by (auto simp: advance_def un_inv_def balanced_def split_def Let_def split: option.splits if_splits)
next
  case (Fail why)
  then show ?thesis using assms by (auto simp: fail_def balanced_def open_starts_def split: if_splits)
qed (use assms in \<open>auto simp: balanced_def\<close>)

lemma run_todo_balanced:
  assumes "todo_ok t u"
  shows "balanced u (snd (run_todo env t u)) (fst (run_todo env t u))"
proof -
  have "todo_ok Return (fst (run_todo env t u)) \<and> balanced u ([] @ snd (run_todo env t u)) (fst (run_todo env t u))"
    by (rule run_todo_rule[where I = "\<lambda>t u' acts. todo_ok t u' \<and> balanced u acts u'"])
      (use assms in \<open>auto simp: balanced_def dest: todo_step_ok todo_step_balanced\<close>)
  then show ?thesis by simp
qed


fun start_reqs :: "un_event \<Rightarrow> nat list" where
  "start_reqs (EvStart b plan d) = [d]"
| "start_reqs _ = []"

fun stop_reqs :: "un_event \<Rightarrow> nat list" where
  "stop_reqs (EvStop d) = [d]"
| "stop_reqs _ = []"

definition answers :: "un_event \<Rightarrow> unicast \<Rightarrow> un_action list \<Rightarrow> unicast \<Rightarrow> bool" where
  "answers ev u acts u' \<longleftrightarrow>
     open_starts u + mset (start_reqs ev) = open_starts u' + mset (start_ids acts) \<and>
     mset (stop_done u) + mset (stop_reqs ev) = mset (stop_done u') + mset (stop_ids acts)"

lemma answers_balanced: "start_reqs ev = [] \<Longrightarrow> stop_reqs ev = [] \<Longrightarrow> answers ev u acts u' \<longleftrightarrow> balanced u acts u'"
  by (simp add: answers_def balanced_def)

lemma balanced_update:
  "balanced (cig_pending_update f4 u) a u' = balanced u a u'" "balanced (cig_exists_update f4 u) a u' = balanced u a u'"
  "balanced (cig_removing_update f4 u) a u' = balanced u a u'" "balanced (cig_made plan hs u) a u' = balanced u a u'"
  "balanced (cis_counted u) a u' = balanced u a u'" "balanced (cis_made h u) a u' = balanced u a u'"
  "balanced (link_lost h u) a u' = balanced u a u'" "balanced (gave_up u) a u' = balanced u a u'"
  by (simp_all add: balanced_def open_starts_def cig_made_def cis_counted_def cis_made_def link_lost_def gave_up_def)

lemma balanced_Nil [simp]: "balanced u [] u"
  by (simp add: balanced_def)

lemma balanced_plain_first: "list_all plain pre \<Longrightarrow> balanced u (pre @ acts) u' = balanced u acts u'"
  by (auto simp: balanced_def dest!: plain_ids)

lemma plain_subset: "set pre \<subseteq> {CisDown h} \<Longrightarrow> list_all plain pre"
  by (auto simp: list_all_iff)

lemma refresh_balanced: "balanced u (snd (on_refresh env u)) u"
proof -
  have "list_all plain (concat (map (\<lambda>c. if dev_connected env (pl_device_id c) \<and> Q c then [ReadAse (pl_device_id c) (pl_ase_id c)] else []) cs))"
    for Q cs by (induction cs) auto
  from plain_ids[OF this] show ?thesis by (auto simp: on_refresh_def balanced_def split: option.splits)
qed

lemma timeout_balanced:
  assumes i: "un_inv u"
  shows "balanced u (snd (on_timeout env u)) (fst (on_timeout env u))"
proof (cases rule: timeout_cases[where env = env and u = u])
  case removing
  from try_remove_balanced[of "gave_up u" env] gave_up_ok[OF i removing(1)]
  have "balanced u (snd (try_remove_cig env (gave_up u))) (fst (try_remove_cig env (gave_up u)))" by (simp add: balanced_update)
  then show ?thesis unfolding removing(4) by (simp add: balanced_def)
next
  case over
  from finish_stop_balanced[OF removed_core[OF i over(2)]] show ?thesis unfolding over(3) by (simp add: balanced_update)
qed (use i in \<open>auto intro!: run_todo_balanced next_step_todo fail_todo simp del: todo_ok.simps\<close>)

lemma un_handle_balanced:
  assumes i: "un_inv u" and no_req: "start_reqs ev = []" "stop_reqs ev = []"
  shows "balanced u (snd (un_handle env ev u)) (fst (un_handle env ev u))"
proof (cases ev)
  case (EvTimer t)
  then show ?thesis using timeout_balanced[OF i] drop_cis_balanced refresh_balanced by (cases t) simp_all
next
  case (EvContexts dev)
  show ?thesis
  proof (cases rule: contexts_cases[where env = env and dev = dev and u = u])
    case (enabled u1 a t)
    have "balanced u a u1"
      by (rule balanced_plain[OF plain_send_enable[OF enabled(2)]])
        (use enabled(2) in \<open>auto simp: send_enable_def written_def Let_def split: if_splits option.splits\<close>)
    then show ?thesis
      using balanced_append[OF _ run_todo_balanced[OF enabled_todo[OF i enabled(1,2)]]] enabled(3) EvContexts by simp
  qed (use EvContexts in simp)
next
  case (EvAse dev i')
  show ?thesis by (cases rule: ase_update_cases[where env = env and dev = dev and i = i' and u = u])
    (use EvAse i run_todo_balanced[of Advance u env] in \<open>auto simp: balanced_def\<close>)
next
  case (EvCp dev v)
  show ?thesis by (cases rule: cp_response_cases[where env = env and dev = dev and v = v and u = u])
    (use EvCp i in \<open>auto intro!: run_todo_balanced fail_todo simp del: todo_ok.simps\<close>)
next
  case (EvCigCreated p)
  show ?thesis
  proof (cases rule: cig_created_cases[where env = env and packet = p and u = u])
    case (failed plan why)
    from run_todo_balanced[OF cig_failed_todo[OF i failed(1-3)], of env] show ?thesis using failed(4) EvCigCreated by (simp add: balanced_update)
  next
    case (made plan hs)
    from run_todo_balanced[OF cig_made_todo[OF i made(1,2), of hs], of env] show ?thesis using made(3) EvCigCreated by (simp add: balanced_update)
  qed (use EvCigCreated in simp)
next
  case (EvCisCreated p)
  show ?thesis
  proof (cases rule: cis_created_cases[where env = env and packet = p and u = u])
    case (failed why u2 a2)
    have "todo_ok (Fail why) (cis_counted u)"
      by (rule fail_todo[OF cis_counted_inv[OF i failed(1)] failed(3)]) (simp add: failed(2) cis_counted_def)
    from run_todo_balanced[OF this, of env] run_todo_ok[OF this, of env]
    have "balanced u a2 u2" "todo_ok Advance u2" using failed(4) by (simp_all add: balanced_update)
    then show ?thesis using balanced_append[OF _ run_todo_balanced] failed(5) EvCisCreated by simp
  qed (use EvCisCreated i cis_counted_inv[OF i] cis_made_inv[OF i] run_todo_balanced[of Advance "cis_counted u" env]
      run_todo_balanced[of Advance "cis_made h u" env for h] in \<open>auto simp: balanced_update\<close>)
next
  case EvCigRemoved
  show ?thesis
    using i
  proof (cases rule: cig_removed_cases)
    case removed
    then show ?thesis using finish_stop_balanced[OF removed_core[OF i]] EvCigRemoved by (simp add: balanced_update)
  qed (use EvCigRemoved in simp)
next
  case (EvLinkLost h)
  show ?thesis
  proof (cases rule: link_lost_cases[where env = env and h = h and u = u])
    case (streaming pre w)
    then show ?thesis using EvLinkLost balanced_update(7)[of h u "[StreamLost w]" "link_lost h u"]
      by (simp add: balanced_plain_first plain_subset) (simp add: balanced_def)
  next
    case (stopping pre)
    then have "un_inv (link_lost h u)" using link_lost_inv[OF i] by simp
    then show ?thesis using stopping EvLinkLost run_todo_balanced[of Advance "link_lost h u" env]
      by (simp add: balanced_plain_first plain_subset balanced_update)
  next
    case (starting pre why)
    have t: "todo_ok (Fail why) (link_lost h u)" by (rule link_lost_todo[OF i starting(3,1)])
    from run_todo_balanced[OF t, of env] show ?thesis using starting EvLinkLost
      by (simp add: balanced_plain_first plain_subset balanced_update)
  qed (use EvLinkLost in simp)
qed (use no_req in simp_all)

lemma un_handle_answers:
  assumes i: "un_inv u"
  shows "answers ev u (snd (un_handle env ev u)) (fst (un_handle env ev u))"
proof (cases ev)
  case (EvStart b plan d)
  show ?thesis
  proof (cases rule: start_cases[where env = env and b = b and plan = plan and d = d and u = u])
    case started
    have "start_done u = None" using i started(1) by (simp add: un_inv_def core_ok_def phase_ok_at)
    have t: "todo_ok (Enter PhConfigCodec) (Bap_Invariant.started plan d u)" by (rule started_todo[OF i started(1)])
    from run_todo_balanced[OF t, of env] \<open>start_done u = None\<close> show ?thesis using started(2) EvStart
      by (simp add: answers_def balanced_def open_starts_def started_def)
  qed (use EvStart in \<open>simp add: answers_def\<close>)
next
  case (EvStop d)
  show ?thesis
  proof (cases rule: stop_cases[where env = env and d = d and u = u])
    case stopped
    have t: "todo_ok (Enter PhDisable) (stop_asked d u)" by (rule stop_asked_todo[OF i stopped(1)])
    from run_todo_balanced[OF t, of env] show ?thesis using stopped(2) EvStop
      by (auto simp: answers_def balanced_def open_starts_def stop_asked_def Let_def)
  qed (use EvStop in \<open>simp_all add: answers_def open_starts_def\<close>)
qed (use un_handle_balanced[OF i, of ev env] in \<open>simp_all add: answers_balanced\<close>)

end
