(* ===== verification/Bap_Timing.thy ===== *)
theory Bap_Timing
  imports Bap_Answers
begin

text \<open>
  The BAP unicast machine over time: the phases only go forward until the machine is idle, the timers match the phase
  (a step timer runs in each phase that waits, a pending CIS disconnection has its retry timer), and so
  a bounded number of step timeouts ends every procedure whatever the devices and BTstack do. The machine with its
  timers is an instance of \<open>inv_machine\<close>.
\<close>

subsection \<open>Phases only go forward\<close>

fun todo_rank :: "todo \<Rightarrow> unicast \<Rightarrow> nat" where
  "todo_rank (Enter p) u = ph_rank p"
| "todo_rank (Fail why) u = (if fail_reason u = [] then 8 else ph_rank (un_phase u))"
| "todo_rank t u = ph_rank (un_phase u)"

lemma try_remove_phase: "un_phase (fst (try_remove_cig env u)) = un_phase u \<or> un_phase (fst (try_remove_cig env u)) = PhIdle"
  by (auto simp: try_remove_cig_def Let_def split_def)

lemma enter_phase:
  assumes "enter env p u = (u1, a, t)"
  shows "un_phase u1 = p \<or> p = PhRemoveCig \<and> un_phase u1 = PhIdle \<and> t = Return"
proof (cases "un_plan u")
  case None
  then show ?thesis using assms by (auto simp: enter_def)
next
  case (Some plan)
  then obtain b where b: "enter_body env p plan (u\<lparr>un_phase := p\<rparr>) = (u1, b, t)"
    using assms by (auto simp: enter_def split: prod.splits)
  show ?thesis
  proof (cases "p = PhRemoveCig")
    case True
    then show ?thesis using b try_remove_phase[of env "u\<lparr>un_phase := p\<rparr>"] by (auto simp: split_def Let_def)
  next
    case False
    then show ?thesis using b
      by (cases p) (auto simp: written_def create_cig_def send_enable_def enter_create_cis_def enter_streaming_def enter_release_def
          drop_cis_def Let_def split: prod.splits if_splits option.splits)
  qed
qed

lemma todo_step_rank:
  assumes "todo_ok t u" "t \<noteq> Return" "todo_step env t u = (u1, a, t1)"
  shows "todo_rank t u \<le> todo_rank t1 u1"
proof (cases t)
  case (Enter p)
  then have e: "enter env p u = (u1, a, t1)" using assms(3) by simp
  show ?thesis using enter_phase[OF e] enter_todo[OF e] Enter by auto
next
  case Advance
  then show ?thesis using assms(3) try_remove_phase[of env u]
    by (auto simp: advance_def Let_def split_def split: option.splits if_splits dest!: advance_next_rank)
next
  case (Fail why)
  then show ?thesis using assms by (auto simp: fail_def split: if_splits)
qed (use assms in simp)

lemma run_todo_rank:
  assumes "todo_ok t u"
  shows "todo_rank t u \<le> ph_rank (un_phase (fst (run_todo env t u)))"
proof -
  have "todo_ok Return (fst (run_todo env t u)) \<and> todo_rank t u \<le> todo_rank Return (fst (run_todo env t u))"
  proof (rule run_todo_rule[where I = "\<lambda>t' u' _. todo_ok t' u' \<and> todo_rank t u \<le> todo_rank t' u'"])
    show "todo_ok t u \<and> todo_rank t u \<le> todo_rank t u" using assms by simp
    show "todo_ok t1 u1 \<and> todo_rank t u \<le> todo_rank t1 u1"
      if "todo_ok t' u' \<and> todo_rank t u \<le> todo_rank t' u'" "t' \<noteq> Return" "todo_step env t' u' = (u1, a, t1)" for t' u' u1 a t1
      using todo_step_ok[OF conjunct1[OF that(1)] that(3)] order_trans[OF conjunct2[OF that(1)] todo_step_rank[OF conjunct1[OF that(1)] that(2,3)]]
      by (rule conjI)
  qed
  then show ?thesis by simp
qed

lemma rank_updates [simp]:
  "un_phase (cis_counted u) = un_phase u" "un_phase (cis_made h u) = un_phase u" "un_phase (cig_made plan hs u) = un_phase u"
  "un_phase (stop_asked d u) = un_phase u" "un_phase (gave_up u) = un_phase u"
  by (simp_all add: cis_counted_def cis_made_def cig_made_def stop_asked_def gave_up_def Let_def)

lemma fail_rank:
  assumes "todo_ok (Fail why) u"
  shows "ph_rank (un_phase u) \<le> ph_rank (un_phase (fst (run_todo env (Fail why) u)))"
    "ph_rank (un_phase u) \<le> 7 \<Longrightarrow> 8 \<le> ph_rank (un_phase (fst (run_todo env (Fail why) u)))"
proof -
  note r = run_todo_rank[OF assms, of env]
  show "ph_rank (un_phase u) \<le> ph_rank (un_phase (fst (run_todo env (Fail why) u)))"
  proof (cases "fail_reason u = []")
    case True
    then have "ph_rank (un_phase u) \<le> 7" using assms by simp
    then show ?thesis using r True by simp
  qed (use r in simp)
  show "8 \<le> ph_rank (un_phase (fst (run_todo env (Fail why) u)))" if "ph_rank (un_phase u) \<le> 7"
  proof (cases "fail_reason u = []")
    case False
    then have "un_inv u" using assms by simp
    then show ?thesis using inv_start[OF _ that] False by simp
  qed (use r in simp)
qed

lemma timeout_rank:
  assumes i: "un_inv u"
  shows "ph_rank (un_phase u) \<le> ph_rank (un_phase (fst (on_timeout env u)))"
proof (cases rule: timeout_cases[where env = env and u = u])
  case (next_step p)
  then show ?thesis using run_todo_rank[OF next_step_todo[OF i next_step(1,2)], of env] by simp
next
  case (failed why)
  then show ?thesis using fail_rank(1)[OF fail_todo[OF i failed(2)], of env] by simp
next
  case removing
  then show ?thesis using try_remove_phase[of env "gave_up u"] by auto
qed simp_all

lemma un_handle_rank:
  assumes i: "un_inv u" and busy: "start_reqs ev = [] \<or> un_busy u"
  shows "ph_rank (un_phase u) \<le> ph_rank (un_phase (fst (un_handle env ev u)))"
proof (cases ev)
  case (EvStart b plan d)
  then show ?thesis using busy by (auto simp: start_unicast_def)
next
  case (EvStop d)
  show ?thesis
  proof (cases rule: stop_cases[where env = env and d = d and u = u])
    case stopped
    then show ?thesis using EvStop run_todo_rank[OF stop_asked_todo[OF i stopped(1), of d], of env] by simp
  qed (use EvStop in simp_all)
next
  case (EvTimer t)
  then show ?thesis using timeout_rank[OF i, of env] by (cases t) simp_all
next
  case (EvContexts dev)
  show ?thesis
  proof (cases rule: contexts_cases[where env = env and dev = dev and u = u])
    case (enabled u1 a t)
    have "ph_rank (un_phase u) \<le> todo_rank t u1"
      using enabled(1,2) by (auto simp: send_enable_def written_def Let_def split: if_splits option.splits)
    then show ?thesis using order_trans[OF _ run_todo_rank[OF enabled_todo[OF i enabled(1,2)], of env]] enabled(3) EvContexts by simp
  qed (use EvContexts in simp)
next
  case (EvAse dev i')
  show ?thesis by (cases rule: ase_update_cases[where env = env and dev = dev and i = i' and u = u])
    (use EvAse i run_todo_rank[of Advance u env] in auto)
next
  case (EvCp dev v)
  show ?thesis
  proof (cases rule: cp_response_cases[where env = env and dev = dev and v = v and u = u])
    case (rejected why)
    then show ?thesis using fail_rank(1)[OF fail_todo[OF i rejected(2,1)], of env] EvCp by simp
  qed (use EvCp in simp)
next
  case (EvCigCreated p)
  show ?thesis
  proof (cases rule: cig_created_cases[where env = env and packet = p and u = u])
    case (failed plan why)
    then show ?thesis using fail_rank(1)[OF cig_failed_todo[OF i failed(1-3)], of env] EvCigCreated by simp
  next
    case (made plan hs)
    from run_todo_rank[OF cig_made_todo[OF i made(1,2), of hs], of env] show ?thesis using made(3) EvCigCreated by (auto split: if_splits)
  qed (use EvCigCreated in simp)
next
  case (EvCisCreated p)
  show ?thesis
  proof (cases rule: cis_created_cases[where env = env and packet = p and u = u])
    case (failed why u2 a2)
    have t: "todo_ok (Fail why) (cis_counted u)"
      by (rule fail_todo[OF cis_counted_inv[OF i failed(1)] failed(3)]) (simp add: failed(2))
    then have "todo_ok Advance u2" "ph_rank (un_phase u) \<le> ph_rank (un_phase u2)"
      using run_todo_ok[OF t, of env] fail_rank(1)[OF t, of env] failed(4) by simp_all
    then show ?thesis using order_trans[OF _ run_todo_rank[of Advance u2 env]] failed(5) EvCisCreated by simp
  next
    case counted
    then show ?thesis using run_todo_rank[of Advance "cis_counted u" env] cis_counted_inv[OF i] EvCisCreated by simp
  next
    case (made h)
    then show ?thesis using run_todo_rank[of Advance "cis_made h u" env] cis_made_inv[OF i] EvCisCreated by simp
  qed (use EvCisCreated in simp)
next
  case EvCigRemoved
  show ?thesis
    using i
  proof (cases rule: cig_removed_cases)
    case removed
    then show ?thesis using EvCigRemoved by simp
  qed (use EvCigRemoved in simp)
next
  case (EvLinkLost h)
  show ?thesis
  proof (cases rule: link_lost_cases[where env = env and h = h and u = u])
    case (stopping pre)
    then show ?thesis using run_todo_rank[of Advance "link_lost h u" env] link_lost_inv[OF i] EvLinkLost by simp
  next
    case (starting pre why)
    then show ?thesis using fail_rank(1)[OF link_lost_todo[OF i starting(3,1), of h], of env] EvLinkLost by simp
  qed (use EvLinkLost in simp_all)
qed


subsection \<open>Deadlines\<close>

text \<open>In Remove CIG nothing is waited for any more but the end of the removal.\<close>

definition removal_asked :: "unicast \<Rightarrow> bool" where
  "removal_asked u \<longleftrightarrow> cig_removing u \<or> \<not> cig_exists u"

text \<open>How many step timeouts the machine needs at most until it is Idle or Streaming.\<close>

definition deadline :: "unicast \<Rightarrow> nat" where
  "deadline u = (case un_phase u of PhIdle \<Rightarrow> 0 | PhStreaming \<Rightarrow> 0 | PhRemoveCig \<Rightarrow> if removal_asked u then 1 else 2
     | PhRelease \<Rightarrow> 3 | PhDisable \<Rightarrow> 4 | _ \<Rightarrow> 5)"

lemma deadline_bounds:
  "un_phase u = p \<Longrightarrow> (if p = PhStreaming then 0 else if ph_rank p \<le> 7 then 5 else 11 - ph_rank p) \<le> deadline u"
  "un_phase u = p \<Longrightarrow> deadline u \<le> (if ph_rank p \<le> 7 then 5 else 12 - ph_rank p)"
  by (cases p; simp add: deadline_def)+

lemma deadline_rank:
  assumes "ph_rank (un_phase u) < ph_rank (un_phase u')" "un_phase u \<noteq> PhStreaming"
  shows "deadline u' \<le> deadline u"
  using assms deadline_bounds(1)[of u] deadline_bounds(2)[of u'] by (auto split: if_splits)

lemma deadline_stop_rank: "8 \<le> ph_rank (un_phase u) \<Longrightarrow> deadline u \<le> 12 - ph_rank (un_phase u)"
  by (cases "un_phase u") (auto simp: deadline_def)

definition removal_over :: "unicast \<Rightarrow> bool" where
  "removal_over u \<longleftrightarrow> un_phase u = PhIdle \<or> un_phase u = PhRemoveCig \<and> removal_asked u"

lemma run_todo_Return [simp]: "run_todo env Return u = (u, [])"
  by (subst run_todo.simps) simp

lemma run_advance_removing:
  "un_phase u = PhRemoveCig \<Longrightarrow> run_todo env Advance u = (if un_plan u = None then (u, []) else try_remove_cig env u)"
  by (subst run_todo.simps) (auto simp: advance_def split_def Let_def split: option.splits)

lemma try_remove_over:
  assumes "un_phase u = PhRemoveCig" "removal_asked u"
  shows "removal_over (fst (try_remove_cig env u))"
  using assms by (auto simp: try_remove_cig_def removal_over_def removal_asked_def)

lemma advance_over: "removal_over u \<Longrightarrow> un_phase u = PhRemoveCig \<Longrightarrow> removal_over (fst (run_todo env Advance u))"
  using try_remove_over[of u env] by (auto simp: run_advance_removing removal_over_def)

lemma over_pending: "un_inv u \<Longrightarrow> removal_over u \<Longrightarrow> un_phase u = PhRemoveCig \<Longrightarrow> \<not> cig_pending u \<and> cis_pending u = 0"
  by (auto simp: un_inv_def core_ok_def removal_over_def removal_asked_def)

lemma over_updates [simp]:
  "removal_asked (stop_done_update f u) = removal_asked u" "removal_asked (link_lost h u) = removal_asked u"
  "removal_asked (cis_to_drop_update f9 u) = removal_asked u" "removal_asked (cis_dropping_update f9 u) = removal_asked u"
  by (simp_all add: removal_asked_def link_lost_def)

lemma removal_stays_over:
  assumes i: "un_inv u" and o: "removal_over u" and p: "un_phase u = PhRemoveCig"
  shows "removal_over (fst (un_handle env ev u))"
proof (cases ev)
  case (EvStart b plan d)
  then show ?thesis using o p by (auto simp: start_unicast_def un_busy_def)
next
  case (EvStop d)
  then show ?thesis using o p by (simp add: un_stop_def removal_over_def)
next
  case (EvTimer t)
  obtain td dr where "fst (drop_cis env u) = u\<lparr> cis_to_drop := td, cis_dropping := dr \<rparr>" using drop_cis_fields by blast
  moreover have "removal_over (fst (on_timeout env u))" using o p by (auto simp: on_timeout_def remove_timed_out_def removal_over_def removal_asked_def)
  ultimately show ?thesis using EvTimer o p by (cases t) (simp_all add: removal_over_def)
next
  case (EvContexts dev)
  then show ?thesis using o p by (simp add: on_available_contexts_def)
next
  case (EvAse dev i')
  show ?thesis by (cases rule: ase_update_cases[where env = env and dev = dev and i = i' and u = u])
    (use EvAse o p advance_over[OF o p] in auto)
next
  case (EvCp dev v)
  show ?thesis by (cases rule: cp_response_cases[where env = env and dev = dev and v = v and u = u]) (use EvCp o p in auto)
next
  case (EvCigCreated pk)
  show ?thesis by (cases rule: cig_created_cases[where env = env and packet = pk and u = u]) (use EvCigCreated o over_pending[OF i o p] in auto)
next
  case (EvCisCreated pk)
  show ?thesis by (cases rule: cis_created_cases[where env = env and packet = pk and u = u]) (use EvCisCreated o over_pending[OF i o p] in auto)
next
  case EvCigRemoved
  show ?thesis using i by (cases rule: cig_removed_cases) (use EvCigRemoved o in \<open>auto simp: removal_over_def\<close>)
next
  case (EvLinkLost h)
  have "removal_over (link_lost h u)" using o p by (simp add: removal_over_def)
  from advance_over[OF this] show ?thesis
    by (cases rule: link_lost_cases[where env = env and h = h and u = u]) (use EvLinkLost o p in auto)
qed

lemma deadline_keeps:
  assumes i: "un_inv u" and ph: "un_phase u \<notin> {PhIdle, PhStreaming}"
  shows "deadline (fst (un_handle env ev u)) \<le> deadline u"
proof -
  let ?u = "fst (un_handle env ev u)"
  have r: "ph_rank (un_phase u) \<le> ph_rank (un_phase ?u)" by (rule un_handle_rank[OF i]) (use ph in \<open>simp add: un_busy_def\<close>)
  show ?thesis
  proof (cases "ph_rank (un_phase u) < ph_rank (un_phase ?u)")
    case True
    then show ?thesis using deadline_rank ph by blast
  next
    case False
    then have e: "un_phase ?u = un_phase u" using r by (cases "un_phase u"; cases "un_phase ?u") auto
    show ?thesis
    proof (cases "un_phase u = PhRemoveCig \<and> removal_asked u")
      case True
      then have "removal_over ?u" using removal_stays_over[OF i] by (simp add: removal_over_def)
      then show ?thesis using e True by (simp add: deadline_def removal_over_def)
    next
      case False
      then show ?thesis using e by (auto simp: deadline_def split: phase.splits)
    qed
  qed
qed

lemma timeout_deadline:
  assumes i: "un_inv u" and ph: "un_phase u \<notin> {PhIdle, PhStreaming}"
  shows "deadline (fst (on_timeout env u)) < deadline u"
proof (cases rule: timeout_cases[where env = env and u = u])
  case (next_step p)
  then have "ph_rank p \<le> ph_rank (un_phase (fst (on_timeout env u)))"
    using run_todo_rank[OF next_step_todo[OF i next_step(1,2)], of env] by simp
  moreover have "12 - ph_rank p < deadline u" using next_step by (auto simp: deadline_def)
  moreover have "8 \<le> ph_rank p" using next_step(3,1) by auto
  ultimately show ?thesis using deadline_stop_rank[of "fst (on_timeout env u)"] by linarith
next
  case (failed why)
  then have "8 \<le> ph_rank (un_phase (fst (on_timeout env u)))" using fail_rank(2)[OF fail_todo[OF i failed(2)], of env] by simp
  moreover have "deadline u = 5" using failed(1) by (cases "un_phase u") (auto simp: deadline_def)
  ultimately show ?thesis using deadline_stop_rank[of "fst (on_timeout env u)"] by linarith
next
  case removing
  have n: "\<not> cig_pending (gave_up u)" "cis_pending (gave_up u) = 0" "cis_to_drop (gave_up u) = []" "cis_dropping (gave_up u) = []"
    "\<not> cig_removing (gave_up u)" "cig_exists (gave_up u)" using removing(2,3) by (simp_all add: gave_up_def)
  have "removal_over (fst (try_remove_cig env (gave_up u)))"
    using n removing(1) by (auto simp: try_remove_cig_def Let_def split_def removal_over_def removal_asked_def)
  then show ?thesis using removing by (auto simp: deadline_def removal_over_def removal_asked_def)
next
  case over
  then show ?thesis by (auto simp: deadline_def removal_asked_def)
qed (use ph in simp)

subsection \<open>Timers\<close>

fun settled :: "todo \<Rightarrow> unicast \<Rightarrow> bool" where
  "settled (Enter p) u = False"
| "settled (Fail why) u = (fail_reason u \<noteq> [])"
| "settled t u = True"

definition timers_ok :: "todo \<Rightarrow> unicast \<Rightarrow> (unicast_timer \<Rightarrow> bool) \<Rightarrow> bool" where
  "timers_ok t u armed \<longleftrightarrow>
     (settled t u \<longrightarrow> (armed StepTimer \<longleftrightarrow> un_phase u \<notin> {PhIdle, PhStreaming}) \<and> (armed RefreshTimer \<longleftrightarrow> un_phase u \<in> {PhDisable, PhRelease}))
     \<and> (cis_to_drop u \<noteq> [] \<longrightarrow> armed DropTimer)"

lemma drop_loop_timers:
  "drop_loop env n xs ds = (t, d, acts) \<Longrightarrow> fold apply_timer acts armed = (if t = [] then armed else armed(DropTimer := True))"
  by (induction env n xs ds arbitrary: t d acts armed rule: drop_loop.induct) (auto simp: Let_def split: if_splits prod.splits)

lemma drop_cis_timers:
  assumes "drop_cis env u = (u1, a)"
  shows "fold apply_timer a armed = armed(DropTimer := cis_to_drop u1 \<noteq> [])"
    and "un_phase u1 = un_phase u" "fail_reason u1 = fail_reason u"
proof -
  obtain t d acts where l: "drop_loop env 0 (cis_to_drop u) (cis_dropping u) = (t, d, acts)"
    by (cases "drop_loop env 0 (cis_to_drop u) (cis_dropping u)")
  note drop_loop_timers[OF l, of "armed(DropTimer := False)"]
  then show "fold apply_timer a armed = armed(DropTimer := cis_to_drop u1 \<noteq> [])" "un_phase u1 = un_phase u" "fail_reason u1 = fail_reason u"
    using assms l by (auto simp: drop_cis_def)
qed

lemma finish_stop_timers:
  "fold apply_timer (snd (finish_stop u)) armed = armed(StepTimer := False, DropTimer := False, RefreshTimer := False)"
proof -
  have "fold apply_timer (map StopDone ds) arm = arm" for ds arm by (induction ds) auto
  then show ?thesis by (auto simp: finish_stop_def split: option.splits)
qed

lemma finish_stop_timers_ok [simp]: "timers_ok t (fst (finish_stop u)) (fold apply_timer (snd (finish_stop u)) armed)"
  unfolding finish_stop_timers by (cases t) (auto simp: timers_ok_def finish_stop_def)

lemma try_remove_timers:
  assumes "timers_ok Return u armed"
  shows "timers_ok Return (fst (try_remove_cig env u)) (fold apply_timer (snd (try_remove_cig env u)) armed)"
  using assms by (auto simp: try_remove_cig_def Let_def split_def) (auto simp: timers_ok_def)


lemma timers_plain:
  "list_all plain a \<Longrightarrow> fold apply_timer (pre @ a) armed = fold apply_timer pre armed"
  by (simp add: plain_timers)

lemma enter_timers_armed:
  "fold apply_timer (enter_timers p) armed =
     armed(StepTimer := p \<noteq> PhStreaming \<and> p \<noteq> PhIdle, RefreshTimer := p = PhDisable \<or> p = PhRelease)"
  by (auto simp: enter_timers_def)

lemma timers_entered:
  assumes "timers_ok (Enter p) u armed" "list_all plain b" "un_phase u1 = p" "cis_to_drop u1 = cis_to_drop u"
  shows "timers_ok t u1 (fold apply_timer (enter_timers p @ b) armed)"
  using assms by (cases t) (auto simp: timers_ok_def enter_timers_armed plain_timers)

lemma enter_timers_step:
  assumes ok: "timers_ok (Enter p) u armed" "todo_ok (Enter p) u" and e: "enter env p u = (u1, a, t1)"
  shows "timers_ok t1 u1 (fold apply_timer a armed)"
proof -
  obtain plan b where b: "un_plan u = Some plan" "enter_body env p plan (u\<lparr>un_phase := p\<rparr>) = (u1, b, t1)" "a = enter_timers p @ b"
    using ok(2) e by (auto simp: enter_def split: prod.splits)
  show ?thesis
  proof (cases p)
    case PhConfigCodec
    then have w: "u1 = u\<lparr>un_phase := p\<rparr>" "list_all plain b" using b(2) plain_written by auto
    show ?thesis unfolding b(3) by (rule timers_entered[OF ok(1) w(2)]) (simp_all add: w(1))
  next
    case PhConfigQos
    then have w: "u1 = u\<lparr>un_phase := p\<rparr>" "list_all plain b" using b(2) plain_written by auto
    show ?thesis unfolding b(3) by (rule timers_entered[OF ok(1) w(2)]) (simp_all add: w(1))
  next
    case PhCreateCig
    then have c: "create_cig env plan (u\<lparr>un_phase := p\<rparr>) = (u1, b, t1)" using b by simp
    have "un_phase u1 = p" "cis_to_drop u1 = cis_to_drop u" using c by (auto simp: create_cig_def Let_def split: prod.splits if_splits)
    then show ?thesis unfolding b(3) by (rule timers_entered[OF ok(1) plain_create_cig[OF c]])
  next
    case PhEnable
    then have c: "send_enable env (u\<lparr>un_phase := p, waiting_contexts := False\<rparr>) = (u1, b, t1)" using b by simp
    have "un_phase u1 = p" "cis_to_drop u1 = cis_to_drop u" using c by (auto simp: send_enable_def written_def Let_def split: option.splits if_splits)
    then show ?thesis unfolding b(3) by (rule timers_entered[OF ok(1) plain_send_enable[OF c]])
  next
    case PhCreateCis
    then show ?thesis unfolding b(3) using b(2)
      by (intro timers_entered[OF ok(1)]) (auto simp: enter_create_cis_def Let_def split: if_splits)
  next
    case PhWaitStreaming
    then show ?thesis unfolding b(3) using b(2) by (intro timers_entered[OF ok(1)]) auto
  next
    case PhStreaming
    have t: "fold apply_timer (case start_done u of None \<Rightarrow> [] | Some d \<Rightarrow> [StartDone d r]) arm = arm" for arm r by (simp split: option.splits)
    show ?thesis using PhStreaming b ok(1)
      by (auto simp: enter_streaming_def Let_def timers_ok_def enter_timers_armed t split: if_splits)
  next
    case PhDisable
    then show ?thesis unfolding b(3) using b(2) by (intro timers_entered[OF ok(1)]) (auto simp: Let_def)
  next
    case PhRelease
    let ?u = "u\<lparr>un_phase := p, cis_to_drop := queue_drops (cis_dropping u) (cis_connected u) (cis_to_drop u)\<rparr>"
    obtain u2 da where d: "drop_cis env ?u = (u2, da)" by (cases "drop_cis env ?u")
    note dt = drop_cis_timers[OF d]
    obtain ws where "b = da @ ws" "list_all plain ws" "u1 = u2" "t1 = Enter PhRemoveCig \<or> t1 = Advance"
      using b(2) PhRelease d by (auto simp: enter_release_def Let_def split: if_splits)
    then show ?thesis using PhRelease b(3) dt by (auto simp: timers_ok_def plain_timers enter_timers_armed)
  next
    case PhRemoveCig
    let ?u = "u\<lparr>un_phase := p\<rparr>"
    have "timers_ok Return ?u (fold apply_timer (enter_timers p) armed)"
      using ok(1) PhRemoveCig by (auto simp: timers_ok_def enter_timers_armed)
    from try_remove_timers[OF this, of env] show ?thesis using b PhRemoveCig by (auto simp: split_def Let_def)
  next
    case PhIdle
    then show ?thesis using ok(2) by simp
  qed
qed

lemma todo_step_timers:
  assumes "timers_ok t u armed" "todo_ok t u" "todo_step env t u = (u1, a, t1)"
  shows "timers_ok t1 u1 (fold apply_timer a armed)"
proof (cases t)
  case (Enter p)
  then show ?thesis using enter_timers_step assms by simp
next
  case Advance
  have r: "timers_ok Return u armed" using assms(1) Advance by (simp add: timers_ok_def)
  have w: "timers_ok t' u armed" if "t' = Return \<or> (\<exists>p. t' = Enter p)" for t' using r that by (auto simp: timers_ok_def)
  show ?thesis using assms Advance try_remove_timers[OF r, of env] w
    by (auto simp: advance_def Let_def split_def split: option.splits if_splits)
next
  case (Fail why)
  then show ?thesis using assms by (auto simp: fail_def timers_ok_def split: if_splits)
qed (use assms in simp)

lemma run_todo_timers:
  assumes "timers_ok t u armed" "todo_ok t u"
  shows "timers_ok Return (fst (run_todo env t u)) (fold apply_timer (snd (run_todo env t u)) armed)"
proof -
  have "todo_ok Return (fst (run_todo env t u)) \<and> timers_ok Return (fst (run_todo env t u)) (fold apply_timer ([] @ snd (run_todo env t u)) armed)"
  proof (rule run_todo_rule[where I = "\<lambda>t' u' acts. todo_ok t' u' \<and> timers_ok t' u' (fold apply_timer acts armed)"])
    show "todo_ok t u \<and> timers_ok t u (fold apply_timer [] armed)" using assms by simp
    show "todo_ok t1 u1 \<and> timers_ok t1 u1 (fold apply_timer (acts @ a) armed)"
      if "todo_ok t' u' \<and> timers_ok t' u' (fold apply_timer acts armed)" "t' \<noteq> Return" "todo_step env t' u' = (u1, a, t1)" for t' u' acts u1 a t1
      using todo_step_ok[OF conjunct1[OF that(1)] that(3)] todo_step_timers[OF conjunct2[OF that(1)] conjunct1[OF that(1)] that(3)] by simp
  qed
  then show ?thesis by simp
qed


lemma timers_update:
  "timers_ok t (cig_made plan hs u) = timers_ok t u" "timers_ok t (cis_counted u) = timers_ok t u" "timers_ok t (cis_made h u) = timers_ok t u"
  by (cases t; simp add: timers_ok_def cig_made_def cis_counted_def cis_made_def fun_eq_iff)+

lemma link_lost_timers: "timers_ok Return u armed \<Longrightarrow> timers_ok Return (link_lost h u) armed"
  by (auto simp: timers_ok_def link_lost_def)

lemma timers_any:
  assumes "timers_ok Return u armed" "\<And>why. t = Fail why \<Longrightarrow> settled t u \<Longrightarrow> un_inv u"
  shows "timers_ok t u armed"
  using assms by (cases t) (auto simp: timers_ok_def)

lemma subset_timers: "set pre \<subseteq> {CisDown h} \<Longrightarrow> fold apply_timer pre armed = armed"
  by (rule plain_timers[OF plain_subset])

lemma fail_timers: "timers_ok Return u armed \<Longrightarrow> timers_ok (Fail why) u armed"
  by (auto simp: timers_ok_def)

lemma timeout_timers:
  assumes i: "un_inv u" and t: "timers_ok Return u armed" and a: "armed StepTimer"
  shows "timers_ok Return (fst (on_timeout env u)) (fold apply_timer (snd (on_timeout env u)) (armed(StepTimer := False)))"
proof (cases rule: timeout_cases[where env = env and u = u])
  case nothing
  then show ?thesis using t a by (auto simp: timers_ok_def)
next
  case (next_step p)
  have "timers_ok (Enter p) u (armed(StepTimer := False))" using t by (simp add: timers_ok_def)
  from run_todo_timers[OF this next_step_todo[OF i next_step(1,2)], of env] show ?thesis unfolding next_step(4) .
next
  case (failed why)
  have "fail_reason u = []" using inv_start[OF i] failed(1) by simp
  then have "timers_ok (Fail why) u (armed(StepTimer := False))" using t by (simp add: timers_ok_def)
  from run_todo_timers[OF this fail_todo[OF i failed(2)], of env] failed(1) show ?thesis unfolding failed(3) by simp
next
  case removing
  let ?r = "try_remove_cig env (gave_up u)"
  have f: "\<not> armed RefreshTimer" using t removing(1) by (simp add: timers_ok_def)
  have n: "\<not> cig_pending (gave_up u)" "cis_pending (gave_up u) = 0" "cis_to_drop (gave_up u) = []" "cis_dropping (gave_up u) = []"
    "\<not> cig_removing (gave_up u)" "cig_exists (gave_up u)" using removing(2,3) by (simp_all add: gave_up_def)
  let ?id = "case un_plan (gave_up u) of Some p \<Rightarrow> sn_cig_id p | None \<Rightarrow> 1"
  let ?f = "finish_stop (gave_up u\<lparr>cig_exists := False\<rparr>)"
  have r: "?r = (if ue_cig_remove env ?id \<noteq> 0 then (fst ?f, CigRemove ?id # snd ?f) else (gave_up u\<lparr>cig_removing := True\<rparr>, [CigRemove ?id]))"
    using n by (simp add: try_remove_cig_def Let_def split_def)
  show ?thesis
  proof (cases "ue_cig_remove env ?id = 0")
    case True
    then show ?thesis unfolding removing(4) using f n(3) r removing(1) by (simp add: timers_ok_def)
  next
    case False
    then show ?thesis unfolding removing(4) using r by simp
  qed
next
  case over
  then show ?thesis by simp
qed

lemma send_enable_keeps: "send_enable env u = (u1, a, t) \<Longrightarrow> un_phase u1 = un_phase u \<and> cis_to_drop u1 = cis_to_drop u"
  by (simp add: send_enable_def written_def Let_def split: if_splits option.splits) auto

lemma un_handle_timers:
  assumes i: "un_inv u" and t: "timers_ok Return u armed" and no: "\<And>k. ev \<noteq> EvTimer k"
  shows "timers_ok Return (fst (un_handle env ev u)) (fold apply_timer (snd (un_handle env ev u)) armed)"
proof (cases ev)
  case (EvStart b plan d)
  show ?thesis
  proof (cases rule: start_cases[where env = env and b = b and plan = plan and d = d and u = u])
    case started
    have "timers_ok (Enter PhConfigCodec) (Bap_Invariant.started plan d u) (armed(DropTimer := False))"
      by (simp add: timers_ok_def Bap_Invariant.started_def)
    from run_todo_timers[OF this started_todo[OF i started(1)], of env] show ?thesis using started(2) EvStart by simp
  qed (use EvStart t in simp)
next
  case (EvStop d)
  show ?thesis
  proof (cases rule: stop_cases[where env = env and d = d and u = u])
    case stopped
    have "timers_ok (Enter PhDisable) (stop_asked d u) armed" using t by (simp add: timers_ok_def stop_asked_def Let_def)
    from run_todo_timers[OF this stop_asked_todo[OF i stopped(1)], of env] show ?thesis using stopped(2) EvStop by simp
  qed (use EvStop t in \<open>simp_all add: timers_ok_def\<close>)
next
  case (EvContexts dev)
  show ?thesis
  proof (cases rule: contexts_cases[where env = env and dev = dev and u = u])
    case (enabled u1 a s)
    have "timers_ok Return u1 armed"
      using t send_enable_keeps[OF enabled(2)] by (simp add: timers_ok_def)
    then have "timers_ok s u1 armed" by (rule timers_any) (use enabled_todo[OF i enabled(1,2)] in \<open>auto split: if_splits\<close>)
    from run_todo_timers[OF this enabled_todo[OF i enabled(1,2)], of env] show ?thesis
      using plain_timers[OF plain_send_enable[OF enabled(2)]] enabled(3) EvContexts by simp
  qed (use EvContexts t in simp)
next
  case (EvAse dev i')
  show ?thesis by (cases rule: ase_update_cases[where env = env and dev = dev and i = i' and u = u])
    (use EvAse i t run_todo_timers[of Advance u armed env] in \<open>auto simp: timers_ok_def\<close>)
next
  case (EvCp dev v)
  show ?thesis
  proof (cases rule: cp_response_cases[where env = env and dev = dev and v = v and u = u])
    case (rejected why)
    from run_todo_timers[OF fail_timers[OF t] fail_todo[OF i rejected(2,1)], of env] show ?thesis using rejected(3) EvCp by simp
  qed (use EvCp t in simp)
next
  case (EvCigCreated p)
  show ?thesis
  proof (cases rule: cig_created_cases[where env = env and packet = p and u = u])
    case (failed plan why)
    have "timers_ok (Fail why) (u\<lparr> cig_pending := False, cig_exists := False \<rparr>) armed" using t by (auto simp: timers_ok_def)
    from run_todo_timers[OF this cig_failed_todo[OF i failed(1-3)], of env] show ?thesis using failed(4) EvCigCreated by simp
  next
    case (made plan hs)
    have "timers_ok (if un_phase u = PhCreateCig then Enter PhConfigQos else Advance) (cig_made plan hs u) armed"
      using t by (simp add: timers_ok_def cig_made_def)
    from run_todo_timers[OF this cig_made_todo[OF i made(1,2)], of env] show ?thesis using made(3) EvCigCreated by simp
  qed (use EvCigCreated t in simp)
next
  case (EvCisCreated p)
  show ?thesis
  proof (cases rule: cis_created_cases[where env = env and packet = p and u = u])
    case (failed why u2 a2)
    have d: "todo_ok (Fail why) (cis_counted u)"
      by (rule fail_todo[OF cis_counted_inv[OF i failed(1)] failed(3)]) (simp add: failed(2))
    have "timers_ok (Fail why) (cis_counted u) armed" using fail_timers[OF t] by (simp add: timers_update)
    from run_todo_timers[OF this d, of env] have t2: "timers_ok Advance u2 (fold apply_timer a2 armed)"
      using failed(4) by (simp add: timers_ok_def)
    have "todo_ok Advance u2" using run_todo_ok[OF d, of env] failed(4) by simp
    from run_todo_timers[OF t2 this, of env] show ?thesis using failed(5) EvCisCreated by simp
  next
    case counted
    have "timers_ok Advance (cis_counted u) armed" using t by (simp add: timers_update timers_ok_def)
    then show ?thesis using run_todo_timers[of Advance "cis_counted u" armed env] cis_counted_inv[OF i counted(1)] counted(2) EvCisCreated by simp
  next
    case (made h)
    have "timers_ok Advance (cis_made h u) armed" using t by (simp add: timers_update timers_ok_def)
    then show ?thesis using run_todo_timers[of Advance "cis_made h u" armed env] cis_made_inv[OF i made(1)] made(2) EvCisCreated by simp
  qed (use EvCisCreated t in simp)
next
  case EvCigRemoved
  show ?thesis
    using i
  proof (cases rule: cig_removed_cases)
    case removed
    then show ?thesis using EvCigRemoved by simp
  qed (use EvCigRemoved t in simp)
next
  case (EvLinkLost h)
  show ?thesis
  proof (cases rule: link_lost_cases[where env = env and h = h and u = u])
    case (streaming pre w)
    then show ?thesis using EvLinkLost link_lost_timers[OF t, of h] by (simp add: subset_timers)
  next
    case (stopping pre)
    have "timers_ok Advance (link_lost h u) armed" using link_lost_timers[OF t, of h] by (simp add: timers_ok_def)
    then show ?thesis using run_todo_timers[of Advance "link_lost h u" armed env] link_lost_inv[OF i] stopping EvLinkLost by (simp add: subset_timers)
  next
    case (starting pre why)
    from run_todo_timers[OF fail_timers[OF link_lost_timers[OF t]] link_lost_todo[OF i starting(3,1)], of env]
    show ?thesis using starting EvLinkLost by (simp add: subset_timers)
  qed (use EvLinkLost t in simp)
qed (use no in simp)

lemma timer_fired_ok:
  assumes i: "un_inv u" and t: "timers_ok Return u armed" and a: "armed k"
  shows "timers_ok Return (fst (un_handle env (EvTimer k) u)) (fold apply_timer (snd (un_handle env (EvTimer k) u)) (armed(k := False)))"
proof (cases k)
  case StepTimer
  then show ?thesis using timeout_timers[OF i t] a by simp
next
  case DropTimer
  obtain u1 acts where d: "drop_cis env u = (u1, acts)" by (cases "drop_cis env u")
  show ?thesis using drop_cis_timers[OF d] DropTimer t d by (auto simp: timers_ok_def)
next
  case RefreshTimer
  have ph: "un_phase u \<in> {PhDisable, PhRelease}" using t a RefreshTimer by (simp add: timers_ok_def)
  have r: "list_all plain (concat (map (\<lambda>c. if dev_connected env (pl_device_id c) \<and> Q c then [ReadAse (pl_device_id c) (pl_ase_id c)] else []) cs))"
    for Q cs by (induction cs) auto
  obtain plan where "un_plan u = Some plan" using inv_plan[OF i] ph by auto
  then show ?thesis using RefreshTimer t ph by (auto simp: on_refresh_def timers_ok_def plain_timers[OF r])
qed

subsection \<open>Runs\<close>

definition system_ok :: "bap_system \<Rightarrow> bool" where
  "system_ok s \<longleftrightarrow> un_inv (bs_un s) \<and> timers_ok Return (bs_un s) (bs_armed s)"

lemma bap_step_ok: "system_ok s \<Longrightarrow> system_ok (fst (bap_step s e))"
proof (cases e)
  case (Pair env ev)
  assume s: "system_ok s"
  show ?thesis
  proof (cases "\<exists>k. ev = EvTimer k")
    case True
    then obtain k where "ev = EvTimer k" by blast
    then show ?thesis using s Pair un_handle_inv[of "bs_un s" env ev] timer_fired_ok[of "bs_un s" "bs_armed s" k env]
      by (auto simp: system_ok_def split_def Let_def)
  next
    case False
    then have "fst (bap_step s e) = \<lparr> bs_un = fst (un_handle env ev (bs_un s)),
        bs_armed = fold apply_timer (snd (un_handle env ev (bs_un s))) (bs_armed s) \<rparr>"
      using Pair by (cases ev) (auto simp: split_def Let_def)
    then show ?thesis using s False un_handle_inv[of "bs_un s" env ev] un_handle_timers[of "bs_un s" "bs_armed s" ev env]
      by (auto simp: system_ok_def)
  qed
qed

lemma system_ok_new: "system_ok bap_new"
proof -
  have "timers_ok Return unicast_new (\<lambda>_. False)" by (simp add: timers_ok_def unicast_new_def)
  then show ?thesis by (simp add: system_ok_def bap_new_def un_inv_new)
qed

lemma bap_run_fst: "fst (bap_run s es) = foldl (\<lambda>s e. fst (bap_step s e)) s es"
  by (induction es arbitrary: s) (auto simp: split_def Let_def)

interpretation bap: inv_machine bap_new "\<lambda>s e. fst (bap_step s e)" "\<lambda>_. True" system_ok
  by unfold_locales (simp_all add: system_ok_new bap_step_ok)

lemma bap_reachable: "system_ok (fst (bap_run bap_new es))"
  unfolding bap_run_fst by (rule bap.reachable_inv) (simp add: list_all_iff)

lemma bap_run_append: "bap_run s (xs @ ys) = (fst (bap_run (fst (bap_run s xs)) ys), snd (bap_run s xs) @ snd (bap_run (fst (bap_run s xs)) ys))"
  by (induction xs arbitrary: s) (auto simp: split_def Let_def)

definition requested :: "(un_event \<Rightarrow> nat list) \<Rightarrow> (unicast_env \<times> un_event) list \<Rightarrow> nat multiset" where
  "requested f es = mset (concat (map (f \<circ> snd) es))"

lemma bap_step_answers:
  assumes "system_ok s" "bap_step s (env, ev) = (s1, acts)"
  shows "answers ev (bs_un s) acts (bs_un s1)"
proof (cases "\<exists>k. ev = EvTimer k \<and> \<not> bs_armed s k")
  case True
  then show ?thesis using assms(2) by (auto simp: answers_def)
next
  case False
  have "acts = snd (un_handle env ev (bs_un s)) \<and> bs_un s1 = fst (un_handle env ev (bs_un s))"
    using assms(2) False by (cases ev) (auto simp: split_def Let_def)
  then show ?thesis using un_handle_answers[of "bs_un s" ev env] assms(1) by (simp add: system_ok_def)
qed

lemma balance_chain: "x + q = y + a \<Longrightarrow> y + r = z + b \<Longrightarrow> x + (q + r) = z + (a + b)" for x y z :: "'a multiset"
  by (metis add.assoc add.commute)

lemma bap_run_answers:
  assumes "system_ok s" "bap_run s es = (s1, acts)"
  shows "open_starts (bs_un s) + requested start_reqs es = open_starts (bs_un s1) + mset (start_ids acts) \<and>
    mset (stop_done (bs_un s)) + requested stop_reqs es = mset (stop_done (bs_un s1)) + mset (stop_ids acts)"
  using assms
proof (induction es arbitrary: s acts)
  case Nil
  then show ?case by (simp add: requested_def)
next
  case (Cons e es)
  obtain env ev where e: "e = (env, ev)" by (cases e)
  obtain s2 a where st: "bap_step s e = (s2, a)" by (cases "bap_step s e")
  have r: "bap_run s2 es = (s1, snd (bap_run s2 es))" "acts = a @ snd (bap_run s2 es)"
    using Cons.prems(2) st by (auto simp: split_def Let_def)
  have "system_ok s2" using bap_step_ok[OF Cons.prems(1), of e] st by simp
  note rest = Cons.IH[OF this r(1)]
  have now: "answers ev (bs_un s) a (bs_un s2)" using bap_step_answers[OF Cons.prems(1)] st e by simp
  have "requested f (e # es) = mset (f ev) + requested f es" for f by (simp add: requested_def e)
  then show ?case
    using balance_chain[OF conjunct1[OF now[unfolded answers_def]] conjunct1[OF rest]]
      balance_chain[OF conjunct2[OF now[unfolded answers_def]] conjunct2[OF rest]] unfolding r(2) by simp
qed

text \<open>The deadline falls with each step timeout that fires, as long as the machine is neither Idle nor Streaming.\<close>

definition resting :: "bap_system \<Rightarrow> bool" where
  "resting s \<longleftrightarrow> un_phase (bs_un s) \<in> {PhIdle, PhStreaming}"

lemma bap_step_deadline:
  assumes s: "system_ok s" and r: "\<not> resting s"
  shows "deadline (bs_un (fst (bap_step s (env, ev)))) + (if ev = EvTimer StepTimer then 1 else 0) \<le> deadline (bs_un s)"
proof (cases "ev = EvTimer StepTimer")
  case True
  have "bs_armed s StepTimer" using s r by (auto simp: system_ok_def timers_ok_def resting_def)
  then show ?thesis using True timeout_deadline[of "bs_un s" env] s r
    by (auto simp: system_ok_def resting_def split_def Let_def)
next
  case False
  have "bs_un (fst (bap_step s (env, ev))) \<in> {bs_un s, fst (un_handle env ev (bs_un s))}"
    by (cases ev) (auto simp: split_def Let_def)
  then show ?thesis using False deadline_keeps[of "bs_un s" env ev] s r by (auto simp: system_ok_def resting_def)
qed

definition step_timeouts :: "(unicast_env \<times> un_event) list \<Rightarrow> nat" where
  "step_timeouts es = length (filter (\<lambda>e. snd e = EvTimer StepTimer) es)"

lemma bap_run_deadline:
  assumes "system_ok s" "\<forall>n\<le>length es. \<not> resting (fst (bap_run s (take n es)))"
  shows "deadline (bs_un (fst (bap_run s es))) + step_timeouts es \<le> deadline (bs_un s)"
  using assms
proof (induction es arbitrary: s)
  case (Cons e es)
  obtain env ev where e: "e = (env, ev)" by (cases e)
  let ?s = "fst (bap_step s e)"
  have "\<not> resting (fst (bap_run ?s (take n es)))" if "n \<le> length es" for n
    using Cons.prems(2)[rule_format, of "Suc n"] that by (simp add: split_def Let_def)
  then have "deadline (bs_un (fst (bap_run ?s es))) + step_timeouts es \<le> deadline (bs_un ?s)"
    using Cons.IH[OF bap_step_ok[OF Cons.prems(1)]] by simp
  moreover have "\<not> resting s" using Cons.prems(2)[rule_format, of 0] by simp
  ultimately show ?case using bap_step_deadline[OF Cons.prems(1), of env ev] e
    by (auto simp: step_timeouts_def split_def Let_def)
qed (simp add: step_timeouts_def)

lemma deadline_pos: "\<not> resting s \<Longrightarrow> 0 < deadline (bs_un s)"
  by (cases "un_phase (bs_un s)") (auto simp: resting_def deadline_def)

lemma bap_rests:
  assumes "system_ok s" "deadline (bs_un s) \<le> step_timeouts es"
  shows "\<exists>n\<le>length es. resting (fst (bap_run s (take n es)))"
proof (rule ccontr)
  assume "\<not> ?thesis"
  then have n: "\<forall>n\<le>length es. \<not> resting (fst (bap_run s (take n es)))" by blast
  have "0 < deadline (bs_un (fst (bap_run s es)))" using deadline_pos n[rule_format, of "length es"] by simp
  then show False using bap_run_deadline[OF assms(1) n] assms(2) by simp
qed

end
