(* ===== verification/Bap_History.thy ===== *)
theory Bap_History
  imports Bap_Timing
begin

text \<open>
  Where the state of the BAP unicast machine comes from. The first part follows the commands sent to BTstack and
  the events received, without the machine's own counters: what BTstack still owes (\<open>owed\<close>), and that
  \<open>cig_pending\<close> and \<open>cis_pending\<close> say it. The second part goes back from a stream to the events
  that made it: the CIG event its CIS handles are from, the CIS events that established them.
\<close>

subsection \<open>What BTstack owes\<close>

text \<open>The answers outstanding, computed from the commands BTstack accepted and the events it sent: the CIG whose
  parameters were set, the CIS of the last \<^verbatim>\<open>LE Create CIS\<close> and their CIG. A step timeout in Remove CIG gives up
  waiting. \<open>ow_lost\<close> notes that a CIS of the plan went down while \<^verbatim>\<open>LE Create CIS\<close> was under way.\<close>

record owed =
  ow_cig :: "u8 option"
  ow_cis :: nat
  ow_cis_cig :: u8
  ow_lost :: bool

definition owed_new :: owed where
  "owed_new = \<lparr> ow_cig = None, ow_cis = 0, ow_cis_cig = 0, ow_lost = False \<rparr>"

definition plan_id :: "unicast \<Rightarrow> u8 option" where
  "plan_id u = map_option sn_cig_id (un_plan u)"

definition plan_handles :: "unicast \<Rightarrow> u16 list" where
  "plan_handles u = map pl_cis_handle (plan_cis u)"

fun owe_command :: "unicast_env \<Rightarrow> un_action \<Rightarrow> owed \<Rightarrow> owed" where
  "owe_command env (CigCreate p) g = (if ue_cig_create env p = 0 then g\<lparr> ow_cig := Some (cg_cig_id p) \<rparr> else g)"
| "owe_command env (CisCreate cig cis acl) g =
     (if ue_cis_create env cig cis acl = 0 then g\<lparr> ow_cis := length cis, ow_cis_cig := cig, ow_lost := False \<rparr> else g)"
| "owe_command env _ g = g"

fun owe_event :: "bap_system \<Rightarrow> un_event \<Rightarrow> owed \<Rightarrow> owed" where
  "owe_event s (EvCigCreated p) g =
     (case cig_created p of Some ev \<Rightarrow> if ow_cig g = Some (gc_cig_id ev) then g\<lparr> ow_cig := None \<rparr> else g | None \<Rightarrow> g)"
| "owe_event s (EvCisCreated p) g =
     (case cis_created p of Some ev \<Rightarrow> if ic_cig_id ev = ow_cis_cig g then g\<lparr> ow_cis := ow_cis g - 1 \<rparr> else g | None \<Rightarrow> g)"
| "owe_event s (EvTimer t) g =
     (if t = StepTimer \<and> bs_armed s t \<and> un_phase (bs_un s) = PhRemoveCig then g\<lparr> ow_cig := None, ow_cis := 0 \<rparr> else g)"
| "owe_event s (EvLinkLost h) g =
     (if un_phase (bs_un s) = PhCreateCis \<and> h \<in> set (plan_handles (bs_un s)) then g\<lparr> ow_lost := True \<rparr> else g)"
| "owe_event s _ g = g"

fun owe_run :: "bap_system \<Rightarrow> (unicast_env \<times> un_event) list \<Rightarrow> owed \<Rightarrow> owed" where
  "owe_run s [] g = g"
| "owe_run s (e # es) g = (let (s', acts) = bap_step s e in owe_run s' es (fold (owe_command (fst e)) acts (owe_event s (snd e) g)))"

subsection \<open>Steps that send no such command\<close>

fun is_command :: "un_action \<Rightarrow> bool" where
  "is_command (CigCreate p) = True"
| "is_command (CisCreate cig cis acl) = True"
| "is_command _ = False"

abbreviation no_command :: "un_action list \<Rightarrow> bool" where
  "no_command acts \<equiv> list_all (\<lambda>a. \<not> is_command a) acts"

lemma no_command_owed: "no_command acts \<Longrightarrow> fold (owe_command env) acts g = g"
proof (induction acts arbitrary: g)
  case (Cons a acts)
  then show ?case by (cases a) auto
qed simp

definition same_books :: "unicast \<Rightarrow> unicast \<Rightarrow> bool" where
  "same_books u v \<longleftrightarrow> cig_pending v = cig_pending u \<and> cis_pending v = cis_pending u \<and> plan_id v = plan_id u
     \<and> plan_handles v = plan_handles u"

lemma same_books_refl [simp]: "same_books u u"
  by (simp add: same_books_def)

lemma no_command_parts [simp]:
  "no_command (fst (cp_writes env pdu ds))" "no_command (cp_selected env op pred plan)" "no_command (enter_timers p)"
  "no_command (map StopDone ds')" "no_command (snd (finish_stop u))" "no_command (snd (drop_cis env u))"
proof -
  show "no_command (fst (cp_writes env pdu ds))" by (induction ds) (auto simp: split_def Let_def)
  show "no_command (cp_selected env op pred plan)" by (auto simp: cp_selected_def list_all_iff Let_def split: if_splits)
  show "no_command (enter_timers p)" by (simp add: enter_timers_def)
  show m: "no_command (map StopDone ds')" for ds' by (induction ds') auto
  show "no_command (snd (finish_stop u))" using m by (auto simp: finish_stop_def split: option.splits)
  have "drop_loop env n xs ds = (t, d, acts) \<Longrightarrow> no_command acts" for n xs ds t d acts
    by (induction env n xs ds arbitrary: t d acts rule: drop_loop.induct) (auto simp: Let_def split: if_splits prod.splits)
  then show "no_command (snd (drop_cis env u))" by (auto simp: drop_cis_def split: prod.splits)
qed

lemma finish_stop_books [simp]: "same_books u (fst (finish_stop u))"
  by (simp add: same_books_def finish_stop_def plan_id_def plan_handles_def plan_cis_def)

lemma books_updates [simp]:
  "plan_id (un_phase_update f1 u) = plan_id u" "plan_handles (un_phase_update f1 u) = plan_handles u"
  "plan_id (cig_exists_update f2 u) = plan_id u" "plan_handles (cig_exists_update f2 u) = plan_handles u"
  "plan_id (cig_pending_update f2 u) = plan_id u" "plan_handles (cig_pending_update f2 u) = plan_handles u"
  "plan_id (cig_removing_update f2 u) = plan_id u" "plan_handles (cig_removing_update f2 u) = plan_handles u"
  "plan_id (cis_pending_update f3 u) = plan_id u" "plan_handles (cis_pending_update f3 u) = plan_handles u"
  "plan_id (cis_up_update f3 u) = plan_id u" "plan_handles (cis_up_update f3 u) = plan_handles u"
  "plan_id (fail_reason_update f4 u) = plan_id u" "plan_handles (fail_reason_update f4 u) = plan_handles u"
  "plan_id (starting_update f2 u) = plan_id u" "plan_handles (starting_update f2 u) = plan_handles u"
  "plan_id (start_done_update f5 u) = plan_id u" "plan_handles (start_done_update f5 u) = plan_handles u"
  "plan_id (stop_done_update f6 u) = plan_id u" "plan_handles (stop_done_update f6 u) = plan_handles u"
  "plan_id (waiting_contexts_update f2 u) = plan_id u" "plan_handles (waiting_contexts_update f2 u) = plan_handles u"
  "plan_id (cis_connected_update f7 u) = plan_id u" "plan_handles (cis_connected_update f7 u) = plan_handles u"
  "plan_id (cis_to_drop_update f7 u) = plan_id u" "plan_handles (cis_to_drop_update f7 u) = plan_handles u"
  "plan_id (cis_dropping_update f7 u) = plan_id u" "plan_handles (cis_dropping_update f7 u) = plan_handles u"
  by (simp_all add: plan_id_def plan_handles_def plan_cis_def)

lemma try_remove_quiet: "no_command (snd (try_remove_cig env u)) \<and> same_books u (fst (try_remove_cig env u))"
proof -
  have "same_books u (fst (finish_stop (u\<lparr>cig_exists := False\<rparr>)))"
    using finish_stop_books[of "u\<lparr>cig_exists := False\<rparr>"] by (simp add: same_books_def)
  moreover have "same_books u (u\<lparr>cig_removing := True\<rparr>)" by (simp add: same_books_def)
  ultimately show ?thesis by (auto simp: try_remove_cig_def Let_def split_def)
qed

lemma drop_cis_books: "same_books u (fst (drop_cis env u)) \<and> cis_connected (fst (drop_cis env u)) = cis_connected u"
  by (simp add: drop_cis_def same_books_def split: prod.splits)

lemma written_quiet: "written (cp_writes env pdu ds) u = (u1, a, t) \<Longrightarrow> u1 = u \<and> no_command a"
  by (auto simp: written_def)

lemma send_enable_quiet:
  "send_enable env u = (u1, a, t) \<Longrightarrow> no_command a \<and> same_books u u1 \<and> cis_connected u1 = cis_connected u"
  by (auto simp: send_enable_def Let_def written_def same_books_def plan_id_def plan_handles_def plan_cis_def
      split: if_splits option.splits)

lemma enter_quiet:
  assumes "enter env p u = (u1, a, t)" "p \<noteq> PhCreateCig" "p \<noteq> PhCreateCis"
  shows "no_command a \<and> same_books u u1 \<and> (p \<noteq> PhRemoveCig \<longrightarrow> cis_connected u1 = cis_connected u)"
proof (cases "un_plan u")
  case None
  then show ?thesis using assms by (auto simp: enter_def same_books_def)
next
  case (Some plan)
  then obtain b where b: "enter_body env p plan (u\<lparr>un_phase := p\<rparr>) = (u1, b, t)" "a = enter_timers p @ b"
    using assms(1) by (auto simp: enter_def split: prod.splits)
  have "no_command b \<and> same_books u u1 \<and> (p \<noteq> PhRemoveCig \<longrightarrow> cis_connected u1 = cis_connected u)"
  proof (cases p)
    case PhEnable
    then show ?thesis using b send_enable_quiet by (fastforce simp: same_books_def)
  next
    case PhRelease
    then show ?thesis using b drop_cis_books by (auto simp: enter_release_def Let_def split_def same_books_def split: if_splits)
  next
    case PhRemoveCig
    then show ?thesis using b try_remove_quiet[of env "u\<lparr>un_phase := p\<rparr>"] by (auto simp: split_def Let_def same_books_def)
  next
    case PhConfigCodec
    then show ?thesis using b(1) written_quiet[of env "config_codec_pdu plan"] by (fastforce simp: same_books_def)
  next
    case PhConfigQos
    then show ?thesis using b(1) written_quiet[of env "config_qos_pdu (u\<lparr>un_phase := p\<rparr>) plan"] by (fastforce simp: same_books_def)
  next
    case PhStreaming
    then show ?thesis using b(1) by (auto simp: enter_streaming_def Let_def same_books_def split: if_splits option.splits)
  next
    case PhDisable
    then show ?thesis using b(1) by (auto simp: Let_def same_books_def)
  qed (use assms(2,3) b(1) in \<open>auto simp: same_books_def\<close>)
  then show ?thesis using b(2) by simp
qed

subsection \<open>The machine's counters are what BTstack owes\<close>

definition owed_base :: "unicast \<Rightarrow> owed \<Rightarrow> bool" where
  "owed_base u g \<longleftrightarrow> ow_cig g = (if cig_pending u then plan_id u else None)
     \<and> cis_pending u \<le> ow_cis g \<and> ow_cis g \<le> cis_pending u + (if ow_lost g then 1 else 0)
     \<and> (0 < cis_pending u \<longrightarrow> plan_id u = Some (ow_cis_cig g))"

definition owed_ok :: "unicast \<Rightarrow> owed \<Rightarrow> bool" where
  "owed_ok u g \<longleftrightarrow> owed_base u g \<and> (0 < cis_pending u \<and> un_phase u = PhCreateCis \<longrightarrow> \<not> ow_lost g)"

text \<open>In a chain: the loss of a CIS fails the start, so the flag is only off again when the chain has left Create CIS.\<close>

fun owed_todo :: "todo \<Rightarrow> unicast \<Rightarrow> owed \<Rightarrow> bool" where
  "owed_todo (Enter p) u g = owed_base u g"
| "owed_todo (Fail why) u g = owed_base u g"
| "owed_todo _ u g = owed_ok u g"

lemma owed_todo_base: "owed_todo t u g \<Longrightarrow> owed_base u g"
  by (cases t) (auto simp: owed_ok_def)

lemma owed_ok_todo: "owed_ok u g \<Longrightarrow> owed_todo t u g"
  by (cases t) (auto simp: owed_ok_def)

lemma owed_base_books: "owed_base u g \<Longrightarrow> same_books u v \<Longrightarrow> owed_base v g"
  by (auto simp: owed_base_def same_books_def)

lemma owed_ok_books:
  "owed_ok u g \<Longrightarrow> same_books u v \<Longrightarrow> un_phase v = PhCreateCis \<longrightarrow> un_phase u = PhCreateCis \<Longrightarrow> owed_ok v g"
  by (auto simp: owed_ok_def owed_base_def same_books_def)

lemma retry_owed:
  assumes "cig_retry env n params (ue_cig_create env params) = (p, st, acts)"
  shows "fold (owe_command env) (CigCreate params # acts) g = (if st = 0 then g\<lparr> ow_cig := Some (cg_cig_id p) \<rparr> else g)"
  using assms
proof (induction n arbitrary: params acts g)
  case (Suc n)
  show ?case
  proof (cases "ue_cig_create env params = ERROR_CODE_ACL_CONNECTION_ALREADY_EXISTS")
    case True
    let ?q = "params\<lparr>cg_cig_id := cg_cig_id params mod 4 + 1\<rparr>"
    have e: "ue_cig_create env params \<noteq> 0" using True by (simp add: ERROR_CODE_ACL_CONNECTION_ALREADY_EXISTS_def)
    obtain a where a: "cig_retry env n ?q (ue_cig_create env ?q) = (p, st, a)" "acts = CigCreate ?q # a"
      using Suc.prems True by (auto simp: Let_def split: prod.splits)
    show ?thesis using Suc.IH[OF a(1), of g] e by (simp add: a(2))
  qed (use Suc.prems in auto)
qed auto

lemma enter_cig_owed:
  assumes ok: "todo_ok (Enter PhCreateCig) u" and g: "owed_base u g" and e: "enter env PhCreateCig u = (u1, a, t)"
  shows "owed_ok u1 (fold (owe_command env) a g)"
proof -
  obtain plan where plan: "un_plan u = Some plan" using ok by auto
  have none: "\<not> cig_pending u" "cis_pending u = 0" using ok by (auto simp: core_ok_def phase_ok_at)
  let ?params = "cig_parameters plan (cig_limits env plan)"
  obtain p st acts where r: "cig_retry env 3 ?params (ue_cig_create env ?params) = (p, st, acts)"
    by (metis prod_cases3)
  have a: "a = enter_timers PhCreateCig @ CigCreate ?params # acts"
    using e plan r by (auto simp: enter_def create_cig_def Let_def split: if_splits prod.splits)
  have u1: "plan_id u1 = Some (cg_cig_id p)" "cig_pending u1 = (st = 0)" "cis_pending u1 = 0"
    using e plan r none by (auto simp: enter_def create_cig_def Let_def plan_id_def split: if_splits prod.splits)
  have "fold (owe_command env) a g = (if st = 0 then g\<lparr> ow_cig := Some (cg_cig_id p) \<rparr> else g)"
    using retry_owed[OF r, of g] no_command_owed[OF no_command_parts(3)] by (simp add: a)
  then show ?thesis using g u1 none by (auto simp: owed_ok_def owed_base_def)
qed

lemma enter_cis_owed:
  assumes ok: "todo_ok (Enter PhCreateCis) u" and g: "owed_base u g" and e: "enter env PhCreateCis u = (u1, a, t)"
  shows "owed_ok u1 (fold (owe_command env) a g)"
proof -
  obtain plan where plan: "un_plan u = Some plan" using ok by auto
  have none: "\<not> cig_pending u" "cis_pending u = 0" using ok by (auto simp: core_ok_def phase_ok_at)
  let ?cs = "map (\<lambda>c. c\<lparr>pl_acl := (case ue_device env (pl_device_id c) of Some d \<Rightarrow> ld_acl d | None \<Rightarrow> CON_HANDLE_INVALID)\<rparr>) (sn_cis plan)"
  define cis acl where "cis = map pl_cis_handle ?cs" and "acl = map pl_acl ?cs"
  have E: "enter env PhCreateCis u = (let v = u\<lparr> un_phase := PhCreateCis, un_plan := Some (plan\<lparr>sn_cis := ?cs\<rparr>), cis_up := 0 \<rparr>;
        st = ue_cis_create env (sn_cig_id plan) cis acl; cmds = enter_timers PhCreateCis @ [CisCreate (sn_cig_id plan) cis acl]
      in if st \<noteq> 0 then (v, cmds, Fail (''LE Create CIS could not start (0x'' @ hex02 st @ '')''))
         else (v\<lparr> cis_pending := length cis \<rparr>, cmds, Advance))"
    by (simp add: enter_def plan enter_create_cis_def Let_def cis_def acl_def)
  have a: "a = enter_timers PhCreateCis @ [CisCreate (sn_cig_id plan) cis acl]" "plan_id u1 = Some (sn_cig_id plan)"
    "\<not> cig_pending u1" "cis_pending u1 = (if ue_cis_create env (sn_cig_id plan) cis acl = 0 then length cis else 0)"
    using e none unfolding E by (auto simp: Let_def plan_id_def split: if_splits)
  show ?thesis using g a(2-4) none no_command_owed[OF no_command_parts(3)] by (auto simp: a(1) owed_ok_def owed_base_def)
qed

lemma todo_step_owed:
  assumes ok: "todo_ok t u" and g: "owed_todo t u g" and e: "todo_step env t u = (u1, a, t1)"
  shows "owed_todo t1 u1 (fold (owe_command env) a g)"
proof (cases t)
  case (Enter p)
  then have en: "enter env p u = (u1, a, t1)" and gb: "owed_base u g" using e g by simp_all
  consider "p = PhCreateCig" | "p = PhCreateCis" | "p \<noteq> PhCreateCig" "p \<noteq> PhCreateCis" by blast
  then have "owed_ok u1 (fold (owe_command env) a g)"
  proof cases
    case 3
    have "un_phase u1 = p \<or> p = PhRemoveCig \<and> un_phase u1 = PhIdle" using enter_phase[OF en] by auto
    then have "un_phase u1 \<noteq> PhCreateCis" using 3 by auto
    moreover have "owed_base u1 g" "fold (owe_command env) a g = g"
      using enter_quiet[OF en 3] owed_base_books[OF gb] no_command_owed by blast+
    ultimately show ?thesis by (simp add: owed_ok_def)
  qed (use ok gb en enter_cig_owed enter_cis_owed Enter in blast)+
  then show ?thesis by (rule owed_ok_todo)
next
  case Advance
  then have "no_command a \<and> same_books u u1 \<and> (un_phase u1 = PhCreateCis \<longrightarrow> un_phase u = PhCreateCis)"
    using e try_remove_quiet[of env u] try_remove_phase[of env u]
    by (auto simp: advance_def Let_def split_def split: option.splits if_splits)
  then have "owed_ok u1 g" "fold (owe_command env) a g = g"
    using owed_ok_books[of u g u1] no_command_owed g Advance by simp_all
  then show ?thesis using owed_ok_todo by simp
next
  case (Fail why)
  show ?thesis
  proof (cases "fail_reason u = []")
    case True
    then have "a = []" "same_books u u1" "t1 = Enter PhDisable" using e Fail by (auto simp: fail_def same_books_def)
    then show ?thesis using owed_base_books[of u g u1] g Fail by simp
  next
    case False
    then have "a = []" "u1 = u" "t1 = Return" "un_phase u \<noteq> PhCreateCis"
      using e Fail ok by (auto simp: fail_def un_inv_def phase_ok_at)
    then show ?thesis using g Fail by (simp add: owed_ok_def)
  qed
qed (use g e in simp)

lemma run_todo_owed_todo:
  assumes "todo_ok t u" "owed_todo t u g"
  shows "owed_ok (fst (run_todo env t u)) (fold (owe_command env) (snd (run_todo env t u)) g)"
proof -
  have "todo_ok Return (fst (run_todo env t u)) \<and>
      owed_todo Return (fst (run_todo env t u)) (fold (owe_command env) ([] @ snd (run_todo env t u)) g)"
    by (rule run_todo_rule[where I = "\<lambda>t u acts. todo_ok t u \<and> owed_todo t u (fold (owe_command env) acts g)"])
      (use assms todo_step_ok todo_step_owed in \<open>auto simp del: todo_ok.simps owed_todo.simps\<close>)
  then show ?thesis by simp
qed

lemma run_owed_first_todo:
  assumes "no_command pre" "todo_ok t u" "owed_todo t u g"
  shows "owed_ok (fst (run_todo env t u)) (fold (owe_command env) (pre @ snd (run_todo env t u)) g)"
  using run_todo_owed_todo[OF assms(2,3)] no_command_owed[OF assms(1)] by simp

lemmas run_todo_owed = run_todo_owed_todo[OF _ owed_ok_todo]
lemmas run_owed_first = run_owed_first_todo[OF _ _ owed_ok_todo]
lemmas owed_defs = owed_ok_def owed_base_def

lemma owed_ok_none: "owed_ok u g \<Longrightarrow> \<not> cig_pending v \<Longrightarrow> \<not> cig_pending u \<Longrightarrow> cis_pending v = 0 \<Longrightarrow> cis_pending u = 0 \<Longrightarrow> owed_ok v g"
  by (simp add: owed_defs)

lemma subset_no_command: "set pre \<subseteq> {CisDown h} \<Longrightarrow> no_command pre"
  by (auto simp: list_all_iff)

lemma refresh_no_command: "no_command (snd (on_refresh env u))"
  by (auto simp: on_refresh_def list_all_iff split: option.splits if_splits)

lemma timeout_owed:
  assumes i: "un_inv u" and g: "owed_ok u g"
  defines "g' \<equiv> if un_phase u = PhRemoveCig then g\<lparr> ow_cig := None, ow_cis := 0 \<rparr> else g"
  shows "owed_ok (fst (on_timeout env u)) (fold (owe_command env) (snd (on_timeout env u)) g')"
proof (cases rule: timeout_cases[where env = env and u = u])
  case nothing
  then show ?thesis using g by (auto simp: g'_def)
next
  case (next_step p)
  then have "g' = g" by (auto simp: g'_def)
  then show ?thesis using run_todo_owed[OF next_step_todo[OF i next_step(1,2)] g, of env] next_step(4) by simp
next
  case (failed why)
  then have "g' = g" "ph_rank (un_phase u) \<le> 7" by (auto simp: g'_def)
  then show ?thesis using run_todo_owed[OF fail_todo[OF i failed(2)] g, of env] failed(3) by simp
next
  case removing
  have o: "owed_ok (gave_up u) g'" using removing(1) by (simp add: g'_def owed_defs gave_up_def)
  note q = try_remove_quiet[of env "gave_up u"]
  have "un_phase (fst (try_remove_cig env (gave_up u))) \<noteq> PhCreateCis"
    using try_remove_phase[of env "gave_up u"] removing(1) by (auto simp: gave_up_def)
  then show ?thesis using owed_ok_books[OF o] q no_command_owed by (simp add: removing(4))
next
  case over
  have "\<not> cig_pending u" "cis_pending u = 0" using over(2) i by (auto simp: un_inv_def core_ok_def)
  then have o: "owed_ok (u\<lparr> cig_removing := False, cig_exists := False \<rparr>) g'" using over(1) by (simp add: g'_def owed_defs)
  show ?thesis using owed_ok_books[OF o finish_stop_books] no_command_owed[OF no_command_parts(5)] by (simp add: over(3))
qed

lemma link_lost_owed:
  fixes h :: u16
  assumes i: "un_inv u" and g: "owed_ok u g"
  defines "g' \<equiv> if un_phase u = PhCreateCis \<and> h \<in> set (plan_handles u) then g\<lparr> ow_lost := True \<rparr> else g"
  shows "owed_base (link_lost h u) g' \<and> (un_phase u \<noteq> PhCreateCis \<longrightarrow> owed_ok (link_lost h u) g')"
proof (cases "list_ex (\<lambda>c. pl_cis_handle c = h) (plan_cis u)")
  case False
  then have "g' = g" "link_lost h u = u" by (auto simp: g'_def link_lost_def plan_handles_def list_ex_iff)
  then show ?thesis using g by (simp add: owed_ok_def)
next
  case True
  then have h: "h \<in> set (plan_handles u)" "link_lost h u = cis_lost h u" by (auto simp: link_lost_def plan_handles_def list_ex_iff)
  show ?thesis
  proof (cases "un_phase u = PhCreateCis")
    case p: True
    have "h \<notin> set (cis_dropping u)" "h \<notin> set (cis_to_drop u)" using inv_start[OF i] p by auto
    then have "owed_base (cis_lost h u) (g\<lparr> ow_lost := True \<rparr>)"
      using g p by (auto simp: owed_defs cis_lost_def Let_def split: if_splits)
    then show ?thesis using h p by (simp add: g'_def)
  next
    case p: False
    have "same_books u (cis_lost h u)" "un_phase (cis_lost h u) = un_phase u" using p by (simp_all add: same_books_def cis_lost_def Let_def)
    then have "owed_ok (cis_lost h u) g" using owed_ok_books[OF g] by simp
    then show ?thesis using p h by (simp add: g'_def owed_ok_def)
  qed
qed

lemma un_handle_owed:
  assumes i: "un_inv u" and u: "u = bs_un s" and g: "owed_ok u g" and armed: "\<And>k. ev = EvTimer k \<Longrightarrow> bs_armed s k"
  shows "owed_ok (fst (un_handle env ev u)) (fold (owe_command env) (snd (un_handle env ev u)) (owe_event s ev g))"
proof (cases ev)
  case (EvStart b plan d)
  show ?thesis
  proof (cases rule: start_cases[where env = env and b = b and plan = plan and d = d and u = u])
    case started
    have "\<not> cig_pending u" "cis_pending u = 0" using i started(1) by (auto simp: un_inv_def core_ok_def phase_ok_at)
    then have "owed_ok (started plan d u) g" by (intro owed_ok_none[OF g]) (simp_all add: started_def)
    from run_todo_owed[OF started_todo[OF i started(1)] this] show ?thesis using started(2) EvStart by simp
  qed (use EvStart g in simp)
next
  case (EvStop d)
  show ?thesis
  proof (cases rule: stop_cases[where env = env and d = d and u = u])
    case stopped
    have "owed_ok (stop_asked d u) g"
      by (rule owed_ok_books[OF g]) (simp_all add: same_books_def stop_asked_def Let_def)
    from run_todo_owed[OF stop_asked_todo[OF i stopped(1)] this] show ?thesis using stopped(2) EvStop by simp
  qed (use EvStop g in \<open>auto simp: owed_defs\<close>)
next
  case (EvTimer k)
  show ?thesis
  proof (cases k)
    case StepTimer
    have "owe_event s ev g = (if un_phase u = PhRemoveCig then g\<lparr> ow_cig := None, ow_cis := 0 \<rparr> else g)"
      using armed[OF EvTimer] by (simp add: EvTimer StepTimer u)
    then show ?thesis using timeout_owed[OF i g, of env] EvTimer StepTimer by simp
  next
    case DropTimer
    then show ?thesis using owed_ok_books[OF g, of "fst (drop_cis env u)"] drop_cis_books[of u env]
        no_command_owed[OF no_command_parts(6)] EvTimer by simp
  next
    case RefreshTimer
    then show ?thesis using g no_command_owed[OF refresh_no_command] EvTimer by simp
  qed
next
  case (EvContexts dev)
  show ?thesis
  proof (cases rule: contexts_cases[where env = env and dev = dev and u = u])
    case (enabled u1 a t)
    note q = send_enable_quiet[OF enabled(2)]
    have "un_phase u1 = PhEnable" using send_enable_keeps[OF enabled(2)] enabled(1) by simp
    then have "owed_ok u1 g" using owed_ok_books[OF g, of u1] q by simp
    then show ?thesis using run_owed_first[OF _ enabled_todo[OF i enabled(1,2)]] q enabled(3) EvContexts by simp
  qed (use EvContexts g in simp)
next
  case (EvAse dev i')
  show ?thesis by (cases rule: ase_update_cases[where env = env and dev = dev and i = i' and u = u])
    (use EvAse i g run_todo_owed[of Advance u g env] in auto)
next
  case (EvCp dev v)
  show ?thesis
  proof (cases rule: cp_response_cases[where env = env and dev = dev and v = v and u = u])
    case (rejected why)
    then show ?thesis using run_todo_owed[OF fail_todo[OF i rejected(2,1)] g, of env] EvCp by simp
  qed (use EvCp g in simp)
next
  case (EvCigCreated p)
  show ?thesis
  proof (cases rule: cig_created_cases[where env = env and packet = p and u = u])
    case ignored
    have "ow_cig g \<noteq> Some (gc_cig_id e)" if "cig_created p = Some e" for e
      using ignored(2)[OF _ that] g by (auto simp: owed_defs plan_id_def)
    then have "owe_event s ev g = g" by (simp add: EvCigCreated split: option.split)
    then show ?thesis using ignored(1) g EvCigCreated by simp
  next
    case (failed plan why e)
    have "owe_event s ev g = g\<lparr> ow_cig := None \<rparr>" using g failed by (simp add: EvCigCreated owed_defs plan_id_def)
    moreover have "owed_ok (u\<lparr> cig_pending := False, cig_exists := False \<rparr>) (g\<lparr> ow_cig := None \<rparr>)" using g by (simp add: owed_defs)
    ultimately show ?thesis using run_todo_owed[OF cig_failed_todo[OF i failed(1-3)]] failed(4) EvCigCreated by simp
  next
    case (made plan hs e)
    have "cis_pending u = 0" using i made(1) by (simp add: un_inv_def core_ok_def)
    moreover have "owe_event s ev g = g\<lparr> ow_cig := None \<rparr>" using g made by (simp add: EvCigCreated owed_defs plan_id_def)
    ultimately have "owed_ok (cig_made plan hs u) (owe_event s ev g)" using g by (simp add: owed_defs cig_made_def)
    then show ?thesis using run_todo_owed[OF cig_made_todo[OF i made(1,2)]] made(3) EvCigCreated by simp
  qed
next
  case (EvCisCreated p)
  have counted: "owed_ok (cis_counted u) (owe_event s ev g)" "\<And>h. owed_ok (cis_made h u) (owe_event s ev g)"
    if "cis_created p = Some e" "un_plan u = Some plan" "ic_cig_id e = sn_cig_id plan" "0 < cis_pending u" for e plan
  proof -
    have "owe_event s ev g = g\<lparr> ow_cis := ow_cis g - 1 \<rparr>" using g that by (simp add: EvCisCreated owed_defs plan_id_def)
    then show "owed_ok (cis_counted u) (owe_event s ev g)" "\<And>h. owed_ok (cis_made h u) (owe_event s ev g)"
      using g that(4) by (auto simp: owed_defs cis_counted_def cis_made_def split: if_splits)
  qed
  show ?thesis
  proof (cases rule: cis_created_cases[where env = env and packet = p and u = u])
    case ignored
    have "cis_pending u = 0" if "cis_created p = Some e" "ic_cig_id e = ow_cis_cig g" for e
    proof (rule ccontr)
      assume n: "cis_pending u \<noteq> 0"
      then have "plan_id u = Some (ic_cig_id e)" using g that(2) by (simp add: owed_defs)
      then show False using ignored(2)[OF _ that(1)] n by (auto simp: plan_id_def)
    qed
    then have "owed_ok u (owe_event s ev g)" using g by (auto simp: EvCisCreated owed_defs split: option.split)
    then show ?thesis using ignored(1) EvCisCreated by simp
  next
    case (failed why u2 a2 e plan)
    have d: "todo_ok (Fail why) (cis_counted u)"
      by (rule fail_todo[OF cis_counted_inv[OF i failed(1)] failed(3)]) (simp add: failed(2) cis_counted_def)
    have o: "owed_ok u2 (fold (owe_command env) a2 (owe_event s ev g))"
      using run_todo_owed[OF d counted(1)[OF failed(6-8,1)], of env] failed(4) by simp
    have "todo_ok Advance u2" using run_todo_ok[OF d, of env] failed(4) by simp
    from run_todo_owed[OF this o, of env] show ?thesis using failed(5) EvCisCreated by simp
  next
    case c: (counted e plan)
    have "todo_ok Advance (cis_counted u)" using cis_counted_inv[OF i c(1)] by simp
    from run_todo_owed[OF this counted(1)[OF c(3-5,1)], of env] show ?thesis using c(2) EvCisCreated by simp
  next
    case (made h e plan)
    have "todo_ok Advance (cis_made h u)" using cis_made_inv[OF i made(1)] by simp
    from run_todo_owed[OF this counted(2)[OF made(3-5,1)], of env] show ?thesis using made(2) EvCisCreated by simp
  qed
next
  case EvCigRemoved
  from i show ?thesis
  proof (cases rule: cig_removed_cases)
    case removed
    have "owed_ok (u\<lparr> cig_removing := False, cig_exists := False \<rparr>) g"
      by (rule owed_ok_books[OF g]) (simp_all add: same_books_def)
    then have "owed_ok (fst (finish_stop (u\<lparr> cig_removing := False, cig_exists := False \<rparr>))) g"
      by (rule owed_ok_books) simp_all
    then show ?thesis using removed(3) EvCigRemoved no_command_owed[OF no_command_parts(5)] by simp
  qed (use EvCigRemoved g in simp)
next
  case (EvLinkLost h)
  let ?g = "owe_event s ev g"
  have o: "owed_base (link_lost h u) ?g \<and> (un_phase u \<noteq> PhCreateCis \<longrightarrow> owed_ok (link_lost h u) ?g)"
    using link_lost_owed[OF i g, of h] by (simp add: EvLinkLost flip: u)
  show ?thesis
  proof (cases rule: link_lost_cases[where env = env and h = h and u = u])
    case ignored
    have "owed_ok u ?g" using ignored(2) g by (auto simp: EvLinkLost uses_handle_def plan_handles_def list_ex_iff simp flip: u)
    then show ?thesis using ignored(1) EvLinkLost by simp
  next
    case (streaming pre w)
    then show ?thesis using o no_command_owed[OF subset_no_command[OF streaming(1)]] EvLinkLost by simp
  next
    case (stopping pre)
    have "todo_ok Advance (link_lost h u)" using link_lost_inv[OF i] stopping(2) by simp
    moreover have "owed_ok (link_lost h u) ?g" using o stopping(2) by auto
    ultimately show ?thesis using run_owed_first[OF subset_no_command[OF stopping(1)]] stopping(3) EvLinkLost by simp
  next
    case (starting pre why)
    have "owed_todo (Fail why) (link_lost h u) ?g" using o by simp
    from run_owed_first_todo[OF subset_no_command[OF starting(2)] link_lost_todo[OF i starting(3,1)] this]
    show ?thesis using starting(4) EvLinkLost by simp
  qed
qed

lemma bap_step_owed:
  assumes ok: "system_ok s" and g: "owed_ok (bs_un s) g" and e: "bap_step s (env, ev) = (s', acts)"
  shows "owed_ok (bs_un s') (fold (owe_command env) acts (owe_event s ev g))"
proof (cases "\<exists>k. ev = EvTimer k \<and> \<not> bs_armed s k")
  case True
  then show ?thesis using e g by auto
next
  case False
  then have "acts = snd (un_handle env ev (bs_un s)) \<and> bs_un s' = fst (un_handle env ev (bs_un s))"
    using e by (cases ev) (auto simp: split_def Let_def)
  then show ?thesis using un_handle_owed[OF _ refl g, of ev env] ok False by (auto simp: system_ok_def)
qed

lemma owe_run_ok: "system_ok s \<Longrightarrow> owed_ok (bs_un s) g \<Longrightarrow> owed_ok (bs_un (fst (bap_run s es))) (owe_run s es g)"
proof (induction es arbitrary: s g)
  case (Cons e es)
  obtain env ev s' acts where e: "e = (env, ev)" "bap_step s (env, ev) = (s', acts)" by (metis surj_pair)
  have "system_ok s'" using bap_step_ok[OF Cons.prems(1), of e] e by simp
  from Cons.IH[OF this bap_step_owed[OF Cons.prems e(2)]] show ?case by (simp add: e split_def Let_def del: bap_step.simps)
qed simp

lemma owed_reachable: "owed_ok (bs_un (fst (bap_run bap_new es))) (owe_run bap_new es owed_new)"
  by (rule owe_run_ok[OF system_ok_new]) (simp add: owed_defs owed_new_def bap_new_def unicast_new_def)

subsection \<open>Where a stream comes from\<close>

text \<open>The phases of a stream whose CIG exists, until something fails or it is stopped.\<close>

definition live_phase :: "phase \<Rightarrow> bool" where
  "live_phase p \<longleftrightarrow> p \<in> {PhConfigQos, PhEnable, PhCreateCis, PhWaitStreaming, PhStreaming}"

abbreviation live :: "unicast \<Rightarrow> bool" where
  "live u \<equiv> live_phase (un_phase u)"

lemma live_phase_simps [simp]:
  "live_phase PhConfigQos" "live_phase PhEnable" "live_phase PhCreateCis" "live_phase PhWaitStreaming" "live_phase PhStreaming"
  "\<not> live_phase PhIdle" "\<not> live_phase PhConfigCodec" "\<not> live_phase PhCreateCig" "\<not> live_phase PhDisable" "\<not> live_phase PhRelease"
  "\<not> live_phase PhRemoveCig"
  by (simp_all add: live_phase_def)

definition same_stream :: "unicast \<Rightarrow> unicast \<Rightarrow> bool" where
  "same_stream u v \<longleftrightarrow> plan_id v = plan_id u \<and> plan_handles v = plan_handles u \<and> cis_connected v = cis_connected u"

fun dead_todo :: "todo \<Rightarrow> unicast \<Rightarrow> bool" where
  "dead_todo (Enter p) u = (\<not> live_phase p)"
| "dead_todo _ u = (\<not> live u)"

lemma enter_dead:
  assumes "enter env p u = (u1, a, t)" "\<not> live_phase p"
  shows "dead_todo t u1"
  using enter_phase[OF assms(1)] enter_todo[OF assms(1)] assms(2) by (cases t) auto

lemma enter_same:
  assumes "enter env p u = (u1, a, t)" "live_phase p"
  shows "same_stream u u1"
proof (cases "p = PhCreateCis")
  case True
  then show ?thesis using assms(1)
    by (auto simp: same_stream_def enter_def enter_create_cis_def Let_def plan_id_def plan_handles_def plan_cis_def split: option.splits if_splits)
next
  case False
  then show ?thesis using enter_quiet[OF assms(1)] assms(2) by (auto simp: same_stream_def same_books_def live_phase_def)
qed

lemma advance_dead:
  assumes "advance env u = (u1, a, t)" "\<not> live u"
  shows "dead_todo t u1"
  using assms try_remove_phase[of env u]
  by (cases "un_phase u") (auto simp: advance_def advance_next_def Let_def split_def split: option.splits if_splits)

lemma advance_live: "advance env u = (u1, a, t) \<Longrightarrow> live u \<Longrightarrow> u1 = u"
  by (cases "un_phase u = PhRemoveCig") (auto simp: advance_def split: option.splits)

lemma todo_step_stream:
  assumes "same_stream u0 u \<or> dead_todo t u" "todo_step env t u = (u1, a, t1)"
  shows "same_stream u0 u1 \<or> dead_todo t1 u1"
proof (cases t)
  case (Enter p)
  then show ?thesis using assms enter_dead[of env p u u1 a t1] enter_same[of env p u u1 a t1]
    by (cases "live_phase p") (auto simp: same_stream_def)
next
  case Advance
  then show ?thesis using assms advance_dead[of env u u1 a t1] advance_live[of env u u1 a t1] by (cases "live u") auto
next
  case (Fail why)
  then show ?thesis using assms by (auto simp: fail_def split: if_splits)
qed (use assms in simp)

text \<open>A chain that leaves the machine in a stream changed neither its CIG, its handles nor its CIS.\<close>

lemma run_todo_stream_aux:
  assumes "same_stream u0 u \<or> dead_todo t u"
  shows "same_stream u0 (fst (run_todo env t u)) \<or> \<not> live (fst (run_todo env t u))"
proof -
  have "same_stream u0 (fst (run_todo env t u)) \<or> dead_todo Return (fst (run_todo env t u))"
    using run_todo_rule[where I = "\<lambda>t v _. same_stream u0 v \<or> dead_todo t v", of u t env] assms todo_step_stream by blast
  then show ?thesis by simp
qed

lemma run_todo_stream:
  assumes "live (fst (run_todo env t u))"
  shows "same_stream u (fst (run_todo env t u)) \<and> \<not> dead_todo t u"
proof
  show "same_stream u (fst (run_todo env t u))"
    using run_todo_stream_aux[of u u t env] assms by (simp add: same_stream_def)
  show "\<not> dead_todo t u"
  proof
    assume d: "dead_todo t u"
    let ?w = "u\<lparr> cis_connected := 0 # cis_connected (fst (run_todo env t u)) \<rparr>"
    have "same_stream ?w (fst (run_todo env t u))" using run_todo_stream_aux[of ?w u t env] d assms by simp
    then show False by (simp add: same_stream_def)
  qed
qed


text \<open>The CIS that came up: the handles of the successful CIS events of a CIG, in order.\<close>

fun cis_up_of :: "u8 \<Rightarrow> un_event \<Rightarrow> u16 list" where
  "cis_up_of cig (EvCisCreated p) =
     (case cis_created p of Some ev \<Rightarrow> if ic_status ev = 0 \<and> ic_cig_id ev = cig then [ic_cis_handle ev] else [] | None \<Rightarrow> [])"
| "cis_up_of cig _ = []"

definition cis_ups :: "u8 \<Rightarrow> (unicast_env \<times> un_event) list \<Rightarrow> u16 list" where
  "cis_ups cig es = concat (map (cis_up_of cig \<circ> snd) es)"

text \<open>A CIG event gives the first CIS the first handle, the second the second; a CIS without a handle keeps the one it had.\<close>

lemma set_handles_given: "map pl_cis_handle (set_handles cs hs) = take (length cs) hs @ drop (length hs) (map pl_cis_handle cs)"
  by (induction cs hs rule: set_handles.induct) auto

definition born :: "unicast \<Rightarrow> un_event \<Rightarrow> unicast \<Rightarrow> bool" where
  "born u ev v \<longleftrightarrow> (\<exists>p e plan. ev = EvCigCreated p \<and> un_phase u = PhCreateCig \<and> cig_created p = Some e \<and> gc_status e = 0 \<and>
     un_plan u = Some plan \<and> gc_cig_id e = sn_cig_id plan \<and> plan_id v = Some (sn_cig_id plan) \<and> cis_connected v = [] \<and>
     plan_handles v = take (length (sn_cis plan)) (gc_cis_handles e) @ drop (length (gc_cis_handles e)) (map pl_cis_handle (sn_cis plan)))"

definition kept :: "unicast \<Rightarrow> un_event \<Rightarrow> unicast \<Rightarrow> bool" where
  "kept u ev v \<longleftrightarrow> live u \<and> plan_id v = plan_id u \<and> plan_handles v = plan_handles u \<and>
     (\<forall>cig. plan_id u = Some cig \<longrightarrow> mset (cis_connected v) \<subseteq># mset (cis_connected u) + mset (cis_up_of cig ev))"

lemma kept_same: "same_stream u v \<Longrightarrow> live u \<Longrightarrow> kept u ev v"
  by (simp add: kept_def same_stream_def)

lemma kept_run: "live (fst (run_todo env t u)) \<Longrightarrow> (\<not> dead_todo t u \<Longrightarrow> live u) \<Longrightarrow> kept u ev (fst (run_todo env t u))"
  using run_todo_stream[of env t u] kept_same by blast

lemma kept_via: "same_stream u v \<Longrightarrow> un_phase v = un_phase u \<Longrightarrow> kept v ev w \<Longrightarrow> kept u ev w"
  by (simp add: kept_def same_stream_def)

lemma cis_created_stream:
  assumes i: "un_inv u" and l: "live (fst (on_cis_created env p u))"
  shows "kept u (EvCisCreated p) (fst (on_cis_created env p u))"
proof (cases rule: cis_created_cases[where env = env and packet = p and u = u])
  case ignored
  then show ?thesis using l by (simp add: kept_same same_stream_def)
next
  case (failed why u2 a2 e plan)
  have u2: "u2 = fst (run_todo env (Fail why) (cis_counted u))" using failed(4) by simp
  have s: "same_stream u2 (fst (run_todo env Advance u2))" "live u2" using l failed(5) run_todo_stream[of env Advance u2] by auto
  have "same_stream (cis_counted u) u2" using run_todo_stream[of env "Fail why" "cis_counted u"] s(2) u2 by simp
  then have "same_stream u (fst (run_todo env Advance u2))" using s(1) 
    by (simp add: same_stream_def cis_counted_def plan_id_def plan_handles_def plan_cis_def)
  then show ?thesis using failed(2,5) kept_same by simp
next
  case (counted e plan)
  then have "kept (cis_counted u) (EvCisCreated p) (fst (on_cis_created env p u))" using l kept_run[of env Advance] by simp
  then show ?thesis by (rule kept_via[rotated 2]) (simp_all add: same_stream_def cis_counted_def)
next
  case (made h e plan)
  have s: "same_stream (cis_made h u) (fst (on_cis_created env p u))" "live u"
    using l made(2) run_todo_stream[of env Advance "cis_made h u"] by (auto simp: cis_made_def)
  have "cis_up_of (sn_cig_id plan) (EvCisCreated p) = [h]" using made by simp
  then show ?thesis using s made(4)
    by (auto simp: kept_def same_stream_def cis_made_def plan_id_def plan_handles_def plan_cis_def simp del: cis_up_of.simps)
qed

lemma cig_created_stream:
  assumes i: "un_inv u" and l: "live (fst (on_cig_created env p u))"
  shows "born u (EvCigCreated p) (fst (on_cig_created env p u)) \<or> kept u (EvCigCreated p) (fst (on_cig_created env p u))"
proof (cases rule: cig_created_cases[where env = env and packet = p and u = u])
  case ignored
  then show ?thesis using l by (simp add: kept_same same_stream_def)
next
  case (failed plan why e)
  have "\<not> live u" using inv_cig_pending[OF i failed(1)] by (auto simp: live_phase_def)
  then show ?thesis using run_todo_stream[of env "Fail why" "u\<lparr> cig_pending := False, cig_exists := False \<rparr>"] l failed(4) by simp
next
  case (made plan hs e)
  let ?t = "if un_phase u = PhCreateCig then Enter PhConfigQos else Advance"
  have s: "same_stream (cig_made plan hs u) (fst (on_cig_created env p u))" "\<not> dead_todo ?t (cig_made plan hs u)"
    using run_todo_stream[of env ?t "cig_made plan hs u"] l made(3) by simp_all
  have p: "un_phase u = PhCreateCig"
  proof (rule ccontr)
    assume n: "un_phase u \<noteq> PhCreateCig"
    then have "\<not> live u" using inv_cig_pending[OF i made(1)] by (auto simp: live_phase_def)
    then show False using s(2) n by (simp add: cig_made_def)
  qed
  have "cis_connected u = []" using i p by (simp add: un_inv_def phase_ok_at)
  then have "born u (EvCigCreated p) (fst (on_cig_created env p u))" using s(1) made p set_handles_given[of "sn_cis plan" "gc_cis_handles e"]
    by (simp add: born_def same_stream_def cig_made_def plan_id_def plan_handles_def plan_cis_def)
  then show ?thesis ..
qed

lemma link_lost_stream:
  assumes l: "live (fst (on_link_lost env h u))"
  shows "kept u (EvLinkLost h) (fst (on_link_lost env h u))"
proof -
  have k: "kept u (EvLinkLost h) (link_lost h u)" if "live u"
    using that by (auto simp: kept_def link_lost_def cis_lost_def Let_def mset_filter)
  have c: "kept u (EvLinkLost h) (fst (run_todo env t (link_lost h u)))"
    if r: "live (fst (run_todo env t (link_lost h u)))" and t: "\<not> dead_todo t (link_lost h u) \<Longrightarrow> live u" for t
    using run_todo_stream[OF r] k t by (auto simp: kept_def same_stream_def)
  show ?thesis
  proof (cases rule: link_lost_cases[where env = env and h = h and u = u])
    case ignored
    then show ?thesis using l by (simp add: kept_same same_stream_def)
  next
    case (streaming pre w)
    then show ?thesis using k by simp
  next
    case (stopping pre)
    then show ?thesis using l c[of Advance] by simp
  next
    case (starting pre why)
    then show ?thesis using l c[of "Fail why"] by simp
  qed
qed

lemma timeout_stream:
  assumes l: "live (fst (on_timeout env u))"
  shows "kept u ev (fst (on_timeout env u))"
proof (cases rule: timeout_cases[where env = env and u = u])
  case nothing
  then show ?thesis using l by (simp add: kept_same same_stream_def)
next
  case (next_step p)
  then show ?thesis using l run_todo_stream[of env "Enter p" u] by (auto simp: ph_stopping_def)
next
  case (failed why)
  then show ?thesis using l kept_run[of env "Fail why"] by simp
next
  case removing
  then show ?thesis using l try_remove_phase[of env "gave_up u"] by (auto simp: gave_up_def)
next
  case over
  then show ?thesis using l by simp
qed

lemma un_handle_stream:
  assumes i: "un_inv u" and l: "live (fst (un_handle env ev u))"
  shows "born u ev (fst (un_handle env ev u)) \<or> kept u ev (fst (un_handle env ev u))"
proof (cases ev)
  case (EvStart b plan d)
  show ?thesis
  proof (cases rule: start_cases[where env = env and b = b and plan = plan and d = d and u = u])
    case started
    then show ?thesis using l EvStart run_todo_stream[of env "Enter PhConfigCodec" "started plan d u"] by simp
  qed (use EvStart l in \<open>simp add: kept_same same_stream_def\<close>)
next
  case (EvStop d)
  show ?thesis
  proof (cases rule: stop_cases[where env = env and d = d and u = u])
    case stopped
    then show ?thesis using l EvStop run_todo_stream[of env "Enter PhDisable" "stop_asked d u"] by simp
  qed (use EvStop l in \<open>simp_all add: kept_same same_stream_def\<close>)
next
  case (EvTimer k)
  show ?thesis
  proof (cases k)
    case DropTimer
    have "un_phase (fst (drop_cis env u)) = un_phase u" by (simp add: drop_cis_def split: prod.splits)
    then show ?thesis using l EvTimer DropTimer drop_cis_books[of u env] by (simp add: kept_same same_stream_def same_books_def)
  qed (use EvTimer l timeout_stream in \<open>simp_all add: kept_same same_stream_def\<close>)
next
  case (EvContexts dev)
  show ?thesis
  proof (cases rule: contexts_cases[where env = env and dev = dev and u = u])
    case (enabled u1 a t)
    have "same_stream u u1" "live u" using send_enable_quiet[OF enabled(2)] enabled(1) by (simp_all add: same_stream_def same_books_def)
    moreover have "same_stream u1 (fst (un_handle env ev u))" using run_todo_stream[of env t u1] l enabled(3) EvContexts by simp
    ultimately show ?thesis by (simp add: kept_same same_stream_def)
  qed (use EvContexts l in \<open>simp add: kept_same same_stream_def\<close>)
next
  case (EvAse dev i')
  show ?thesis by (cases rule: ase_update_cases[where env = env and dev = dev and i = i' and u = u])
    (use EvAse l kept_run[of env Advance u] in \<open>simp_all add: kept_same same_stream_def\<close>)
next
  case (EvCp dev v)
  show ?thesis by (cases rule: cp_response_cases[where env = env and dev = dev and v = v and u = u])
    (use EvCp l kept_run[of env "Fail _" u] in \<open>simp_all add: kept_same same_stream_def\<close>)
next
  case EvCigRemoved
  from i show ?thesis by (cases rule: cig_removed_cases) (use EvCigRemoved l in \<open>simp_all add: kept_same same_stream_def\<close>)
qed (use i l cig_created_stream cis_created_stream link_lost_stream in simp_all)


text \<open>Over a run: the CIG event the stream began with, and the events since then, none of which ended it.\<close>

abbreviation after_events :: "(unicast_env \<times> un_event) list \<Rightarrow> unicast" where
  "after_events es \<equiv> bs_un (fst (bap_run bap_new es))"

definition origin :: "(unicast_env \<times> un_event) list \<Rightarrow> bytes \<Rightarrow> unicast_env \<Rightarrow> (unicast_env \<times> un_event) list \<Rightarrow> unicast \<Rightarrow> bool" where
  "origin before p env since u \<longleftrightarrow> (\<exists>e plan. un_phase (after_events before) = PhCreateCig \<and> un_plan (after_events before) = Some plan \<and>
     cig_created p = Some e \<and> gc_status e = 0 \<and> gc_cig_id e = sn_cig_id plan \<and> plan_id u = Some (sn_cig_id plan) \<and>
     plan_handles u = take (length (sn_cis plan)) (gc_cis_handles e) @ drop (length (gc_cis_handles e)) (map pl_cis_handle (sn_cis plan)) \<and>
     mset (cis_connected u) \<subseteq># mset (cis_ups (sn_cig_id plan) since) \<and>
     (\<forall>n\<le>length since. live (after_events (before @ (env, EvCigCreated p) # take n since))))"

lemma after_events_step:
  "after_events (es @ [(env, ev)]) = after_events es \<or> after_events (es @ [(env, ev)]) = fst (un_handle env ev (after_events es))"
  by (cases ev) (auto simp: bap_run_append split_def Let_def)

lemma cis_ups_simps [simp]: "cis_ups cig [] = []" "cis_ups cig (es @ [(env, ev)]) = cis_ups cig es @ cis_up_of cig ev"
  by (simp_all add: cis_ups_def)

lemma origin_born:
  assumes "born (after_events es) ev v" "v = after_events (es @ [(env, ev)])" "live v"
  shows "\<exists>p. ev = EvCigCreated p \<and> origin es p env [] v"
  using assms by (auto simp: born_def origin_def)

lemma origin_kept:
  assumes o: "origin before p env0 since u" and k: "kept u ev v"
    and v: "v = after_events (before @ (env0, EvCigCreated p) # since @ [(env, ev)])" "live v"
  shows "origin before p env0 (since @ [(env, ev)]) v"
proof -
  obtain e plan where q: "un_phase (after_events before) = PhCreateCig" "un_plan (after_events before) = Some plan"
    "cig_created p = Some e" "gc_status e = 0" "gc_cig_id e = sn_cig_id plan" "plan_id u = Some (sn_cig_id plan)"
    "plan_handles u = take (length (sn_cis plan)) (gc_cis_handles e) @ drop (length (gc_cis_handles e)) (map pl_cis_handle (sn_cis plan))"
    "mset (cis_connected u) \<subseteq># mset (cis_ups (sn_cig_id plan) since)"
    "\<forall>n\<le>length since. live (after_events (before @ (env0, EvCigCreated p) # take n since))"
    using o unfolding origin_def by blast
  have "mset (cis_connected v) \<subseteq># mset (cis_connected u) + mset (cis_up_of (sn_cig_id plan) ev)" using k q(6) by (simp add: kept_def)
  then have "mset (cis_connected v) \<subseteq># mset (cis_ups (sn_cig_id plan) (since @ [(env, ev)]))"
    using subset_mset.order_trans[OF _ subset_mset.add_right_mono[OF q(8)]] by simp
  moreover have "\<forall>n\<le>length (since @ [(env, ev)]). live (after_events (before @ (env0, EvCigCreated p) # take n (since @ [(env, ev)])))"
    using q(9) v by (auto simp: le_Suc_eq)
  ultimately show ?thesis using q k unfolding origin_def kept_def by auto
qed

lemma stream_origin: "live (after_events es) \<Longrightarrow> \<exists>before p env since. es = before @ (env, EvCigCreated p) # since \<and> origin before p env since (after_events es)"
proof (induction es rule: rev_induct)
  case Nil
  then show ?case by (simp add: bap_new_def unicast_new_def)
next
  case (snoc x es)
  obtain env ev where x: "x = (env, ev)" by (cases x)
  let ?v = "after_events (es @ [(env, ev)])"
  have i: "un_inv (after_events es)" using bap_reachable[of es] by (simp add: system_ok_def)
  consider "?v = after_events es" | "?v = fst (un_handle env ev (after_events es))" using after_events_step by blast
  then have "born (after_events es) ev ?v \<or> kept (after_events es) ev ?v"
  proof cases
    case 1
    then show ?thesis using snoc.prems x by (simp add: kept_def)
  next
    case 2
    then show ?thesis using un_handle_stream[OF i, of env ev] snoc.prems x by simp
  qed
  then show ?case
  proof
    assume "born (after_events es) ev ?v"
    then show ?thesis using origin_born[OF _ refl, of es ev env] snoc.prems x by blast
  next
    assume k: "kept (after_events es) ev ?v"
    then have "live (after_events es)" by (simp add: kept_def)
    then obtain before p env0 since where o: "es = before @ (env0, EvCigCreated p) # since" "origin before p env0 since (after_events es)"
      using snoc.IH by blast
    then have "origin before p env0 (since @ [(env, ev)]) ?v" using origin_kept[OF o(2) k, of env] snoc.prems x by simp
    then show ?thesis using o(1) x by (intro exI) auto
  qed
qed

end
