(* ===== verification/Bap_Sending.thy ===== *)
theory Bap_Sending
  imports Bap_History
begin

text \<open>
  When the BAP unicast machine starts the sending of audio, and the properties of the whole machine.
\<close>

subsection \<open>Sending\<close>

fun is_sending :: "un_action \<Rightarrow> bool" where
  "is_sending (StartSending hs d f) = True"
| "is_sending _ = False"

lemma plain_sending: "list_all plain a \<Longrightarrow> \<not> list_ex is_sending a"
proof (induction a)
  case (Cons x a)
  then show ?case by (cases x) auto
qed simp

lemma quiet_parts [simp]:
  "\<not> list_ex is_sending (enter_timers p)" "\<not> list_ex is_sending (snd (finish_stop u))" "\<not> list_ex is_sending (map StopDone ds)"
proof -
  show m: "\<not> list_ex is_sending (map StopDone ds)" for ds by (induction ds) auto
  show "\<not> list_ex is_sending (enter_timers p)" by (simp add: enter_timers_def)
  show "\<not> list_ex is_sending (snd (finish_stop u))" using m by (auto simp: finish_stop_def split: option.splits)
qed

lemma try_remove_sending [simp]: "\<not> list_ex is_sending (snd (try_remove_cig env u))"
  by (auto simp: try_remove_cig_def Let_def split_def)

lemma drop_cis_sending [simp]: "\<not> list_ex is_sending (snd (drop_cis env u))"
proof -
  have "drop_loop env n xs ds = (t, d, acts) \<Longrightarrow> \<not> list_ex is_sending acts" for n xs ds t d acts
    by (induction env n xs ds arbitrary: t d acts rule: drop_loop.induct) (auto simp: Let_def split: if_splits prod.splits)
  then show ?thesis by (auto simp: drop_cis_def split: prod.splits)
qed

definition sent_ok :: "unicast_env \<Rightarrow> un_action list \<Rightarrow> unicast \<Rightarrow> bool" where
  "sent_ok env acts u \<longleftrightarrow> (\<forall>hs d f. StartSending hs d f \<in> set acts \<longrightarrow> un_phase u = PhStreaming \<and>
     (\<exists>plan. un_plan u = Some plan \<and> hs = map pl_cis_handle (sn_cis plan) \<and> d = queue_depth (ue_iso_packet_count env) (length hs) \<and> d \<noteq> 0 \<and>
        f = ucast (sp_frame_us (sn_preset plan)) \<and> all_ases env plan False (\<lambda>s. s = ase_state.Streaming) \<and>
        length (cis_connected u) = length (sn_cis plan)))"

lemma sent_ok_quiet: "\<not> list_ex is_sending acts \<Longrightarrow> sent_ok env acts u"
  by (auto simp: sent_ok_def list_ex_iff)

lemma enter_sending:
  assumes "enter env p u = (u1, a, t)" "list_ex is_sending a"
  shows "p = PhStreaming"
proof -
  obtain plan b where b: "enter_body env p plan (u\<lparr>un_phase := p\<rparr>) = (u1, b, t)" "list_ex is_sending b"
    using assms by (auto simp: enter_def split: option.splits prod.splits)
  show ?thesis
  proof (cases p)
    case PhCreateCig
    then show ?thesis using b plain_create_cig plain_sending by fastforce
  next
    case PhEnable
    then show ?thesis using b plain_send_enable plain_sending by fastforce
  next
    case PhRelease
    then show ?thesis using b plain_sending[OF plain_cp_selected] by (auto simp: enter_release_def Let_def split_def)
  next
    case PhRemoveCig
    then show ?thesis using b by (auto simp: Let_def split_def)
  next
    case PhDisable
    then show ?thesis using b plain_sending[OF plain_cp_selected] by (auto simp: Let_def)
  next
    case PhCreateCis
    then show ?thesis using b by (auto simp: enter_create_cis_def Let_def split: if_splits)
  qed (use b plain_sending[OF plain_cp_writes] in \<open>auto simp: written_def\<close>)
qed

lemma step_sending:
  assumes "todo_step env t u = (u1, a, t1)" "list_ex is_sending a"
  shows "t = Enter PhStreaming"
proof (cases t)
  case (Enter p)
  then show ?thesis using assms enter_sending by auto
next
  case Advance
  then show ?thesis using assms try_remove_sending[of env u] by (auto simp: advance_def Let_def split_def split: option.splits if_splits)
next
  case (Fail why)
  then show ?thesis using assms by (auto simp: fail_def split: if_splits)
qed (use assms in simp)

text \<open>A chain that is about to enter Streaming has found all ASEs streaming.\<close>

definition ready_to_send :: "unicast_env \<Rightarrow> todo \<Rightarrow> unicast \<Rightarrow> bool" where
  "ready_to_send env t u \<longleftrightarrow> (t = Enter PhStreaming \<longrightarrow>
     (\<exists>plan. un_plan u = Some plan \<and> all_ases env plan False (\<lambda>s. s = ase_state.Streaming)))"

lemma enter_no_streaming: "enter env p u = (u1, a, t) \<Longrightarrow> t \<noteq> Enter PhStreaming"
  using enter_todo by fastforce

lemma todo_step_ready: "todo_step env t u = (u1, a, t1) \<Longrightarrow> ready_to_send env t1 u1"
proof (cases t)
  case Advance
  assume e: "todo_step env t u = (u1, a, t1)"
  then show ?thesis using Advance
    by (cases "un_phase u") (auto simp: ready_to_send_def advance_def advance_next_def Let_def split_def split: option.splits if_splits)
next
  case (Enter p)
  assume "todo_step env t u = (u1, a, t1)"
  then show ?thesis using Enter enter_no_streaming by (auto simp: ready_to_send_def)
qed (auto simp: ready_to_send_def fail_def split: if_splits)

lemma streaming_entered:
  assumes ok: "todo_ok (Enter PhStreaming) u" and r: "ready_to_send env (Enter PhStreaming) u"
    and e: "enter env PhStreaming u = (u1, a, t)" and s: "list_ex is_sending a"
  shows "t = Advance \<and> un_phase u1 = PhStreaming \<and> sent_ok env a u1"
proof -
  obtain plan where p: "un_plan u = Some plan" "all_ases env plan False (\<lambda>s. s = ase_state.Streaming)"
    using r by (auto simp: ready_to_send_def)
  have c: "length (cis_connected u) = length (sn_cis plan)" using ok p(1) by (auto simp: phase_ok_at)
  show ?thesis using e s p c
    by (auto simp: enter_def enter_streaming_def Let_def sent_ok_def enter_timers_def split: if_splits option.splits)
qed

definition send_inv :: "unicast_env \<Rightarrow> todo \<Rightarrow> unicast \<Rightarrow> un_action list \<Rightarrow> bool" where
  "send_inv env t u acts \<longleftrightarrow> todo_ok t u \<and> ready_to_send env t u \<and> sent_ok env acts u \<and>
     (list_ex is_sending acts \<longrightarrow> un_phase u = PhStreaming \<and> (t = Advance \<or> t = Return))"

lemma advance_streaming: "un_phase u = PhStreaming \<Longrightarrow> advance env u = (u, [], Return)"
  by (auto simp: advance_def advance_next_def split: option.splits)

lemma send_inv_step:
  assumes i: "send_inv env t u acts" and n: "t \<noteq> Return" and e: "todo_step env t u = (u1, a, t1)"
  shows "send_inv env t1 u1 (acts @ a)"
proof (cases "list_ex is_sending acts")
  case True
  then have "un_phase u = PhStreaming" "t = Advance" using i n by (auto simp: send_inv_def)
  then have "u1 = u" "a = []" "t1 = Return" using e advance_streaming by auto
  moreover have "todo_ok t u" using i by (simp add: send_inv_def)
  then have "todo_ok t1 u1" using todo_step_ok[OF _ e] by simp
  ultimately show ?thesis using i \<open>t1 = Return\<close> by (auto simp: send_inv_def ready_to_send_def)
next
  case False
  have "todo_ok t u" using i by (simp add: send_inv_def)
  then have ok: "todo_ok t1 u1" "ready_to_send env t1 u1" using todo_step_ok[OF _ e] todo_step_ready[OF e] by simp_all
  show ?thesis
  proof (cases "list_ex is_sending a")
    case True
    then have t: "t = Enter PhStreaming" using step_sending[OF e] by simp
    then have "t1 = Advance \<and> un_phase u1 = PhStreaming \<and> sent_ok env a u1"
      using streaming_entered[OF _ _ _ True] i e by (auto simp: send_inv_def simp del: todo_ok.simps)
    then show ?thesis using ok False by (auto simp: send_inv_def sent_ok_def list_ex_iff)
  next
    case f: False
    then show ?thesis using ok False by (simp add: send_inv_def sent_ok_quiet del: todo_ok.simps)
  qed
qed

lemma run_todo_sent:
  assumes "todo_ok t u" "ready_to_send env t u"
  shows "sent_ok env (snd (run_todo env t u)) (fst (run_todo env t u))"
proof -
  have "send_inv env Return (fst (run_todo env t u)) ([] @ snd (run_todo env t u))"
  proof (rule run_todo_rule[where I = "send_inv env"])
    show "send_inv env t u []" using assms by (simp add: send_inv_def sent_ok_def del: todo_ok.simps)
    show "send_inv env t1 u1 (acts @ a)" if "send_inv env t' u' acts" "t' \<noteq> Return" "todo_step env t' u' = (u1, a, t1)"
      for t' u' acts u1 a t1
      using send_inv_step[OF that] .
  qed
  then show ?thesis by (simp add: send_inv_def)
qed

lemma sent_ok_first: "\<not> list_ex is_sending pre \<Longrightarrow> sent_ok env (pre @ acts) u = sent_ok env acts u"
  by (auto simp: sent_ok_def list_ex_iff)

lemma ready_other: "t \<noteq> Enter PhStreaming \<Longrightarrow> ready_to_send env t u"
  by (simp add: ready_to_send_def)

lemma run_sent: "todo_ok t u \<Longrightarrow> t \<noteq> Enter PhStreaming \<Longrightarrow> sent_ok env (snd (run_todo env t u)) (fst (run_todo env t u))"
  by (rule run_todo_sent[OF _ ready_other])


lemma un_handle_sent:
  assumes i: "un_inv u"
  shows "sent_ok env (snd (un_handle env ev u)) (fst (un_handle env ev u))"
proof (cases ev)
  case (EvStart b plan d)
  show ?thesis
  proof (cases rule: start_cases[where env = env and b = b and plan = plan and d = d and u = u])
    case started
    then show ?thesis using run_sent[OF started_todo[OF i started(1)], of env plan d] EvStart sent_ok_first[of "[Disarm DropTimer]"] by simp
  qed (use EvStart in \<open>simp add: sent_ok_quiet\<close>)
next
  case (EvStop d)
  show ?thesis
  proof (cases rule: stop_cases[where env = env and d = d and u = u])
    case stopped
    have t: "todo_ok (Enter PhDisable) (stop_asked d u)" by (rule stop_asked_todo[OF i stopped(1)])
    from run_sent[OF t, of env] show ?thesis using stopped(2) EvStop by simp
  qed (use EvStop in \<open>simp_all add: sent_ok_quiet\<close>)
next
  case (EvTimer k)
  have "\<not> list_ex is_sending (snd (on_refresh env u))"
  proof -
    have r: "list_all plain (concat (map (\<lambda>c. if dev_connected env (pl_device_id c) \<and> Q c then [ReadAse (pl_device_id c) (pl_ase_id c)] else []) cs))"
      for Q cs by (induction cs) auto
    show ?thesis using plain_sending[OF r] by (auto simp: on_refresh_def split: option.splits)
  qed
  moreover have "sent_ok env (snd (on_timeout env u)) (fst (on_timeout env u))"
  proof (cases rule: timeout_cases[where env = env and u = u])
    case (next_step p)
    then have "p \<noteq> PhStreaming" by auto
    then show ?thesis using run_sent[OF next_step_todo[OF i next_step(1,2)], of env] next_step(4) by simp
  next
    case (failed why)
    then show ?thesis using run_sent[OF fail_todo[OF i failed(2)], of env] by simp
  qed (simp_all add: sent_ok_quiet)
  ultimately show ?thesis using EvTimer by (cases k) (simp_all add: sent_ok_quiet)
next
  case (EvContexts dev)
  show ?thesis
  proof (cases rule: contexts_cases[where env = env and dev = dev and u = u])
    case (enabled u1 a t)
    have "t \<noteq> Enter PhStreaming" using enabled(2) by (auto simp: send_enable_def written_def Let_def split: if_splits option.splits)
    then show ?thesis using run_sent[OF enabled_todo[OF i enabled(1,2)], of env] enabled(3) EvContexts
        sent_ok_first[OF plain_sending[OF plain_send_enable[OF enabled(2)]]] by simp
  qed (use EvContexts in \<open>simp add: sent_ok_quiet\<close>)
next
  case (EvAse dev i')
  show ?thesis by (cases rule: ase_update_cases[where env = env and dev = dev and i = i' and u = u])
    (use EvAse i run_sent[of Advance u env] in \<open>auto simp: sent_ok_quiet\<close>)
next
  case (EvCp dev v)
  show ?thesis
  proof (cases rule: cp_response_cases[where env = env and dev = dev and v = v and u = u])
    case (rejected why)
    then show ?thesis using run_sent[OF fail_todo[OF i rejected(2,1)], of env] EvCp by simp
  qed (use EvCp in \<open>simp add: sent_ok_quiet\<close>)
next
  case (EvCigCreated p)
  show ?thesis
  proof (cases rule: cig_created_cases[where env = env and packet = p and u = u])
    case (failed plan why)
    then show ?thesis using run_sent[OF cig_failed_todo[OF i failed(1-3)], of env] EvCigCreated by simp
  next
    case (made plan hs)
    have t: "todo_ok (if un_phase u = PhCreateCig then Enter PhConfigQos else Advance) (cig_made plan hs u)" by (rule cig_made_todo[OF i made(1,2)])
    from run_sent[OF t, of env] show ?thesis using made(3) EvCigCreated by simp
  qed (use EvCigCreated in \<open>simp add: sent_ok_quiet\<close>)
next
  case (EvCisCreated p)
  show ?thesis
  proof (cases rule: cis_created_cases[where env = env and packet = p and u = u])
    case (failed why u2 a2)
    have d: "todo_ok (Fail why) (cis_counted u)"
      by (rule fail_todo[OF cis_counted_inv[OF i failed(1)] failed(3)]) (simp add: failed(2))
    have "8 \<le> ph_rank (un_phase u2)" using fail_rank(2)[OF d, of env] failed(2,4) by simp
    then have "un_phase u2 \<noteq> PhStreaming" by auto
    then have q: "\<not> list_ex is_sending a2"
    proof -
      have "sent_ok env a2 u2" using run_sent[OF d, of env] failed(4) by simp
      then show ?thesis using \<open>un_phase u2 \<noteq> PhStreaming\<close> by (auto simp: sent_ok_def list_ex_iff elim!: is_sending.elims)
    qed
    have "todo_ok Advance u2" using run_todo_ok[OF d, of env] failed(4) by simp
    from run_sent[OF this, of env] show ?thesis using sent_ok_first[OF q] failed(5) EvCisCreated by simp
  qed (use EvCisCreated i cis_counted_inv[OF i] cis_made_inv[OF i] run_sent[of Advance "cis_counted u" env]
      run_sent[of Advance "cis_made h u" env for h] in \<open>auto simp: sent_ok_quiet\<close>)
next
  case EvCigRemoved
  show ?thesis using i by (cases rule: cig_removed_cases) (use EvCigRemoved in \<open>simp_all add: sent_ok_quiet\<close>)
next
  case (EvLinkLost h)
  show ?thesis
  proof (cases rule: link_lost_cases[where env = env and h = h and u = u])
    case (streaming pre w)
    then show ?thesis using EvLinkLost plain_sending[OF plain_subset[OF streaming(1)]] by (simp add: sent_ok_quiet)
  next
    case (stopping pre)
    then show ?thesis using EvLinkLost sent_ok_first[OF plain_sending[OF plain_subset[OF stopping(1)]]] link_lost_inv[OF i]
        run_sent[of Advance "link_lost h u" env] by simp
  next
    case (starting pre why)
    then show ?thesis using EvLinkLost sent_ok_first[OF plain_sending[OF plain_subset[OF starting(2)]]]
        run_sent[OF link_lost_todo[OF i starting(3,1), of h], of env] by simp
  qed (use EvLinkLost in \<open>simp add: sent_ok_quiet\<close>)
qed


subsection \<open>An example: one earbud\<close>

lemma run_todo_steps:
  "run_todo env (Enter p) u = (let (u1, a, t) = enter env p u; (u2, b) = run_todo env t u1 in (u2, a @ b))"
  "run_todo env Advance u = (let (u1, a, t) = advance env u; (u2, b) = run_todo env t u1 in (u2, a @ b))"
  "run_todo env (Fail why) u = (let (u1, a, t) = fail why u; (u2, b) = run_todo env t u1 in (u2, a @ b))"
  by (subst run_todo.simps, simp)+

definition example_cis :: cis_plan where
  "example_cis = \<lparr> pl_device_id = 0, pl_ase_id = 1, pl_cis_id = 1, pl_acl = 0x40, pl_cis_handle = 0xFFFF,
     pl_channels = [\<lparr> cp_allocation = 1, cp_source = SrcLeft \<rparr>] \<rparr>"

definition example_plan :: stream_plan where
  "example_plan = \<lparr> sn_preset = make_preset ''48_4_1'' 48000 10000 120 0 20 5, sn_cig_id = 1, sn_phy = 2,
     sn_requested_contexts = 4, sn_contexts = 4, sn_presentation_delay_us = 40000, sn_cis = [example_cis] \<rparr>"

definition example_env :: "ase_state \<Rightarrow> unicast_env" where
  "example_env st = \<lparr> ue_device = (\<lambda>i. if i = 0 then Some \<lparr> ld_addr = ''A'', ld_acl = 0x40, ld_available_sink_contexts = 4,
       ld_ases = [default_ase\<lparr>ase_id := 1, ase_st := st\<rparr>] \<rparr> else None),
     ue_ccids = (\<lambda>_. []), ue_cig_create = (\<lambda>_. 0), ue_cig_remove = (\<lambda>_. 0), ue_cis_create = (\<lambda>_ _ _. 0),
     ue_can_send_command = (\<lambda>_. True), ue_disconnect_cis = (\<lambda>_. 0), ue_iso_packet_count = 8 \<rparr>"

definition example_start :: "(unicast_env \<times> un_event) list" where
  "example_start = [(example_env CodecConfigured, EvStart False example_plan 7),
     (example_env QosConfigured, EvCigCreated [0xE7, 7, 6, 0, 1, 1, 0x60, 0]),
     (example_env Enabling, EvAse 0 1),
     (example_env Enabling, EvCisCreated [0xE7, 10, 7, 0, 1, 1, 0x60, 0, 0x40, 0, 8, 0])]"

lemma example_by_device: "by_device (plan\<lparr>sn_cis := [c]\<rparr>) = [(pl_device_id c, [c])]" "sn_cis plan = [c] \<Longrightarrow> by_device plan = [(pl_device_id c, [c])]"
  by (simp_all add: by_device_def)

lemma example_device [simp]: "dev_connected (example_env st) 0"
  by (simp add: dev_connected_def example_env_def ld_connected_def CON_HANDLE_INVALID_def)

lemma example_ase: "pl_device_id c = 0 \<Longrightarrow> pl_ase_id c = 1 \<Longrightarrow> ase_of (example_env st) c = Some (default_ase\<lparr>ase_id := 1, ase_st := st\<rparr>)"
  by (simp add: ase_of_def example_env_def ld_ase_def)

lemma example_env_sel [simp]:
  "ue_cig_create (example_env st) = (\<lambda>_. 0)" "ue_cis_create (example_env st) = (\<lambda>_ _ _. 0)" "ue_cig_remove (example_env st) = (\<lambda>_. 0)"
  "ue_ccids (example_env st) = (\<lambda>_. [])" "ue_iso_packet_count (example_env st) = 8"
  "ue_device (example_env st) 0 = Some \<lparr> ld_addr = ''A'', ld_acl = 0x40, ld_available_sink_contexts = 4, ld_ases = [default_ase\<lparr>ase_id := 1, ase_st := st\<rparr>] \<rparr>"
  by (simp_all add: example_env_def)

lemmas example_simps = example_plan_def example_cis_def run_todo_steps enter_def advance_def fail_def advance_next_def all_ases_def ase_is_def
  written_def enter_timers_def example_by_device 

lemma cig_retry_0: "cig_retry env 3 params 0 = (params, 0, [])"
proof -
  have "(0::u8) \<noteq> ERROR_CODE_ACL_CONNECTION_ALREADY_EXISTS" by (simp add: ERROR_CODE_ACL_CONNECTION_ALREADY_EXISTS_def)
  then show ?thesis by (simp add: numeral_3_eq_3)
qed

lemmas example_event_defs = create_cig_def cig_retry_0 cig_parameters_def cig_created_def cis_created_def gap_meta_subevent_def event_is_def byte_at_def
   u16_at_def handles_at_def HCI_EVENT_META_GAP_def GAP_SUBEVENT_CIG_CREATED_def  GAP_SUBEVENT_CIS_CREATED_def

lemma example_cig_event: "cig_created [0xE7, 7, 6, 0, 1, 1, 0x60, 0] = Some \<lparr> gc_status = 0, gc_cig_id = 1, gc_cis_handles = [0x60] \<rparr>"
  by (simp add: example_event_defs of_le16_def)
lemma example_cis_event: "cis_created [0xE7, 10, 7, 0, 1, 1, 0x60, 0, 0x40, 0, 8, 0] = Some \<lparr> ic_status = 0, ic_cig_id = 1, ic_cis_id = 1, ic_cis_handle = 0x60,
  ic_acl_handle = 0x40, ic_iso_interval_1250us = 8 \<rparr>"
  by (simp add: example_event_defs of_le16_def)


lemma planned_devices_example: "sn_cis plan = [c] \<Longrightarrow> pl_device_id c = 0 \<Longrightarrow> map ld_available_sink_contexts (planned_devices (example_env st) plan) = [4]"
  by (simp add: planned_devices_def map_filter_simps)

lemma example_contexts: "choose_streaming_contexts [4] 4 = 4"
  by (simp add: choose_streaming_contexts_def CONTEXT_UNSPECIFIED_def)

lemma example_depth: "queue_depth 8 (Suc 0) \<noteq> 0"
  by (simp add: queue_depth_def QUEUE_DEPTH_def)


definition example_at :: "phase \<Rightarrow> stream_plan \<Rightarrow> bool \<Rightarrow> nat \<Rightarrow> nat \<Rightarrow> u16 list \<Rightarrow> u16 \<times> u8 \<times> u8 \<Rightarrow> unicast" where
  "example_at p plan pend cpend up conn q = \<lparr> un_phase = p, un_plan = Some plan, start_done = Some 7, stop_done = [], cig_exists = True,
     cig_pending = pend, cig_removing = False, cis_pending = cpend, cis_up = up, starting = True, fail_reason = [],
     un_latency_ms = fst q, un_phy = fst (snd q), un_framing = snd (snd q), waiting_contexts = False, cis_connected = conn, cis_to_drop = [],
     cis_dropping = [] \<rparr>"

definition example_plan_ok :: "stream_plan \<Rightarrow> u16 \<Rightarrow> bool" where
  "example_plan_ok plan h \<longleftrightarrow> sn_cig_id plan = 1 \<and> sn_requested_contexts plan = 4 \<and> (\<exists>c. sn_cis plan = [c] \<and> pl_device_id c = 0 \<and> pl_ase_id c = 1 \<and> pl_cis_handle c = h)"

lemma bap_step_event: "(\<And>k. ev \<noteq> EvTimer k) \<Longrightarrow> bs_un (fst (bap_step s (env, ev))) = fst (un_handle env ev (bs_un s)) \<and>
    snd (bap_step s (env, ev)) = snd (un_handle env ev (bs_un s))"
  by (cases ev) (auto simp: split_def Let_def)

lemma example_step1: "\<exists>plan q. example_plan_ok plan 0xFFFF \<and> fst (un_handle (example_env CodecConfigured) (EvStart False example_plan 7) unicast_new) = example_at PhCreateCig plan True 0 0 [] q"
  by (simp add: unicast_new_def start_unicast_def un_busy_def un_start_def example_simps example_ase create_cig_def cig_retry_0
   cig_parameters_def split_def Let_def example_at_def example_plan_ok_def)

lemma example_step2:
  assumes "example_plan_ok plan h0"
  shows "\<exists>plan'. example_plan_ok plan' 0x60 \<and> fst (un_handle (example_env QosConfigured) (EvCigCreated [0xE7, 7, 6, 0, 1, 1, 0x60, 0]) (example_at PhCreateCig plan True 0 0 [] q)) = example_at PhEnable plan' False 0 0 [] q"
proof -
  obtain c where c: "sn_cig_id plan = 1" "sn_requested_contexts plan = 4" "sn_cis plan = [c]" "pl_device_id c = 0" "pl_ase_id c = 1" "pl_cis_handle c = h0"
    using assms by (auto simp: example_plan_ok_def)
  let ?c = "c\<lparr>pl_cis_handle := 0x60\<rparr>"
  let ?p = "plan\<lparr>sn_cis := [?c]\<rparr>"
  let ?q = "?p\<lparr>sn_contexts := 4\<rparr>"
  have "planned_devices (example_env QosConfigured) ?p = planned_devices (example_env QosConfigured) ?q" by (simp add: planned_devices_def)
  then have k: "current_contexts (example_env QosConfigured) u = 4" if "un_plan u = Some ?p" for u
    using that c planned_devices_example[of ?p ?c QosConfigured] by (simp add: current_contexts_def example_contexts)
  have "fst (un_handle (example_env QosConfigured) (EvCigCreated [0xE7, 7, 6, 0, 1, 1, 0x60, 0]) (example_at PhCreateCig plan True 0 0 [] q)) = example_at PhEnable ?q False 0 0 [] q"
    using c by (simp add: example_at_def example_simps example_ase split_def Let_def example_cig_event on_cig_created_def k send_enable_def)
  moreover have "example_plan_ok ?q 0x60" using c by (simp add: example_plan_ok_def)
  ultimately show ?thesis by blast
qed

lemma example_step3: "example_plan_ok plan 0x60 \<Longrightarrow> \<exists>plan'. example_plan_ok plan' 0x60 \<and> fst (un_handle (example_env Enabling) (EvAse 0 1) (example_at PhEnable plan False 0 0 [] q)) = example_at PhCreateCis plan' False 1 0 [] q"
  by (auto simp: example_at_def example_plan_ok_def example_simps example_ase  split_def Let_def on_ase_update_def planned_def plan_cis_def enter_create_cis_def)

lemma example_step4: "example_plan_ok plan 0x60 \<Longrightarrow> fst (un_handle (example_env Enabling) (EvCisCreated [0xE7, 10, 7, 0, 1, 1, 0x60, 0, 0x40, 0, 8, 0]) (example_at PhCreateCis plan False 1 0 [] q)) = example_at PhWaitStreaming plan False 0 1 [0x60] q"
  by (auto simp: example_at_def example_plan_ok_def example_simps example_ase  split_def Let_def on_cis_created_def example_cis_event)

lemma example_step5: "example_plan_ok plan 0x60 \<Longrightarrow> \<exists>d f. StartSending [0x60] d f \<in> set (snd (un_handle (example_env ase_state.Streaming) (EvAse 0 1) (example_at PhWaitStreaming plan False 0 1 [0x60] q)))"
  by (auto simp: example_at_def example_plan_ok_def example_simps example_ase  split_def Let_def on_ase_update_def planned_def plan_cis_def enter_streaming_def example_depth)

subsection \<open>Where a procedure ends\<close>

lemma first_rest:
  assumes "\<exists>n\<le>k. P n"
  obtains n where "n \<le> k" "P n" "\<And>m. m < n \<Longrightarrow> \<not> P (m::nat)"
  using assms exists_least_iff[of P] by (metis le_trans nat_le_linear not_le)

lemma stopping_rank: "ph_stopping p \<longleftrightarrow> 8 \<le> ph_rank p \<and> p \<noteq> PhIdle"
  by (cases p) auto

lemma stays_stopping:
  assumes "system_ok s" "8 \<le> ph_rank (un_phase (bs_un s))" "\<And>m. m < length es \<Longrightarrow> \<not> resting (fst (bap_run s (take m es)))"
  shows "8 \<le> ph_rank (un_phase (bs_un (fst (bap_run s es))))"
  using assms
proof (induction es arbitrary: s)
  case (Cons e es)
  obtain env ev where e: "e = (env, ev)" by (cases e)
  let ?s = "fst (bap_step s e)"
  have "\<not> resting s" using Cons.prems(3)[of 0] by simp
  then have "un_busy (bs_un s)" by (auto simp: resting_def un_busy_def)
  then have "ph_rank (un_phase (bs_un s)) \<le> ph_rank (un_phase (fst (un_handle env ev (bs_un s))))"
    using un_handle_rank Cons.prems(1) by (simp add: system_ok_def)
  moreover have "bs_un ?s \<in> {bs_un s, fst (un_handle env ev (bs_un s))}" unfolding e by (cases ev) (auto simp: split_def Let_def)
  ultimately have "8 \<le> ph_rank (un_phase (bs_un ?s))" using Cons.prems(2) by auto
  moreover have "\<not> resting (fst (bap_run ?s (take m es)))" if "m < length es" for m
    using Cons.prems(3)[of "Suc m"] that by (simp add: split_def Let_def)
  ultimately show ?case using Cons.IH[OF bap_step_ok[OF Cons.prems(1)], of e] by (simp add: split_def Let_def)
qed simp

lemma bap_rests_at:
  assumes ok: "system_ok s" and t: "5 \<le> step_timeouts es"
  shows "\<exists>n\<le>length es. un_phase (bs_un (fst (bap_run s (take n es)))) \<in> (if ph_stopping (un_phase (bs_un s)) then {PhIdle} else {PhIdle, PhStreaming})"
proof -
  have "deadline (bs_un s) \<le> 5" by (cases "un_phase (bs_un s)") (auto simp: deadline_def)
  then obtain n where n: "n \<le> length es" "resting (fst (bap_run s (take n es)))" "\<And>m. m < n \<Longrightarrow> \<not> resting (fst (bap_run s (take m es)))"
    using first_rest[OF bap_rests[OF ok, of es]] t by (metis le_trans)
  have "un_phase (bs_un (fst (bap_run s (take n es)))) = PhIdle" if "ph_stopping (un_phase (bs_un s))"
  proof -
    have "8 \<le> ph_rank (un_phase (bs_un (fst (bap_run s (take n es)))))"
    proof (rule stays_stopping[OF ok])
      show "8 \<le> ph_rank (un_phase (bs_un s))" using that by (simp add: stopping_rank)
      fix m
      assume "m < length (take n es)"
      then have "m < n" by simp
      then show "\<not> resting (fst (bap_run s (take m (take n es))))" using n(3) by (simp add: min_def)
    qed
    then show ?thesis using n(2) by (auto simp: resting_def)
  qed
  then show ?thesis using n(1,2) by (auto simp: resting_def)
qed

lemma bap_step_acts:
  "bap_step s (env, ev) = (s', acts) \<Longrightarrow> acts = [] \<or> acts = snd (un_handle env ev (bs_un s)) \<and> bs_un s' = fst (un_handle env ev (bs_un s))"
  by (cases ev) (auto simp: split_def Let_def split: if_splits)

lemma queue_depth_fits: "unat (queue_depth p n) * n \<le> unat p"
proof -
  have "unat (queue_depth p n) \<le> unat p div n" if "n \<noteq> 0"
  proof -
    have "unat p < 256" using unsigned_less[of p] by simp
    then have "unat p div n < 256" using div_le_dividend[of "unat p" n] by linarith
    then show ?thesis using that by (simp add: queue_depth_def unat_of_nat)
  qed
  then show ?thesis by (cases "n = 0") (auto intro: order_trans[OF mult_le_mono1] simp: div_times_less_eq_dividend)
qed

lemma bap_run_events:
  "list_all (\<lambda>e. \<forall>k. snd e \<noteq> EvTimer k) es \<Longrightarrow> bs_un (fst (bap_run s es)) = foldl (\<lambda>u e. fst (un_handle (fst e) (snd e) u)) (bs_un s) es"
proof (induction es arbitrary: s)
  case (Cons e es)
  obtain env ev where e: "e = (env, ev)" by (cases e)
  then have "bs_un (fst (bap_step s e)) = fst (un_handle env ev (bs_un s))" using bap_step_event[of ev s env] Cons.prems by simp
  then show ?case using Cons e by (simp add: split_def Let_def del: bap_step.simps)
qed simp

lemma example_reached:
  "\<exists>plan q. example_plan_ok plan 0x60 \<and> bs_un (fst (bap_run bap_new example_start)) = example_at PhWaitStreaming plan False 0 1 [0x60] q"
proof -
  obtain plan q where 1: "example_plan_ok plan 0xFFFF"
    "fst (un_handle (example_env CodecConfigured) (EvStart False example_plan 7) unicast_new) = example_at PhCreateCig plan True 0 0 [] q"
    using example_step1 by blast
  obtain plan2 where 2: "example_plan_ok plan2 0x60" "fst (un_handle (example_env QosConfigured) (EvCigCreated [0xE7, 7, 6, 0, 1, 1, 0x60, 0])
      (example_at PhCreateCig plan True 0 0 [] q)) = example_at PhEnable plan2 False 0 0 [] q" using example_step2[OF 1(1), of q] by blast
  obtain plan3 where 3: "example_plan_ok plan3 0x60" "fst (un_handle (example_env Enabling) (EvAse 0 1) (example_at PhEnable plan2 False 0 0 [] q)) =
      example_at PhCreateCis plan3 False 1 0 [] q" using example_step3[OF 2(1), of q] by blast
  have n: "bs_un bap_new = unicast_new" by (simp add: bap_new_def)
  have "list_all (\<lambda>e. \<forall>k. snd e \<noteq> EvTimer k) example_start" by (simp add: example_start_def)
  from bap_run_events[OF this, of bap_new]
  have "bs_un (fst (bap_run bap_new example_start)) = example_at PhWaitStreaming plan3 False 0 1 [0x60] q"
    unfolding example_start_def n foldl.simps fst_conv snd_conv 1(2) 2(2) 3(2) example_step4[OF 3(1)] .
  then show ?thesis using 3(1) by blast
qed

subsection \<open>Two behaviours of the code against its comments\<close>

text \<open>\<^verbatim>\<open>try_remove_cig\<close> must not remove the CIG while BTstack still waits for a CIS of the running command. But when one of
  two CIS is established and then lost, \<^verbatim>\<open>on_link_lost\<close> counts it as one of those still to come: the
  machine removes the CIG although the event of the other CIS is outstanding.\<close>

lemma lost_cis_removes_early:
  assumes "un_phase u = PhCreateCis" "un_plan u = Some plan" "c \<in> set (sn_cis plan)" "pl_cis_handle c = h"
    and "cis_connected u = [h]" "cis_pending u = 1" "cis_to_drop u = []" "cis_dropping u = []" "fail_reason u = []"
    and "cig_exists u" "\<not> cig_pending u" "\<not> cig_removing u"
    and gone: "\<And>d. \<not> dev_connected env d" and "\<And>i. ue_cig_remove env i = 0"
  shows "CigRemove (sn_cig_id plan) \<in> set (snd (un_handle env (EvLinkLost h) u))"
proof -
  have u: "uses_handle u h" "list_ex (\<lambda>c. pl_cis_handle c = h) (plan_cis u)" using assms(1-4) by (auto simp: uses_handle_def list_ex_iff)
  have w: "cp_selected env op pred p = []" for op pred p by (simp add: cp_selected_def gone)
  show ?thesis using assms u
    by (simp add: on_link_lost_def cis_lost_def Let_def split_def run_todo_steps fail_def enter_def enter_release_def drop_cis_def w
        try_remove_cig_def)
qed

text \<open>When \<^verbatim>\<open>LE Set CIG Parameters\<close> fails while the machine is stopping, nothing is pending any more, but the
  machine does not go on: it waits in Remove CIG for the step timeout.\<close>

lemma cig_failure_waits:
  assumes "un_phase u = PhRemoveCig" "cig_pending u" "un_plan u = Some plan" "fail_reason u \<noteq> []"
    and "cig_created packet = Some ev" "gc_cig_id ev = sn_cig_id plan" "gc_status ev \<noteq> 0"
  shows "un_handle env (EvCigCreated packet) u = (u\<lparr> cig_pending := False, cig_exists := False \<rparr>, [])"
  using assms by (simp add: on_cig_created_def Let_def run_todo_steps fail_def)

text \<open>The origin of a stream, handle by handle.\<close>

lemma origin_at:
  assumes "origin before packet env0 since u" "un_plan u = Some plan"
  shows "\<exists>cig asked. un_phase (after_events before) = PhCreateCig \<and> un_plan (after_events before) = Some asked \<and>
     cig_created packet = Some cig \<and> gc_status cig = 0 \<and> gc_cig_id cig = sn_cig_id plan \<and> sn_cig_id asked = sn_cig_id plan \<and>
     length (sn_cis asked) = length (sn_cis plan) \<and>
     (\<forall>i<length (sn_cis plan). pl_cis_handle (sn_cis plan ! i) = (if i < length (gc_cis_handles cig) then gc_cis_handles cig ! i else pl_cis_handle (sn_cis asked ! i))) \<and>
     mset (cis_connected u) \<subseteq># mset (cis_ups (sn_cig_id plan) since) \<and>
     (\<forall>n\<le>length since. un_phase (after_events (before @ (env0, EvCigCreated packet) # take n since))
        \<in> {PhConfigQos, PhEnable, PhCreateCis, PhWaitStreaming, PhStreaming})"
proof -
  obtain cig asked where o: "un_phase (after_events before) = PhCreateCig" "un_plan (after_events before) = Some asked"
    "cig_created packet = Some cig" "gc_status cig = 0" "gc_cig_id cig = sn_cig_id asked" "plan_id u = Some (sn_cig_id asked)"
    "plan_handles u = take (length (sn_cis asked)) (gc_cis_handles cig) @ drop (length (gc_cis_handles cig)) (map pl_cis_handle (sn_cis asked))"
    "mset (cis_connected u) \<subseteq># mset (cis_ups (sn_cig_id asked) since)"
    "\<forall>n\<le>length since. live (after_events (before @ (env0, EvCigCreated packet) # take n since))"
    using assms(1) unfolding origin_def by blast
  have id: "sn_cig_id asked = sn_cig_id plan" using o(6) assms(2) by (simp add: plan_id_def)
  have h: "map pl_cis_handle (sn_cis plan) = take (length (sn_cis asked)) (gc_cis_handles cig) @ drop (length (gc_cis_handles cig)) (map pl_cis_handle (sn_cis asked))"
    using o(7) assms(2) by (simp add: plan_handles_def plan_cis_def)
  have l: "length (sn_cis asked) = length (sn_cis plan)" using arg_cong[OF h, of length] by (simp split: if_splits)
  have "pl_cis_handle (sn_cis plan ! i) = (if i < length (gc_cis_handles cig) then gc_cis_handles cig ! i else pl_cis_handle (sn_cis asked ! i))"
    if "i < length (sn_cis plan)" for i
    using arg_cong[OF h, of "\<lambda>xs. xs ! i"] that l by (auto simp: nth_append)
  then show ?thesis using o id l unfolding live_phase_def by simp
qed

lemma stream_origin_at:
  assumes "live (after_events es)" "un_plan (after_events es) = Some plan" "hs = map pl_cis_handle (sn_cis plan)"
  shows "\<exists>before env0 packet since cig asked. es = before @ (env0, EvCigCreated packet) # since
     \<and> un_phase (after_events before) = PhCreateCig \<and> un_plan (after_events before) = Some asked
     \<and> cig_created packet = Some cig \<and> gc_status cig = 0 \<and> gc_cig_id cig = sn_cig_id plan \<and> sn_cig_id asked = sn_cig_id plan
     \<and> length (sn_cis asked) = length hs
     \<and> (\<forall>i<length hs. hs ! i = (if i < length (gc_cis_handles cig) then gc_cis_handles cig ! i else pl_cis_handle (sn_cis asked ! i)))
     \<and> mset (cis_connected (after_events es)) \<subseteq># mset (cis_ups (sn_cig_id plan) since)
     \<and> (\<forall>n\<le>length since. un_phase (after_events (before @ (env0, EvCigCreated packet) # take n since))
          \<in> {PhConfigQos, PhEnable, PhCreateCis, PhWaitStreaming, PhStreaming})"
proof -
  obtain before packet env0 since where b: "es = before @ (env0, EvCigCreated packet) # since" "origin before packet env0 since (after_events es)"
    using stream_origin[OF assms(1)] by blast
  have l: "length hs = length (sn_cis plan)" and h: "(\<forall>i<length hs. hs ! i = f i) = (\<forall>i<length (sn_cis plan). pl_cis_handle (sn_cis plan ! i) = f i)" for f
    using assms(3) by simp_all
  show ?thesis unfolding h unfolding l using origin_at[OF b(2) assms(2)] b(1) by blast
qed

subsection \<open>Properties\<close>

text \<open>C7. The state of the unicast machine stays consistent, for every sequence of requests and events, whatever the
  devices and BTstack answer: the start callback is held exactly while the start is not reported; while starting nothing has
  failed, nobody asked to stop and no CIS is being disconnected; a stop of a start that is not reported has its reason; in
  Streaming every CIS is up; and in Idle nothing is left: no CIG, no CIS, no callback. The counters the machine keeps of the
  events it waits for are compared with \<open>owe_run\<close>, which follows only the commands BTstack accepted and the
  events it sent: \<open>cig_pending\<close> holds exactly while the CIG event of an accepted LE Set CIG Parameters is outstanding, for
  the CIG of the plan; \<open>cis_pending\<close> is the number of CIS events of the last accepted LE Create CIS still
  outstanding, except that it may be one less when a CIS of the plan was lost while that command ran. So a CIG is removed
  only after it exists, with no disconnection under way, no CIG event outstanding, and no CIS event outstanding unless a CIS was
  lost during LE Create CIS (then at most one; \<open>lost_cis_removes_early\<close> shows that this happens). A CIG or CIS
  event that had not come by the step timeout of Remove CIG counts as given up.\<close>

theorem bap_state_consistent:
  assumes "u = bs_un (fst (bap_run bap_new es))" "owed = owe_run bap_new es owed_new"
  shows "(start_done u = None \<longleftrightarrow> \<not> starting u)
     \<and> (ph_rank (un_phase u) \<le> 6 \<longrightarrow> starting u) \<and> (un_phase u = PhStreaming \<longrightarrow> \<not> starting u)
     \<and> (ph_rank (un_phase u) \<le> 7 \<longrightarrow> fail_reason u = [] \<and> stop_done u = [] \<and> cis_to_drop u = [] \<and> cis_dropping u = [])
     \<and> (ph_stopping (un_phase u) \<and> starting u \<longrightarrow> fail_reason u \<noteq> [])
     \<and> (cig_pending u \<longrightarrow> cig_exists u \<and> cis_pending u = 0)
     \<and> (cig_removing u \<longrightarrow> un_phase u = PhRemoveCig \<and> cig_exists u \<and> \<not> cig_pending u \<and> cis_pending u = 0 \<and>
          cis_to_drop u = [] \<and> cis_dropping u = [])
     \<and> cis_pending u + cis_up u \<le> length (plan_cis u)
     \<and> (un_phase u \<in> {PhWaitStreaming, PhStreaming} \<longrightarrow> cis_up u = length (plan_cis u))
     \<and> (un_phase u = PhIdle \<longrightarrow> start_done u = None \<and> stop_done u = [] \<and> \<not> cig_exists u \<and> cis_pending u = 0 \<and>
          cis_connected u = [] \<and> cis_to_drop u = [] \<and> cis_dropping u = [])
     \<and> ow_cig owed = (if cig_pending u then map_option sn_cig_id (un_plan u) else None)
     \<and> cis_pending u \<le> ow_cis owed \<and> ow_cis owed \<le> cis_pending u + (if ow_lost owed then 1 else 0)
     \<and> (0 < cis_pending u \<longrightarrow> map_option sn_cig_id (un_plan u) = Some (ow_cis_cig owed))
     \<and> (cig_removing u \<longrightarrow> ow_cig owed = None \<and> ow_cis owed \<le> (if ow_lost owed then 1 else 0))"
proof -
  have i: "core_ok u" "phase_ok (un_phase u) u" using bap_reachable[of es] assms by (simp_all add: system_ok_def un_inv_def)
  have r: "cig_removing u \<longrightarrow> un_phase u = PhRemoveCig" using i(2) unfolding phase_ok_def by blast
  have w: "un_phase u \<in> {PhWaitStreaming, PhStreaming} \<longrightarrow> cis_up u = length (plan_cis u)" using i(2) by (auto simp: phase_ok_at)
  have d: "un_phase u = PhIdle \<longrightarrow> start_done u = None \<and> stop_done u = [] \<and> \<not> cig_exists u \<and> cis_pending u = 0 \<and>
      cis_connected u = [] \<and> cis_to_drop u = [] \<and> cis_dropping u = []" using i by (auto simp: phase_ok_at core_ok_def)
  have p: "(ph_rank (un_phase u) \<le> 6 \<longrightarrow> starting u) \<and> (un_phase u = PhStreaming \<longrightarrow> \<not> starting u)
     \<and> (ph_rank (un_phase u) \<le> 7 \<longrightarrow> fail_reason u = [] \<and> stop_done u = [] \<and> cis_to_drop u = [] \<and> cis_dropping u = [])
     \<and> (ph_stopping (un_phase u) \<and> starting u \<longrightarrow> fail_reason u \<noteq> [])" using i(2) unfolding phase_ok_def by blast
  have o: "ow_cig owed = (if cig_pending u then map_option sn_cig_id (un_plan u) else None)
     \<and> cis_pending u \<le> ow_cis owed \<and> ow_cis owed \<le> cis_pending u + (if ow_lost owed then 1 else 0)
     \<and> (0 < cis_pending u \<longrightarrow> map_option sn_cig_id (un_plan u) = Some (ow_cis_cig owed))"
    using owed_reachable[of es] assms by (simp add: owed_defs plan_id_def)
  have c: "cig_removing u \<longrightarrow> un_phase u = PhRemoveCig \<and> cig_exists u \<and> \<not> cig_pending u \<and> cis_pending u = 0 \<and>
      cis_to_drop u = [] \<and> cis_dropping u = []" using i(1) r unfolding core_ok_def by blast
  have k: "(start_done u = None \<longleftrightarrow> \<not> starting u) \<and> (cig_pending u \<longrightarrow> cig_exists u \<and> cis_pending u = 0)
     \<and> cis_pending u + cis_up u \<le> length (plan_cis u)" using i(1) unfolding core_ok_def by blast
  have e: "cig_removing u \<longrightarrow> ow_cig owed = None \<and> ow_cis owed \<le> (if ow_lost owed then 1 else 0)" using o c by auto
  show ?thesis using k p c w d o e by blast
qed

theorem bap_state_consistent_witness:
  "\<exists>u owed. u = bs_un (fst (bap_run bap_new example_start)) \<and> owed = owe_run bap_new example_start owed_new \<and>
     un_phase u = PhWaitStreaming \<and> start_done u \<noteq> None \<and> fail_reason u = [] \<and> length (plan_cis u) = 1 \<and> cis_up u = 1 \<and>
     cis_pending u = 0 \<and> ow_cig owed = None"
proof -
  let ?u = "bs_un (fst (bap_run bap_new example_start))"
  obtain plan q where r: "example_plan_ok plan 0x60" "?u = example_at PhWaitStreaming plan False 0 1 [0x60] q" using example_reached by blast
  have s: "un_phase ?u = PhWaitStreaming" "length (plan_cis ?u) = 1" "\<not> cig_pending ?u"
    using r by (auto simp: example_at_def example_plan_ok_def plan_cis_def)
  note all = bap_state_consistent[OF refl refl, of example_start]
  have "starting ?u" "fail_reason ?u = []" using all s(1) by simp_all
  moreover have "cis_up ?u = length (plan_cis ?u)" "cis_pending ?u + cis_up ?u \<le> length (plan_cis ?u)" using all s(1) by simp_all
  moreover have "start_done ?u \<noteq> None" using all \<open>starting ?u\<close> by blast
  moreover have "ow_cig (owe_run bap_new example_start owed_new) = None" using all s(3) by argo
  ultimately show ?thesis using s by auto
qed

text \<open>C5. Every callback is called exactly once: over any sequence of requests and events, the start requests are those
  answered and the one still open, the stop requests are those answered and those still open (as multisets); a machine that
  is Idle has answered all of them, and one that is Streaming has answered every start.\<close>

theorem bap_answers_once:
  assumes "bap_run bap_new es = (s, acts)"
  shows "requested start_reqs es = mset (start_ids acts) + open_starts (bs_un s)
     \<and> requested stop_reqs es = mset (stop_ids acts) + mset (stop_done (bs_un s))
     \<and> (un_phase (bs_un s) \<in> {PhIdle, PhStreaming} \<longrightarrow>
          requested start_reqs es = mset (start_ids acts) \<and> requested stop_reqs es = mset (stop_ids acts))"
proof -
  have n: "open_starts (bs_un bap_new) = {#}" "stop_done (bs_un bap_new) = []" by (simp_all add: bap_new_def unicast_new_def open_starts_def)
  have s: "core_ok (bs_un s)" "phase_ok (un_phase (bs_un s)) (bs_un s)"
    using bap_reachable[of es] assms by (simp_all add: system_ok_def un_inv_def)
  have "un_phase (bs_un s) \<in> {PhIdle, PhStreaming} \<longrightarrow> start_done (bs_un s) = None \<and> stop_done (bs_un s) = []"
    using s by (auto simp: phase_ok_at core_ok_def)
  moreover have "requested start_reqs es = mset (start_ids acts) + open_starts (bs_un s)"
    "requested stop_reqs es = mset (stop_ids acts) + mset (stop_done (bs_un s))"
    using bap_run_answers[OF system_ok_new assms] n by (simp_all add: add.commute)
  ultimately show ?thesis by (simp add: open_starts_def)
qed

theorem bap_answers_once_witness:
  "\<exists>s acts. bap_run bap_new [(example_env CodecConfigured, EvStart True example_plan 7), (example_env CodecConfigured, EvStop 3)] = (s, acts)
     \<and> mset (start_ids acts) = {#7#} \<and> mset (stop_ids acts) = {#3#}"
proof -
  let ?es = "[(example_env CodecConfigured, EvStart True example_plan 7), (example_env CodecConfigured, EvStop 3)]"
  obtain s acts where r: "bap_run bap_new ?es = (s, acts)" by (cases "bap_run bap_new ?es")
  have new: "un_phase unicast_new = PhIdle" by (simp add: unicast_new_def)
  have "bs_un (fst (bap_run bap_new ?es)) = unicast_new"
    by (simp add: bap_new_def start_unicast_def un_stop_def split_def Let_def new)
  then have "un_phase (bs_un s) \<in> {PhIdle, PhStreaming}" using r new by (metis fst_conv insertI1)
  then have "requested start_reqs ?es = mset (start_ids acts)" "requested stop_reqs ?es = mset (stop_ids acts)"
    using bap_answers_once[OF r] by blast+
  moreover have "requested start_reqs ?es = {#7#}" "requested stop_reqs ?es = {#3#}" by (simp_all add: requested_def)
  ultimately show ?thesis using r by metis
qed

text \<open>C4. A unicast procedure ends whatever the devices and BTstack do: from every reachable state, any sequence of events
  with five step timeouts passes a state that is Idle or Streaming; when a stop is under way, that state is Idle; and in
  every other state the step timer is armed, so that the next timeout comes.\<close>

theorem bap_timeouts_end:
  assumes "s = fst (bap_run bap_new es)" "5 \<le> step_timeouts es'"
  shows "(\<exists>n\<le>length es'. un_phase (bs_un (fst (bap_run s (take n es')))) \<in> (if ph_stopping (un_phase (bs_un s)) then {PhIdle} else {PhIdle, PhStreaming}))
     \<and> (un_phase (bs_un s) \<notin> {PhIdle, PhStreaming} \<longrightarrow> bs_armed s StepTimer)"
proof (rule conjI)
  have ok: "system_ok s" using bap_reachable assms(1) by blast
  then show "un_phase (bs_un s) \<notin> {PhIdle, PhStreaming} \<longrightarrow> bs_armed s StepTimer" by (simp add: system_ok_def timers_ok_def)
  show "\<exists>n\<le>length es'. un_phase (bs_un (fst (bap_run s (take n es')))) \<in> (if ph_stopping (un_phase (bs_un s)) then {PhIdle} else {PhIdle, PhStreaming})"
    using bap_rests_at[OF ok] assms(2) by simp
qed


theorem bap_timeouts_end_witness:
  "\<exists>n\<le>5. un_phase (bs_un (fst (bap_run (fst (bap_run bap_new example_start))
     (take n (replicate 5 (example_env CodecConfigured, EvTimer StepTimer)))))) \<in> {PhIdle, PhStreaming}"
proof -
  let ?es = "replicate 5 (example_env CodecConfigured, EvTimer StepTimer)"
  have "step_timeouts ?es = 5" by (simp add: step_timeouts_def)
  then show ?thesis using bap_timeouts_end[of "fst (bap_run bap_new example_start)" example_start ?es] by (auto split: if_splits)
qed

text \<open>C6. Audio is only sent into a stream that is complete: when a step of a reachable machine starts the sending, the state
  is Streaming, every planned device is connected and its ASE is in the Streaming state at that moment, as many CIS were
  established as the plan has and none is waited for, and the buffers the sender may use on all CIS together are at least one
  per CIS and at most those of the controller. The handles it sends on are those the controller gave: among the events
  received is a successful LE Set CIG Parameters event of the plan's CIG, taken in Create CIG, whose first handle is that of the
  first planned CIS, the second that of the second and so on (a CIS the event has no handle for keeps the one of the plan it
  was started with), and since that event the stream was neither failed nor stopped. The CIS that are connected were established by
  distinct successful CIS events of that CIG received since then.\<close>

theorem bap_sends_when_ready:
  assumes "s = fst (bap_run bap_new es)" "bap_step s (env, ev) = (s', acts)" "StartSending hs depth frame \<in> set acts"
  shows "un_phase (bs_un s') = PhStreaming \<and> (\<exists>plan. un_plan (bs_un s') = Some plan \<and> hs = map pl_cis_handle (sn_cis plan)
     \<and> (\<forall>c\<in>set (sn_cis plan). dev_connected env (pl_device_id c) \<and> ase_is env (\<lambda>st. st = ase_state.Streaming) c)
     \<and> length (cis_connected (bs_un s')) = length (sn_cis plan) \<and> cis_pending (bs_un s') = 0
     \<and> 0 < depth \<and> unat depth * length hs \<le> unat (ue_iso_packet_count env)
     \<and> (\<exists>before env0 packet since cig asked. es @ [(env, ev)] = before @ (env0, EvCigCreated packet) # since
          \<and> un_phase (bs_un (fst (bap_run bap_new before))) = PhCreateCig
          \<and> un_plan (bs_un (fst (bap_run bap_new before))) = Some asked
          \<and> cig_created packet = Some cig \<and> gc_status cig = 0 \<and> gc_cig_id cig = sn_cig_id plan \<and> sn_cig_id asked = sn_cig_id plan
          \<and> length (sn_cis asked) = length hs
          \<and> (\<forall>i<length hs. hs ! i = (if i < length (gc_cis_handles cig) then gc_cis_handles cig ! i else pl_cis_handle (sn_cis asked ! i)))
          \<and> mset (cis_connected (bs_un s')) \<subseteq># mset (cis_ups (sn_cig_id plan) since)
          \<and> (\<forall>n\<le>length since. un_phase (bs_un (fst (bap_run bap_new (before @ (env0, EvCigCreated packet) # take n since))))
               \<in> {PhConfigQos, PhEnable, PhCreateCis, PhWaitStreaming, PhStreaming})))"
proof -
  have i: "system_ok s" using bap_reachable assms(1) by blast
  then have i': "un_inv (bs_un s')" using bap_step_ok[of s "(env, ev)"] assms(2) by (simp add: system_ok_def)
  have "acts = snd (un_handle env ev (bs_un s)) \<and> bs_un s' = fst (un_handle env ev (bs_un s))"
    using bap_step_acts[OF assms(2)] assms(3) by auto
  then have "sent_ok env acts (bs_un s')" using un_handle_sent i by (simp add: system_ok_def)
  then obtain plan where p: "un_phase (bs_un s') = PhStreaming" "un_plan (bs_un s') = Some plan" "hs = map pl_cis_handle (sn_cis plan)"
    "depth = queue_depth (ue_iso_packet_count env) (length hs)" "depth \<noteq> 0"
    "all_ases env plan False (\<lambda>s. s = ase_state.Streaming)" "length (cis_connected (bs_un s')) = length (sn_cis plan)"
    using assms(3) unfolding sent_ok_def by blast
  have "unat depth * length hs \<le> unat (ue_iso_packet_count env)" using queue_depth_fits[of "ue_iso_packet_count env" "length hs"] p(4) by simp
  moreover have "cis_pending (bs_un s') = 0" using i' p(1) unfolding un_inv_def core_ok_def by (auto simp: phase_ok_at)
  moreover have "\<forall>c\<in>set (sn_cis plan). dev_connected env (pl_device_id c) \<and> ase_is env (\<lambda>st. st = ase_state.Streaming) c"
    using p(6) unfolding all_ases_def list_all_iff by (auto dest!: bspec split: if_splits)
  moreover have v: "bs_un s' = after_events (es @ [(env, ev)])" using assms(1,2) by (simp add: bap_run_append del: bap_step.simps)
  have "live (after_events (es @ [(env, ev)]))" using p(1) v by simp
  note from_cig = stream_origin_at[OF this p(2)[unfolded v] p(3), folded v]
  ultimately show ?thesis using p(5) by (intro conjI exI[of _ plan] p(1,2,3,7) from_cig) (simp_all add: word_gt_0)
qed

theorem bap_sends_when_ready_witness:
  "\<exists>depth frame s' before env0 packet since cig. StartSending [0x60] depth frame \<in> set (snd (bap_step (fst (bap_run bap_new example_start)) (example_env ase_state.Streaming, EvAse 0 1)))
     \<and> s' = fst (bap_step (fst (bap_run bap_new example_start)) (example_env ase_state.Streaming, EvAse 0 1))
     \<and> un_phase (bs_un s') = PhStreaming \<and> 0 < depth
     \<and> example_start @ [(example_env ase_state.Streaming, EvAse 0 1)] = before @ (env0, EvCigCreated packet) # since
     \<and> cig_created packet = Some cig \<and> gc_cis_handles cig \<noteq> [] \<and> hd (gc_cis_handles cig) = 0x60"
proof -
  let ?s = "fst (bap_run bap_new example_start)"
  let ?e = "(example_env ase_state.Streaming, EvAse 0 1)"
  obtain plan q where r: "example_plan_ok plan 0x60" "bs_un ?s = example_at PhWaitStreaming plan False 0 1 [0x60] q" using example_reached by blast
  obtain d f where "StartSending [0x60] d f \<in> set (snd (un_handle (example_env ase_state.Streaming) (EvAse 0 1) (bs_un ?s)))"
    using example_step5[OF r(1), of q] unfolding r(2) by blast
  then have m: "StartSending [0x60] d f \<in> set (snd (bap_step ?s ?e))" using bap_step_event[of "EvAse 0 1" ?s "example_env ase_state.Streaming"] by simp
  obtain s' acts where e: "bap_step ?s ?e = (s', acts)" by (cases "bap_step ?s ?e")
  have all: "un_phase (bs_un s') = PhStreaming \<and> 0 < d \<and> (\<exists>before env0 packet since cig. example_start @ [?e] = before @ (env0, EvCigCreated packet) # since
      \<and> cig_created packet = Some cig \<and> (0 < length (gc_cis_handles cig) \<longrightarrow> gc_cis_handles cig ! 0 = 0x60))"
    using bap_sends_when_ready[OF refl e, of "[0x60]" d f] m unfolding e snd_conv by fastforce
  then obtain before env0 packet since cig where b: "example_start @ [?e] = before @ (env0, EvCigCreated packet) # since"
      "cig_created packet = Some cig" "0 < length (gc_cis_handles cig) \<longrightarrow> gc_cis_handles cig ! 0 = 0x60" by blast
  have "(env0, EvCigCreated packet) \<in> set (example_start @ [?e])" unfolding b(1) by simp
  then have "packet = [0xE7, 7, 6, 0, 1, 1, 0x60, 0]" by (auto simp: example_start_def)
  then have n: "gc_cis_handles cig \<noteq> []" using b(2) by (auto simp: example_cig_event)
  have "hd (gc_cis_handles cig) = 0x60" using b(3) n by (simp add: hd_conv_nth)
  then show ?thesis using m b(1,2) n all unfolding e by (intro exI conjI) auto
qed

end
