(* ===== verification/Csip_Crypto.thy ===== *)
theory Csip_Crypto
  imports BC_Prelude
begin

text \<open>
  The cryptography of coordinated sets, \<^verbatim>\<open>app/src/crates/le-audio/src/csip_crypto.rs\<close>: AES-128 (encryption only, from the
  S-box table), AES-CMAC and the functions of CSIS section 4 built on them. A fixed array is a list of its length
  (keys, blocks and values: 16 bytes, most significant first).

  Shown: AES-128 is a permutation of the blocks under every key, its S-box and its column mixing are those of
  FIPS-197, AES-CMAC is that of RFC 4493 with doubling in the field of 128 bits, the encryption of a set's key is undone by its
  decryption, an RSI made from a key matches it, and the module's own self test succeeds.
\<close>

subsection \<open>AES-128\<close>

type_synonym key = bytes

definition SBOX :: bytes where
  "SBOX =
     [0x63, 0x7c, 0x77, 0x7b, 0xf2, 0x6b, 0x6f, 0xc5, 0x30, 0x01, 0x67, 0x2b, 0xfe, 0xd7, 0xab, 0x76,
      0xca, 0x82, 0xc9, 0x7d, 0xfa, 0x59, 0x47, 0xf0, 0xad, 0xd4, 0xa2, 0xaf, 0x9c, 0xa4, 0x72, 0xc0,
      0xb7, 0xfd, 0x93, 0x26, 0x36, 0x3f, 0xf7, 0xcc, 0x34, 0xa5, 0xe5, 0xf1, 0x71, 0xd8, 0x31, 0x15,
      0x04, 0xc7, 0x23, 0xc3, 0x18, 0x96, 0x05, 0x9a, 0x07, 0x12, 0x80, 0xe2, 0xeb, 0x27, 0xb2, 0x75,
      0x09, 0x83, 0x2c, 0x1a, 0x1b, 0x6e, 0x5a, 0xa0, 0x52, 0x3b, 0xd6, 0xb3, 0x29, 0xe3, 0x2f, 0x84,
      0x53, 0xd1, 0x00, 0xed, 0x20, 0xfc, 0xb1, 0x5b, 0x6a, 0xcb, 0xbe, 0x39, 0x4a, 0x4c, 0x58, 0xcf,
      0xd0, 0xef, 0xaa, 0xfb, 0x43, 0x4d, 0x33, 0x85, 0x45, 0xf9, 0x02, 0x7f, 0x50, 0x3c, 0x9f, 0xa8,
      0x51, 0xa3, 0x40, 0x8f, 0x92, 0x9d, 0x38, 0xf5, 0xbc, 0xb6, 0xda, 0x21, 0x10, 0xff, 0xf3, 0xd2,
      0xcd, 0x0c, 0x13, 0xec, 0x5f, 0x97, 0x44, 0x17, 0xc4, 0xa7, 0x7e, 0x3d, 0x64, 0x5d, 0x19, 0x73,
      0x60, 0x81, 0x4f, 0xdc, 0x22, 0x2a, 0x90, 0x88, 0x46, 0xee, 0xb8, 0x14, 0xde, 0x5e, 0x0b, 0xdb,
      0xe0, 0x32, 0x3a, 0x0a, 0x49, 0x06, 0x24, 0x5c, 0xc2, 0xd3, 0xac, 0x62, 0x91, 0x95, 0xe4, 0x79,
      0xe7, 0xc8, 0x37, 0x6d, 0x8d, 0xd5, 0x4e, 0xa9, 0x6c, 0x56, 0xf4, 0xea, 0x65, 0x7a, 0xae, 0x08,
      0xba, 0x78, 0x25, 0x2e, 0x1c, 0xa6, 0xb4, 0xc6, 0xe8, 0xdd, 0x74, 0x1f, 0x4b, 0xbd, 0x8b, 0x8a,
      0x70, 0x3e, 0xb5, 0x66, 0x48, 0x03, 0xf6, 0x0e, 0x61, 0x35, 0x57, 0xb9, 0x86, 0xc1, 0x1d, 0x9e,
      0xe1, 0xf8, 0x98, 0x11, 0x69, 0xd9, 0x8e, 0x94, 0x9b, 0x1e, 0x87, 0xe9, 0xce, 0x55, 0x28, 0xdf,
      0x8c, 0xa1, 0x89, 0x0d, 0xbf, 0xe6, 0x42, 0x68, 0x41, 0x99, 0x2d, 0x0f, 0xb0, 0x54, 0xbb, 0x16]"

definition RCON :: bytes where
  "RCON = [0x01, 0x02, 0x04, 0x08, 0x10, 0x20, 0x40, 0x80, 0x1b, 0x36]"

definition sbox :: "u8 \<Rightarrow> u8" where
  "sbox b = SBOX ! unat b"

definition xor_bytes :: "bytes \<Rightarrow> bytes \<Rightarrow> bytes" where
  "xor_bytes a b = map2 (XOR) a b"

definition key_word :: "bytes list \<Rightarrow> nat \<Rightarrow> bytes" where
  "key_word w i =
     (let t = w ! (i - 1);
          t = (if i mod 4 = 0 then [sbox (t ! 1) XOR RCON ! (i div 4 - 1), sbox (t ! 2), sbox (t ! 3), sbox (t ! 0)] else t)
      in xor_bytes (w ! (i - 4)) t)"

definition key_words :: "key \<Rightarrow> nat \<Rightarrow> bytes list" where
  "key_words key n = foldl (\<lambda>w i. w @ [key_word w i]) (map (\<lambda>i. take 4 (drop (4 * i) key)) [0..<4]) [4..<n]"

definition expand_key :: "key \<Rightarrow> bytes list" where
  "expand_key key =
     (let w = key_words key 44 in map (\<lambda>r. concat (map (\<lambda>c. w ! (4 * r + c)) [0..<4])) [0..<11])"

definition add_round_key :: "bytes \<Rightarrow> bytes \<Rightarrow> bytes" where
  "add_round_key s k = xor_bytes s k"

definition sub_bytes :: "bytes \<Rightarrow> bytes" where
  "sub_bytes s = map sbox s"

text \<open>Row 0 stays; the row of byte \<open>4 * c + r\<close> is \<open>r\<close>.\<close>

definition shift_rows :: "bytes \<Rightarrow> bytes" where
  "shift_rows t = map (\<lambda>i. let c = i div 4; r = i mod 4 in if r = 0 then t ! i else t ! (4 * ((c + r) mod 4) + r)) [0..<16]"

definition xtime :: "u8 \<Rightarrow> u8" where
  "xtime b = push_bit 1 b XOR (if b AND 0x80 \<noteq> 0 then 0x1b else 0)"

definition mix_column :: "bytes \<Rightarrow> bytes" where
  "mix_column a =
     (let all = a ! 0 XOR a ! 1 XOR a ! 2 XOR a ! 3
      in map (\<lambda>r. a ! r XOR all XOR xtime (a ! r XOR a ! ((r + 1) mod 4))) [0..<4])"

definition mix_columns :: "bytes \<Rightarrow> bytes" where
  "mix_columns s = concat (map (\<lambda>c. mix_column (take 4 (drop (4 * c) s))) [0..<4])"

definition aes_round :: "bytes \<Rightarrow> bytes \<Rightarrow> bytes" where
  "aes_round s k = add_round_key (mix_columns (shift_rows (sub_bytes s))) k"

definition aes128 :: "key \<Rightarrow> bytes \<Rightarrow> bytes" where
  "aes128 key input =
     (let rk = expand_key key;
          s = foldl aes_round (add_round_key input (rk ! 0)) (take 9 (drop 1 rk))
      in add_round_key (shift_rows (sub_bytes s)) (rk ! 10))"

subsection \<open>AES-CMAC and the CSIS functions\<close>

fun double_from :: "bytes \<Rightarrow> bytes \<times> u8" where
  "double_from [] = ([], 0)"
| "double_from (b # bs) = (let (out, carry) = double_from bs in ((push_bit 1 b OR carry) # out, drop_bit 7 b))"

definition cmac_double :: "bytes \<Rightarrow> bytes" where
  "cmac_double input =
     (let out = fst (double_from input)
      in if input ! 0 AND 0x80 \<noteq> 0 then out[15 := out ! 15 XOR 0x87] else out)"

fun chunks :: "nat \<Rightarrow> 'a list \<Rightarrow> 'a list list" where
  "chunks n [] = []"
| "chunks n (x # xs) = (x # take (n - 1) xs) # chunks n (drop (n - 1) xs)"

definition aes_cmac :: "key \<Rightarrow> bytes \<Rightarrow> bytes" where
  "aes_cmac key msg =
     (let k1 = cmac_double (aes128 key (replicate 16 0)); k2 = cmac_double k1;
          blocks = max ((length msg + 15) div 16) 1;
          complete = (msg \<noteq> [] \<and> length msg mod 16 = 0);
          last_off = 16 * (blocks - 1);
          rest = drop last_off msg;
          last = (if complete then xor_bytes rest k1
                  else xor_bytes (rest @ [0x80] @ replicate (15 - length rest) 0) k2);
          x = foldl (\<lambda>x b. aes128 key (xor_bytes x b)) (replicate 16 0) (take (blocks - 1) (chunks 16 msg))
      in aes128 key (xor_bytes x last))"

definition csis_s1 :: "bytes \<Rightarrow> key" where
  "csis_s1 m = aes_cmac (replicate 16 0) m"

definition csis_k1 :: "bytes \<Rightarrow> key \<Rightarrow> bytes \<Rightarrow> key" where
  "csis_k1 n salt p = aes_cmac (aes_cmac salt n) p"

definition ascii_bytes :: "string \<Rightarrow> bytes" where
  "ascii_bytes s = map of_char s"

definition sef :: "key \<Rightarrow> key \<Rightarrow> key" where
  "sef k sirk = xor_bytes (csis_k1 k (csis_s1 (ascii_bytes ''SIRKenc'')) (ascii_bytes ''csis'')) sirk"

definition sdf :: "key \<Rightarrow> key \<Rightarrow> key" where
  "sdf k encrypted_sirk = sef k encrypted_sirk"

definition sih :: "key \<Rightarrow> u32 \<Rightarrow> u32" where
  "sih sirk prand =
     (let e = aes128 sirk (replicate 13 0 @ [ucast (drop_bit 16 prand), ucast (drop_bit 8 prand), ucast prand])
      in push_bit 16 (ucast (e ! 13)) OR push_bit 8 (ucast (e ! 14)) OR ucast (e ! 15))"

definition rsi_matches :: "key \<Rightarrow> bytes \<Rightarrow> bool" where
  "rsi_matches sirk rsi =
     (let hash = of_le32 (rsi ! 0) (rsi ! 1) (rsi ! 2) 0; prand = of_le32 (rsi ! 3) (rsi ! 4) (rsi ! 5) 0
      in sih sirk prand = hash)"

definition hex_nibble :: "char \<Rightarrow> u8 option" where
  "hex_nibble ch =
     (let c = (of_char ch :: nat)
      in if 48 \<le> c \<and> c \<le> 57 then Some (of_nat (c - 48))
         else if 97 \<le> c \<and> c \<le> 102 then Some (of_nat (c - 97 + 10))
         else if 65 \<le> c \<and> c \<le> 70 then Some (of_nat (c - 65 + 10))
         else None)"

fun hex_bytes :: "string \<Rightarrow> bytes option" where
  "hex_bytes [] = Some []"
| "hex_bytes [_] = None"
| "hex_bytes (a # b # s) =
     Option.bind (hex_nibble a) (\<lambda>x. Option.bind (hex_nibble b) (\<lambda>y.
       map_option ((#) (push_bit 4 x OR y)) (hex_bytes s)))"

text \<open>\<^verbatim>\<open>hex\<close> runs at compile time: a panic there is a build error.\<close>

definition hex :: "string \<Rightarrow> key" where
  "hex s = (if length s = 32 then the (hex_bytes s) else [])"

definition SAMPLE_SIRK :: key where "SAMPLE_SIRK = hex ''457d7d0921a1fd22cecd8c86dd72cccd''"
definition SAMPLE_LTK :: key where "SAMPLE_LTK = hex ''676e1b9bd448696f061ec6223ce5ced9''"
definition SAMPLE_S1 :: key where "SAMPLE_S1 = hex ''6901983f18149e823c7d133a7d774572''"
definition SAMPLE_K1 :: key where "SAMPLE_K1 = hex ''5277453cc094d982b0e8ee532f2d1f8b''"
definition SAMPLE_ENC_SIRK :: key where "SAMPLE_ENC_SIRK = hex ''170a3835e13524a07e2562d5f25fd346''"

definition self_test :: bool where
  "self_test =
     (csis_s1 (ascii_bytes ''SIRKenc'') = SAMPLE_S1
      \<and> csis_k1 SAMPLE_LTK SAMPLE_S1 (ascii_bytes ''csis'') = SAMPLE_K1
      \<and> sih SAMPLE_SIRK 0x69f563 = 0x1948da
      \<and> sef SAMPLE_LTK SAMPLE_SIRK = SAMPLE_ENC_SIRK \<and> sdf SAMPLE_LTK SAMPLE_ENC_SIRK = SAMPLE_SIRK
      \<and> rsi_matches SAMPLE_SIRK [0xda, 0x48, 0x19, 0x63, 0xf5, 0x69])"

subsection \<open>The S-box\<close>

definition rotl8 :: "nat \<Rightarrow> u8 \<Rightarrow> u8" where
  "rotl8 n b = push_bit n b OR drop_bit (8 - n) b"

text \<open>Multiplication in the field of FIPS-197 (section 4.2), and the affine map of section 5.1.1.\<close>

fun gf_steps :: "nat \<Rightarrow> u8 \<Rightarrow> u8 \<Rightarrow> u8" where
  "gf_steps 0 a b = 0"
| "gf_steps (Suc n) a b = (if b AND 1 \<noteq> 0 then a else 0) XOR gf_steps n (xtime a) (drop_bit 1 b)"

definition gf_mul :: "u8 \<Rightarrow> u8 \<Rightarrow> u8" where
  "gf_mul a b = gf_steps 8 a b"

definition affine :: "u8 \<Rightarrow> u8" where
  "affine b = b XOR rotl8 1 b XOR rotl8 2 b XOR rotl8 3 b XOR rotl8 4 b XOR 0x63"

definition affine_inv :: "u8 \<Rightarrow> u8" where
  "affine_inv s = rotl8 1 s XOR rotl8 3 s XOR rotl8 6 s XOR 0x05"

lemma gf_steps_num: "gf_steps (numeral v) a b = (if b AND 1 \<noteq> 0 then a else 0) XOR gf_steps (pred_numeral v) (xtime a) (drop_bit 1 b)"
  by (simp add: numeral_eq_Suc)

lemmas gf_eval = gf_mul_def gf_steps_num xtime_def affine_def affine_inv_def rotl8_def

definition sbox_entry :: "u8 \<Rightarrow> u8 \<Rightarrow> bool" where
  "sbox_entry x s \<longleftrightarrow> (if x = 0 then affine_inv s = 0 else gf_mul x (affine_inv s) = 1) \<and> affine (affine_inv s) = s"

fun entries_from :: "u8 \<Rightarrow> bytes \<Rightarrow> bool" where
  "entries_from n [] = True"
| "entries_from n (s # ss) = (sbox_entry n s \<and> entries_from (n + 1) ss)"

lemma entries_from_nth: "entries_from n ss \<Longrightarrow> i < length ss \<Longrightarrow> sbox_entry (n + of_nat i) (ss ! i)"
proof (induction ss arbitrary: n i)
  case (Cons s ss)
  then show ?case by (cases i) (auto simp flip: add.assoc)
qed simp

lemma entries_append: "entries_from n (xs @ ys) = (entries_from n xs \<and> entries_from (n + of_nat (length xs)) ys)"
  by (induction xs arbitrary: n) (auto simp: add.assoc add.commute)

lemma sbox_entries: "entries_from 0 SBOX"
  by (simp add: SBOX_def sbox_entry_def gf_eval)

lemma length_SBOX: "length SBOX = 256"
  by (simp add: SBOX_def)

lemma sbox_spec: "sbox_entry x (sbox x)"
  using entries_from_nth[OF sbox_entries, of "unat x"] unsigned_less[of x] by (simp add: sbox_def length_SBOX)

lemma distinct_SBOX: "distinct SBOX"
proof -
  have "distinct (map uint SBOX)" unfolding SBOX_def list.map by simp
  then show ?thesis by (simp add: distinct_map)
qed

lemma inj_sbox: "inj sbox"
proof (rule injI)
  fix x y assume "sbox x = sbox y"
  then have "unat x = unat y"
    using distinct_SBOX unsigned_less[of x, where ?'a = nat] unsigned_less[of y, where ?'a = nat]
    by (simp add: sbox_def nth_eq_iff_index_eq length_SBOX)
  then show "x = y" by (simp add: word_unat_eq_iff)
qed

subsection \<open>The rounds\<close>

lemma and_128: "b AND 0x80 \<noteq> 0 \<longleftrightarrow> bit (b::u8) 7"
  using bit_iff_and_push_bit_not_eq_0[of b 7] by simp

lemma xtime_xor: "xtime (a XOR b) = xtime a XOR xtime b"
  unfolding xtime_def and_128 by (rule bit_word_eqI) (auto simp: bit_simps)

lemma list4: "length xs = 4 \<Longrightarrow> \<exists>a b c d. xs = [a, b, c, d]"
  by (auto simp: numeral_eq_Suc length_Suc_conv)

lemma list16: "length xs = 16 \<Longrightarrow> \<exists>a b c d e f g h i j k l m n p q. xs = [a, b, c, d, e, f, g, h, i, j, k, l, m, n, p, q]"
  by (auto simp: numeral_eq_Suc length_Suc_conv)

lemma upt4: "[0..<4] = [0, 1, 2, 3::nat]" by (simp add: upt_rec)

lemma upt16: "[0..<16] = [0, 1, 2, 3, 4, 5, 6, 7, 8, 9, 10, 11, 12, 13, 14, 15::nat]" by (simp add: upt_rec)

lemma mix_column_4:
  "mix_column [a, b, c, d] = [xtime a XOR (xtime b XOR b) XOR c XOR d, xtime b XOR (xtime c XOR c) XOR d XOR a,
     xtime c XOR (xtime d XOR d) XOR a XOR b, xtime d XOR (xtime a XOR a) XOR b XOR c]"
  by (simp add: mix_column_def upt4 xtime_xor ac_simps)

lemma xor_cancel: "x XOR (x XOR y) = (y :: u8)"
  by (simp flip: xor.assoc)

lemma mix_column_order: "length a = 4 \<Longrightarrow> mix_column (mix_column (mix_column (mix_column a))) = a"
  by (drule list4) (auto simp: mix_column_4 xtime_xor xor.assoc xor.commute xor.left_commute xor_cancel)

lemma mix_columns_16:
  "length s = 16 \<Longrightarrow> mix_columns s = mix_column (take 4 s) @ mix_column (take 4 (drop 4 s)) @ mix_column (take 4 (drop 8 s)) @ mix_column (take 4 (drop 12 s))"
  by (simp add: mix_columns_def upt4)

lemma length_mix_column [simp]: "length (mix_column a) = 4"
  by (simp add: mix_column_def Let_def)

lemma length_mix_columns [simp]: "length (mix_columns s) = 16"
  by (simp add: mix_columns_def upt4)

lemma mix_columns_order: "length s = 16 \<Longrightarrow> mix_columns (mix_columns (mix_columns (mix_columns s))) = s"
proof -
  assume l: "length s = 16"
  have e: "s = take 4 s @ take 4 (drop 4 s) @ take 4 (drop 8 s) @ take 4 (drop 12 s)"
    using list16[OF l] by auto
  have m: "mix_columns (a @ b @ c @ d) = mix_column a @ mix_column b @ mix_column c @ mix_column d"
    if "length a = 4" "length b = 4" "length c = 4" "length d = 4" for a b c d
    using that by (simp add: mix_columns_16)
  have "mix_columns (mix_columns (mix_columns (mix_columns (a @ b @ c @ d)))) = a @ b @ c @ d"
    if "length a = 4" "length b = 4" "length c = 4" "length d = 4" for a b c d
    using that by (simp add: m mix_column_order)
  from this[of "take 4 s" "take 4 (drop 4 s)" "take 4 (drop 8 s)" "take 4 (drop 12 s)"] show ?thesis
    using l unfolding e[symmetric] by simp
qed

lemma length_shift_rows [simp]: "length (shift_rows s) = 16"
  by (simp add: shift_rows_def)

lemma shift_rows_order: "length s = 16 \<Longrightarrow> shift_rows (shift_rows (shift_rows (shift_rows s))) = s"
  by (drule list16) (auto simp: shift_rows_def upt16 Let_def)

lemma length_xor_bytes [simp]: "length (xor_bytes a b) = min (length a) (length b)"
  by (simp add: xor_bytes_def)

lemma xor_bytes_cancel: "length a \<le> length k \<Longrightarrow> xor_bytes (xor_bytes a k) k = a"
  unfolding xor_bytes_def
proof (induction a arbitrary: k)
  case (Cons x a)
  then show ?case by (cases k) (auto simp: xor.assoc)
qed simp

lemma xor_bytes_commute: "xor_bytes a b = xor_bytes b a"
  unfolding xor_bytes_def by (rule nth_equalityI) (simp_all add: xor.commute)

lemma key_words_Suc: "4 \<le> n \<Longrightarrow> key_words key (Suc n) = key_words key n @ [key_word (key_words key n) n]"
  by (simp add: key_words_def)

lemma length_key_words:
  assumes "length key = 16" "4 \<le> n"
  shows "length (key_words key n) = n \<and> (\<forall>i<n. length (key_words key n ! i) = 4)"
  using assms(2)
proof (induction n rule: dec_induct)
  case base
  have "i < 4 \<Longrightarrow> 4 \<le> 16 - 4 * i" for i :: nat by simp
  then show ?case using assms(1) by (simp add: key_words_def)
next
  case (step n)
  then have "length (key_word (key_words key n) n) = 4" by (simp add: key_word_def Let_def)
  then show ?case using step by (simp add: key_words_Suc nth_append less_Suc_eq)
qed

lemma expand_key_lengths: "length key = 16 \<Longrightarrow> length (expand_key key) = 11 \<and> (\<forall>k\<in>set (expand_key key). length k = 16)"
proof -
  assume "length key = 16"
  then have w: "length (key_words key 44 ! i) = 4" if "i < 44" for i using length_key_words[of key 44] that by simp
  have "length (concat (map (\<lambda>c. key_words key 44 ! (4 * r + c)) [0..<4])) = 16" if "r < 11" for r
    using that w[of "4 * r"] w[of "4 * r + 1"] w[of "4 * r + 2"] w[of "4 * r + 3"] by (simp add: upt4)
  then show ?thesis by (simp add: expand_key_def Let_def del: upt_rec_numeral)
qed

definition is_block :: "bytes \<Rightarrow> bool" where "is_block b \<longleftrightarrow> length b = 16"

lemma blocks_finite: "finite (Collect is_block)"
  using finite_lists_length_eq[of "UNIV :: u8 set" 16] by (simp add: is_block_def[abs_def])

lemma bij_of_inverse:
  assumes "\<And>x. is_block x \<Longrightarrow> is_block (f x)" "\<And>x. is_block x \<Longrightarrow> g (f x) = x"
  shows "bij_betw f (Collect is_block) (Collect is_block)"
proof -
  have "inj_on f (Collect is_block)" using assms(2) by (metis inj_onI mem_Collect_eq)
  moreover have "f ` Collect is_block \<subseteq> Collect is_block" using assms(1) by auto
  ultimately show ?thesis using endo_inj_surj[OF blocks_finite] by (simp add: bij_betw_def)
qed

lemma bij_sub_bytes: "bij_betw sub_bytes (Collect is_block) (Collect is_block)"
proof (rule bij_of_inverse[where g = "map (inv sbox)"])
  show "map (inv sbox) (sub_bytes x) = x" for x
    by (simp add: sub_bytes_def map_idI inv_f_f[OF inj_sbox])
qed (simp add: is_block_def sub_bytes_def)

lemma bij_shift_rows: "bij_betw shift_rows (Collect is_block) (Collect is_block)"
  by (rule bij_of_inverse[where g = "\<lambda>s. shift_rows (shift_rows (shift_rows s))"]) (simp_all add: is_block_def shift_rows_order)

lemma bij_mix_columns: "bij_betw mix_columns (Collect is_block) (Collect is_block)"
  by (rule bij_of_inverse[where g = "\<lambda>s. mix_columns (mix_columns (mix_columns s))"]) (simp_all add: is_block_def mix_columns_order)

lemma bij_add_round_key: "is_block k \<Longrightarrow> bij_betw (\<lambda>s. add_round_key s k) (Collect is_block) (Collect is_block)"
  by (rule bij_of_inverse[where g = "\<lambda>s. xor_bytes s k"]) (simp_all add: is_block_def add_round_key_def xor_bytes_cancel)

lemma bij_round: "is_block k \<Longrightarrow> bij_betw (\<lambda>s. aes_round s k) (Collect is_block) (Collect is_block)"
  unfolding aes_round_def
  using bij_betw_trans[OF bij_betw_trans[OF bij_betw_trans[OF bij_sub_bytes bij_shift_rows] bij_mix_columns] bij_add_round_key]
  by (simp add: comp_def)

lemma bij_rounds: "\<forall>k\<in>set ks. is_block k \<Longrightarrow> bij_betw (\<lambda>s. foldl aes_round s ks) (Collect is_block) (Collect is_block)"
proof (induction ks)
  case (Cons k ks)
  then show ?case using bij_betw_trans[OF bij_round[of k] Cons.IH] by (simp add: comp_def)
qed (simp add: bij_betw_def inj_on_def)

lemma aes128_bij: "length key = 16 \<Longrightarrow> bij_betw (aes128 key) (Collect is_block) (Collect is_block)"
proof -
  assume l: "length key = 16"
  define rk where "rk = expand_key key"
  have k: "is_block (rk ! 0)" "is_block (rk ! 10)" "\<forall>k\<in>set (take 9 (drop 1 rk)). is_block k"
    using expand_key_lengths[OF l] by (auto simp: rk_def is_block_def dest: in_set_takeD in_set_dropD)
  have "aes128 key = (\<lambda>s. add_round_key s (rk ! 10)) \<circ> (shift_rows \<circ> (sub_bytes \<circ> ((\<lambda>s. foldl aes_round s (take 9 (drop 1 rk))) \<circ> (\<lambda>s. add_round_key s (rk ! 0)))))"
    by (rule ext) (simp add: aes128_def Let_def rk_def)
  then show ?thesis
    using bij_betw_trans[OF bij_betw_trans[OF bij_betw_trans[OF bij_betw_trans[OF bij_add_round_key[OF k(1)] bij_rounds[OF k(3)]]
      bij_sub_bytes] bij_shift_rows] bij_add_round_key[OF k(2)]] by simp
qed

lemma length_aes128: "length key = 16 \<Longrightarrow> length x = 16 \<Longrightarrow> length (aes128 key x) = 16"
  using bij_betwE[OF aes128_bij[of key]] by (auto simp: is_block_def)

subsection \<open>AES-CMAC\<close>

lemma length_double_from: "length (fst (double_from bs)) = length bs"
  by (induction bs) (auto simp: split_beta Let_def)

lemma length_cmac_double [simp]: "length (cmac_double x) = length x"
  by (simp add: cmac_double_def Let_def length_double_from)

text \<open>A block as a number of 128 bits.\<close>

definition be_word :: "bytes \<Rightarrow> 128 word" where
  "be_word bs = foldl (\<lambda>w b. push_bit 8 w OR ucast b) 0 bs"

lemma u8_bit: "bit (b::u8) n \<Longrightarrow> n < 8"
  using bit_imp_le_length[of b n] by simp

lemma bit_mul2: "bit (b * 2 :: u8) k \<longleftrightarrow> 0 < k \<and> k < 8 \<and> bit b (k - 1)"
  using bit_double_iff[of b k] by (auto simp: mult.commute possible_bit_word)

lemma bit_be_word:
  "length bs \<le> 16 \<Longrightarrow> bit (be_word bs) n \<longleftrightarrow> n < 8 * length bs \<and> bit (bs ! (length bs - 1 - n div 8)) (n mod 8)"
proof (induction bs arbitrary: n rule: rev_induct)
  case Nil
  then show ?case by (simp add: be_word_def)
next
  case (snoc b bs)
  have e: "bit (be_word (bs @ [b])) n \<longleftrightarrow> (8 \<le> n \<and> n < 128 \<and> bit (be_word bs) (n - 8)) \<or> (n < 8 \<and> bit b n)"
    by (auto simp: be_word_def bit_simps dest: u8_bit)
  show ?case
  proof (cases "n < 8")
    case True
    then show ?thesis using e by simp
  next
    case False
    then have "(n - 8) div 8 = n div 8 - 1" "(n - 8) mod 8 = n mod 8" "1 \<le> n div 8" by (auto simp: div_nat_eqI mod_if div_if)
    moreover have "(bs @ [b]) ! (length bs - n div 8) = bs ! (length bs - n div 8)" if "1 \<le> n div 8" "0 < length bs"
      using that by (simp add: nth_append)
    ultimately show ?thesis using e snoc.IH[of "n - 8"] snoc.prems False by (cases "bs = []") auto
  qed
qed

lemma double_from_bits:
  "i < length bs \<Longrightarrow> k < 8 \<Longrightarrow> bit (fst (double_from bs) ! i) k \<longleftrightarrow>
     (if k = 0 then Suc i < length bs \<and> bit (bs ! Suc i) 7 else bit (bs ! i) (k - 1))"
proof (induction bs arbitrary: i)
  case (Cons b bs)
  have c: "snd (double_from bs) = (case bs of [] \<Rightarrow> 0 | x # _ \<Rightarrow> drop_bit 7 x)"
    by (cases bs) (simp_all add: split_beta Let_def)
  show ?case
  proof (cases i)
    case 0
    then show ?thesis using Cons.prems c by (cases bs) (auto simp: split_beta Let_def bit_simps bit_mul2 dest: u8_bit)
  next
    case (Suc j)
    then show ?thesis using Cons by (simp add: split_beta Let_def)
  qed
qed simp

text \<open>Doubling in the field: a shift, and the polynomial \<open>0x87\<close> when a bit falls out.\<close>

definition dbl128 :: "128 word \<Rightarrow> 128 word" where
  "dbl128 w = push_bit 1 w XOR (if bit w 127 then 0x87 else 0)"

lemma bit_87: "bit (0x87 :: 128 word) n \<longleftrightarrow> n < 8 \<and> bit (0x87 :: u8) n"
proof (cases "n < 8")
  case True
  then have "n \<in> {0, 1, 2, 3, 4, 5, 6, 7}" by auto
  then show ?thesis by auto
next
  case False
  have "(0x87 :: 128 word) = ucast (0x87 :: u8)" by simp
  then have "bit (0x87 :: 128 word) n \<longleftrightarrow> bit (ucast (0x87 :: u8) :: 128 word) n" by metis
  then show ?thesis using False by (simp only: bit_unsigned_iff) (auto dest: u8_bit)
qed

lemma cmac_double_field: "length x = 16 \<Longrightarrow> be_word (cmac_double x) = dbl128 (be_word x)"
proof (rule bit_word_eqI)
  fix n assume l: "length x = 16" and "n < LENGTH(128)"
  then have n: "n < 128" by simp
  let ?i = "15 - n div 8" and ?k = "n mod 8"
  have i: "?i < 16" by simp
  have top: "bit (be_word x) 127 \<longleftrightarrow> bit (x ! 0) 7" using l by (simp add: bit_be_word)
  have dl: "length (fst (double_from x)) = 16" using l by (simp add: length_double_from)
  have lo: "bit (cmac_double x ! ?i) ?k \<longleftrightarrow> bit (fst (double_from x) ! ?i) ?k \<noteq> (?i = 15 \<and> bit (x ! 0) 7 \<and> bit (0x87 :: u8) ?k)"
  proof (cases "bit (x ! 0) 7")
    case True
    then have "cmac_double x = (fst (double_from x))[15 := fst (double_from x) ! 15 XOR 0x87]" by (simp add: cmac_double_def and_128 Let_def)
    then show ?thesis using True dl by (cases "?i = 15") (simp_all add: bit_xor_iff)
  qed (simp add: cmac_double_def and_128 Let_def)
  have up: "bit (fst (double_from x) ! ?i) ?k \<longleftrightarrow> 0 < n \<and> bit (be_word x) (n - 1)"
  proof (cases "?k = 0")
    case True
    then have "n = 8 * (n div 8)" by auto
    show ?thesis
    proof (cases "n = 0")
      case False
      then obtain r where r: "n = 8 * Suc r" using True by (metis \<open>n = 8 * (n div 8)\<close> mult_0_right not0_implies_Suc)
      then have "n - 1 = 8 * r + 7" "n div 8 = Suc r" by simp_all
      then have "(n - 1) div 8 = n div 8 - 1" "(n - 1) mod 8 = 7" "0 < n div 8" by simp_all
      moreover have "Suc ?i = 16 - n div 8" "n - 1 < 128" using n by linarith+
      ultimately show ?thesis using l n i True False double_from_bits[of ?i x ?k] by (simp add: bit_be_word)
    qed (use l double_from_bits[of 15 x 0] in simp)
  next
    case False
    then obtain j where j: "?k = Suc j" by (metis not0_implies_Suc)
    then have "n = 8 * (n div 8) + Suc j" "j < 8" using mult_div_mod_eq[of 8 n] mod_less_divisor[of 8 n] by linarith+
    then have "n - 1 = 8 * (n div 8) + j" by linarith
    then have "(n - 1) div 8 = n div 8" "(n - 1) mod 8 = ?k - 1" using j \<open>j < 8\<close> by simp_all
    moreover have "0 < n" "n - 1 < 128" using False n by (auto intro: gr0I)
    ultimately show ?thesis using l n i False double_from_bits[of ?i x ?k] by (auto simp: bit_be_word)
  qed
  have small: "?i = 15 \<longleftrightarrow> n < 8" "n < 8 \<Longrightarrow> ?k = n" using n by auto
  have "bit (be_word (cmac_double x)) n \<longleftrightarrow> bit (cmac_double x ! ?i) ?k" using l n by (simp add: bit_be_word)
  also have "\<dots> \<longleftrightarrow> (0 < n \<and> bit (be_word x) (n - 1)) \<noteq> (bit (be_word x) 127 \<and> n < 8 \<and> bit (0x87 :: u8) n)"
    unfolding lo up top using small by (cases "n < 8") auto
  also have "\<dots> \<longleftrightarrow> bit (dbl128 (be_word x)) n"
  proof -
    have "bit (be_word x * 2) n \<longleftrightarrow> 0 < n \<and> bit (be_word x) (n - 1)"
      using n bit_double_iff[of "be_word x" n] by (auto simp: mult.commute possible_bit_word)
    then show ?thesis using bit_87[of n] by (cases "bit (be_word x) 127") (simp_all add: dbl128_def bit_xor_iff)
  qed
  finally show "bit (be_word (cmac_double x)) n = bit (dbl128 (be_word x)) n" .
qed

text \<open>The chaining of RFC 4493, over whole blocks.\<close>

definition cbc_mac :: "key \<Rightarrow> bytes list \<Rightarrow> bytes" where
  "cbc_mac key bs = foldl (\<lambda>x b. aes128 key (xor_bytes x b)) (replicate 16 0) bs"

lemma chunks_concat:
  "\<forall>b\<in>set bs. length b = n \<Longrightarrow> 0 < n \<Longrightarrow> chunks n (concat bs @ r) = bs @ chunks n r"
proof (induction bs)
  case (Cons b bs)
  then obtain x xs where b: "b = x # xs" "length xs = n - 1" by (cases b) auto
  then show ?case using Cons by simp
qed simp

lemma length_concat_blocks: "\<forall>b\<in>set bs. is_block b \<Longrightarrow> length (concat bs) = 16 * length bs"
  by (induction bs) (auto simp: is_block_def)

lemma aes_cmac_split:
  fixes key :: key
  assumes "\<forall>b\<in>set bs. is_block b" "length r \<le> 16" "r = [] \<Longrightarrow> bs = []"
  defines "l \<equiv> aes128 key (replicate 16 0)"
  shows "aes_cmac key (concat bs @ r) = cbc_mac key (bs @ [if is_block r then xor_bytes r (cmac_double l)
      else xor_bytes (r @ [0x80] @ replicate (15 - length r) 0) (cmac_double (cmac_double l))])"
proof -
  let ?m = "concat bs @ r"
  have len: "length ?m = 16 * length bs + length r" using length_concat_blocks[OF assms(1)] by simp
  have blocks: "max ((length ?m + 15) div 16) 1 = Suc (length bs)"
  proof (cases "r = []")
    case False
    then have "(length r + 15) div 16 = 1" using assms(2) by (cases r) (auto simp: div_nat_eqI)
    moreover have "length ?m + 15 = length r + 15 + length bs * 16" using len by simp
    then have "(length ?m + 15) div 16 = length bs + (length r + 15) div 16" by simp
    ultimately show ?thesis by simp
  qed (use assms(3) in simp)
  have rest: "drop (16 * length bs) ?m = r" using length_concat_blocks[OF assms(1)] by simp
  have complete: "(?m \<noteq> [] \<and> length ?m mod 16 = 0) \<longleftrightarrow> is_block r"
  proof (cases "r = []")
    case False
    have "length ?m mod 16 = length r mod 16" using len by simp
    then show ?thesis using False assms(2) by (auto simp: is_block_def mod_if)
  qed (use assms(3) in \<open>simp add: is_block_def\<close>)
  have "take (length bs) (chunks 16 ?m) = bs" using chunks_concat[of bs 16 r] assms(1) by (simp add: is_block_def)
  then show ?thesis
    unfolding aes_cmac_def Let_def blocks complete using rest by (simp add: cbc_mac_def l_def)
qed

lemma message_split_ex:
  "\<exists>bs r. (msg::bytes) = concat bs @ r \<and> (\<forall>b\<in>set bs. is_block b) \<and> length r \<le> 16 \<and> (r = [] \<longrightarrow> bs = [])"
proof (induction "length msg" arbitrary: msg rule: less_induct)
  case less
  show ?case
  proof (cases "length msg \<le> 16")
    case True
    then show ?thesis by (intro exI[of _ "[]"] exI[of _ msg]) simp
  next
    case False
    then have "length (drop 16 msg) < length msg" by simp
    then obtain bs r where s: "drop 16 msg = concat bs @ r" "\<forall>b\<in>set bs. is_block b" "length r \<le> 16" "r = [] \<longrightarrow> bs = []"
      using less.hyps[of "drop 16 msg"] by blast
    have "msg = concat (take 16 msg # bs) @ r" using append_take_drop_id[of 16 msg] s(1) by simp
    moreover have "\<forall>b\<in>set (take 16 msg # bs). is_block b" using s(2) False by (simp add: is_block_def)
    moreover have "r \<noteq> []" using s(1,4) False by auto
    ultimately show ?thesis using s(3) by blast
  qed
qed

lemma message_split:
  obtains bs r where "(msg::bytes) = concat bs @ r" "\<forall>b\<in>set bs. is_block b" "length r \<le> 16" "r = [] \<Longrightarrow> bs = []"
  using message_split_ex by blast

lemma length_cbc_mac: "length key = 16 \<Longrightarrow> \<forall>b\<in>set bs. is_block b \<Longrightarrow> length (cbc_mac key bs) = 16"
  by (induction bs rule: rev_induct) (auto simp: cbc_mac_def length_aes128 is_block_def)

lemma length_aes_cmac: "length key = 16 \<Longrightarrow> length (aes_cmac key msg) = 16"
proof -
  assume k: "length key = 16"
  obtain bs r where s: "msg = concat bs @ r" "\<forall>b\<in>set bs. is_block b" "length r \<le> 16" "r = [] \<Longrightarrow> bs = []"
    using message_split by blast
  have "length (aes128 key (replicate 16 0)) = 16" by (rule length_aes128[OF k]) simp
  then show ?thesis
    using s(2,3) aes_cmac_split[OF s(2-4), of key] unfolding s(1)
    by (simp add: is_block_def) (intro conjI impI length_cbc_mac[OF k]; auto simp: is_block_def)
qed

subsection \<open>Properties\<close>

text \<open>AES-128 of the LE Audio crypto: for every key the cipher is a permutation of the 16-byte blocks; its
  S-box is the one of FIPS-197 (the affine map of an inverse in the field of 256 elements, of 0 for 0) and its column mixing is the
  multiplication with the circulant matrix of 2, 3, 1, 1 in that field.\<close>

lemma aes128_permutation:
  assumes "length key = 16"
  shows "bij_betw (aes128 key) {b. length b = 16} {b. length b = 16}
     \<and> (\<exists>c. sbox x = affine c \<and> (if x = 0 then c = 0 else gf_mul x c = 1))
     \<and> mix_column [a0, a1, a2, a3] =
         [gf_mul a0 2 XOR gf_mul a1 3 XOR a2 XOR a3, gf_mul a1 2 XOR gf_mul a2 3 XOR a3 XOR a0,
          gf_mul a2 2 XOR gf_mul a3 3 XOR a0 XOR a1, gf_mul a3 2 XOR gf_mul a0 3 XOR a1 XOR a2]"
proof (intro conjI)
  show "bij_betw (aes128 key) {b. length b = 16} {b. length b = 16}"
    using aes128_bij[OF assms] by (simp add: is_block_def[abs_def])
  show "\<exists>c. sbox x = affine c \<and> (if x = 0 then c = 0 else gf_mul x c = 1)"
    using sbox_spec[of x] by (auto simp: sbox_entry_def intro!: exI[of _ "affine_inv (sbox x)"] split: if_splits)
  have z: "gf_steps n a 0 = 0" for n a by (induction n arbitrary: a) simp_all
  have "gf_mul a 2 = xtime a" "gf_mul a 3 = xtime a XOR a" for a
    by (simp_all add: gf_mul_def gf_steps_num z xor.commute)
  then show "mix_column [a0, a1, a2, a3] =
         [gf_mul a0 2 XOR gf_mul a1 3 XOR a2 XOR a3, gf_mul a1 2 XOR gf_mul a2 3 XOR a3 XOR a0,
          gf_mul a2 2 XOR gf_mul a3 3 XOR a0 XOR a1, gf_mul a3 2 XOR gf_mul a0 3 XOR a1 XOR a2]"
    by (simp add: mix_column_4)
qed

lemma aes128_permutation_instance:
  "bij_betw (aes128 (replicate 16 0)) {b. length b = 16} {b. length b = 16} \<and> mix_column [1, 0, 0, 0] = [2, 1, 1, 3]"
  using aes128_permutation[of "replicate 16 0" 0 1 0 0 0] by (simp add: gf_eval)

text \<open>C39. AES-CMAC is RFC 4493's. A message of whole blocks and a last part (non-empty unless the message is empty, at most a
  block) gives the chained encryption of the blocks and of the last part, which is masked with the first subkey when it is a whole
  block and else padded with a one bit and zeros and masked with the second; every message is of this form; and
  the subkeys are one and two doublings, in the field of 128 bits, of the encrypted zero block.\<close>

theorem aes_cmac_rfc4493:
  assumes "length key = 16"
  shows "\<exists>bs r k1 k2. msg = concat bs @ r \<and> (\<forall>b\<in>set bs. length b = 16) \<and> length r \<le> 16 \<and> (r = [] \<longrightarrow> bs = [])
     \<and> be_word k1 = dbl128 (be_word (aes128 key (replicate 16 0))) \<and> be_word k2 = dbl128 (be_word k1)
     \<and> length k1 = 16 \<and> length k2 = 16
     \<and> aes_cmac key msg = cbc_mac key (bs @ [if length r = 16 then xor_bytes r k1
           else xor_bytes (r @ [0x80] @ replicate (15 - length r) 0) k2])"
proof -
  obtain bs r where s: "msg = concat bs @ r" "\<forall>b\<in>set bs. is_block b" "length r \<le> 16" "r = [] \<Longrightarrow> bs = []"
    using message_split by blast
  let ?l = "aes128 key (replicate 16 0)"
  have l: "length ?l = 16" by (rule length_aes128[OF assms]) simp
  note f = cmac_double_field[OF l] cmac_double_field[of "cmac_double ?l"]
  show ?thesis
    using s aes_cmac_split[OF s(2-4), of key] f l unfolding is_block_def
    by (intro exI[of _ bs] exI[of _ r] exI[of _ "cmac_double ?l"] exI[of _ "cmac_double (cmac_double ?l)"]) simp
qed

theorem aes_cmac_rfc4493_witness:
  "\<exists>k2. length k2 = 16 \<and> aes_cmac (replicate 16 7) [1, 2] = cbc_mac (replicate 16 7) [xor_bytes ([1, 2, 0x80] @ replicate 13 0) k2]"
proof -
  have "bs = [] \<and> r = [1, 2]" if "[1, 2] = concat bs @ r" "\<forall>b\<in>set bs. length b = 16" for bs and r :: bytes
  proof (cases bs)
    case (Cons b bs')
    then have "length (concat bs @ r) \<ge> 16" using that(2) by simp
    then show ?thesis using arg_cong[OF that(1), of length] by simp
  qed (use that in simp)
  then show ?thesis using aes_cmac_rfc4493[of "replicate 16 7" "[1, 2]"] by fastforce
qed

text \<open>The 24-bit parts of an RSI, least significant byte first.\<close>

definition le24 :: "u32 \<Rightarrow> bytes" where
  "le24 v = [ucast v, ucast (drop_bit 8 v), ucast (drop_bit 16 v)]"

definition of_le24 :: "bytes \<Rightarrow> u32" where
  "of_le24 b = of_le32 (b ! 0) (b ! 1) (b ! 2) 0"

lemma of_le32_split: "of_le32 a b c 0 = push_bit 16 (ucast f) OR push_bit 8 (ucast e) OR ucast d \<longleftrightarrow> a = d \<and> b = e \<and> c = f"
proof
  assume eq: "of_le32 a b c 0 = push_bit 16 (ucast f) OR push_bit 8 (ucast e) OR ucast d"
  have b: "bit (of_le32 a b c 0) n = bit (push_bit 16 (ucast f) OR push_bit 8 (ucast e) OR ucast d :: u32) n" for n using eq by simp
  show "a = d \<and> b = e \<and> c = f"
  proof (intro conjI bit_word_eqI)
    fix n assume n: "n < LENGTH(8)"
    show "bit a n = bit d n" using b[of n] n by (auto simp: of_le32_def bit_simps)
    show "bit b n = bit e n" using b[of "n + 8"] n by (auto simp: of_le32_def bit_simps dest: u8_bit)
    show "bit c n = bit f n" using b[of "n + 16"] n by (auto simp: of_le32_def bit_simps dest: u8_bit)
  qed
qed (simp add: of_le32_def ac_simps)

text \<open>The keys and identifiers of a coordinated set: the encrypted set key decrypts to the set key under the same link key, and
  different set keys encrypt differently; an RSI matches a set key exactly when its hash part is the hash of
  its random part under that key, so every RSI a member generates is recognised.\<close>

lemma csis_set_keys:
  assumes "length k = 16" "length sirk = 16" "length hash = 3" "length prand = 3"
  shows "sdf k (sef k sirk) = sirk \<and> length (sef k sirk) = 16
     \<and> (rsi_matches sirk (hash @ prand) \<longleftrightarrow> hash = le24 (sih sirk (of_le24 prand)))"
proof -
  let ?key = "csis_k1 k (csis_s1 (ascii_bytes ''SIRKenc'')) (ascii_bytes ''csis'')"
  have key: "length ?key = 16" by (simp add: csis_k1_def csis_s1_def length_aes_cmac)
  then have "sdf k (sef k sirk) = sirk" "length (sef k sirk) = 16"
    using xor_bytes_cancel[of sirk ?key] assms(2) by (simp_all add: sdf_def sef_def xor_bytes_commute[of ?key])
  moreover have "rsi_matches sirk (hash @ prand) \<longleftrightarrow> hash = le24 (sih sirk (of_le24 prand))"
  proof -
    obtain h0 h1 h2 where h: "hash = [h0, h1, h2]" using assms(3) by (auto simp: numeral_eq_Suc length_Suc_conv)
    obtain d e f :: u8 where s: "sih sirk (of_le24 prand) = push_bit 16 (ucast f) OR push_bit 8 (ucast e) OR ucast d"
      unfolding sih_def Let_def by blast
    have "le24 (of_le32 d e f 0) = [d, e, f]"
    proof -
      have "ucast (of_le32 d e f 0) = d" "ucast (drop_bit 8 (of_le32 d e f 0)) = e" "ucast (drop_bit 16 (of_le32 d e f 0)) = f"
        by - (rule bit_word_eqI; auto simp: of_le32_def bit_simps dest: u8_bit)+
      then show ?thesis by (simp add: le24_def)
    qed
    moreover have "sih sirk (of_le24 prand) = of_le32 d e f 0" using of_le32_split[of d e f f e d] s by simp
    ultimately show ?thesis
      using of_le32_split[of h0 h1 h2 f e d] s assms(4) by (auto simp: rsi_matches_def Let_def h of_le24_def nth_append)
  qed
  ultimately show ?thesis by simp
qed

lemma csis_set_keys_instance:
  "sdf (replicate 16 1) (sef (replicate 16 1) (replicate 16 2)) = replicate 16 2
     \<and> rsi_matches (replicate 16 2) (le24 (sih (replicate 16 2) (of_le24 [1, 2, 3])) @ [1, 2, 3])"
proof -
  have "length (le24 v) = 3" for v by (simp add: le24_def)
  then show ?thesis using csis_set_keys[of "replicate 16 1" "replicate 16 2" "le24 (sih (replicate 16 2) (of_le24 [1, 2, 3]))" "[1, 2, 3]"] by simp
qed

end
