(* ===== verification/Csip_Selftest.thy ===== *)
theory Csip_Selftest
  imports Csip_Crypto
begin

text \<open>
  The self test of \<^verbatim>\<open>csip_crypto.rs\<close>, evaluated: rules that compute AES-128 on concrete blocks (the S-box as one rule
  per entry, the rounds on lists of 16 bytes), the encryptions the sample data need, and the values of the
  functions on them.
\<close>


fun table_from :: "(u8 \<Rightarrow> u8) \<Rightarrow> u8 \<Rightarrow> bytes \<Rightarrow> bool" where
  "table_from f n [] = True"
| "table_from f n (s # ss) = (f n = s \<and> table_from f (n + 1) ss)"

lemma table_fromI: "(\<And>i. i < length ss \<Longrightarrow> f (n + of_nat i) = ss ! i) \<Longrightarrow> table_from f n ss"
proof (induction ss arbitrary: n)
  case (Cons s ss)
  from Cons.prems[of 0] have "f n = s" by simp
  moreover have "table_from f (n + 1) ss"
  proof (rule Cons.IH)
    fix i assume "i < length ss"
    then show "f (n + 1 + of_nat i) = ss ! i" using Cons.prems[of "Suc i"] by (simp add: add.assoc)
  qed
  ultimately show ?case by simp
qed simp

lemma sbox_table: "table_from sbox 0 SBOX"
  by (rule table_fromI) (simp add: sbox_def length_SBOX unat_of_nat take_bit_eq_mod)

lemmas sbox_eval = sbox_table[unfolded SBOX_def, simplified]



lemma shift_rows_list:
  "shift_rows [a, b, c, d, e, f, g, h, i, j, k, l, m, n, p, q] = [a, f, k, q, e, j, p, d, i, n, c, h, m, b, g, l]"
  by (simp add: shift_rows_def upt16)

lemma mix_columns_list:
  "mix_columns [a, b, c, d, e, f, g, h, i, j, k, l, m, n, p, q]
     = mix_column [a, b, c, d] @ mix_column [e, f, g, h] @ mix_column [i, j, k, l] @ mix_column [m, n, p, q]"
  by (simp add: mix_columns_16)

lemma xor_bytes_list [simp]: "xor_bytes [] ys = []" "xor_bytes (x # xs) (y # ys) = (x XOR y) # xor_bytes xs ys"
  by (simp_all add: xor_bytes_def)

lemma round_keys_chunks:
  "length w = 4 * n \<Longrightarrow> map (\<lambda>r. concat (map (\<lambda>c. w ! (4 * r + c)) [0..<4])) [0..<n] = map concat (chunks 4 w)"
proof (induction n arbitrary: w)
  case (Suc n)
  then obtain a b c d w' where w: "w = a # b # c # d # w'" "length w' = 4 * n" by (auto simp: numeral_eq_Suc length_Suc_conv)
  have "map (\<lambda>r. concat (map (\<lambda>c. w ! (4 * r + c)) [0..<4])) [0..<Suc n]
      = concat (map (\<lambda>c. w ! c) [0..<4]) # map (\<lambda>r. concat (map (\<lambda>c. w ! (4 * Suc r + c)) [0..<4])) [0..<n]"
    unfolding upt_conv_Cons[OF zero_less_Suc] map_Suc_upt[symmetric] by (simp add: comp_def)
  then show ?case using Suc.IH[OF w(2)] by (simp add: w(1) upt4)
qed simp

lemma expand_key_chunks: "length key = 16 \<Longrightarrow> expand_key key = map concat (chunks 4 (key_words key 44))"
  using round_keys_chunks[of "key_words key 44" 11] length_key_words[of key 44] by (simp add: expand_key_def Let_def del: upt_rec_numeral)

lemma key_word_at:
  "key_word (x # w) (numeral i) =
     (if numeral i mod 4 = (0::nat)
      then xor_bytes ((x # w) ! (numeral i - 4))
        [sbox ((x # w) ! (numeral i - 1) ! 1) XOR RCON ! (numeral i div 4 - 1), sbox ((x # w) ! (numeral i - 1) ! 2),
         sbox ((x # w) ! (numeral i - 1) ! 3), sbox ((x # w) ! (numeral i - 1) ! 0)]
      else xor_bytes ((x # w) ! (numeral i - 4)) ((x # w) ! (numeral i - 1)))"
  by (simp only: key_word_def Let_def) simp

definition aes_with :: "bytes list \<Rightarrow> bytes \<Rightarrow> bytes" where
  "aes_with rk x = add_round_key (shift_rows (sub_bytes (foldl aes_round (add_round_key x (rk ! 0)) (take 9 (drop 1 rk))))) (rk ! 10)"

lemma aes128_with: "aes128 key x = aes_with (expand_key key) x"
  by (simp add: aes128_def Let_def aes_with_def)

lemma aes_with_list:
  "aes_with [k0, k1, k2, k3, k4, k5, k6, k7, k8, k9, k10] x =
     add_round_key (shift_rows (sub_bytes (aes_round (aes_round (aes_round (aes_round (aes_round (aes_round (aes_round (aes_round (aes_round
       (add_round_key x k0) k1) k2) k3) k4) k5) k6) k7) k8) k9))) k10"
  by (simp add: aes_with_def)

lemma aes_round_list:
  "aes_round [a, b, c, d, e, f, g, h, i, j, k, l, m, n, p, q] rk =
     xor_bytes (mix_columns (shift_rows (map sbox [a, b, c, d, e, f, g, h, i, j, k, l, m, n, p, q]))) rk"
  by (simp add: aes_round_def add_round_key_def sub_bytes_def)

lemma sub_bytes_list: "sub_bytes (a # s) = sbox a # map sbox s"
  by (simp add: sub_bytes_def)

lemma xtime_small: "xtime b = push_bit 1 (b AND 0x7f) XOR (if b AND 0x80 = 0 then 0 else 0x1b)"
proof -
  have "push_bit 1 (b AND 0x7f) = push_bit 1 b"
  proof (rule bit_word_eqI)
    fix n assume n: "n < LENGTH(8)"
    have m: "(0x7f :: u8) = mask 7" by (simp add: mask_eq_exp_minus_1)
    show "bit (push_bit 1 (b AND 0x7f)) n = bit (push_bit 1 b) n"
      using n unfolding m bit_push_bit_iff bit_and_iff bit_mask_iff by auto
  qed
  then show ?thesis by (simp add: xtime_def)
qed

lemma zero16: "replicate 16 0 = [0, 0, 0, 0, 0, 0, 0, 0, 0, 0, 0, 0, 0, 0, 0, 0]"
  by (simp add: numeral_eq_Suc)

lemmas aes_eval = aes128_with aes_with_list aes_round_list sub_bytes_list expand_key_chunks key_words_def upt4 key_word_at RCON_def
  add_round_key_def shift_rows_list mix_columns_list mix_column_4 sbox_eval xtime_small zero16



lemma aes_zero_block:
  "aes128 [0, 0, 0, 0, 0, 0, 0, 0, 0, 0, 0, 0, 0, 0, 0, 0]
     [0, 0, 0, 0, 0, 0, 0, 0, 0, 0, 0, 0, 0, 0, 0, 0]
   = [0x66, 0xe9, 0x4b, 0xd4, 0xef, 0x8a, 0x2c, 0x3b, 0x88, 0x4c, 0xfa, 0x59, 0xca, 0x34, 0x2b, 0x2e]"
  by (simp add: aes_eval)

lemma aes_zero_cmac:
  "aes128 [0, 0, 0, 0, 0, 0, 0, 0, 0, 0, 0, 0, 0, 0, 0, 0]
     [0xc8, 0xec, 0x7d, 0x18, 0xdb, 0x46, 0xd3, 0x6e, 0x21, 0x33, 0xe9, 0x67, 0x28, 0xd0, 0xac, 0x3f]
   = [0x69, 1, 0x98, 0x3f, 0x18, 0x14, 0x9e, 0x82, 0x3c, 0x7d, 0x13, 0x3a, 0x7d, 0x77, 0x45, 0x72]"
  by (simp add: aes_eval)

lemma aes_s1_zero:
  "aes128 [0x69, 1, 0x98, 0x3f, 0x18, 0x14, 0x9e, 0x82, 0x3c, 0x7d, 0x13, 0x3a, 0x7d, 0x77, 0x45, 0x72]
     [0, 0, 0, 0, 0, 0, 0, 0, 0, 0, 0, 0, 0, 0, 0, 0]
   = [0x0d, 0x73, 0x47, 0xe3, 0x0b, 0xc7, 0x37, 0x33, 0x93, 0x39, 0xfe, 0x6f, 0x89, 0xeb, 0xde, 0x18]"
  by (simp add: aes_eval)

lemma aes_s1_cmac:
  "aes128 [0x69, 1, 0x98, 0x3f, 0x18, 0x14, 0x9e, 0x82, 0x3c, 0x7d, 0x13, 0x3a, 0x7d, 0x77, 0x45, 0x72]
     [0x7d, 0x88, 0x94, 0x5d, 0xc3, 0xc6, 0x07, 0x08, 0x20, 0x6d, 0x3a, 0xfd, 0x2f, 0x32, 0x72, 0xe9]
   = [0x85, 0x04, 0xff, 0x19, 0xdc, 0x88, 0xa2, 0x86, 0x63, 0xf3, 0xcc, 0xfc, 0x5f, 0x88, 0xc6, 0x38]"
  by (simp add: aes_eval)

lemma aes_t_zero:
  "aes128 [0x85, 0x04, 0xff, 0x19, 0xdc, 0x88, 0xa2, 0x86, 0x63, 0xf3, 0xcc, 0xfc, 0x5f, 0x88, 0xc6, 0x38]
     [0, 0, 0, 0, 0, 0, 0, 0, 0, 0, 0, 0, 0, 0, 0, 0]
   = [0x59, 0x8a, 0xb5, 0x26, 0x5a, 0xf4, 0xf9, 0x6a, 0xda, 0x46, 0xd5, 0x9a, 0x9d, 0xec, 0x09, 0x6b]"
  by (simp add: aes_eval)

lemma aes_t_cmac:
  "aes128 [0x85, 0x04, 0xff, 0x19, 0xdc, 0x88, 0xa2, 0x86, 0x63, 0xf3, 0xcc, 0xfc, 0x5f, 0x88, 0xc6, 0x38]
     [0x05, 0x59, 0xbd, 0xea, 0xeb, 0xd3, 0xe5, 0xab, 0x69, 0x1b, 0x56, 0x6a, 0x77, 0xb0, 0x25, 0x2b]
   = [0x52, 0x77, 0x45, 0x3c, 0xc0, 0x94, 0xd9, 0x82, 0xb0, 0xe8, 0xee, 0x53, 0x2f, 0x2d, 0x1f, 0x8b]"
  by (simp add: aes_eval)

lemma aes_sirk_sih:
  "aes128 [0x45, 0x7d, 0x7d, 0x09, 0x21, 0xa1, 0xfd, 0x22, 0xce, 0xcd, 0x8c, 0x86, 0xdd, 0x72, 0xcc, 0xcd]
     [0, 0, 0, 0, 0, 0, 0, 0, 0, 0, 0, 0, 0, 0x69, 0xf5, 0x63]
   = [0x3f, 0xb0, 0x53, 0x49, 0x94, 0xe4, 0x8c, 0xd8, 0x02, 0x2b, 0x55, 0x90, 0x9b, 0x19, 0x48, 0xda]"
  by (simp add: aes_eval)

lemma subkeys:
  "cmac_double [0x66, 0xe9, 0x4b, 0xd4, 0xef, 0x8a, 0x2c, 0x3b, 0x88, 0x4c, 0xfa, 0x59, 0xca, 0x34, 0x2b, 0x2e]
     = [0xcd, 0xd2, 0x97, 0xa9, 0xdf, 0x14, 0x58, 0x77, 0x10, 0x99, 0xf4, 0xb3, 0x94, 0x68, 0x56, 0x5c]"
  "cmac_double [0xcd, 0xd2, 0x97, 0xa9, 0xdf, 0x14, 0x58, 0x77, 0x10, 0x99, 0xf4, 0xb3, 0x94, 0x68, 0x56, 0x5c]
     = [0x9b, 0xa5, 0x2f, 0x53, 0xbe, 0x28, 0xb0, 0xee, 0x21, 0x33, 0xe9, 0x67, 0x28, 0xd0, 0xac, 0x3f]"
  "cmac_double [0x0d, 0x73, 0x47, 0xe3, 0x0b, 0xc7, 0x37, 0x33, 0x93, 0x39, 0xfe, 0x6f, 0x89, 0xeb, 0xde, 0x18]
     = [0x1a, 0xe6, 0x8f, 0xc6, 0x17, 0x8e, 0x6e, 0x67, 0x26, 0x73, 0xfc, 0xdf, 0x13, 0xd7, 0xbc, 0x30]"
  "cmac_double [0x1a, 0xe6, 0x8f, 0xc6, 0x17, 0x8e, 0x6e, 0x67, 0x26, 0x73, 0xfc, 0xdf, 0x13, 0xd7, 0xbc, 0x30]
     = [0x35, 0xcd, 0x1f, 0x8c, 0x2f, 0x1c, 0xdc, 0xce, 0x4c, 0xe7, 0xf9, 0xbe, 0x27, 0xaf, 0x78, 0x60]"
  "cmac_double [0x59, 0x8a, 0xb5, 0x26, 0x5a, 0xf4, 0xf9, 0x6a, 0xda, 0x46, 0xd5, 0x9a, 0x9d, 0xec, 0x09, 0x6b]
     = [0xb3, 0x15, 0x6a, 0x4c, 0xb5, 0xe9, 0xf2, 0xd5, 0xb4, 0x8d, 0xab, 0x35, 0x3b, 0xd8, 0x12, 0xd6]"
  "cmac_double [0xb3, 0x15, 0x6a, 0x4c, 0xb5, 0xe9, 0xf2, 0xd5, 0xb4, 0x8d, 0xab, 0x35, 0x3b, 0xd8, 0x12, 0xd6]
     = [0x66, 0x2a, 0xd4, 0x99, 0x6b, 0xd3, 0xe5, 0xab, 0x69, 0x1b, 0x56, 0x6a, 0x77, 0xb0, 0x25, 0x2b]"
  by (simp_all add: cmac_double_def Let_def)

lemma ascii_eval: "ascii_bytes ''SIRKenc'' = [0x53, 0x49, 0x52, 0x4b, 0x65, 0x6e, 0x63]" "ascii_bytes ''csis'' = [0x63, 0x73, 0x69, 0x73]"
  by (simp_all add: ascii_bytes_def)

lemma cmac_one:
  assumes "msg \<noteq> []" "length msg < 16"
  shows "aes_cmac key msg = aes128 key (xor_bytes (replicate 16 0) (xor_bytes (msg @ [0x80] @ replicate (15 - length msg) 0)
      (cmac_double (cmac_double (aes128 key (replicate 16 0))))))"
proof -
  have "(length msg + 15) div 16 = 1" using assms by (cases msg) (auto simp: div_nat_eqI)
  then show ?thesis using assms by (simp add: aes_cmac_def Let_def)
qed

lemma cmac_block:
  assumes "length msg = 16"
  shows "aes_cmac key msg = aes128 key (xor_bytes (replicate 16 0) (xor_bytes msg (cmac_double (aes128 key (replicate 16 0)))))"
  using assms by (auto simp: aes_cmac_def Let_def)

lemma samples:
  "SAMPLE_SIRK = [0x45, 0x7d, 0x7d, 0x09, 0x21, 0xa1, 0xfd, 0x22, 0xce, 0xcd, 0x8c, 0x86, 0xdd, 0x72, 0xcc, 0xcd]"
  "SAMPLE_LTK = [0x67, 0x6e, 0x1b, 0x9b, 0xd4, 0x48, 0x69, 0x6f, 0x06, 0x1e, 0xc6, 0x22, 0x3c, 0xe5, 0xce, 0xd9]"
  "SAMPLE_S1 = [0x69, 1, 0x98, 0x3f, 0x18, 0x14, 0x9e, 0x82, 0x3c, 0x7d, 0x13, 0x3a, 0x7d, 0x77, 0x45, 0x72]"
  "SAMPLE_K1 = [0x52, 0x77, 0x45, 0x3c, 0xc0, 0x94, 0xd9, 0x82, 0xb0, 0xe8, 0xee, 0x53, 0x2f, 0x2d, 0x1f, 0x8b]"
  "SAMPLE_ENC_SIRK = [0x17, 0x0a, 0x38, 0x35, 0xe1, 0x35, 0x24, 0xa0, 0x7e, 0x25, 0x62, 0xd5, 0xf2, 0x5f, 0xd3, 0x46]"
  by (simp_all add: SAMPLE_SIRK_def SAMPLE_LTK_def SAMPLE_S1_def SAMPLE_K1_def SAMPLE_ENC_SIRK_def hex_def hex_nibble_def Let_def)

lemma zeros: "replicate 8 0 = [0, 0, 0, 0, 0, 0, 0, 0]" "replicate 11 0 = [0, 0, 0, 0, 0, 0, 0, 0, 0, 0, 0]"
  "replicate 13 0 = [0, 0, 0, 0, 0, 0, 0, 0, 0, 0, 0, 0, 0]"
  by (simp_all add: numeral_eq_Suc)

lemmas cmac_eval = zero16 zeros aes_zero_block aes_zero_cmac aes_s1_zero aes_s1_cmac aes_t_zero aes_t_cmac subkeys

lemma s1_value: "csis_s1 (ascii_bytes ''SIRKenc'') = SAMPLE_S1"
  by (simp add: csis_s1_def ascii_eval cmac_one samples cmac_eval)

lemma k1_value: "csis_k1 SAMPLE_LTK SAMPLE_S1 (ascii_bytes ''csis'') = SAMPLE_K1"
  by (simp add: csis_k1_def ascii_eval cmac_one cmac_block samples cmac_eval)

lemma sih_value: "sih SAMPLE_SIRK 0x69f563 = 0x1948da"
proof -
  have u: "ucast (drop_bit 16 (0x69f563 :: u32)) = (0x69 :: u8)" "ucast (drop_bit 8 (0x69f563 :: u32)) = (0xf5 :: u8)"
    "ucast (0x69f563 :: u32) = (0x63 :: u8)" by simp_all
  show ?thesis unfolding sih_def Let_def u by (simp add: samples zeros aes_sirk_sih)
qed

text \<open>The self test of the crypto module, which the program runs when coordinated sets are used, succeeds: the sample
  data of the specification (salt, derived key, set key encryption and decryption, hash, RSI) come out bit by bit.\<close>

lemma csis_self_test: "self_test"
proof -
  have e: "sef SAMPLE_LTK SAMPLE_SIRK = SAMPLE_ENC_SIRK" "sdf SAMPLE_LTK SAMPLE_ENC_SIRK = SAMPLE_SIRK"
    unfolding sdf_def sef_def s1_value k1_value by (simp_all add: samples)
  have "of_le32 0xda 0x48 0x19 0 = 0x1948da" "of_le32 0x63 0xf5 0x69 0 = 0x69f563" by (simp_all add: of_le32_def)
  then have "rsi_matches SAMPLE_SIRK [0xda, 0x48, 0x19, 0x63, 0xf5, 0x69]" using sih_value by (simp add: rsi_matches_def)
  then show ?thesis using e s1_value k1_value sih_value by (simp add: self_test_def)
qed

end
