(* ===== verification/Db_Hash.thy ===== *)
theory Db_Hash
  imports Csip_Crypto
begin

text \<open>
  The hash of the GATT database, \<^verbatim>\<open>app/src/crates/le-audio/src/db_hash.rs\<close>: the message of the Core specification from a list of
  attributes and from a BTstack attribute database blob, the hash, and writing it into the blob.
  A blob is a version byte, then per attribute its size, flags, handle, UUID and value; size 0 ends it.

  Shown: on the blob of a list of attributes the blob reader finds exactly the message of the list, and writing the hash into the
  database changes that value only and leaves the hash as it was.
\<close>

subsection \<open>The message\<close>

datatype att_uuid = Uuid16 u16 | Uuid128 bytes

record hash_attr =
  ha_handle :: u16
  ha_uuid :: att_uuid
  ha_value :: bytes

definition hashed_with_value :: "u16 \<Rightarrow> bool" where
  "hashed_with_value u \<longleftrightarrow> u \<in> {0x2800, 0x2801, 0x2802, 0x2803, 0x2900}"

definition hashed_without_value :: "u16 \<Rightarrow> bool" where
  "hashed_without_value u \<longleftrightarrow> 0x2901 \<le> u \<and> u \<le> 0x2905"

definition hash_attr_bytes :: "hash_attr \<Rightarrow> bytes" where
  "hash_attr_bytes a =
     (case ha_uuid a of
        Uuid128 _ \<Rightarrow> []
      | Uuid16 t \<Rightarrow>
          if hashed_with_value t \<or> hashed_without_value t
          then le16_bytes (ha_handle a) @ le16_bytes t @ (if hashed_with_value t then ha_value a else [])
          else [])"

definition hash_input :: "hash_attr list \<Rightarrow> bytes" where
  "hash_input attrs = concat (map hash_attr_bytes attrs)"

subsection \<open>The blob\<close>

definition FLAG_UUID128 :: u16 where
  "FLAG_UUID128 = 0x200"

definition db_rd16 :: "bytes \<Rightarrow> nat \<Rightarrow> u16 option" where
  "db_rd16 db p = (if p + 1 < length db then Some (of_le16 (db ! p) (db ! (p + 1))) else None)"

definition uuid_len :: "u16 \<Rightarrow> nat" where
  "uuid_len flags = (if bit_set flags FLAG_UUID128 then 16 else 2)"

record att_entry =
  ae_pos :: nat
  ae_size :: nat
  ae_flags :: u16
  ae_handle :: u16

function entries_at :: "bytes \<Rightarrow> nat \<Rightarrow> att_entry list \<Rightarrow> att_entry list option" where
  "entries_at db pos out =
     (case db_rd16 db pos of
        None \<Rightarrow> None
      | Some sz \<Rightarrow>
          let size = unat sz
          in if size = 0 then Some out
             else (case db_rd16 db (pos + 2) of
                     None \<Rightarrow> None
                   | Some flags \<Rightarrow>
                       if size < 6 + uuid_len flags \<or> length db < pos + size then None
                       else (case db_rd16 db (pos + 4) of
                               None \<Rightarrow> None
                             | Some h \<Rightarrow> entries_at db (pos + size)
                                 (out @ [\<lparr> ae_pos = pos, ae_size = size, ae_flags = flags, ae_handle = h \<rparr>]))))"
  by pat_completeness auto
termination
  by (relation "measure (\<lambda>(db, pos, _). length db - pos)") (auto simp: db_rd16_def split: if_splits)

declare entries_at.simps [simp del]

definition att_db_entries :: "bytes \<Rightarrow> att_entry list option" where
  "att_db_entries db = entries_at db 1 []"

definition entry_input :: "bytes \<Rightarrow> att_entry \<Rightarrow> bytes" where
  "entry_input db e =
     (if bit_set (ae_flags e) FLAG_UUID128 then []
      else let u = of_le16 (db ! (ae_pos e + 6)) (db ! (ae_pos e + 7))
           in if hashed_with_value u then subslice db (ae_pos e + 4) (ae_pos e + ae_size e)
              else if hashed_without_value u then subslice db (ae_pos e + 4) (ae_pos e + 8)
              else [])"

definition hash_input_from_att_db :: "bytes \<Rightarrow> bytes option" where
  "hash_input_from_att_db db = map_option (\<lambda>es. concat (map (entry_input db) es)) (att_db_entries db)"

definition database_hash :: "bytes \<Rightarrow> bytes" where
  "database_hash input = rev (aes_cmac (replicate 16 0) input)"

text \<open>\<^verbatim>\<open>patch_att_db\<close>: the database after it, and whether it wrote.\<close>

definition patch_att_db :: "bytes \<Rightarrow> u16 \<Rightarrow> bytes \<Rightarrow> bytes \<times> bool" where
  "patch_att_db db value_handle hash =
     (case att_db_entries db of
        None \<Rightarrow> (db, False)
      | Some es \<Rightarrow>
          (case List.find (\<lambda>e. ae_handle e = value_handle) es of
             None \<Rightarrow> (db, False)
           | Some e \<Rightarrow>
               if ae_size e \<noteq> 6 + uuid_len (ae_flags e) + 16 then (db, False)
               else (take (ae_pos e + 6 + uuid_len (ae_flags e)) db @ hash @ drop (ae_pos e + ae_size e) db, True)))"

subsection \<open>The blob of a list of attributes\<close>

fun uuid_bytes :: "att_uuid \<Rightarrow> bytes" where
  "uuid_bytes (Uuid16 u) = le16_bytes u"
| "uuid_bytes (Uuid128 b) = b"

fun attr_flags :: "u16 \<Rightarrow> att_uuid \<Rightarrow> u16" where
  "attr_flags f (Uuid16 _) = f AND NOT FLAG_UUID128"
| "attr_flags f (Uuid128 _) = f OR FLAG_UUID128"

declare attr_flags.simps [simp del]

definition attr_size :: "hash_attr \<Rightarrow> nat" where
  "attr_size a = 6 + length (uuid_bytes (ha_uuid a)) + length (ha_value a)"

definition attr_bytes :: "u16 \<times> hash_attr \<Rightarrow> bytes" where
  "attr_bytes = (\<lambda>(f, a). le16_bytes (of_nat (attr_size a)) @ le16_bytes (attr_flags f (ha_uuid a)) @ le16_bytes (ha_handle a)
     @ uuid_bytes (ha_uuid a) @ ha_value a)"

definition att_db :: "u8 \<Rightarrow> (u16 \<times> hash_attr) list \<Rightarrow> bytes" where
  "att_db version attrs = version # concat (map attr_bytes attrs) @ [0, 0]"

definition attr_ok :: "hash_attr \<Rightarrow> bool" where
  "attr_ok a \<longleftrightarrow> attr_size a < 65536 \<and> (case ha_uuid a of Uuid16 _ \<Rightarrow> True | Uuid128 b \<Rightarrow> length b = 16)"

definition entry_of :: "nat \<Rightarrow> u16 \<times> hash_attr \<Rightarrow> att_entry" where
  "entry_of pos = (\<lambda>(f, a). \<lparr> ae_pos = pos, ae_size = attr_size a, ae_flags = attr_flags f (ha_uuid a), ae_handle = ha_handle a \<rparr>)"

fun layout_from :: "nat \<Rightarrow> (u16 \<times> hash_attr) list \<Rightarrow> att_entry list" where
  "layout_from pos [] = []"
| "layout_from pos (x # xs) = entry_of pos x # layout_from (pos + attr_size (snd x)) xs"

lemma flag_simps: "bit_set (attr_flags f u) FLAG_UUID128 \<longleftrightarrow> (case u of Uuid16 _ \<Rightarrow> False | Uuid128 _ \<Rightarrow> True)"
proof -
  have "(f AND NOT FLAG_UUID128) AND FLAG_UUID128 = 0" by (simp add: and.assoc)
  moreover have "(f OR FLAG_UUID128) AND FLAG_UUID128 \<noteq> 0" by (rule or_and_nonzero) (simp add: FLAG_UUID128_def)
  ultimately show ?thesis by (cases u) (simp_all add: bit_set_def attr_flags.simps)
qed

lemma uuid_len_ok: "attr_ok a \<Longrightarrow> uuid_len (attr_flags f (ha_uuid a)) = length (uuid_bytes (ha_uuid a))"
  by (auto simp: uuid_len_def flag_simps attr_ok_def split: att_uuid.splits)

lemma length_attr_bytes [simp]: "length (attr_bytes x) = attr_size (snd x)"
  by (simp add: attr_bytes_def attr_size_def split_beta)

lemma db_rd16_at: "db_rd16 (pre @ le16_bytes w @ post) (length pre) = Some w"
  by (simp add: db_rd16_def nth_append le16_bytes_def)

lemma db_rd16_at': "length pre = n \<Longrightarrow> db_rd16 (pre @ le16_bytes w @ post) n = Some w"
  using db_rd16_at by blast

lemma entries_at_attr:
  assumes "attr_ok (snd x)"
  shows "entries_at (pre @ attr_bytes x @ post) (length pre) out
     = entries_at (pre @ attr_bytes x @ post) (length pre + attr_size (snd x)) (out @ [entry_of (length pre) x])"
proof -
  obtain f a where x: "x = (f, a)" by (cases x)
  let ?db = "pre @ attr_bytes x @ post"
  let ?s = "le16_bytes (of_nat (attr_size a))" and ?f = "le16_bytes (attr_flags f (ha_uuid a))" and ?h = "le16_bytes (ha_handle a)"
  have u: "unat (of_nat (attr_size a) :: u16) = attr_size a"
    using assms by (simp add: x attr_ok_def unat_of_nat take_bit_eq_mod)
  have db: "?db = pre @ ?s @ ?f @ ?h @ uuid_bytes (ha_uuid a) @ ha_value a @ post" by (simp add: attr_bytes_def x)
  have r: "db_rd16 ?db (length pre) = Some (of_nat (attr_size a))" "db_rd16 ?db (length pre + 2) = Some (attr_flags f (ha_uuid a))"
    "db_rd16 ?db (length pre + 4) = Some (ha_handle a)"
    unfolding db using db_rd16_at[of pre] db_rd16_at'[of "pre @ ?s" "length pre + 2"] db_rd16_at'[of "pre @ ?s @ ?f" "length pre + 4"] by simp_all
  have "6 + uuid_len (attr_flags f (ha_uuid a)) \<le> attr_size a" "attr_size a \<noteq> 0"
    using uuid_len_ok[of a f] assms by (simp_all add: attr_size_def x)
  moreover have "length pre + attr_size a \<le> length ?db" by (simp add: x)
  ultimately show ?thesis
    by (subst entries_at.simps) (simp add: r[unfolded x, simplified] u x entry_of_def not_less Let_def)
qed

lemma entries_at_end: "entries_at (pre @ [0, 0] @ post) (length pre) out = Some out"
  using db_rd16_at[of pre 0 post] by (subst entries_at.simps) (simp add: le16_bytes_def)

lemma entries_at_layout:
  "\<forall>x\<in>set xs. attr_ok (snd x) \<Longrightarrow>
   entries_at (pre @ concat (map attr_bytes xs) @ [0, 0]) (length pre) out = Some (out @ layout_from (length pre) xs)"
proof (induction xs arbitrary: pre out)
  case Nil
  then show ?case using entries_at_end[of pre "[]"] by simp
next
  case (Cons x xs)
  then show ?case
    using entries_at_attr[of x pre "concat (map attr_bytes xs) @ [0, 0]" out]
      Cons.IH[of "pre @ attr_bytes x" "out @ [entry_of (length pre) x]"] by simp
qed

lemma att_db_entries_layout: "\<forall>x\<in>set xs. attr_ok (snd x) \<Longrightarrow> att_db_entries (att_db v xs) = Some (layout_from 1 xs)"
  using entries_at_layout[of xs "[v]" "[]"] by (simp add: att_db_entries_def att_db_def)

lemma subslice_mid: "subslice (pre @ xs @ post) (length pre + a) (length pre + b) = subslice (xs @ post) a b"
  by (simp add: subslice_def)

lemma entry_input_attr:
  assumes "attr_ok (snd x)"
  shows "entry_input (pre @ attr_bytes x @ post) (entry_of (length pre) x) = hash_attr_bytes (snd x)"
proof -
  obtain f a where x: "x = (f, a)" by (cases x)
  have mid: "subslice (pre @ attr_bytes x @ post) (length pre + i) (length pre + j) = take (j - i) (drop i (attr_bytes x) @ post)"
    if "i \<le> attr_size a" for i j using that by (simp add: subslice_mid) (simp add: subslice_def x)
  show ?thesis
  proof (cases "ha_uuid a")
    case (Uuid128 b)
    then show ?thesis by (simp add: entry_input_def entry_of_def x flag_simps hash_attr_bytes_def)
  next
    case (Uuid16 t)
    have at: "attr_bytes x = le16_bytes (of_nat (attr_size a)) @ le16_bytes (attr_flags f (Uuid16 t)) @ le16_bytes (ha_handle a) @ le16_bytes t @ ha_value a"
      "attr_size a = 8 + length (ha_value a)" by (simp_all add: attr_bytes_def x Uuid16 attr_size_def)
    have "of_le16 ((pre @ attr_bytes x @ post) ! (length pre + 6)) ((pre @ attr_bytes x @ post) ! (length pre + 7)) = t"
      using db_rd16_at'[of "pre @ take 6 (attr_bytes x)" "length pre + 6" t "ha_value a @ post"] at(2)
      by (simp add: db_rd16_def at(1) le16_bytes_def nth_append split: if_splits)
    then show ?thesis
      using Uuid16 at(2) mid[of 4 "attr_size a"] mid[of 4 8]
      by (simp add: entry_input_def entry_of_def x flag_simps hash_attr_bytes_def Let_def) (simp add: at(1)[unfolded x] le16_bytes_def)
  qed
qed

lemma layout_input:
  "\<forall>x\<in>set xs. attr_ok (snd x) \<Longrightarrow>
   concat (map (entry_input (pre @ concat (map attr_bytes xs) @ post)) (layout_from (length pre) xs)) = hash_input (map snd xs)"
proof (induction xs arbitrary: pre)
  case (Cons x xs)
  then show ?case
    using entry_input_attr[of x pre "concat (map attr_bytes xs) @ post"] Cons.IH[of "pre @ attr_bytes x"] by (simp add: hash_input_def)
qed (simp add: hash_input_def)

lemma blob_input: "\<forall>x\<in>set xs. attr_ok (snd x) \<Longrightarrow> hash_input_from_att_db (att_db v xs) = Some (hash_input (map snd xs))"
  using layout_input[of xs "[v]" "[0, 0]"] att_db_entries_layout[of xs v] by (simp add: hash_input_from_att_db_def att_db_def)

lemma layout_append: "layout_from p (us @ vs) = layout_from p us @ layout_from (p + sum_list (map (attr_size \<circ> snd) us)) vs"
  by (induction us arbitrary: p) (simp_all add: add.assoc)

lemma layout_handles: "map ae_handle (layout_from p xs) = map (ha_handle \<circ> snd) xs"
  by (induction xs arbitrary: p) (simp_all add: entry_of_def split_beta)

lemma length_attrs: "length (concat (map attr_bytes us)) = sum_list (map (attr_size \<circ> snd) us)"
  by (induction us) simp_all

lemma find_layout:
  assumes "\<forall>u\<in>set us. ha_handle (snd u) \<noteq> h" "ha_handle (snd x) = h"
  shows "List.find (\<lambda>e. ae_handle e = h) (layout_from p (us @ x # vs)) = Some (entry_of (p + sum_list (map (attr_size \<circ> snd) us)) x)"
proof -
  have "\<forall>e\<in>set (layout_from p us). ae_handle e \<noteq> h"
  proof
    fix e assume "e \<in> set (layout_from p us)"
    then have "ae_handle e \<in> set (map ae_handle (layout_from p us))" by simp
    then show "ae_handle e \<noteq> h" using assms(1) unfolding layout_handles by auto
  qed
  moreover have "ae_handle (entry_of q x) = h" for q using assms(2) by (simp add: entry_of_def split_beta)
  ultimately show ?thesis unfolding find_Some_split layout_append layout_from.simps by blast
qed

definition with_value :: "bytes \<Rightarrow> u16 \<times> hash_attr \<Rightarrow> u16 \<times> hash_attr" where
  "with_value hash = map_prod id (\<lambda>a. a\<lparr> ha_value := hash \<rparr>)"

lemma patch_found:
  assumes ok: "\<forall>y\<in>set (us @ x # vs). attr_ok (snd y)" and h: "\<forall>u\<in>set us. ha_handle (snd u) \<noteq> h" "ha_handle (snd x) = h"
    and len: "length (ha_value (snd x)) = 16" "length hash = 16"
  shows "patch_att_db (att_db v (us @ x # vs)) h hash = (att_db v (us @ with_value hash x # vs), True)"
proof -
  obtain f a where x: "x = (f, a)" by (cases x)
  let ?pre = "v # concat (map attr_bytes us)" and ?post = "concat (map attr_bytes vs) @ [0, 0]" and ?n = "length (uuid_bytes (ha_uuid a))"
  let ?head = "le16_bytes (of_nat (attr_size a)) @ le16_bytes (attr_flags f (ha_uuid a)) @ le16_bytes (ha_handle a) @ uuid_bytes (ha_uuid a)"
  have ul: "uuid_len (attr_flags f (ha_uuid a)) = ?n" using ok by (intro uuid_len_ok) (simp add: x)
  have sz: "attr_size a = 6 + ?n + 16" "attr_size (a\<lparr> ha_value := hash \<rparr>) = attr_size a"
    using len by (simp_all add: attr_size_def x)
  have db: "att_db v (us @ x # vs) = (?pre @ ?head) @ (ha_value a @ ?post)" by (simp add: att_db_def attr_bytes_def x)
  have pos: "1 + sum_list (map (attr_size \<circ> snd) us) = length ?pre" by (simp add: length_attrs)
  have e: "att_db_entries (att_db v (us @ x # vs)) = Some (layout_from 1 (us @ x # vs))" by (rule att_db_entries_layout[OF ok])
  define A where "A = ?pre @ ?head"
  have A: "length A = length ?pre + 6 + ?n" "att_db v (us @ x # vs) = A @ ha_value a @ ?post" by (simp_all add: A_def db)
  have "take (length ?pre + 6 + ?n) (att_db v (us @ x # vs)) = A" unfolding A(1)[symmetric] A(2) by simp
  moreover have "length ?pre + attr_size a = length (A @ ha_value a)" using sz(1) len(1) A(1) by (simp add: x)
  then have "drop (length ?pre + attr_size a) (att_db v (us @ x # vs)) = ?post" by (simp only: A(2) append_assoc[symmetric] drop_append) (simp del: append_assoc)
  ultimately show ?thesis
    unfolding patch_att_db_def e option.case find_layout[OF h] pos
    using sz ul by (simp add: entry_of_def x A_def with_value_def) (simp add: att_db_def attr_bytes_def)
qed

lemma hash_input_append: "hash_input (xs @ ys) = hash_input xs @ hash_input ys"
  by (simp add: hash_input_def)

text \<open>C40. The Database Hash: reading the attribute database blob gives the message of its attribute list, for every list of
  attributes that a blob can hold; and when the value of the first attribute with a handle has 16 bytes, writing the hash
  there succeeds, replaces exactly that value in the blob, and leaves the message (so the hash) unchanged, provided the
  attribute is not one whose value is hashed.\<close>

theorem db_hash_blob:
  assumes "\<forall>y\<in>set (us @ x # vs). attr_ok (snd y)" "\<forall>u\<in>set us. ha_handle (snd u) \<noteq> h" "ha_handle (snd x) = h"
    and "length (ha_value (snd x)) = 16" "length hash = 16" "\<forall>t. ha_uuid (snd x) = Uuid16 t \<longrightarrow> \<not> hashed_with_value t"
  shows "hash_input_from_att_db (att_db v (us @ x # vs)) = Some (hash_input (map snd (us @ x # vs)))
     \<and> patch_att_db (att_db v (us @ x # vs)) h hash = (att_db v (us @ with_value hash x # vs), True)
     \<and> hash_input_from_att_db (att_db v (us @ with_value hash x # vs)) = hash_input_from_att_db (att_db v (us @ x # vs))"
proof -
  have ok: "\<forall>y\<in>set (us @ with_value hash x # vs). attr_ok (snd y)"
    using assms(1,4,5) by (auto simp: with_value_def attr_ok_def attr_size_def split: att_uuid.splits)
  have "hash_attr_bytes (snd (with_value hash x)) = hash_attr_bytes (snd x)"
    using assms(6) by (auto simp: hash_attr_bytes_def with_value_def split: att_uuid.splits)
  then have "hash_input (map snd (us @ with_value hash x # vs)) = hash_input (map snd (us @ x # vs))"
    by (simp add: hash_input_def)
  then show ?thesis using blob_input[OF assms(1), of v] blob_input[OF ok, of v] patch_found[OF assms(1-5)] by simp
qed

theorem db_hash_blob_witness:
  "patch_att_db (att_db 1 [(2, \<lparr> ha_handle = 1, ha_uuid = Uuid16 0x2800, ha_value = [0, 0x18] \<rparr>),
       (2, \<lparr> ha_handle = 3, ha_uuid = Uuid16 0x2B2A, ha_value = replicate 16 0 \<rparr>)]) 3 (replicate 16 9)
   = (att_db 1 [(2, \<lparr> ha_handle = 1, ha_uuid = Uuid16 0x2800, ha_value = [0, 0x18] \<rparr>),
       (2, \<lparr> ha_handle = 3, ha_uuid = Uuid16 0x2B2A, ha_value = replicate 16 9 \<rparr>)], True)"
  using db_hash_blob[of "[(2, \<lparr> ha_handle = 1, ha_uuid = Uuid16 0x2800, ha_value = [0, 0x18] \<rparr>)]"
      "(2, \<lparr> ha_handle = 3, ha_uuid = Uuid16 0x2B2A, ha_value = replicate 16 0 \<rparr>)" "[]" 3 "replicate 16 9" 1]
  by (simp add: attr_ok_def attr_size_def hashed_with_value_def with_value_def)

end
