(* ===== verification/Spec2Isabelle.thy ===== *)
theory Spec2Isabelle
  imports Negotiation Sbc_Encoders Hci_Reassembly Call_Invariant Bap_Sending Csip_Selftest Db_Hash
begin

text \<open>
  Verification of BlueCaster, a Bluetooth audio source for Windows (Rust, \<^verbatim>\<open>app/src\<close>). The program captures
  the PC's sound, encodes it and streams it to headphones, over A2DP (Classic Bluetooth) or LE Audio. The
  core logic is in the crates \<^verbatim>\<open>codec\<close> (codecs, capabilities, the SBC encoder), \<^verbatim>\<open>core\<close> (the stream),
  \<^verbatim>\<open>pipeline\<close> (packing), \<^verbatim>\<open>le-audio\<close> (plans, jitter buffer, service models), \<^verbatim>\<open>bt-host\<close> (driving BTstack) and
  \<^verbatim>\<open>hci-transport\<close>.

  \<^bold>\<open>How the parts interact.\<close> On connection the host discovers the stream endpoints of the sink; each report
  goes to \<^verbatim>\<open>RemoteCaps\<close>. The stream then chooses a codec in the order of the device's profile, picks a capture
  rate, makes a SET_CONFIGURATION and creates the encoder with the parameters both sides agreed on. Encoder
  output is packed into media packets. For LE Audio, the PAC records and ASEs of the devices give a plan (preset,
  ASEs, channels), the encode thread pushes sets of SDUs into a jitter buffer, and the sender takes one set per
  round. The headset's call control goes to the call model. Bytes of the controller come in through the HCI
  reassembler.

  For LE Audio the unicast machine (BAP) drives the devices' ASEs and the controller's CIG through the phases of
  a start and a stop; its Streaming phase starts the sender.

  \<^bold>\<open>Theories.\<close> Paths are under \<^verbatim>\<open>app/src/crates\<close>.
  \<^item> \<open>BC_Prelude\<close>: machine integers, byte order, slices, shared lemmas, the interface \<open>inv_machine\<close>.
  \<^item> \<open>Codec_Kind\<close> (\<^verbatim>\<open>codec/src/lib.rs\<close>, \<^verbatim>\<open>dev.rs\<close>): codec kinds, keys, the Auto order.
  \<^item> \<open>Sbc_Setup\<close>, \<open>Sbc_Abr\<close> (\<^verbatim>\<open>codec/src/sbc/mod.rs\<close>, \<^verbatim>\<open>frame.rs\<close>, \<^verbatim>\<open>abr.rs\<close>): frame setup, bitpools, the
    adaptive bitpool. Shown: the bitpool stays in range, steps down are spaced, the ceiling comes back.
  \<^item> \<open>Sbc_Bit_Alloc\<close> (\<^verbatim>\<open>sbc/bit_alloc.rs\<close>): bit allocation. Shown: the slicing loops end, exactly the bitpool
    is spent.
  \<^item> \<open>Sbc_Packing\<close> (\<^verbatim>\<open>sbc/packing.rs\<close>): quantizer, bit writer, frame layout, CRC. Shown: the wrapping 16-bit
    multiplication computes the specification's formula; the written bits are the layout of the frame.
  \<^item> \<open>Sbc_Analysis\<close> (\<^verbatim>\<open>sbc/analysis.rs\<close>): windows, transforms, the sample history. Shown: the shifting buffer
    refines a plain history of samples; no sum leaves 32 bits.
  \<^item> \<open>Sbc_Frame\<close>, \<open>Sbc_Encoders\<close> (\<^verbatim>\<open>sbc/frame.rs\<close>, \<^verbatim>\<open>mod.rs\<close>, \<^verbatim>\<open>faststream.rs\<close>): a whole frame, and the SBC,
    SBC XQ and FastStream encoders over any sequence of calls. Shown: no call panics or hangs, and what is written is
    one frame of the announced length.
  \<^item> \<open>Caps_Consts\<close>, \<open>Remote_Caps\<close>, \<open>Caps_Discovery\<close>, \<open>Caps_Offered\<close> (\<^verbatim>\<open>codec/src/caps.rs\<close>): capabilities and discovery.
    Shown: the record stays well formed, forced codecs change nothing the sink lists, own elements are understood, and the
    codecs the record lists are those the reports offer (\<open>offered_by\<close>, read from the reports alone).
  \<^item> \<open>Stream_Config\<close>, \<open>Negotiation\<close> (\<^verbatim>\<open>caps.rs\<close>, \<^verbatim>\<open>core/src/stream.rs\<close>): configuration and codec choice.
    Shown: the choice meets its specification, from the discovery reports on, and the encoder stays within what was configured.
  \<^item> \<open>Packetizer\<close> (\<^verbatim>\<open>pipeline/src/packetizer.rs\<close>): media packets. Shown: a refinement of a queue of frames,
    encoder outputs that fit no packet (dropped) and those without a complete frame (held) included.
  \<^item> \<open>Hci_Reassembly\<close> (\<^verbatim>\<open>hci-transport/src/reassembly.rs\<close>): splitting of byte streams. Shown: whole packets come
    out whatever the cuts.
  \<^item> \<open>Rust_Str\<close>, \<open>Call_Model\<close>, \<open>Call_Invariant\<close> (\<^verbatim>\<open>le-audio/src/ccp_model.rs\<close>): the call model. Shown: its
    invariant, the call state diagram, what the bytes of each request do when it succeeds and that a failure changes
    nothing, notifications, list values.
  \<^item> \<open>Sdu_Queue\<close>, \<open>Iso_Sender\<close> (\<^verbatim>\<open>le-audio/src/sdu_queue.rs\<close>, \<^verbatim>\<open>bt-host/src/le/iso_send.rs\<close>): LE sending.
    Shown: first in first out, silence only after an underrun, sequence numbers and content of what is sent.
  \<^item> \<open>Le_Pacs\<close>, \<open>Le_Plan\<close> (\<^verbatim>\<open>le-audio/src/ltv.rs\<close>, \<^verbatim>\<open>defs.rs\<close>, \<^verbatim>\<open>pacs_ascs.rs\<close>, \<^verbatim>\<open>presets.rs\<close>, \<^verbatim>\<open>plan.rs\<close>): LE
    Audio values and plans. Shown: plans are sound and, where one exists, found.
  \<^item> \<open>Bap_Unicast\<close>, \<open>Bap_Invariant\<close>, \<open>Bap_Answers\<close>, \<open>Bap_Timing\<close>, \<open>Bap_History\<close>, \<open>Bap_Sending\<close>
    (\<^verbatim>\<open>bt-host/src/le/bap.rs\<close>, parts of \<^verbatim>\<open>core.rs\<close>, \<^verbatim>\<open>btstack-sys/src/events.rs\<close>, \<^verbatim>\<open>le.rs\<close>): the unicast machine. Shown:
    its state stays consistent, every callback is called once, five step timeouts end every procedure, and sending
    starts only into a complete stream. \<open>Bap_History\<close> follows the commands and events without the machine's own
    counters: what BTstack still owes (\<open>owe_run\<close>), and the CIG and CIS events a stream is made from (\<open>origin\<close>).
  \<^item> \<open>Csip_Crypto\<close>, \<open>Csip_Selftest\<close> (\<^verbatim>\<open>le-audio/src/csip_crypto.rs\<close>): AES-128, AES-CMAC, the key functions of
    coordinated sets; CMAC equals RFC 4493, AES is a permutation, and the self test passes.
  \<^item> \<open>Db_Hash\<close> (\<^verbatim>\<open>le-audio/src/db_hash.rs\<close>): the GATT database hash and its place in the database.

  \<^bold>\<open>Interfaces.\<close> A component whose state only changes by its operations is an \<open>inv_machine\<close> (a start, a step, the
  admitted inputs, an invariant each step keeps); reachability and prefix lemmas are proved once there. It is
  interpreted by the adaptive bitpool (\<open>abr\<close>), discovery (\<open>disc\<close>), the call model (\<open>bearer\<close>), the frame encoder
  (\<open>frames\<close>), the stream encoders (\<open>streams\<close>, \<open>faststreams\<close>) and the unicast machine with its timers (\<open>bap\<close>).
  \<open>framing\<close> states what a length prefix must promise so that a byte stream splits in one way only; the HCI packet
  length is its interpretation (\<open>hci\<close>).

  \<^bold>\<open>How the code is modelled.\<close> Unsigned integers whose width matters are words; the \<^verbatim>\<open>i32\<close> and \<^verbatim>\<open>i16\<close> of
  the signal path are ints with \<open>wrap32\<close> and \<open>wrap16\<close> written out; \<^verbatim>\<open>u64\<close> counters and \<^verbatim>\<open>usize\<close> are nat.
  A panic (an index out of range, a failed assertion) is None, and so is a loop that does not end: \<open>slice_loop\<close> of the bit
  allocation is a \<open>partial_function\<close>, proved to give a result on every input the encoder can have. No fuel is used.
  \<^verbatim>\<open>Result\<close> is a sum with the error on the left. Mutable structs are records passed and returned. Calls into BTstack, timers
  and callbacks are actions a handler returns in order; what the outside answers is an argument of each event, so theorems
  hold whatever it is. Callbacks are numbers. The mutual recursion of the unicast machine's enter, advance and
  fail is the loop \<open>run_todo\<close>, with a measure on the phases.

  \<^bold>\<open>Not modelled.\<close>
  \<^item> Log lines, descriptions for people, diagnostics getters: no effect on what the program does.
  \<^item> \<^verbatim>\<open>codec\<close>: the encoder objects of the C libraries (LDAC, LHDC, AAC, Opus, aptX), whose code is not in the
    repository; \<^verbatim>\<open>aptx-adaptive\<close>, which is signal processing of its own.
  \<^item> \<^verbatim>\<open>bt-host\<close>: the BTstack run loop, chip bring-up, GATT procedures and the read of a device's services, whose steps
    are callbacks of a C library; the results they give are inputs here.
  \<^item> \<^verbatim>\<open>core\<close>, \<^verbatim>\<open>ipc\<close>, \<^verbatim>\<open>audio-capture\<close>, \<^verbatim>\<open>pipeline\<close>'s threads, driver and user interface: threads, files, Windows
    calls and floating point sample conversion.
\<close>

end
